(* ===== verification/Prelude.thy ===== *)
theory Prelude
  imports Main
begin

text \<open>
  Shared vocabulary of the development: C strings and the \<^verbatim>\<open>libc\<close> routines the sources call
  (\<^verbatim>\<open>strchr\<close>, \<^verbatim>\<open>strrchr\<close>, \<^verbatim>\<open>atol\<close>, the \<^verbatim>\<open>%ld\<close> conversion of \<^verbatim>\<open>sprintf\<close>),
  the rule collections of the components, and generic lemmas on lists.

  A C string is the list of its characters before the terminating NUL.  A buffer that was filled
  from outside (a line from the wire, an XDR string) may hold NUL bytes; the C string the code then
  sees is \<open>cstr\<close> of the buffer.
\<close>

named_theorems chan_simps \<open>views of the channel operations\<close>
named_theorems sess_simps \<open>branches of the session dispatcher\<close>
named_theorems xdr_simps \<open>XDR cursor steps\<close>
named_theorems nfs_simps \<open>NFS procedure steps\<close>

section \<open>Characters and C strings\<close>

abbreviation NUL :: char where "NUL \<equiv> CHR 0x00"
abbreviation TAB :: char where "TAB \<equiv> CHR 0x09"
abbreviation LF :: char where "LF \<equiv> CHR 0x0A"
abbreviation CR :: char where "CR \<equiv> CHR 0x0D"

definition cstr :: "char list \<Rightarrow> string" where
  "cstr buf = takeWhile (\<lambda>c. c \<noteq> NUL) buf"

definition is_cstr :: "char list \<Rightarrow> bool" where
  "is_cstr s \<longleftrightarrow> NUL \<notin> set s"

text \<open>\<open>char_at s i\<close> is \<^verbatim>\<open>s[i]\<close> for an index up to and including the terminator.\<close>

definition char_at :: "string \<Rightarrow> nat \<Rightarrow> char" where
  "char_at s i = (if i < length s then s ! i else NUL)"

text \<open>\<open>cut c s\<close> is \<^verbatim>\<open>p = strchr(s, c); *p = 0\<close>: the text before the first \<open>c\<close> and the text
  after it, \<open>None\<close> where \<^verbatim>\<open>strchr\<close> returns NULL.  \<open>rcut\<close> is the same with \<^verbatim>\<open>strrchr\<close>.\<close>

definition cut :: "char \<Rightarrow> string \<Rightarrow> (string \<times> string) option" where
  "cut c s = (if c \<in> set s
     then Some (takeWhile (\<lambda>x. x \<noteq> c) s, tl (dropWhile (\<lambda>x. x \<noteq> c) s)) else None)"

definition rcut :: "char \<Rightarrow> string \<Rightarrow> (string \<times> string) option" where
  "rcut c s = (if c \<in> set s
     then Some (rev (tl (dropWhile (\<lambda>x. x \<noteq> c) (rev s))), rev (takeWhile (\<lambda>x. x \<noteq> c) (rev s)))
     else None)"

lemma cstr_id [simp]: "is_cstr s \<Longrightarrow> cstr s = s"
  by (auto simp: cstr_def is_cstr_def takeWhile_eq_all_conv)

lemma is_cstr_cstr [simp]: "is_cstr (cstr buf)"
  by (auto simp: cstr_def is_cstr_def dest: set_takeWhileD)

lemma length_cstr_le: "length (cstr buf) \<le> length buf"
  by (simp add: cstr_def length_takeWhile_le)

lemma is_cstr_Nil [simp]: "is_cstr []"
  by (simp add: is_cstr_def)

lemma is_cstr_Cons [simp]: "is_cstr (c # s) \<longleftrightarrow> c \<noteq> NUL \<and> is_cstr s"
  by (auto simp: is_cstr_def)

lemma is_cstr_append [simp]: "is_cstr (s @ t) \<longleftrightarrow> is_cstr s \<and> is_cstr t"
  by (auto simp: is_cstr_def)

lemma is_cstr_take: "is_cstr s \<Longrightarrow> is_cstr (take n s)"
  by (auto simp: is_cstr_def dest: in_set_takeD)

lemma cut_Some_iff: "cut c s = Some (a, b) \<longleftrightarrow> s = a @ c # b \<and> c \<notin> set a"
proof
  assume h: "cut c s = Some (a, b)"
  then have c: "c \<in> set s" and a: "a = takeWhile (\<lambda>x. x \<noteq> c) s"
    and b: "b = tl (dropWhile (\<lambda>x. x \<noteq> c) s)"
    by (auto simp: cut_def split: if_splits)
  from c have ne: "dropWhile (\<lambda>x. x \<noteq> c) s \<noteq> []"
    by simp
  then have "hd (dropWhile (\<lambda>x. x \<noteq> c) s) = c"
    using hd_dropWhile by blast
  with ne b have "dropWhile (\<lambda>x. x \<noteq> c) s = c # b"
    by (metis list.collapse)
  then have "s = a @ c # b"
    using a by (metis takeWhile_dropWhile_id)
  moreover have "c \<notin> set a"
    using a by (auto dest: set_takeWhileD)
  ultimately show "s = a @ c # b \<and> c \<notin> set a" ..
next
  assume h: "s = a @ c # b \<and> c \<notin> set a"
  then have "takeWhile (\<lambda>x. x \<noteq> c) s = a" "dropWhile (\<lambda>x. x \<noteq> c) s = c # b"
    by (auto simp: takeWhile_append dropWhile_append)
  with h show "cut c s = Some (a, b)"
    by (simp add: cut_def)
qed

lemma cut_None_iff: "cut c s = None \<longleftrightarrow> c \<notin> set s"
  by (simp add: cut_def)

lemma cut_append [simp]: "c \<notin> set a \<Longrightarrow> cut c (a @ c # b) = Some (a, b)"
  by (simp add: cut_Some_iff)

lemma rcut_Some_iff: "rcut c s = Some (a, b) \<longleftrightarrow> s = a @ c # b \<and> c \<notin> set b"
proof -
  have "rcut c s = map_option (\<lambda>(x, y). (rev y, rev x)) (cut c (rev s))"
    by (simp add: rcut_def cut_def)
  then have "rcut c s = Some (a, b) \<longleftrightarrow> cut c (rev s) = Some (rev b, rev a)"
    by (auto simp: map_option_case split: option.splits)
  also have "\<dots> \<longleftrightarrow> rev s = rev b @ c # rev a \<and> c \<notin> set b"
    by (simp add: cut_Some_iff)
  also have "rev s = rev b @ c # rev a \<longleftrightarrow> s = a @ c # b"
    by (metis append.assoc append_Cons append_Nil rev.simps(2) rev_append rev_rev_ident)
  finally show ?thesis .
qed

lemma rcut_None_iff: "rcut c s = None \<longleftrightarrow> c \<notin> set s"
  by (simp add: rcut_def)

section \<open>Decimal numbers: \<^verbatim>\<open>%ld\<close> and \<^verbatim>\<open>atol\<close>\<close>

definition is_digit :: "char \<Rightarrow> bool" where
  "is_digit c \<longleftrightarrow> 48 \<le> (of_char c :: nat) \<and> (of_char c :: nat) \<le> 57"

definition digit_val :: "char \<Rightarrow> nat" where
  "digit_val c = of_char c - 48"

definition digit_char :: "nat \<Rightarrow> char" where
  "digit_char d = char_of (48 + d)"

fun dec :: "nat \<Rightarrow> string" where
  "dec n = (if n < 10 then [digit_char n] else dec (n div 10) @ [digit_char (n mod 10)])"

declare dec.simps [simp del]

definition ld :: "int \<Rightarrow> string" where
  "ld n = (if n < 0 then CHR ''-'' # dec (nat (- n)) else dec (nat n))"

definition is_space :: "char \<Rightarrow> bool" where
  "is_space c \<longleftrightarrow> c = CHR '' '' \<or> (9 \<le> (of_char c :: nat) \<and> (of_char c :: nat) \<le> 13)"

fun num_acc :: "int \<Rightarrow> string \<Rightarrow> int" where
  "num_acc a [] = a"
| "num_acc a (c # cs) = (if is_digit c then num_acc (10 * a + int (digit_val c)) cs else a)"

text \<open>\<^verbatim>\<open>atol\<close> is \<^verbatim>\<open>strtol(s, NULL, 10)\<close>; out of range the value saturates at the bounds of a 64-bit
  \<^verbatim>\<open>long\<close>.\<close>

definition long_sat :: "int \<Rightarrow> int" where
  "long_sat x = max (- (2 ^ 63)) (min (2 ^ 63 - 1) x)"

definition atol :: "string \<Rightarrow> int" where
  "atol s = (case dropWhile is_space s of
      [] \<Rightarrow> 0
    | c # cs \<Rightarrow> long_sat (if c = CHR ''-'' then - num_acc 0 cs
                          else if c = CHR ''+'' then num_acc 0 cs
                          else num_acc 0 (c # cs)))"

lemma of_char_digit_char: "d < 10 \<Longrightarrow> (of_char (digit_char d) :: nat) = 48 + d"
  by (simp add: digit_char_def of_char_of)

lemma is_digit_digit_char [simp]: "d < 10 \<Longrightarrow> is_digit (digit_char d)"
  by (simp add: is_digit_def of_char_digit_char)

lemma digit_val_digit_char [simp]: "d < 10 \<Longrightarrow> digit_val (digit_char d) = d"
  by (simp add: digit_val_def of_char_digit_char)

lemma dec_nonempty [simp]: "dec n \<noteq> []"
  by (subst dec.simps) simp

lemma dec_digits: "c \<in> set (dec n) \<Longrightarrow> is_digit c"
proof (induction n rule: dec.induct)
  case (1 n)
  then show ?case
    by (cases "n < 10") (auto simp: dec.simps [of n])
qed

lemma not_digit [simp]:
  "\<not> is_digit LF" "\<not> is_digit CR" "\<not> is_digit NUL" "\<not> is_digit (CHR '' '')"
  "\<not> is_digit (CHR ''-'')" "\<not> is_digit (CHR ''+'')" "\<not> is_digit TAB" "\<not> is_digit (CHR ''.'')"
  "\<not> is_digit (CHR ''/'')"
  by (simp_all add: is_digit_def)

lemma dec_not_in [simp]: "\<not> is_digit c \<Longrightarrow> c \<notin> set (dec n)"
  using dec_digits by blast

lemma is_cstr_dec [simp]: "is_cstr (dec n)"
  by (simp add: is_cstr_def)

lemma is_cstr_ld [simp]: "is_cstr (ld n)"
  by (simp add: ld_def)

lemma num_acc_append:
  "(\<And>c. c \<in> set ds \<Longrightarrow> is_digit c) \<Longrightarrow> num_acc a (ds @ r) = num_acc (num_acc a ds) r"
  by (induction ds arbitrary: a) auto

lemma num_acc_dec: "num_acc 0 (dec n) = int n"
proof (induction n rule: dec.induct)
  case (1 n)
  show ?case
  proof (cases "n < 10")
    case True
    then show ?thesis by (simp add: dec.simps [of n])
  next
    case False
    with "1.IH" have IH: "num_acc 0 (dec (n div 10)) = int (n div 10)" by simp
    have "num_acc 0 (dec n) = 10 * int (n div 10) + int (n mod 10)"
      using False by (simp add: dec.simps [of n] num_acc_append dec_digits IH)
    then show ?thesis by (metis mult_div_mod_eq of_nat_add of_nat_mult of_nat_numeral)
  qed
qed

lemma is_digit_not_space: "is_digit c \<Longrightarrow> \<not> is_space c"
  by (auto simp: is_digit_def is_space_def)

lemma atol_digits:
  assumes "ds \<noteq> []" and "\<And>c. c \<in> set ds \<Longrightarrow> is_digit c"
  shows "atol ds = long_sat (num_acc 0 ds)"
proof -
  from assms(1) obtain c cs where ds: "ds = c # cs" by (cases ds) auto
  with assms(2) have c: "is_digit c" by simp
  then have "\<not> is_space c" "c \<noteq> CHR ''-''" "c \<noteq> CHR ''+''"
    using is_digit_not_space by auto
  with ds show ?thesis by (simp add: atol_def)
qed

lemma atol_dec: "int n < 2 ^ 63 \<Longrightarrow> atol (dec n) = int n"
  using atol_digits [of "dec n"] by (simp add: dec_digits num_acc_dec long_sat_def)

lemma atol_ld_nonneg: "0 \<le> n \<Longrightarrow> n < 2 ^ 63 \<Longrightarrow> atol (ld n) = n"
  by (simp add: ld_def atol_dec)

lemma atol_Nil [simp]: "atol [] = 0"
  by (simp add: atol_def)

section \<open>Lists\<close>

lemma takeWhile_neq_append [simp]:
  "x \<notin> set l \<Longrightarrow> takeWhile (\<lambda>c. c \<noteq> x) (l @ x # r) = l"
  by (induction l) auto

lemma dropWhile_neq_append [simp]:
  "x \<notin> set l \<Longrightarrow> dropWhile (\<lambda>c. c \<noteq> x) (l @ x # r) = x # r"
  by (induction l) auto

lemma concat_map_chunks_length:
  "(\<And>x. x \<in> set xs \<Longrightarrow> length (f x) \<le> k) \<Longrightarrow> length (concat (map f xs)) \<le> k * length xs"
proof (induction xs)
  case (Cons x xs)
  then have "length (f x) \<le> k" "length (concat (map f xs)) \<le> k * length xs" by auto
  then show ?case by simp
qed simp

lemma distinct_map_fst_update:
  assumes "distinct (map fst xs)" and "i < length xs" and "fst (xs ! i) = k"
  shows "distinct (map fst (xs[i := (k, v)]))"
proof -
  have "map fst (xs[i := (k, v)]) = (map fst xs)[i := map fst xs ! i]"
    using assms(2,3) by (simp add: map_update)
  also have "\<dots> = map fst xs" by (rule list_update_id)
  finally show ?thesis using assms(1) by simp
qed

end
