(* ===== verification/Gcdsp.thy ===== *)
theory Gcdsp
  imports Prelude
begin

text \<open>
  \<^verbatim>\<open>include/gcdsp.h\<close> and \<^verbatim>\<open>common/util.c\<close>: the protocol constants and the bounded string helpers.
  The preprocessor symbols that select a build are the fields of the record \<open>build\<close>, so that one
  model covers the builds; a constant that depends on the build takes it as an argument.  A C
  \<^verbatim>\<open>long\<close> that counts bytes is an \<open>int\<close>: every such value in the sources is bounded by a buffer
  sz or by a file length.
\<close>

section \<open>Builds and protocol constants\<close>

record build =
  GCDS_DOS :: bool
  GCDS_WIN32 :: bool
  GCDS_NEXT :: bool
  GCDS_HAS_LIVE :: bool
  GCDS_HAS_IX :: bool

definition posix_build :: build where
  "posix_build = \<lparr>GCDS_DOS = False, GCDS_WIN32 = False, GCDS_NEXT = False,
                  GCDS_HAS_LIVE = True, GCDS_HAS_IX = True\<rparr>"

definition dos_build :: build where
  "dos_build = \<lparr>GCDS_DOS = True, GCDS_WIN32 = False, GCDS_NEXT = False,
                GCDS_HAS_LIVE = False, GCDS_HAS_IX = False\<rparr>"

abbreviation GCDSP_LINE_MAX :: int where "GCDSP_LINE_MAX \<equiv> 1024"
abbreviation GCDSP_SER_FRAME :: int where "GCDSP_SER_FRAME \<equiv> 256"
abbreviation GCDSP_ENVN_MAX :: int where "GCDSP_ENVN_MAX \<equiv> 64"
abbreviation GCDSP_ENVV_MAX :: int where "GCDSP_ENVV_MAX \<equiv> 192"
abbreviation GCDSP_TOK_MAX :: int where "GCDSP_TOK_MAX \<equiv> 255"
abbreviation GCDSP_JOB_MAX :: int where "GCDSP_JOB_MAX \<equiv> 32767"

definition GCDSP_FRAME_MAX :: "build \<Rightarrow> int" where
  "GCDSP_FRAME_MAX B = (if GCDS_DOS B then 1024 else 4096)"

definition GCDSP_ENV_MAX :: "build \<Rightarrow> int" where
  "GCDSP_ENV_MAX B = (if GCDS_DOS B then 16 else 32)"

lemma FRAME_MAX_bounds: "1024 \<le> GCDSP_FRAME_MAX B" "GCDSP_FRAME_MAX B \<le> 4096"
  by (simp_all add: GCDSP_FRAME_MAX_def)

section \<open>Bounded string helpers\<close>

text \<open>Both return the new content of \<^verbatim>\<open>dst\<close> and the length of the string they tried to create.\<close>

definition gcds_strlcpy :: "string \<Rightarrow> string \<Rightarrow> int \<Rightarrow> string \<times> int" where
  "gcds_strlcpy dst src sz =
     (let slen = int (length src) in
      (if 0 < sz then take (nat (if slen > sz - 1 then sz - 1 else slen)) src else dst, slen))"

definition gcds_strlcat :: "string \<Rightarrow> string \<Rightarrow> int \<Rightarrow> string \<times> int" where
  "gcds_strlcat dst src sz =
     (let dlen = int (length dst); slen = int (length src) in
      (if dlen < sz - 1
       then dst @ take (nat (if slen > sz - 1 - dlen then sz - 1 - dlen else slen)) src
       else dst, dlen + slen))"

fun gcds_starts :: "string \<Rightarrow> string \<Rightarrow> bool" where
  "gcds_starts s [] = True"
| "gcds_starts [] (p # ps) = False"
| "gcds_starts (c # s) (p # ps) = (c = p \<and> gcds_starts s ps)"

text \<open>The two results of the helpers, used as expressions.\<close>

abbreviation strlcpy :: "string \<Rightarrow> int \<Rightarrow> string" where
  "strlcpy src sz \<equiv> fst (gcds_strlcpy [] src sz)"

abbreviation strlcat :: "string \<Rightarrow> string \<Rightarrow> int \<Rightarrow> string" where
  "strlcat dst src sz \<equiv> fst (gcds_strlcat dst src sz)"

lemma gcds_strlcpy_pos: "0 < sz \<Longrightarrow> fst (gcds_strlcpy d src sz) = take (nat (sz - 1)) src"
  by (auto simp: gcds_strlcpy_def Let_def nat_le_iff)

lemma gcds_strlcpy_fits:
  "int (length src) < sz \<Longrightarrow> fst (gcds_strlcpy d src sz) = src"
  by (auto simp: gcds_strlcpy_def Let_def)

lemma gcds_strlcpy_len [simp]: "snd (gcds_strlcpy d src sz) = int (length src)"
  by (simp add: gcds_strlcpy_def Let_def)

lemma gcds_strlcat_len [simp]: "snd (gcds_strlcat d src sz) = int (length d) + int (length src)"
  by (simp add: gcds_strlcat_def Let_def)

lemma gcds_strlcat_fits:
  "int (length d) + int (length src) < sz \<Longrightarrow> fst (gcds_strlcat d src sz) = d @ src"
  by (cases src) (auto simp: gcds_strlcat_def Let_def)

text \<open>Concatenation truncates: what is left in the buffer is the first \<open>sz - 1\<close> characters.\<close>

lemma gcds_strlcat_take:
  assumes "int (length d) < sz"
  shows "fst (gcds_strlcat d src sz) = take (nat (sz - 1)) (d @ src)"
proof -
  have "nat (sz - 1) - length d = nat (sz - 1 - int (length d))"
    by (simp add: nat_diff_distrib')
  then show ?thesis using assms by (auto simp: gcds_strlcat_def Let_def)
qed

lemma gcds_strlcat_bound:
  "int (length d) < sz \<Longrightarrow> int (length (fst (gcds_strlcat d src sz))) < sz"
  by (auto simp: gcds_strlcat_take)

lemma take_take_append: "take n (take n x @ y) = take n (x @ y)"
  by (cases "n \<le> length x") simp_all

text \<open>Two appends are one append of the concatenation.\<close>

lemma gcds_strlcat_append:
  assumes "int (length d) < sz"
  shows "strlcat (strlcat d a sz) b sz = strlcat d (a @ b) sz"
proof -
  have "int (length (strlcat d a sz)) < sz" using assms by (rule gcds_strlcat_bound)
  then show ?thesis
    using assms by (simp only: gcds_strlcat_take take_take_append append.assoc)
qed

lemma gcds_strlcat_cstr: "is_cstr d \<Longrightarrow> is_cstr src \<Longrightarrow> is_cstr (fst (gcds_strlcat d src sz))"
  by (auto simp: gcds_strlcat_def Let_def is_cstr_take)

lemma gcds_strlcpy_bound: "0 < sz \<Longrightarrow> int (length (fst (gcds_strlcpy d src sz))) < sz"
  by (auto simp: gcds_strlcpy_pos)

lemma gcds_strlcpy_cstr: "0 < sz \<Longrightarrow> is_cstr src \<Longrightarrow> is_cstr (fst (gcds_strlcpy d src sz))"
  by (simp add: gcds_strlcpy_pos is_cstr_take)

lemma gcds_starts_iff: "gcds_starts s p \<longleftrightarrow> (\<exists>r. s = p @ r)"
  by (induction s p rule: gcds_starts.induct) auto

text \<open>
  The bounded copy and the bounded append always leave a string shorter than the buffer, return
  the length of the untruncated result, and the return value reaches the buffer size exactly when the
  stored string is not the whole one.
\<close>

lemma strl_truncation:
  assumes "0 < sz" and "int (length d) < sz"
  shows "int (length (fst (gcds_strlcpy x s sz))) < sz
    \<and> int (length (fst (gcds_strlcat d t sz))) < sz
    \<and> (snd (gcds_strlcpy x s sz) \<ge> sz \<longleftrightarrow> fst (gcds_strlcpy x s sz) \<noteq> s)
    \<and> (snd (gcds_strlcat d t sz) \<ge> sz \<longleftrightarrow> fst (gcds_strlcat d t sz) \<noteq> d @ t)"
  using assms
  by (auto simp: gcds_strlcpy_pos gcds_strlcat_take)

end
