(* ===== verification/Chan.thy ===== *)
theory Chan
  imports Gcdsp
begin

text \<open>
  \<^verbatim>\<open>common/chan.c\<close> over the TCP and serial backends (\<^verbatim>\<open>common/net.h\<close>, \<^verbatim>\<open>common/ser.h\<close>).

  A backend device is a byte stream of the operating system with short transfers.  What the coming
  receive calls see is the list \<open>rx\<close> of segments: a call returns at most one segment, and at most the
  bytes asked for; an empty segment, or no segment, is the return value 0 or -1 (end of file or
  error), which then stays.  What the coming send calls accept is the list \<open>wlim\<close>: a positive number is the most the
  call takes, anything else is an error, and past its end the device takes everything.  \<open>tx\<close> is what
  it took so far.  Every delivery schedule of a stream is one value of these lists, so a statement for
  all devices is a statement for all schedules.

  The interface the layers above rely on is the locale \<open>byte_channel\<close>; \<open>ch\<close> interprets it on the
  channel operations.
\<close>

section \<open>Devices\<close>

record dev =
  rx :: "char list list"
  tx :: "char list"
  wlim :: "int list"

definition dev_recv :: "dev \<Rightarrow> nat \<Rightarrow> char list \<times> dev" where
  "dev_recv d n = (case rx d of
      [] \<Rightarrow> ([], d)
    | seg # segs \<Rightarrow>
        if seg = [] then ([], d)
        else if length seg \<le> n then (seg, d\<lparr>rx := segs\<rparr>)
        else (take n seg, d\<lparr>rx := drop n seg # segs\<rparr>))"

definition dev_send :: "dev \<Rightarrow> char list \<Rightarrow> int \<times> dev" where
  "dev_send d bs = (case wlim d of
      [] \<Rightarrow> (int (length bs), d\<lparr>tx := tx d @ bs\<rparr>)
    | w # ws \<Rightarrow>
        if w \<le> 0 then (w, d\<lparr>wlim := ws\<rparr>)
        else (min w (int (length bs)), d\<lparr>wlim := ws, tx := tx d @ take (nat w) bs\<rparr>))"

definition dev_in :: "dev \<Rightarrow> char list" where
  "dev_in d = concat (takeWhile (\<lambda>seg. seg \<noteq> []) (rx d))"

definition dev_ok :: "dev \<Rightarrow> bool" where
  "dev_ok d \<longleftrightarrow> (\<forall>w \<in> set (wlim d). 0 < w)"

text \<open>The two backends: one \<^verbatim>\<open>recv\<close>/\<^verbatim>\<open>send\<close> (\<^verbatim>\<open>read\<close>/\<^verbatim>\<open>write\<close>) call each; \<open>None\<close> is the bad handle.\<close>

definition net_recv :: "dev option \<Rightarrow> nat \<Rightarrow> char list \<times> dev option" where
  "net_recv s n = (case s of None \<Rightarrow> ([], None) | Some d \<Rightarrow> apsnd Some (dev_recv d n))"

definition net_send :: "dev option \<Rightarrow> char list \<Rightarrow> int \<times> dev option" where
  "net_send s bs = (case s of None \<Rightarrow> (-1, None) | Some d \<Rightarrow> apsnd Some (dev_send d bs))"

definition ser_read :: "dev option \<Rightarrow> nat \<Rightarrow> char list \<times> dev option" where
  "ser_read f n = (case f of None \<Rightarrow> ([], None) | Some d \<Rightarrow> apsnd Some (dev_recv d n))"

definition ser_write :: "dev option \<Rightarrow> char list \<Rightarrow> int \<times> dev option" where
  "ser_write f bs = (case f of None \<Rightarrow> (-1, None) | Some d \<Rightarrow> apsnd Some (dev_send d bs))"

section \<open>Channels\<close>

datatype chan_kind = GCDS_CHAN_TCP | GCDS_CHAN_SER

record gcds_chan =
  kind :: chan_kind
  sock :: "dev option"
  ser :: "dev option"

definition chan_tcp :: "dev \<Rightarrow> gcds_chan" where
  "chan_tcp s = \<lparr>kind = GCDS_CHAN_TCP, sock = Some s, ser = None\<rparr>"

definition chan_ser :: "dev \<Rightarrow> gcds_chan" where
  "chan_ser f = \<lparr>kind = GCDS_CHAN_SER, sock = None, ser = Some f\<rparr>"

text \<open>The call inside each transfer loop, dispatched on the kind.\<close>

definition chan_recv :: "gcds_chan \<Rightarrow> nat \<Rightarrow> char list \<times> gcds_chan" where
  "chan_recv c n =
     (if kind c = GCDS_CHAN_TCP
      then (case net_recv (sock c) n of (bs, s') \<Rightarrow> (bs, c\<lparr>sock := s'\<rparr>))
      else (case ser_read (ser c) n of (bs, f') \<Rightarrow> (bs, c\<lparr>ser := f'\<rparr>)))"

definition chan_send :: "gcds_chan \<Rightarrow> char list \<Rightarrow> int \<times> gcds_chan" where
  "chan_send c bs =
     (if kind c = GCDS_CHAN_TCP
      then (case net_send (sock c) bs of (r, s') \<Rightarrow> (r, c\<lparr>sock := s'\<rparr>))
      else (case ser_write (ser c) bs of (r, f') \<Rightarrow> (r, c\<lparr>ser := f'\<rparr>)))"

lemma dev_recv_le: "length (fst (dev_recv d n)) \<le> n"
  by (auto simp: dev_recv_def split: list.splits)

lemma chan_recv_le: "chan_recv c n = (bs, c') \<Longrightarrow> length bs \<le> n"
  using dev_recv_le
  by (auto simp: chan_recv_def net_recv_def ser_read_def apsnd_def map_prod_def
      split: option.splits if_splits prod.splits)
     (metis fst_conv)+

text \<open>Read exactly \<open>n\<close> bytes: \<open>None\<close> is the return value -1.\<close>

function chan_read_n :: "gcds_chan \<Rightarrow> nat \<Rightarrow> char list option \<times> gcds_chan" where
  "chan_read_n c n =
     (if n = 0 then (Some [], c)
      else (case chan_recv c n of (bs, c') \<Rightarrow>
        if bs = [] then (None, c')
        else (case chan_read_n c' (n - length bs) of
            (None, c'') \<Rightarrow> (None, c'')
          | (Some bs', c'') \<Rightarrow> (Some (bs @ bs'), c''))))"
  by pat_completeness auto
termination
  by (relation "measure snd") auto

declare chan_read_n.simps [simp del]

lemma chan_send_le: "chan_send c bs = (r, c') \<Longrightarrow> r \<le> int (length bs)"
  by (auto simp: chan_send_def net_send_def ser_write_def dev_send_def
      split: option.splits if_splits prod.splits list.splits)

text \<open>Write all bytes: \<open>False\<close> is the return value -1.\<close>

function chan_write_all :: "gcds_chan \<Rightarrow> char list \<Rightarrow> bool \<times> gcds_chan" where
  "chan_write_all c bs =
     (if bs = [] then (True, c)
      else (case chan_send c bs of (r, c') \<Rightarrow>
        if r \<le> 0 then (False, c')
        else chan_write_all c' (drop (nat r) bs)))"
  by pat_completeness auto
termination
  by (relation "measure (length \<circ> snd)") auto

declare chan_write_all.simps [simp del]

definition chan_chunk :: "gcds_chan \<Rightarrow> int" where
  "chan_chunk c = (if kind c = GCDS_CHAN_SER then GCDSP_SER_FRAME else 1024)"

text \<open>Closing hands the device back to the operating system: it is the second result.\<close>

definition chan_close :: "gcds_chan \<Rightarrow> gcds_chan \<times> dev option" where
  "chan_close c =
     (if kind c = GCDS_CHAN_TCP then (c\<lparr>sock := None\<rparr>, sock c)
      else (c\<lparr>ser := None\<rparr>, ser c))"

section \<open>Views of a channel\<close>

definition chan_dev :: "gcds_chan \<Rightarrow> dev option" where
  "chan_dev c = (if kind c = GCDS_CHAN_TCP then sock c else ser c)"

text \<open>The bytes the device will still deliver, the bytes it took, and that it takes every write.\<close>

definition chan_in :: "gcds_chan \<Rightarrow> char list" where
  "chan_in c = (case chan_dev c of None \<Rightarrow> [] | Some d \<Rightarrow> dev_in d)"

definition chan_out :: "gcds_chan \<Rightarrow> char list" where
  "chan_out c = (case chan_dev c of None \<Rightarrow> [] | Some d \<Rightarrow> tx d)"

definition chan_ok :: "gcds_chan \<Rightarrow> bool" where
  "chan_ok c \<longleftrightarrow> (case chan_dev c of None \<Rightarrow> False | Some d \<Rightarrow> dev_ok d)"

lemma dev_in_simps:
  "rx d = [] \<Longrightarrow> dev_in d = []"
  "rx d = [] # segs \<Longrightarrow> dev_in d = []"
  "rx d = seg # segs \<Longrightarrow> seg \<noteq> [] \<Longrightarrow> dev_in d = seg @ dev_in (d\<lparr>rx := segs\<rparr>)"
  by (simp_all add: dev_in_def)

lemma dev_recv_view:
  assumes "0 < n"
  shows "dev_in d = fst (dev_recv d n) @ dev_in (snd (dev_recv d n))"
    and "fst (dev_recv d n) = [] \<longleftrightarrow> dev_in d = []"
    and "tx (snd (dev_recv d n)) = tx d"
    and "wlim (snd (dev_recv d n)) = wlim d"
  using assms by (cases "rx d"; auto simp: dev_recv_def dev_in_def)+

lemma dev_send_view:
  assumes "dev_send d bs = (r, d')"
  shows "rx d' = rx d"
    and "\<exists>k. tx d' = tx d @ take k bs"
    and "0 < r \<Longrightarrow> tx d' = tx d @ take (nat r) bs"
    and "dev_ok d \<Longrightarrow> bs \<noteq> [] \<Longrightarrow> 0 < r"
    and "dev_ok d \<Longrightarrow> dev_ok d'"
proof -
  have "\<exists>k. bs = take k bs" by (rule exI [of _ "length bs"]) simp
  with assms show "\<exists>k. tx d' = tx d @ take k bs"
    by (cases "wlim d") (auto simp: dev_send_def split: if_splits intro: exI [of _ 0])
qed (use assms in \<open>cases "wlim d"; auto simp: dev_send_def dev_ok_def min_def split: if_splits\<close>)+

text \<open>The write loop on a bare descriptor, as the daemon feeds a child and the client its standard
  output: \<open>False\<close> when a write fails.\<close>

lemma dev_send_le: "dev_send d bs = (r, d') \<Longrightarrow> r \<le> int (length bs)"
  by (auto simp: dev_send_def split: list.splits if_splits)

function dev_write_all :: "dev \<Rightarrow> char list \<Rightarrow> bool \<times> dev" where
  "dev_write_all d bs =
     (if bs = [] then (True, d)
      else (case dev_send d bs of (w, d') \<Rightarrow>
        if w \<le> 0 then (False, d') else dev_write_all d' (drop (nat w) bs)))"
  by pat_completeness auto
termination
  by (relation "measure (length \<circ> snd)") auto

declare dev_write_all.simps [simp del]

lemma dev_write_all_ok:
  assumes "dev_ok d"
  shows "fst (dev_write_all d bs) \<and> tx (snd (dev_write_all d bs)) = tx d @ bs \<and> dev_ok (snd (dev_write_all d bs))
    \<and> rx (snd (dev_write_all d bs)) = rx d"
  using assms
proof (induction d bs rule: dev_write_all.induct)
  case (1 d bs)
  show ?case
  proof (cases "bs = []")
    case True
    with "1.prems" show ?thesis by (simp add: dev_write_all.simps)
  next
    case False
    obtain r d1 where sd: "dev_send d bs = (r, d1)" by (metis surj_pair)
    note v = dev_send_view [OF sd]
    from v(4) [OF "1.prems" False] have r: "\<not> r \<le> 0" by simp
    from "1.IH" [OF False sd [symmetric] r v(5) [OF "1.prems"]] v(1) v(3) r False sd show ?thesis
      by (simp add: dev_write_all.simps [of d bs])
  qed
qed

text \<open>A call on the channel is a call on its device.\<close>

lemma chan_recv_dev:
  "chan_recv c n = (case chan_dev c of None \<Rightarrow> ([], c)
     | Some d \<Rightarrow> (fst (dev_recv d n),
         if kind c = GCDS_CHAN_TCP then c\<lparr>sock := Some (snd (dev_recv d n))\<rparr>
         else c\<lparr>ser := Some (snd (dev_recv d n))\<rparr>))"
  by (auto simp: chan_recv_def net_recv_def ser_read_def chan_dev_def apsnd_def map_prod_def
      split: option.splits prod.splits)

lemma chan_send_dev:
  "chan_send c bs = (case chan_dev c of None \<Rightarrow> (-1, c)
     | Some d \<Rightarrow> (fst (dev_send d bs),
         if kind c = GCDS_CHAN_TCP then c\<lparr>sock := Some (snd (dev_send d bs))\<rparr>
         else c\<lparr>ser := Some (snd (dev_send d bs))\<rparr>))"
  by (auto simp: chan_send_def net_send_def ser_write_def chan_dev_def apsnd_def map_prod_def
      split: option.splits prod.splits)

lemma chan_view_update [simp]:
  "kind c = GCDS_CHAN_TCP \<Longrightarrow> chan_dev (c\<lparr>sock := x\<rparr>) = x"
  "kind c \<noteq> GCDS_CHAN_TCP \<Longrightarrow> chan_dev (c\<lparr>ser := x\<rparr>) = x"
  by (simp_all add: chan_dev_def)

lemma chan_recv_view:
  assumes "chan_recv c n = (bs, c')" and "0 < n"
  shows "chan_in c = bs @ chan_in c'" and "bs = [] \<longleftrightarrow> chan_in c = []"
    and "chan_out c' = chan_out c" and "chan_ok c' = chan_ok c" and "kind c' = kind c"
proof -
  have v: "chan_in c = bs @ chan_in c' \<and> (bs = [] \<longleftrightarrow> chan_in c = []) \<and> chan_out c' = chan_out c
    \<and> chan_ok c' = chan_ok c \<and> kind c' = kind c"
  proof (cases "chan_dev c")
    case None
    with assms show ?thesis by (simp add: chan_recv_dev chan_in_def)
  next
    case (Some d)
    note r = dev_recv_view [OF assms(2), of d]
    from Some assms have c': "chan_dev c' = Some (snd (dev_recv d n))"
      and bs: "bs = fst (dev_recv d n)" and k: "kind c' = kind c"
      by (auto simp: chan_recv_dev split: if_splits)
    from Some c' bs k r(2-4) show ?thesis
      by (simp add: chan_in_def chan_out_def chan_ok_def dev_ok_def r(1) [symmetric])
  qed
  show "chan_in c = bs @ chan_in c'" "bs = [] \<longleftrightarrow> chan_in c = []"
    "chan_out c' = chan_out c" "chan_ok c' = chan_ok c" "kind c' = kind c"
    using v by blast+
qed

lemma chan_send_view:
  assumes "chan_send c bs = (r, c')"
  shows "chan_in c' = chan_in c" and "kind c' = kind c"
    and "\<exists>k. chan_out c' = chan_out c @ take k bs"
    and "0 < r \<Longrightarrow> chan_out c' = chan_out c @ take (nat r) bs"
    and "chan_ok c \<Longrightarrow> bs \<noteq> [] \<Longrightarrow> 0 < r"
    and "chan_ok c \<Longrightarrow> chan_ok c'"
proof -
  show "\<exists>k. chan_out c' = chan_out c @ take k bs"
  proof (cases "chan_dev c")
    case None
    with assms show ?thesis by (auto simp: chan_send_dev chan_out_def intro: exI [of _ 0])
  next
    case (Some d)
    with assms dev_send_view(2) [of d bs r "snd (dev_send d bs)"] show ?thesis
      by (auto simp: chan_send_dev chan_out_def split: if_splits)
  qed
qed (use assms dev_send_view in
      \<open>cases "chan_dev c"; auto simp: chan_send_dev chan_in_def chan_out_def chan_ok_def dev_in_def
        split: if_splits; metis prod.collapse\<close>)+

section \<open>The transfer loops\<close>

text \<open>What a read of \<open>n\<close> bytes must have done, in the views.\<close>

definition rd_post :: "gcds_chan \<Rightarrow> nat \<Rightarrow> char list option \<Rightarrow> gcds_chan \<Rightarrow> bool" where
  "rd_post c n r c' \<longleftrightarrow>
     r = (if n \<le> length (chan_in c) then Some (take n (chan_in c)) else None)
     \<and> chan_in c' = drop n (chan_in c) \<and> chan_out c' = chan_out c \<and> chan_ok c' = chan_ok c
     \<and> kind c' = kind c"

lemma rd_post_step:
  assumes rc: "chan_recv c n = (bs, c1)" and "0 < n" and "bs \<noteq> []"
    and IH: "rd_post c1 (n - length bs) r c'"
  shows "rd_post c n (map_option ((@) bs) r) c'"
proof -
  note v = chan_recv_view [OF rc \<open>0 < n\<close>] and le = chan_recv_le [OF rc]
  have "n \<le> length (chan_in c) \<longleftrightarrow> n - length bs \<le> length (chan_in c1)"
    using le v(1) by auto
  moreover have "take n (chan_in c) = bs @ take (n - length bs) (chan_in c1)"
    "drop n (chan_in c) = drop (n - length bs) (chan_in c1)"
    using le v(1) by simp_all
  ultimately show ?thesis using IH v(3-5) by (simp add: rd_post_def)
qed

lemma chan_read_n_eq:
  assumes "0 < n" and "chan_recv c n = (bs, c1)"
  shows "chan_read_n c n = (if bs = [] then (None, c1)
     else (map_option ((@) bs) (fst (chan_read_n c1 (n - length bs))),
           snd (chan_read_n c1 (n - length bs))))"
  using assms by (auto simp: chan_read_n.simps [of c n] split: prod.splits option.splits)

lemma chan_read_n_post: "rd_post c n (fst (chan_read_n c n)) (snd (chan_read_n c n))"
proof (induction n arbitrary: c rule: less_induct)
  case (less n)
  show ?case
  proof (cases "n = 0")
    case True
    then show ?thesis by (simp add: chan_read_n.simps rd_post_def)
  next
    case False
    then have n: "0 < n" by simp
    obtain bs c1 where rc: "chan_recv c n = (bs, c1)" by (metis surj_pair)
    show ?thesis
    proof (cases "bs = []")
      case True
      with chan_recv_view [OF rc n] n show ?thesis
        by (auto simp: chan_read_n_eq [OF n rc] rd_post_def)
    next
      case ne: False
      with n have "n - length bs < n" by simp
      from rd_post_step [OF rc n ne less.IH [OF this]] ne show ?thesis
        by (simp add: chan_read_n_eq [OF n rc])
    qed
  qed
qed

lemma chan_write_all_view:
  assumes "chan_write_all c bs = (b, c')"
  shows "chan_in c' = chan_in c \<and> kind c' = kind c
    \<and> (\<exists>k. chan_out c' = chan_out c @ take k bs)
    \<and> (b \<longrightarrow> chan_out c' = chan_out c @ bs)
    \<and> (chan_ok c \<longrightarrow> b \<and> chan_ok c')"
  using assms
proof (induction c bs arbitrary: b c' rule: chan_write_all.induct)
  case (1 c bs)
  show ?case
  proof (cases "bs = []")
    case True
    with "1.prems" show ?thesis by (simp add: chan_write_all.simps)
  next
    case False
    obtain r c1 where sd: "chan_send c bs = (r, c1)" by (metis surj_pair)
    note v = chan_send_view [OF sd]
    show ?thesis
    proof (cases "r \<le> 0")
      case True
      with "1.prems" False sd have "b = False" "c' = c1" by (simp_all add: chan_write_all.simps [of c bs])
      with v True False show ?thesis by auto
    next
      case pos: False
      with "1.prems" False sd have w: "chan_write_all c1 (drop (nat r) bs) = (b, c')"
        by (simp add: chan_write_all.simps [of c bs])
      from pos have o: "chan_out c1 = chan_out c @ take (nat r) bs" by (simp add: v(4))
      from "1.IH" [OF False sd [symmetric] pos w]
      obtain k where IH: "chan_in c' = chan_in c1" "kind c' = kind c1"
        "chan_out c' = chan_out c1 @ take k (drop (nat r) bs)"
        "b \<longrightarrow> chan_out c' = chan_out c1 @ drop (nat r) bs" "chan_ok c1 \<longrightarrow> b \<and> chan_ok c'"
        by blast
      have "chan_out c' = chan_out c @ take (nat r + k) bs"
        by (simp add: IH(3) o take_add)
      then have "\<exists>k. chan_out c' = chan_out c @ take k bs" by blast
      moreover have "b \<longrightarrow> chan_out c' = chan_out c @ bs" using IH(4) o by simp
      ultimately show ?thesis using IH(1,2,5) v(1,2,6) by simp
    qed
  qed
qed

section \<open>The channel interface\<close>

text \<open>What the line layer relies on: exact reads, whole writes, and that reading and writing do not
  disturb each other.  \<open>inp\<close> is what the peer still delivers, \<open>outp\<close> what it was given, and \<open>ok\<close> that
  it takes every write.\<close>

locale byte_channel =
  fixes rd :: "'c \<Rightarrow> nat \<Rightarrow> char list option \<times> 'c"
    and wr :: "'c \<Rightarrow> char list \<Rightarrow> bool \<times> 'c"
    and inp :: "'c \<Rightarrow> char list"
    and outp :: "'c \<Rightarrow> char list"
    and ok :: "'c \<Rightarrow> bool"
  assumes rd_full: "n \<le> length (inp c) \<Longrightarrow> fst (rd c n) = Some (take n (inp c))"
    and rd_rest: "inp (snd (rd c n)) = drop n (inp c)"
    and rd_short: "length (inp c) < n \<Longrightarrow> fst (rd c n) = None"
    and rd_outp: "outp (snd (rd c n)) = outp c"
    and rd_ok: "ok (snd (rd c n)) = ok c"
    and wr_inp: "inp (snd (wr c bs)) = inp c"
    and wr_full: "fst (wr c bs) \<Longrightarrow> outp (snd (wr c bs)) = outp c @ bs"
    and wr_part: "\<exists>k. outp (snd (wr c bs)) = outp c @ take k bs"
    and wr_ok: "ok c \<Longrightarrow> fst (wr c bs) \<and> ok (snd (wr c bs))"
begin

lemma rd_cases:
  "fst (rd c n) = (if n \<le> length (inp c) then Some (take n (inp c)) else None)"
  by (simp add: rd_full rd_short)

lemma rd_one: "fst (rd c 1) = (case inp c of [] \<Rightarrow> None | ch # _ \<Rightarrow> Some [ch])"
  by (cases "inp c") (simp_all add: rd_full rd_short)

lemma rd_one_rest: "inp (snd (rd c 1)) = tl (inp c)"
  by (simp add: rd_rest drop_Suc)

lemma rd_one_decreases: "fst (rd c 1) = Some bs \<Longrightarrow> length (inp (snd (rd c 1))) < length (inp c)"
  by (cases "inp c") (simp_all add: rd_one [unfolded One_nat_def] rd_rest)

lemma wr_grows: "\<exists>x. outp (snd (wr c bs)) = outp c @ x"
  using wr_part [of c bs] by blast

lemma wr_two:
  assumes "ok c"
  shows "fst (wr (snd (wr c as)) bs)"
    and "outp (snd (wr (snd (wr c as)) bs)) = outp c @ as @ bs"
    and "inp (snd (wr (snd (wr c as)) bs)) = inp c"
    and "ok (snd (wr (snd (wr c as)) bs))"
proof -
  from assms have 1: "fst (wr c as)" "ok (snd (wr c as))" by (simp_all add: wr_ok)
  then have 2: "fst (wr (snd (wr c as)) bs)" by (simp add: wr_ok)
  show "fst (wr (snd (wr c as)) bs)" by (rule 2)
  show "outp (snd (wr (snd (wr c as)) bs)) = outp c @ as @ bs"
    using 1 2 by (simp add: wr_full)
  show "inp (snd (wr (snd (wr c as)) bs)) = inp c" by (simp add: wr_inp)
  show "ok (snd (wr (snd (wr c as)) bs))" using 1 by (simp add: wr_ok)
qed

end

interpretation ch: byte_channel chan_read_n chan_write_all chan_in chan_out chan_ok
proof unfold_locales
  fix c :: gcds_chan and n :: nat and bs :: "char list"
  note r = chan_read_n_post [of c n, unfolded rd_post_def]
  show "n \<le> length (chan_in c) \<Longrightarrow> fst (chan_read_n c n) = Some (take n (chan_in c))"
    "chan_in (snd (chan_read_n c n)) = drop n (chan_in c)"
    "length (chan_in c) < n \<Longrightarrow> fst (chan_read_n c n) = None"
    "chan_out (snd (chan_read_n c n)) = chan_out c" "chan_ok (snd (chan_read_n c n)) = chan_ok c"
    using r by simp_all
  obtain b c' where w: "chan_write_all c bs = (b, c')" by (metis surj_pair)
  show "chan_in (snd (chan_write_all c bs)) = chan_in c"
    "fst (chan_write_all c bs) \<Longrightarrow> chan_out (snd (chan_write_all c bs)) = chan_out c @ bs"
    "\<exists>k. chan_out (snd (chan_write_all c bs)) = chan_out c @ take k bs"
    "chan_ok c \<Longrightarrow> fst (chan_write_all c bs) \<and> chan_ok (snd (chan_write_all c bs))"
    using chan_write_all_view [OF w] w by simp_all
qed

lemma chan_read_n_kind [simp]: "kind (snd (chan_read_n c n)) = kind c"
  using chan_read_n_post [of c n] by (simp add: rd_post_def)

lemma chan_write_all_kind [simp]: "kind (snd (chan_write_all c bs)) = kind c"
  using chan_write_all_view [of c bs] by (cases "chan_write_all c bs") simp

lemma chan_read_n_le:
  assumes "chan_read_n c n = (r, c')"
  shows "length (chan_in c') \<le> length (chan_in c)"
  using ch.rd_rest [of c n] assms by simp

lemma chan_read_1_decreases:
  assumes "chan_read_n c (Suc 0) = (Some bs, c')"
  shows "length (chan_in c') < length (chan_in c)"
  using ch.rd_one_decreases [of c bs] assms by simp

lemma chan_read_1_cases:
  obtains c' where "chan_in c = []" "chan_read_n c (Suc 0) = (None, c')" "chan_in c' = []"
      "chan_out c' = chan_out c" "chan_ok c' = chan_ok c"
    | ch s c' where "chan_in c = ch # s" "chan_read_n c (Suc 0) = (Some [ch], c')" "chan_in c' = s"
      "chan_out c' = chan_out c" "chan_ok c' = chan_ok c"
proof -
  obtain r c' where rd: "chan_read_n c (Suc 0) = (r, c')" by (metis surj_pair)
  then show thesis
    using that ch.rd_one [of c] ch.rd_rest [of c "Suc 0"] ch.rd_outp [of c "Suc 0"] ch.rd_ok [of c "Suc 0"]
    by (cases "chan_in c") auto
qed

lemma chan_write_ok:
  assumes "chan_ok c"
  obtains c' where "chan_write_all c bs = (True, c')" "chan_out c' = chan_out c @ bs" "chan_ok c'"
    "chan_in c' = chan_in c" "kind c' = kind c"
proof -
  obtain b c' where w: "chan_write_all c bs = (b, c')" by (metis surj_pair)
  with that chan_write_all_view [OF w] assms show thesis by auto
qed

lemmas chan_read_simps [chan_simps] = ch.rd_cases ch.rd_rest ch.rd_outp ch.rd_ok
lemmas chan_write_simps [chan_simps] = ch.wr_inp

text \<open>
  C25. Reading \<open>n\<close> bytes returns exactly the next \<open>n\<close> bytes of the stream however the receive calls
  cut it, or fails exactly when fewer are left before the end of file; writing returns success only
  after the whole buffer went out, in order, and a failed write has sent a prefix of it.
\<close>

theorem chan_transfers_exact:
  "fst (chan_read_n c n) = (if n \<le> length (chan_in c) then Some (take n (chan_in c)) else None)
   \<and> chan_in (snd (chan_read_n c n)) = drop n (chan_in c)
   \<and> (\<exists>k. chan_out (snd (chan_write_all c bs)) = chan_out c @ take k bs
          \<and> (if fst (chan_write_all c bs) then take k bs = bs else chan_ok c = False))"
proof -
  obtain k where k: "chan_out (snd (chan_write_all c bs)) = chan_out c @ take k bs"
    using ch.wr_part by blast
  then have "if fst (chan_write_all c bs) then take k bs = bs else chan_ok c = False"
    using ch.wr_full [of c bs] ch.wr_ok [of c bs] by auto
  with k have "\<exists>k. chan_out (snd (chan_write_all c bs)) = chan_out c @ take k bs
      \<and> (if fst (chan_write_all c bs) then take k bs = bs else chan_ok c = False)"
    by blast
  then show ?thesis by (simp add: ch.rd_cases ch.rd_rest)
qed

end
