(* ===== verification/Lineio.thy ===== *)
theory Lineio
  imports Chan
begin

text \<open>
  \<^verbatim>\<open>common/lineio.c\<close>: protocol lines and length-prefixed frames over a channel.

  \<open>lio_get_line\<close> returns the raw bytes it stored; the C string its callers then see is \<open>cstr\<close> of
  them.  The loop ends because every round consumes a byte of the channel's input.  \<open>split_line\<close> is
  the reference: the first line of a byte stream and what follows it.
\<close>

section \<open>Operations\<close>

datatype lio = LIO_OK | LIO_EIO | LIO_ELONG

text \<open>The loop of \<^verbatim>\<open>lio_get_line\<close>, with the bytes stored so far (\<^verbatim>\<open>buf[0..n)\<close>) as an argument.\<close>

function lio_loop :: "gcds_chan \<Rightarrow> char list \<Rightarrow> int \<Rightarrow> lio \<times> char list \<times> gcds_chan" where
  "lio_loop c buf sz =
     (case chan_read_n c 1 of
        (None, c') \<Rightarrow> (LIO_EIO, buf, c')
      | (Some bs, c') \<Rightarrow>
          (let ch = hd bs in
           if ch = CR then lio_loop c' buf sz
           else if ch = LF then (LIO_OK, buf, c')
           else if int (length buf) \<ge> sz - 1 then (LIO_ELONG, buf, c')
           else lio_loop c' (buf @ [ch]) sz))"
  by pat_completeness auto
termination
  by (relation "measure (\<lambda>(c, buf, sz). length (chan_in c))")
    (auto dest!: sym [of _ "chan_read_n _ _"] chan_read_1_decreases)

declare lio_loop.simps [simp del]

definition lio_get_line :: "gcds_chan \<Rightarrow> int \<Rightarrow> lio \<times> char list \<times> gcds_chan" where
  "lio_get_line c sz = lio_loop c [] sz"

definition lio_put_line :: "gcds_chan \<Rightarrow> string \<Rightarrow> lio \<times> gcds_chan" where
  "lio_put_line c line =
     (case chan_write_all c line of
        (False, c') \<Rightarrow> (LIO_EIO, c')
      | (True, c') \<Rightarrow>
          (case chan_write_all c' [LF] of
             (False, c'') \<Rightarrow> (LIO_EIO, c'')
           | (True, c'') \<Rightarrow> (LIO_OK, c'')))"

definition frame_hdr :: "char \<Rightarrow> int \<Rightarrow> string" where
  "frame_hdr tag len = tag # CHR '' '' # ld len @ [LF]"

definition lio_put_frame :: "build \<Rightarrow> gcds_chan \<Rightarrow> char \<Rightarrow> char list \<Rightarrow> lio \<times> gcds_chan" where
  "lio_put_frame B c tag data =
     (let len = int (length data) in
      if len < 1 \<or> len > GCDSP_FRAME_MAX B then (LIO_EIO, c)
      else (case chan_write_all c (frame_hdr tag len) of
          (False, c') \<Rightarrow> (LIO_EIO, c')
        | (True, c') \<Rightarrow>
            (case chan_write_all c' data of
               (False, c'') \<Rightarrow> (LIO_EIO, c'')
             | (True, c'') \<Rightarrow> (LIO_OK, c''))))"

section \<open>Reading a line\<close>

definition split_line :: "char list \<Rightarrow> (char list \<times> char list) option" where
  "split_line s = (if LF \<in> set s
     then Some (takeWhile (\<lambda>x. x \<noteq> LF) s, tl (dropWhile (\<lambda>x. x \<noteq> LF) s)) else None)"

lemma split_line_Cons:
  "split_line (x # s) = (if x = LF then Some ([], s)
     else map_option (apfst ((#) x)) (split_line s))"
  by (auto simp: split_line_def)

lemma split_line_Nil [simp]: "split_line [] = None"
  by (simp add: split_line_def)

lemma split_line_append [simp]:
  "LF \<notin> set l \<Longrightarrow> split_line (l @ LF # r) = Some (l, r)"
  by (induction l) (auto simp: split_line_Cons)

lemma split_line_length: "split_line s = Some (l, r) \<Longrightarrow> length r < length s"
  by (induction s arbitrary: l) (fastforce simp: split_line_Cons split: if_splits)+

text \<open>The reference for the loop: the bytes before the next LF without the CRs, if they fit.\<close>

fun line_ref :: "char list \<Rightarrow> char list \<Rightarrow> int \<Rightarrow> lio \<times> char list \<times> char list" where
  "line_ref [] buf sz = (LIO_EIO, buf, [])"
| "line_ref (ch # s) buf sz =
     (if ch = CR then line_ref s buf sz
      else if ch = LF then (LIO_OK, buf, s)
      else if int (length buf) \<ge> sz - 1 then (LIO_ELONG, buf, s)
      else line_ref s (buf @ [ch]) sz)"

lemma lio_loop_ref:
  "lio_loop c buf sz = (r, b, c') \<Longrightarrow>
     line_ref (chan_in c) buf sz = (r, b, chan_in c') \<and> chan_out c' = chan_out c \<and> chan_ok c' = chan_ok c"
proof (induction "length (chan_in c)" arbitrary: c buf rule: less_induct)
  case less
  show ?case
  proof (cases c rule: chan_read_1_cases)
    case (1 c1)
    with less.prems show ?thesis by (auto simp: lio_loop.simps [of c])
  next
    case (2 ch s c1)
    then have lt: "length (chan_in c1) < length (chan_in c)" by simp
    show ?thesis
      using less.prems less.hyps [OF lt, of buf] less.hyps [OF lt, of "buf @ [ch]"] 2
      by (auto simp: lio_loop.simps [of c] split: if_splits)
  qed
qed

text \<open>The reference in closed form: the three outcomes of reading a line.\<close>

lemma line_ref_ok:
  assumes "LF \<notin> set l" and "int (length buf + length (filter (\<lambda>x. x \<noteq> CR) l)) < sz"
  shows "line_ref (l @ LF # r) buf sz = (LIO_OK, buf @ filter (\<lambda>x. x \<noteq> CR) l, r)"
  using assms by (induction l arbitrary: buf) (auto split: if_splits)

lemma line_ref_long:
  assumes "LF \<notin> set l" and "sz \<le> int (length buf + length (filter (\<lambda>x. x \<noteq> CR) l))"
    and "int (length buf) < sz"
  shows "fst (line_ref (l @ r) buf sz) = LIO_ELONG"
  using assms by (induction l arbitrary: buf) auto

lemma line_ref_eof:
  assumes "LF \<notin> set l" and "int (length buf + length (filter (\<lambda>x. x \<noteq> CR) l)) < sz"
  shows "line_ref l buf sz = (LIO_EIO, buf @ filter (\<lambda>x. x \<noteq> CR) l, [])"
  using assms by (induction l arbitrary: buf) (auto split: if_splits)

lemma line_ref_shrinks:
  "line_ref s buf sz = (r, b, s') \<Longrightarrow> length s' \<le> length s \<and> (r = LIO_OK \<longrightarrow> length s' < length s)
     \<and> (r = LIO_ELONG \<longrightarrow> length s' < length s)"
  by (induction s buf sz arbitrary: r b s' rule: line_ref.induct) (fastforce split: if_splits)+

lemma line_ref_buf:
  "line_ref s buf sz = (r, b, s') \<Longrightarrow> int (length buf) < sz \<Longrightarrow> set buf \<inter> {CR, LF} = {} \<Longrightarrow>
     int (length b) < sz \<and> set b \<inter> {CR, LF} = {}"
  by (induction s buf sz arbitrary: r b s' rule: line_ref.induct) (auto split: if_splits)

lemma lio_get_line_view:
  "lio_get_line c sz = (r, b, c') \<Longrightarrow>
     line_ref (chan_in c) [] sz = (r, b, chan_in c') \<and> chan_out c' = chan_out c \<and> chan_ok c' = chan_ok c"
  unfolding lio_get_line_def by (rule lio_loop_ref)

lemma lio_loop_kind: "lio_loop c buf sz = (r, b, c') \<Longrightarrow> kind c' = kind c"
proof (induction "length (chan_in c)" arbitrary: c buf rule: less_induct)
  case less
  have k: "kind (snd (chan_read_n c (Suc 0))) = kind c" by simp
  show ?case
  proof (cases c rule: chan_read_1_cases)
    case (1 c1)
    with less.prems k show ?thesis by (auto simp: lio_loop.simps [of c])
  next
    case (2 ch s c1)
    then have lt: "length (chan_in c1) < length (chan_in c)" by simp
    show ?thesis
      using less.prems less.hyps [OF lt, of buf] less.hyps [OF lt, of "buf @ [ch]"] 2 k
      by (auto simp: lio_loop.simps [of c] split: if_splits)
  qed
qed

lemma lio_get_line_kind: "lio_get_line c sz = (r, b, c') \<Longrightarrow> kind c' = kind c"
  unfolding lio_get_line_def by (rule lio_loop_kind)

lemma lio_get_line_shrinks:
  "lio_get_line c sz = (r, b, c') \<Longrightarrow> length (chan_in c') \<le> length (chan_in c)
     \<and> (r \<noteq> LIO_EIO \<longrightarrow> length (chan_in c') < length (chan_in c))"
  using lio_get_line_view line_ref_shrinks by (cases r) blast+

text \<open>A message: a line that fits, without CR, LF or NUL, as both programs send them.\<close>

definition is_msg :: "int \<Rightarrow> string \<Rightarrow> bool" where
  "is_msg sz l \<longleftrightarrow> int (length l) < sz \<and> CR \<notin> set l \<and> LF \<notin> set l \<and> NUL \<notin> set l"

lemma is_msg_cstr: "is_msg sz l \<Longrightarrow> cstr l = l"
  by (simp add: is_msg_def is_cstr_def)

lemma lio_get_line_msg:
  assumes "chan_in c = l @ LF # rest" and "is_msg sz l"
  obtains c' where "lio_get_line c sz = (LIO_OK, l, c')" "chan_in c' = rest"
    "chan_out c' = chan_out c" "chan_ok c' = chan_ok c" "kind c' = kind c"
proof -
  obtain r b c' where g: "lio_get_line c sz = (r, b, c')" by (metis surj_pair)
  from assms(2) have "filter (\<lambda>x. x \<noteq> CR) l = l" by (auto simp: is_msg_def filter_id_conv)
  with line_ref_ok [of l "[]" sz rest] assms have "line_ref (chan_in c) [] sz = (LIO_OK, l, rest)"
    by (simp add: is_msg_def)
  with lio_get_line_view [OF g] lio_get_line_kind [OF g] g that show thesis by auto
qed

section \<open>Writing lines and frames\<close>

lemma lio_put_line_in [simp]: "chan_in (snd (lio_put_line c l)) = chan_in c"
  by (auto simp: lio_put_line_def split: prod.splits bool.splits)
     (metis ch.wr_inp snd_conv)+

lemma lio_put_line_kind [simp]: "kind (snd (lio_put_line c l)) = kind c"
  by (auto simp: lio_put_line_def split: prod.splits bool.splits)
     (metis chan_write_all_kind snd_conv)+

lemma lio_put_line_ok:
  assumes "chan_ok c"
  shows "fst (lio_put_line c l) = LIO_OK"
    and "chan_out (snd (lio_put_line c l)) = chan_out c @ l @ [LF]"
    and "chan_ok (snd (lio_put_line c l))"
proof -
  have eq: "lio_put_line c l = (LIO_OK, snd (chan_write_all (snd (chan_write_all c l)) [LF]))"
    using ch.wr_two(1) [OF assms, of l "[LF]"] ch.wr_ok [OF assms, of l]
    by (auto simp: lio_put_line_def split: prod.splits)
  show "fst (lio_put_line c l) = LIO_OK" "chan_out (snd (lio_put_line c l)) = chan_out c @ l @ [LF]"
    "chan_ok (snd (lio_put_line c l))"
    using ch.wr_two [OF assms, of l "[LF]"] by (simp_all add: eq)
qed

lemma lio_put_frame_in [simp]: "chan_in (snd (lio_put_frame B c tag d)) = chan_in c"
  by (auto simp: lio_put_frame_def Let_def split: prod.splits bool.splits)
     (metis ch.wr_inp snd_conv)+

lemma lio_put_frame_kind [simp]: "kind (snd (lio_put_frame B c tag d)) = kind c"
  by (auto simp: lio_put_frame_def Let_def split: prod.splits bool.splits)
     (metis chan_write_all_kind snd_conv)+

lemma lio_put_line_in': "lio_put_line c l = (r, c') \<Longrightarrow> chan_in c' = chan_in c"
  using lio_put_line_in [of c l] by simp

lemma lio_put_frame_in': "lio_put_frame B c tag d = (r, c') \<Longrightarrow> chan_in c' = chan_in c"
  using lio_put_frame_in [of B c tag d] by simp

lemma lio_put_line_kind': "lio_put_line c l = (r, c') \<Longrightarrow> kind c' = kind c"
  using lio_put_line_kind [of c l] by simp

lemma lio_put_frame_kind': "lio_put_frame B c tag d = (r, c') \<Longrightarrow> kind c' = kind c"
  using lio_put_frame_kind [of B c tag d] by simp

lemmas lio_in = lio_put_line_in' lio_put_frame_in'
lemmas lio_kind = lio_put_line_kind' lio_put_frame_kind'

definition frame :: "char \<Rightarrow> char list \<Rightarrow> char list" where
  "frame tag d = frame_hdr tag (int (length d)) @ d"

lemma lio_put_frame_ok:
  assumes "chan_ok c" and "d \<noteq> []" and "int (length d) \<le> GCDSP_FRAME_MAX B"
  shows "fst (lio_put_frame B c tag d) = LIO_OK"
    and "chan_out (snd (lio_put_frame B c tag d)) = chan_out c @ frame tag d"
    and "chan_ok (snd (lio_put_frame B c tag d))"
proof -
  let ?h = "frame_hdr tag (int (length d))"
  from assms(2) have "\<not> int (length d) < 1" by (simp add: Suc_le_eq)
  then have eq: "lio_put_frame B c tag d = (LIO_OK, snd (chan_write_all (snd (chan_write_all c ?h)) d))"
    using ch.wr_two(1) [OF assms(1), of ?h d] ch.wr_ok [OF assms(1), of ?h] assms(3)
    by (auto simp: lio_put_frame_def Let_def split: prod.splits)
  show "fst (lio_put_frame B c tag d) = LIO_OK"
    "chan_out (snd (lio_put_frame B c tag d)) = chan_out c @ frame tag d"
    "chan_ok (snd (lio_put_frame B c tag d))"
    using ch.wr_two [OF assms(1), of ?h d] by (simp_all add: eq frame_def)
qed

lemmas lio_ok = lio_put_line_ok lio_put_frame_ok

text \<open>The header of a frame, as its receiver reads it.\<close>

lemma frame_eq: "frame tag d = (tag # CHR '' '' # ld (int (length d))) @ LF # d"
  by (simp add: frame_def frame_hdr_def)

lemma dec_length: "n < 10 ^ k \<Longrightarrow> 0 < k \<Longrightarrow> length (dec n) \<le> k"
proof (induction n arbitrary: k rule: dec.induct)
  case (1 n)
  show ?case
  proof (cases "n < 10")
    case True
    with "1.prems" show ?thesis by (simp add: dec.simps [of n])
  next
    case False
    with "1.prems" obtain j where j: "k = Suc j" "0 < j" by (cases k; cases "k - 1") auto
    with "1.prems" have "n div 10 < 10 ^ j" by (simp add: less_mult_imp_div_less mult.commute)
    with "1.IH" False j have "length (dec (n div 10)) \<le> j" by simp
    with False j show ?thesis by (simp add: dec.simps [of n])
  qed
qed

lemma is_msg_hdr:
  assumes "int n \<le> 4096" and "8 \<le> sz" and "tag \<notin> {CR, LF, NUL}"
  shows "is_msg sz (tag # CHR '' '' # ld (int n))"
proof -
  have "length (dec n) \<le> 4" using assms(1) by (intro dec_length) simp_all
  with assms show ?thesis by (auto simp: is_msg_def ld_def)
qed

lemma atol_hdr: "int n \<le> 4096 \<Longrightarrow> atol (ld (int n)) = int n"
  by (simp add: atol_ld_nonneg)

text \<open>A stream of frames, the bytes of one tag in it, and the frames both programs accept.\<close>

definition frames :: "(char \<times> char list) list \<Rightarrow> char list" where
  "frames fs = concat (map (\<lambda>f. frame (fst f) (snd f)) fs)"

definition payload :: "char \<Rightarrow> (char \<times> char list) list \<Rightarrow> char list" where
  "payload t fs = concat (map snd (filter (\<lambda>f. fst f = t) fs))"

definition frame_wf :: "build \<Rightarrow> char \<times> char list \<Rightarrow> bool" where
  "frame_wf B f \<longleftrightarrow> snd f \<noteq> [] \<and> int (length (snd f)) \<le> GCDSP_FRAME_MAX B"

lemma frames_simps [simp]:
  "frames [] = []" "frames (f # fs) = frame (fst f) (snd f) @ frames fs" "frames (fs @ gs) = frames fs @ frames gs"
  by (simp_all add: frames_def)

lemma payload_simps [simp]:
  "payload t [] = []" "payload t (fs @ gs) = payload t fs @ payload t gs"
  "payload t (f # fs) = (if fst f = t then snd f else []) @ payload t fs"
  by (simp_all add: payload_def)

text \<open>On a channel that takes every write.\<close>

lemma put_frame_ok:
  assumes "chan_ok c" and "frame_wf B (tag, d)"
  obtains c' where "lio_put_frame B c tag d = (LIO_OK, c')" "chan_out c' = chan_out c @ frame tag d"
    "chan_ok c'" "chan_in c' = chan_in c" "kind c' = kind c"
proof -
  obtain r c' where p: "lio_put_frame B c tag d = (r, c')" by (metis surj_pair)
  from assms(2) have "d \<noteq> []" "int (length d) \<le> GCDSP_FRAME_MAX B" by (simp_all add: frame_wf_def)
  from that [of c'] p lio_put_frame_ok [OF assms(1) this, of tag] lio_put_frame_in [of B c tag d]
    lio_put_frame_kind [of B c tag d] show thesis by simp
qed

lemma put_line_ok:
  assumes "chan_ok c"
  obtains c' where "lio_put_line c l = (LIO_OK, c')" "chan_out c' = chan_out c @ l @ [LF]"
    "chan_ok c'" "chan_in c' = chan_in c" "kind c' = kind c"
proof -
  obtain r c' where p: "lio_put_line c l = (r, c')" by (metis surj_pair)
  from that [of c'] p lio_put_line_ok [OF assms, of l] lio_put_line_in [of c l]
    lio_put_line_kind [of c l] show thesis by simp
qed

text \<open>Reading the header of a well-formed frame leaves its payload.\<close>

lemma frame_hdr_read:
  assumes "chan_in c = frame t d @ rest" and "frame_wf B (t, d)" and "8 \<le> sz" and "t \<notin> {CR, LF, NUL}"
  obtains c' l where "lio_get_line c sz = (LIO_OK, l, c')" and "cstr l = l"
    and "char_at l 0 = t" and "char_at l 1 = CHR '' ''" and "atol (drop 2 l) = int (length d)"
    and "chan_in c' = d @ rest" and "chan_out c' = chan_out c" and "chan_ok c' = chan_ok c" and "kind c' = kind c"
proof -
  let ?l = "t # CHR '' '' # ld (int (length d))"
  have n: "int (length d) \<le> 4096" using assms(2) FRAME_MAX_bounds(2) [of B] by (simp add: frame_wf_def)
  have m: "is_msg sz ?l" using n assms(3,4) by (rule is_msg_hdr)
  have "chan_in c = ?l @ LF # (d @ rest)" using assms(1) by (simp add: frame_eq)
  from lio_get_line_msg [OF this m] obtain c' where
    "lio_get_line c sz = (LIO_OK, ?l, c')" "chan_in c' = d @ rest" "chan_out c' = chan_out c"
    "chan_ok c' = chan_ok c" "kind c' = kind c" by metis
  moreover have "char_at ?l 0 = t" "char_at ?l 1 = CHR '' ''" "drop 2 ?l = ld (int (length d))"
    by (simp_all add: char_at_def)
  ultimately show thesis
    using that is_msg_cstr [OF m] atol_hdr [OF n] by metis
qed

lemma chan_read_append:
  assumes "chan_in c = d @ rest"
  obtains c' where "chan_read_n c (length d) = (Some d, c')" and "chan_in c' = rest"
    and "chan_out c' = chan_out c" and "chan_ok c' = chan_ok c" and "kind c' = kind c"
proof -
  obtain r c' where r: "chan_read_n c (length d) = (r, c')" by (metis surj_pair)
  show thesis
    using that [of c'] assms r ch.rd_cases [of c "length d"] ch.rd_rest [of c "length d"]
      ch.rd_outp [of c "length d"] ch.rd_ok [of c "length d"] chan_read_n_kind [of c "length d"]
    by simp
qed

text \<open>
  C28. Reading a line is decided by the text up to the next LF with its CRs removed: if it does not fit
  the buffer with its terminator the result is the protocol violation, else if there is a LF the result
  is that text and the stream continues right after the LF, else it is the channel error.  Nothing is
  written.
\<close>

theorem lio_get_line_spec:
  assumes "0 < sz"
  shows "let s = chan_in c; t = filter (\<lambda>x. x \<noteq> CR) (takeWhile (\<lambda>x. x \<noteq> LF) s) in
    chan_out (snd (snd (lio_get_line c sz))) = chan_out c \<and>
    (if sz \<le> int (length t) then fst (lio_get_line c sz) = LIO_ELONG
     else if LF \<in> set s
       then fst (lio_get_line c sz) = LIO_OK \<and> fst (snd (lio_get_line c sz)) = t
         \<and> chan_in (snd (snd (lio_get_line c sz))) = tl (dropWhile (\<lambda>x. x \<noteq> LF) s)
     else fst (lio_get_line c sz) = LIO_EIO)"
proof -
  obtain r b c' where g: "lio_get_line c sz = (r, b, c')" by (metis surj_pair)
  note v = lio_get_line_view [OF g]
  show ?thesis
  proof (cases "LF \<in> set (chan_in c)")
    case True
    then obtain l rest where s: "chan_in c = l @ LF # rest" and l: "LF \<notin> set l"
      by (meson split_list_first)
    show ?thesis
      using v g assms line_ref_ok [OF l, of "[]" sz rest] line_ref_long [OF l, of sz "[]" "LF # rest"]
      by (simp add: Let_def s l)
  next
    case False
    then have d: "takeWhile (\<lambda>x. x \<noteq> LF) (chan_in c) = chan_in c"
      by (auto simp: takeWhile_eq_all_conv)
    show ?thesis
      unfolding Let_def d
      using v g False assms line_ref_eof [OF False, of "[]" sz] line_ref_long [OF False, of sz "[]" "[]"]
      by simp
  qed
qed

theorem lio_get_line_spec_witness:
  "fst (lio_get_line (chan_tcp \<lparr>rx = [''PI'', ''NG'' @ [CR], [LF], ''X''], tx = [], wlim = []\<rparr>) 8) = LIO_OK"
proof -
  let ?c = "chan_tcp \<lparr>rx = [''PI'', ''NG'' @ [CR], [LF], ''X''], tx = [], wlim = []\<rparr>"
  have "chan_in ?c = ''PING'' @ [CR, LF] @ ''X''"
    by (simp add: chan_in_def chan_dev_def chan_tcp_def dev_in_def)
  then show ?thesis using lio_get_line_spec [of 8 ?c] by simp
qed

end
