(* ===== verification/Conf.thy ===== *)
theory Conf
  imports Gcdsp
begin

text \<open>
  \<^verbatim>\<open>common/conf.c\<close>: the key=value configuration files of both programs.  A file is the text
  \<^verbatim>\<open>fopen\<close> gives, \<open>None\<close> when it cannot be opened; \<open>fgets\<close> is one call on the rest of it with the
  buffer of \<^verbatim>\<open>GCDSP_LINE_MAX\<close> bytes.  The table is the list of its entries.
\<close>

section \<open>Operations\<close>

abbreviation CONF_KEY_MAX :: int where "CONF_KEY_MAX \<equiv> 64"
abbreviation CONF_VAL_MAX :: int where "CONF_VAL_MAX \<equiv> 384"

definition CONF_ENT_MAX :: "build \<Rightarrow> int" where
  "CONF_ENT_MAX B = (if GCDS_DOS B then 12 else 64)"

record gcds_kv =
  key :: string
  val :: string

definition sp_tab :: "char \<Rightarrow> bool" where
  "sp_tab c \<longleftrightarrow> c = CHR '' '' \<or> c = TAB"

definition sp_end :: "char \<Rightarrow> bool" where
  "sp_end c \<longleftrightarrow> c = CHR '' '' \<or> c = TAB \<or> c = CR \<or> c = LF"

definition trim :: "string \<Rightarrow> string" where
  "trim s = dropWhile sp_tab (rev (dropWhile sp_end (rev s)))"

text \<open>\<^verbatim>\<open>fgets\<close> with a buffer of \<open>n\<close> bytes: the next line with its LF, or \<open>n - 1\<close> bytes of it.\<close>

definition fgets :: "nat \<Rightarrow> char list \<Rightarrow> (char list \<times> char list) option" where
  "fgets n f =
     (if f = [] then None
      else let l = takeWhile (\<lambda>c. c \<noteq> LF) f;
               m = min (n - 1) (if length l < length f then length l + 1 else length l) in
           Some (take m f, drop m f))"

lemma fgets_shrinks: "fgets n f = Some (l, f') \<Longrightarrow> 1 < n \<Longrightarrow> length f' < length f"
  by (cases f) (auto simp: fgets_def Let_def)

text \<open>One line: the entry it adds to the table, if any.\<close>

definition conf_line :: "string \<Rightarrow> gcds_kv option" where
  "conf_line line0 =
     (let line = trim line0 in
      if line = [] \<or> hd line = CHR ''#'' then None
      else (case cut (CHR ''='') line of
          None \<Rightarrow> None
        | Some (k, v) \<Rightarrow>
            (let k' = trim k; v' = trim v in
             if k' = [] then None
             else Some \<lparr>key = strlcpy k' 64, val = strlcpy v' 384\<rparr>)))"

function conf_loop :: "char list \<Rightarrow> gcds_kv list \<Rightarrow> int \<Rightarrow> gcds_kv list" where
  "conf_loop f kv maxkv =
     (if int (length kv) < maxkv
      then (case fgets 1024 f of
          None \<Rightarrow> kv
        | Some (buf, f') \<Rightarrow>
            (case conf_line (cstr buf) of
               None \<Rightarrow> conf_loop f' kv maxkv
             | Some e \<Rightarrow> conf_loop f' (kv @ [e]) maxkv))
      else kv)"
  by pat_completeness auto
termination
  by (relation "measure (\<lambda>(f, kv, maxkv). length f)") (auto dest!: sym [of _ "fgets _ _"] fgets_shrinks)

declare conf_loop.simps [simp del]

definition conf_load :: "char list option \<Rightarrow> int \<Rightarrow> gcds_kv list option" where
  "conf_load file maxkv = map_option (\<lambda>f. conf_loop f [] maxkv) file"

fun conf_get :: "gcds_kv list \<Rightarrow> string \<Rightarrow> string option" where
  "conf_get [] k = None"
| "conf_get (e # kv) k = (if key e = k then Some (val e) else conf_get kv k)"

definition conf_gets :: "gcds_kv list \<Rightarrow> string \<Rightarrow> string \<Rightarrow> string" where
  "conf_gets kv k dflt = (case conf_get kv k of None \<Rightarrow> dflt | Some v \<Rightarrow> v)"

section \<open>Reference: printed configuration files\<close>

text \<open>The lines a file is made of: blank lines, comments, and entries with padding around the key,
  the equals sign and the value.\<close>

datatype conf_ln =
    Blank string
  | Comment string string
  | Entry string string string string string string

fun show_ln :: "conf_ln \<Rightarrow> string" where
  "show_ln (Blank p) = p"
| "show_ln (Comment p t) = p @ ''#'' @ t"
| "show_ln (Entry p k q r v s) = p @ k @ q @ ''='' @ r @ v @ s"

definition pad :: "string \<Rightarrow> bool" where
  "pad p \<longleftrightarrow> (\<forall>c \<in> set p. sp_tab c)"

definition solid :: "string \<Rightarrow> bool" where
  "solid s \<longleftrightarrow> (s \<noteq> [] \<longrightarrow> \<not> sp_tab (hd s) \<and> \<not> sp_end (last s))"

definition line_wf :: "conf_ln \<Rightarrow> bool" where
  "line_wf l \<longleftrightarrow> length (show_ln l) < 1023 \<and> LF \<notin> set (show_ln l) \<and> NUL \<notin> set (show_ln l) \<and>
     (case l of Blank p \<Rightarrow> pad p
      | Comment p t \<Rightarrow> pad p
      | Entry p k q r v s \<Rightarrow> pad p \<and> pad q \<and> pad r \<and> pad s \<and> solid k \<and> solid v \<and> k \<noteq> []
          \<and> hd k \<noteq> CHR ''#'' \<and> CHR ''='' \<notin> set k \<and> length k < 64 \<and> length v < 384)"

definition entries_of :: "conf_ln list \<Rightarrow> (string \<times> string) list" where
  "entries_of ls = concat (map (\<lambda>l. case l of Entry p k q r v s \<Rightarrow> [(k, v)] | _ \<Rightarrow> []) ls)"

definition show_conf :: "conf_ln list \<Rightarrow> string" where
  "show_conf ls = concat (map (\<lambda>l. show_ln l @ [LF]) ls)"

section \<open>Trimming\<close>

lemma sp_tab_end: "sp_tab c \<Longrightarrow> sp_end c"
  by (auto simp: sp_tab_def sp_end_def)

lemma trim_core:
  assumes "pad p" and "\<forall>c \<in> set q. sp_end c" and "solid s"
  shows "trim (p @ s @ q) = s"
proof (cases "s = []")
  case True
  from assms(1,2) have "\<forall>c \<in> set (p @ q). sp_end c" using sp_tab_end by (auto simp: pad_def)
  then have d: "dropWhile sp_end (rev q @ rev p) = []"
    by (simp only: dropWhile_eq_Nil_conv set_append set_rev) blast
  have "trim (p @ s @ q) = dropWhile sp_tab (rev (dropWhile sp_end (rev q @ rev p)))"
    using True by (simp add: trim_def)
  then show ?thesis unfolding d True by simp
next
  case False
  then have s: "\<not> sp_tab (hd s)" "\<not> sp_end (last s)" using assms(3) by (auto simp: solid_def)
  have "dropWhile sp_end (rev (p @ s @ q)) = dropWhile sp_end (rev s @ rev p)"
    using assms(2) dropWhile_append2 [of "rev q" sp_end "rev s @ rev p"] by simp
  also have "\<dots> = rev s @ rev p"
    using False s(2) by (cases s rule: rev_cases) auto
  finally have "trim (p @ s @ q) = dropWhile sp_tab (p @ s)" by (simp add: trim_def)
  also have "\<dots> = s"
    using assms(1) False s(1) by (cases s) (auto simp: pad_def dropWhile_append2)
  finally show ?thesis .
qed

lemma trim_line: "pad p \<Longrightarrow> pad q \<Longrightarrow> solid s \<Longrightarrow> trim (p @ s @ q @ [LF]) = s"
  using trim_core [of p "q @ [LF]" s] sp_tab_end by (auto simp: pad_def sp_end_def)

lemma trim_pads: "pad p \<Longrightarrow> pad q \<Longrightarrow> solid s \<Longrightarrow> trim (p @ s @ q) = s"
  using trim_core [of p q s] sp_tab_end by (auto simp: pad_def)

lemma trim_hash: "pad p \<Longrightarrow> \<exists>u. trim (p @ CHR ''#'' # t) = CHR ''#'' # u"
proof -
  assume p: "pad p"
  let ?u = "rev (dropWhile sp_end (rev t))"
  have "dropWhile sp_end (rev (p @ CHR ''#'' # t)) = rev (p @ CHR ''#'' # ?u)"
  proof (cases "\<exists>c \<in> set t. \<not> sp_end c")
    case True
    then show ?thesis by (auto simp: dropWhile_append1)
  next
    case False
    then have d: "dropWhile sp_end (rev t) = []" by simp
    have "\<not> sp_end (CHR ''#'')" by (simp add: sp_end_def)
    then have "dropWhile sp_end (rev t @ CHR ''#'' # rev p) = CHR ''#'' # rev p"
      using False by (subst dropWhile_append2) auto
    then show ?thesis unfolding d by simp
  qed
  with p have "trim (p @ CHR ''#'' # t) = CHR ''#'' # ?u"
    by (simp add: trim_def pad_def dropWhile_append2 sp_tab_def)
  then show ?thesis by blast
qed

section \<open>Loading a printed file\<close>

lemma conf_line_entry:
  assumes "line_wf (Entry p k q r v s)"
  shows "conf_line (show_ln (Entry p k q r v s) @ [LF]) = Some \<lparr>key = k, val = v\<rparr>"
proof -
  from assms have w: "pad p" "pad q" "pad r" "pad s" "solid k" "solid v" "k \<noteq> []" "hd k \<noteq> CHR ''#''"
    "CHR ''='' \<notin> set k" "length k < 64" "length v < 384"
    by (simp_all add: line_wf_def)
  let ?r = "if v = [] then [] else r" and ?s = "if v = [] then r @ s else s"
  let ?core = "k @ q @ ''='' @ ?r @ v"
  have "solid ?core" using w by (auto simp: solid_def sp_end_def)
  then have "trim (p @ ?core @ ?s @ [LF]) = ?core"
    using w by (intro trim_line) (auto simp: pad_def)
  then have t: "trim (show_ln (Entry p k q r v s) @ [LF]) = ?core" by (cases "v = []") simp_all
  have "cut (CHR ''='') ?core = Some (k @ q, ?r @ v)"
  proof -
    have "\<not> sp_tab (CHR ''='')" by (simp add: sp_tab_def)
    then have "CHR ''='' \<notin> set (k @ q)" using w(2,9) by (auto simp: pad_def)
    from cut_append [OF this, of "?r @ v"] show ?thesis by simp
  qed
  moreover have "trim (k @ q) = k" "trim (?r @ v) = v"
    using trim_pads [of "[]" q k] trim_pads [of ?r "[]" v] w by (auto simp: pad_def)
  moreover have "?core \<noteq> []" "hd ?core = hd k" using w(7) by simp_all
  ultimately show ?thesis
    using t w by (simp add: conf_line_def Let_def gcds_strlcpy_fits)
qed

lemma conf_line_other:
  assumes "line_wf l" and "\<forall>p k q r v s. l \<noteq> Entry p k q r v s"
  shows "conf_line (show_ln l @ [LF]) = None"
proof (cases l)
  case (Blank p)
  with assms have "trim (p @ [LF]) = []" using trim_line [of p "[]" "[]"] by (simp add: line_wf_def pad_def solid_def)
  with Blank show ?thesis by (simp add: conf_line_def)
next
  case (Comment p t)
  with assms have "pad p" by (simp add: line_wf_def)
  from trim_hash [OF this, of "t @ [LF]"] Comment show ?thesis by (auto simp: conf_line_def)
qed (use assms in auto)

lemma fgets_line:
  assumes "line_wf l"
  shows "fgets 1024 (show_ln l @ LF # f) = Some (show_ln l @ [LF], f)"
proof -
  from assms have "length (show_ln l) < 1023" "LF \<notin> set (show_ln l)" by (simp_all add: line_wf_def)
  then show ?thesis by (simp add: fgets_def Let_def min_absorb2)
qed

lemma cstr_line: "line_wf l \<Longrightarrow> cstr (show_ln l @ [LF]) = show_ln l @ [LF]"
  by (rule cstr_id) (simp add: line_wf_def is_cstr_def)

lemma conf_loop_full: "maxkv \<le> int (length kv) \<Longrightarrow> conf_loop f kv maxkv = kv"
  by (simp add: conf_loop.simps)

lemma conf_loop_step:
  assumes "line_wf l" and "int (length kv) < maxkv"
  shows "conf_loop (show_conf (l # ls)) kv maxkv =
    (case conf_line (show_ln l @ [LF]) of None \<Rightarrow> conf_loop (show_conf ls) kv maxkv
     | Some e \<Rightarrow> conf_loop (show_conf ls) (kv @ [e]) maxkv)"
proof -
  have "show_conf (l # ls) = show_ln l @ LF # show_conf ls" by (simp add: show_conf_def)
  then show ?thesis
    using assms by (simp add: conf_loop.simps [of "show_ln l @ LF # show_conf ls"] fgets_line cstr_line)
qed

lemma conf_loop_show:
  assumes "\<forall>l \<in> set ls. line_wf l" and "int (length kv) \<le> maxkv"
  shows "conf_loop (show_conf ls) kv maxkv =
    take (nat maxkv) (kv @ map (\<lambda>(k, v). \<lparr>key = k, val = v\<rparr>) (entries_of ls))"
  using assms
proof (induction ls arbitrary: kv)
  case Nil
  then show ?case by (simp add: show_conf_def entries_of_def conf_loop.simps fgets_def)
next
  case (Cons l ls)
  from Cons.prems have wf: "line_wf l" by simp
  show ?case
  proof (cases "int (length kv) < maxkv")
    case False
    then show ?thesis using Cons.prems(2) by (simp add: conf_loop_full)
  next
    case lt: True
    then have n: "nat maxkv - length kv = Suc (nat maxkv - Suc (length kv))" by simp
    then show ?thesis
    proof (cases "\<exists>p k q r v s. l = Entry p k q r v s")
      case True
      then obtain p k q r v s where l: "l = Entry p k q r v s" by blast
      with lt wf conf_line_entry [of p k q r v s] Cons.IH [of "kv @ [\<lparr>key = k, val = v\<rparr>]"] Cons.prems(1) n
      show ?thesis
        by (simp add: conf_loop_step entries_of_def del: show_ln.simps)
    next
      case False
      with lt wf conf_line_other [of l] Cons.IH [of kv] Cons.prems show ?thesis
        by (cases l) (simp_all add: conf_loop_step entries_of_def del: show_ln.simps)
    qed
  qed
qed

lemma conf_get_map_of:
  "conf_get (map (\<lambda>(k, v). \<lparr>key = k, val = v\<rparr>) xs) k = map_of xs k"
  by (induction xs) auto

text \<open>
  C30. Loading a printed configuration file, whatever its blank lines, comments and padding, yields
  its entries in order up to the capacity of the table, and a lookup returns the value of the first
  entry with the key; a file that cannot be opened is reported.
\<close>

theorem conf_load_show:
  assumes "\<forall>l \<in> set ls. line_wf l" and "0 \<le> maxkv"
  shows "conf_load None maxkv = None \<and>
    (\<exists>kv. conf_load (Some (show_conf ls)) maxkv = Some kv
       \<and> map (\<lambda>e. (key e, val e)) kv = take (nat maxkv) (entries_of ls)
       \<and> (\<forall>k d. conf_gets kv k d =
            (case map_of (take (nat maxkv) (entries_of ls)) k of None \<Rightarrow> d | Some v \<Rightarrow> v)))"
proof -
  let ?kv = "map (\<lambda>(k, v). \<lparr>key = k, val = v\<rparr>) (take (nat maxkv) (entries_of ls))"
  have "conf_load (Some (show_conf ls)) maxkv = Some ?kv"
    using conf_loop_show [of ls "[]" maxkv] assms by (simp add: conf_load_def take_map)
  moreover have "map (\<lambda>e. (key e, val e)) ?kv = take (nat maxkv) (entries_of ls)"
    by (simp add: comp_def case_prod_beta)
  ultimately show ?thesis
    by (auto simp: conf_gets_def conf_get_map_of conf_load_def)
qed

theorem conf_load_show_witness:
  "conf_load (Some (show_conf [Comment [] '' gcdsd'', Entry [] ''port'' '' '' '' '' ''9910'' []])) 64
     = Some [\<lparr>key = ''port'', val = ''9910''\<rparr>]"
proof -
  let ?ls = "[Comment [] '' gcdsd'', Entry [] ''port'' '' '' '' '' ''9910'' []]"
  have "\<forall>l \<in> set ?ls. line_wf l"
    by (simp add: line_wf_def pad_def solid_def sp_tab_def sp_end_def)
  from conf_load_show [OF this, of 64]
  obtain kv where "conf_load (Some (show_conf ?ls)) 64 = Some kv"
    and m: "map (\<lambda>e. (key e, val e)) kv = [(''port'', ''9910'')]"
    by (auto simp: entries_of_def)
  moreover from m have "kv = [\<lparr>key = ''port'', val = ''9910''\<rparr>]" by auto
  ultimately show ?thesis by simp
qed

end
