(* ===== verification/Pathmap.thy ===== *)
theory Pathmap
  imports Conf
begin

text \<open>
  \<^verbatim>\<open>client/pathmap.c\<close> (and \<^verbatim>\<open>rc_key\<close> of \<^verbatim>\<open>client/remote.c\<close>): translation of the local working
  directory to the remote one, and of remote paths in output lines back.
\<close>

abbreviation BSLASH :: char where "BSLASH \<equiv> CHR 0x5C"
abbreviation SLASH :: char where "SLASH \<equiv> CHR ''/''"
abbreviation BAR :: char where "BAR \<equiv> CHR ''|''"

section \<open>Operations\<close>

definition rc_key :: "int \<Rightarrow> string \<Rightarrow> string \<Rightarrow> string" where
  "rc_key sz al what = strlcat (strlcat (strlcat (strlcat [] ''host.'' sz) al sz) ''.'' sz) what sz"

fun norm_loop :: "string \<Rightarrow> nat \<Rightarrow> nat" where
  "norm_loop s 0 = 0"
| "norm_loop s (Suc n) = (if n \<ge> 1 \<and> s ! n = SLASH then norm_loop s n else Suc n)"

definition pfx_norm_len :: "string \<Rightarrow> nat" where
  "pfx_norm_len pfx = norm_loop pfx (length pfx)"

text \<open>The matched length, \<open>None\<close> for -1.\<close>

definition pfx_match :: "string \<Rightarrow> string \<Rightarrow> nat option" where
  "pfx_match d pfx =
     (let n = pfx_norm_len pfx in
      if n = 0 \<or> take n d \<noteq> take n pfx then None
      else if char_at d n \<noteq> NUL \<and> char_at d n \<noteq> SLASH then None
      else Some n)"

fun build_loop :: "string \<Rightarrow> int \<Rightarrow> string \<Rightarrow> char \<Rightarrow> string option" where
  "build_loop out sz [] sep = Some out"
| "build_loop out sz (c # rest) sep =
     (if int (length out) \<ge> sz - 1 then None
      else build_loop (out @ [if c = SLASH then sep else c]) sz rest sep)"

definition pm_build :: "int \<Rightarrow> string \<Rightarrow> string \<Rightarrow> char \<Rightarrow> string option" where
  "pm_build sz remote rest sep =
     (if snd (gcds_strlcpy [] remote sz) \<ge> sz then None
      else let out = strlcpy remote sz;
               rest' = (if rest \<noteq> [] \<and> hd rest = SLASH \<and> out \<noteq> [] \<and> last out = sep then tl rest else rest) in
           build_loop out sz rest' sep)"

definition to_lower :: "char \<Rightarrow> char" where
  "to_lower a = (if 65 \<le> (of_char a :: nat) \<and> (of_char a :: nat) \<le> 90 then char_of (of_char a + 32 :: nat) else a)"

definition ci_eq :: "char \<Rightarrow> char \<Rightarrow> bool" where
  "ci_eq a b \<longleftrightarrow> to_lower a = to_lower b"

fun at_match :: "string \<Rightarrow> string \<Rightarrow> bool \<Rightarrow> nat option" where
  "at_match hay [] ci = Some 0"
| "at_match [] (c # needle) ci = None"
| "at_match (h # hay) (c # needle) ci =
     (if (if ci then ci_eq h c else h = c) then map_option Suc (at_match hay needle ci) else None)"

text \<open>The configured maps \<^verbatim>\<open>host.ALIAS.map.1\<close> to \<^verbatim>\<open>map.8\<close>, in order.\<close>

definition map_key :: "string \<Rightarrow> nat \<Rightarrow> string" where
  "map_key al i = rc_key CONF_KEY_MAX al (''map.'' @ [char_of (48 + i)])"

definition pm_maps :: "gcds_kv list \<Rightarrow> string \<Rightarrow> string list" where
  "pm_maps kv al = map (\<lambda>v. strlcpy v CONF_VAL_MAX)
     (filter (\<lambda>v. BAR \<in> set v) (List.map_filter (\<lambda>i. conf_get kv (map_key al i)) [1..<9]))"

text \<open>The three fields of a map: \<^verbatim>\<open>local|remote[|sep]\<close>, without the default for an empty \<^verbatim>\<open>sep\<close>.\<close>

definition map_fields :: "string \<Rightarrow> (string \<times> string \<times> char) option" where
  "map_fields v =
     (case cut BAR v of
        None \<Rightarrow> None
      | Some (l, r) \<Rightarrow>
          Some (case cut BAR r of
              Some (r', s) \<Rightarrow> (l, r', char_at s 0)
            | None \<Rightarrow> (l, r, if BSLASH \<in> set r then BSLASH else SLASH)))"

abbreviation OUT_LIM :: nat where "OUT_LIM \<equiv> 2046"

fun conv_tok :: "string \<Rightarrow> string \<Rightarrow> string \<times> string" where
  "conv_tok [] out = ([], out)"
| "conv_tok (c # line) out =
     (if c \<noteq> CHR '' '' \<and> c \<noteq> TAB \<and> c \<noteq> CHR 0x22 \<and> length out < OUT_LIM
      then conv_tok line (out @ [if c = BSLASH then SLASH else c])
      else (c # line, out))"

text \<open>The first map whose remote prefix matches at the position: the rest of the line and the output.\<close>

fun back_match :: "string list \<Rightarrow> string \<Rightarrow> string \<Rightarrow> (string \<times> string) option" where
  "back_match [] line out = None"
| "back_match (v # vs) line out =
     (case map_fields v of
        None \<Rightarrow> back_match vs line out
      | Some (l, r, sep) \<Rightarrow>
          (case at_match line r (sep = BSLASH) of
             None \<Rightarrow> back_match vs line out
           | Some n \<Rightarrow>
               if n = 0 then back_match vs line out
               else let out' = out @ take (OUT_LIM - length out) (take (pfx_norm_len l) l);
                        line' = drop n line in
                    Some (if sep = BSLASH then conv_tok line' out' else (line', out'))))"

lemma conv_tok_shrinks: "conv_tok line out = (line', out') \<Longrightarrow> length line' \<le> length line"
  by (induction line out rule: conv_tok.induct) (auto split: if_splits)

lemma at_match_le: "at_match hay nd ci = Some n \<Longrightarrow> n = length nd \<and> n \<le> length hay"
  by (induction hay nd ci arbitrary: n rule: at_match.induct) (auto split: if_splits)

lemma back_match_shrinks: "back_match vs line out = Some (line', out') \<Longrightarrow> length line' < length line"
proof (induction vs)
  case (Cons v vs)
  show ?case
  proof (cases "map_fields v")
    case None
    with Cons show ?thesis by simp
  next
    case (Some f)
    obtain l r sep where f: "f = (l, r, sep)" by (cases f)
    show ?thesis
    proof (cases "at_match line r (sep = BSLASH)")
      case None
      with Some f Cons show ?thesis by simp
    next
      case (Some n)
      note le = at_match_le [OF Some]
      show ?thesis
      proof (cases "n = 0")
        case True
        with Some f \<open>map_fields v = Some f\<close> Cons show ?thesis by simp
      next
        case False
        with le have "length line - n < length line" by linarith
        with False Some f \<open>map_fields v = Some f\<close> Cons.prems show ?thesis
          by (auto simp: Let_def split: if_splits dest!: conv_tok_shrinks)
      qed
    qed
  qed
qed simp

function back_loop :: "string list \<Rightarrow> string \<Rightarrow> string \<Rightarrow> string" where
  "back_loop vs line out =
     (if line = [] \<or> length out \<ge> OUT_LIM then out
      else (case back_match vs line out of
          Some (line', out') \<Rightarrow> back_loop vs line' out'
        | None \<Rightarrow> back_loop vs (tl line) (out @ [hd line])))"
  by pat_completeness auto
termination
  by (relation "measure (\<lambda>(vs, line, out). length line)") (auto dest: back_match_shrinks)

declare back_loop.simps [simp del]

definition pm_back_line :: "gcds_kv list \<Rightarrow> string \<Rightarrow> string \<Rightarrow> int \<Rightarrow> string" where
  "pm_back_line kv al line sz =
     (let maps = pm_maps kv al in if maps = [] then line else strlcpy (back_loop maps line []) sz)"

text \<open>The search of \<^verbatim>\<open>pm_cwd\<close>: the longest match so far (\<open>None\<close> for -1) and its map.\<close>

definition better :: "nat option \<Rightarrow> nat option \<Rightarrow> bool" where
  "better m b = (case m of None \<Rightarrow> False | Some x \<Rightarrow> (case b of None \<Rightarrow> True | Some y \<Rightarrow> x > y))"

fun pm_best :: "string \<Rightarrow> string list \<Rightarrow> nat option \<Rightarrow> string \<Rightarrow> nat option \<times> string" where
  "pm_best d [] bestlen best = (bestlen, best)"
| "pm_best d (v # vs) bestlen best =
     (case cut BAR (strlcpy v CONF_VAL_MAX) of
        None \<Rightarrow> pm_best d vs bestlen best
      | Some (l, _) \<Rightarrow>
          let m = pfx_match d l in
          if better m bestlen then pm_best d vs m (strlcpy v CONF_VAL_MAX)
          else pm_best d vs bestlen best)"

datatype pm_result = PM_NONE | PM_ERR | PM_OK string

definition pm_cwd :: "gcds_kv list \<Rightarrow> string \<Rightarrow> string option \<Rightarrow> int \<Rightarrow> pm_result" where
  "pm_cwd kv al getcwd sz =
     (case getcwd of
        None \<Rightarrow> PM_NONE
      | Some d \<Rightarrow>
          (case pm_best d (List.map_filter (\<lambda>i. conf_get kv (map_key al i)) [1..<9]) None [] of
             (None, _) \<Rightarrow> PM_NONE
           | (Some n, best) \<Rightarrow>
               (case map_fields best of
                  None \<Rightarrow> PM_NONE
                | Some (_, remote, sep0) \<Rightarrow>
                    let sep = (if sep0 = NUL then SLASH else sep0) in
                    (case pm_build sz remote (drop n d) sep of
                       None \<Rightarrow> PM_ERR | Some out \<Rightarrow> PM_OK out))))"

section \<open>Reference\<close>

text \<open>\<open>p\<close> is a prefix of \<open>d\<close> that ends at a component boundary.\<close>

definition comp_prefix :: "string \<Rightarrow> string \<Rightarrow> bool" where
  "comp_prefix p d \<longleftrightarrow> p \<noteq> [] \<and> (d = p \<or> (\<exists>r. d = p @ SLASH # r))"

definition norm :: "string \<Rightarrow> string" where
  "norm pfx = take (pfx_norm_len pfx) pfx"

definition pm_join :: "string \<Rightarrow> string \<Rightarrow> char \<Rightarrow> string" where
  "pm_join remote rest sep =
     remote @ map (\<lambda>c. if c = SLASH then sep else c)
       (if rest \<noteq> [] \<and> hd rest = SLASH \<and> remote \<noteq> [] \<and> last remote = sep then tl rest else rest)"

text \<open>The configured map values, and the local prefix of one.\<close>

definition pm_vals :: "gcds_kv list \<Rightarrow> string \<Rightarrow> string list" where
  "pm_vals kv al = List.map_filter (\<lambda>i. conf_get kv (map_key al i)) [1..<9]"

definition local_of :: "string \<Rightarrow> string option" where
  "local_of v = map_option fst (cut BAR (strlcpy v CONF_VAL_MAX))"

definition matches :: "string \<Rightarrow> string \<Rightarrow> bool" where
  "matches d v \<longleftrightarrow> (\<exists>l. local_of v = Some l \<and> comp_prefix (norm l) d)"

section \<open>Matching and joining\<close>

lemma norm_loop_le: "norm_loop s n \<le> n"
  by (induction n) auto

lemma norm_length: "length (norm l) = pfx_norm_len l"
  using norm_loop_le [of l "length l"] by (simp add: norm_def pfx_norm_len_def)

lemma pfx_match_iff:
  assumes "is_cstr d"
  shows "pfx_match d l = (if comp_prefix (norm l) d then Some (length (norm l)) else None)"
proof -
  let ?n = "pfx_norm_len l"
  have le: "?n \<le> length l" by (simp add: pfx_norm_len_def norm_loop_le)
  have "comp_prefix (norm l) d \<longleftrightarrow>
      ?n \<noteq> 0 \<and> take ?n d = take ?n l \<and> (char_at d ?n = NUL \<or> char_at d ?n = SLASH)"
  proof
    assume h: "comp_prefix (norm l) d"
    then have t: "take ?n d = take ?n l" using le by (auto simp: comp_prefix_def norm_def)
    moreover have "?n \<noteq> 0" using h le by (auto simp: comp_prefix_def norm_def)
    moreover have "char_at d ?n = NUL \<or> char_at d ?n = SLASH"
      using h norm_length [of l] by (auto simp: comp_prefix_def char_at_def nth_append)
    ultimately show "?n \<noteq> 0 \<and> take ?n d = take ?n l \<and> (char_at d ?n = NUL \<or> char_at d ?n = SLASH)" by blast
  next
    assume h: "?n \<noteq> 0 \<and> take ?n d = take ?n l \<and> (char_at d ?n = NUL \<or> char_at d ?n = SLASH)"
    then have d: "d = norm l @ drop ?n d" by (metis append_take_drop_id norm_def)
    have ne: "norm l \<noteq> []" using h norm_length [of l] by auto
    show "comp_prefix (norm l) d"
    proof (cases "?n < length d")
      case True
      then have "d ! ?n \<noteq> NUL" using assms nth_mem [OF True] unfolding is_cstr_def by metis
      then have "d ! ?n = SLASH" using h True by (simp add: char_at_def)
      then have "drop ?n d = SLASH # drop (Suc ?n) d" using True by (metis Cons_nth_drop_Suc)
      with d ne show ?thesis unfolding comp_prefix_def by metis
    next
      case False
      with d ne show ?thesis by (auto simp: comp_prefix_def)
    qed
  qed
  then show ?thesis by (auto simp: pfx_match_def Let_def norm_length)
qed

lemma build_loop_exact:
  "int (length out) < sz \<Longrightarrow> build_loop out sz rest sep =
     (if int (length out + length rest) < sz then Some (out @ map (\<lambda>c. if c = SLASH then sep else c) rest) else None)"
  by (induction out sz rest sep rule: build_loop.induct) auto

lemma pm_build_exact:
  assumes "0 < sz"
  shows "pm_build sz remote rest sep =
    (if int (length (pm_join remote rest sep)) < sz then Some (pm_join remote rest sep) else None)"
proof (cases "int (length remote) < sz")
  case True
  then have "strlcpy remote sz = remote" by (simp add: gcds_strlcpy_fits)
  with True show ?thesis by (auto simp: pm_build_def Let_def build_loop_exact pm_join_def)
next
  case False
  then show ?thesis by (auto simp: pm_build_def pm_join_def)
qed

lemma pm_best_spec:
  assumes "is_cstr d" and "pm_best d vs b0 best0 = (b, best)"
  shows "(case b of
      None \<Rightarrow> b0 = None \<and> (\<forall>v \<in> set vs. \<not> matches d v)
    | Some n \<Rightarrow>
        (\<forall>v \<in> set vs. \<forall>l. local_of v = Some l \<longrightarrow> comp_prefix (norm l) d \<longrightarrow> length (norm l) \<le> n)
        \<and> (\<forall>n0. b0 = Some n0 \<longrightarrow> n0 \<le> n)
        \<and> (b0 = Some n \<and> best = best0 \<or>
            (\<exists>v l. v \<in> set vs \<and> local_of v = Some l \<and> comp_prefix (norm l) d \<and> n = length (norm l)
               \<and> best = strlcpy v CONF_VAL_MAX)))"
  using assms(2)
proof (induction vs arbitrary: b0 best0)
  case Nil
  then show ?case by (auto split: option.splits)
next
  case (Cons v vs)
  show ?case
  proof (cases "cut BAR (strlcpy v CONF_VAL_MAX)")
    case None
    then have "local_of v = None" by (simp add: local_of_def)
    with None Cons.IH [of b0 best0] Cons.prems show ?thesis
      by (fastforce simp: matches_def split: option.splits)
  next
    case (Some y)
    then obtain l z where y: "cut BAR (strlcpy v CONF_VAL_MAX) = Some (l, z)" by (cases y) auto
    then have lo: "local_of v = Some l" by (simp add: local_of_def)
    show ?thesis
    proof (cases "better (pfx_match d l) b0")
      case True
      then have cp: "comp_prefix (norm l) d" "pfx_match d l = Some (length (norm l))"
        by (auto simp: better_def pfx_match_iff [OF assms(1)] split: if_splits option.splits)
      have "\<forall>n0. b0 = Some n0 \<longrightarrow> n0 \<le> length (norm l)"
        using True cp by (auto simp: better_def split: option.splits)
      with True cp lo y Cons.IH [of "pfx_match d l" "strlcpy v CONF_VAL_MAX"] Cons.prems show ?thesis
        by (fastforce simp: Let_def split: option.splits)
    next
      case False
      then have nb: "comp_prefix (norm l) d \<Longrightarrow> \<exists>n0. b0 = Some n0 \<and> length (norm l) \<le> n0"
        by (auto simp: better_def pfx_match_iff [OF assms(1)] split: option.splits)
      with False lo y Cons.IH [of b0 best0] Cons.prems show ?thesis
        by (fastforce simp: Let_def matches_def split: option.splits)
    qed
  qed
qed

text \<open>
  The remote working directory is chosen by the longest local prefix that matches at a component
  boundary: without a matching map there is no mapping; otherwise some matching map of maximal local
  prefix is used, and the result is its remote prefix followed by the rest of the path with its
  separators converted and none doubled at the junction, or the error when that does not fit.
\<close>

lemma pm_cwd_longest_prefix:
  assumes "is_cstr d" and "0 < sz"
  shows "if \<forall>v \<in> set (pm_vals kv al). \<not> matches d v then pm_cwd kv al (Some d) sz = PM_NONE
    else \<exists>v l remote sep. v \<in> set (pm_vals kv al) \<and> local_of v = Some l \<and> comp_prefix (norm l) d
      \<and> (\<forall>v' l'. v' \<in> set (pm_vals kv al) \<longrightarrow> local_of v' = Some l' \<longrightarrow> comp_prefix (norm l') d
            \<longrightarrow> length (norm l') \<le> length (norm l))
      \<and> map_fields (strlcpy v CONF_VAL_MAX) = Some (l, remote, sep)
      \<and> (let r = pm_join remote (drop (length (norm l)) d) (if sep = NUL then SLASH else sep) in
         pm_cwd kv al (Some d) sz = (if int (length r) < sz then PM_OK r else PM_ERR))"
proof -
  obtain b best where pb: "pm_best d (pm_vals kv al) None [] = (b, best)" by (metis surj_pair)
  note sp = pm_best_spec [OF assms(1) pb]
  note def = pm_cwd_def [of kv al "Some d" sz, folded pm_vals_def]
  show ?thesis
  proof (cases b)
    case None
    with sp pb def show ?thesis by simp
  next
    case (Some n)
    with sp obtain v l where v: "v \<in> set (pm_vals kv al)" "local_of v = Some l" "comp_prefix (norm l) d"
      "n = length (norm l)" "best = strlcpy v CONF_VAL_MAX" by auto
    from v(2) obtain r where cb: "cut BAR best = Some (l, r)" by (auto simp: local_of_def v(5))
    then obtain remote sep where mf: "map_fields best = Some (l, remote, sep)"
      by (cases "cut BAR r") (auto simp: map_fields_def)
    have "\<not> (\<forall>v \<in> set (pm_vals kv al). \<not> matches d v)" using v by (auto simp: matches_def)
    moreover have "pm_cwd kv al (Some d) sz =
        (let r = pm_join remote (drop (length (norm l)) d) (if sep = NUL then SLASH else sep) in
         if int (length r) < sz then PM_OK r else PM_ERR)"
      using pb Some mf v(4) by (simp add: def pm_build_exact [OF assms(2)] Let_def)
    ultimately show ?thesis
      using v mf sp Some by (auto simp: Let_def)
  qed
qed

definition demo_kv :: "gcds_kv list" where
  "demo_kv = [\<lparr>key = ''host.w.map.1'', val = ''/mnt/p|C:'' @ [BSLASH] @ ''p''\<rparr>]"

lemma demo_vals: "pm_vals demo_kv ''w'' = [''/mnt/p|C:'' @ [BSLASH] @ ''p'']"
  by (simp add: pm_vals_def demo_kv_def map_key_def rc_key_def upt_rec gcds_strlcat_append gcds_strlcat_fits
      List.map_filter_def char_of_def bit_0)

section \<open>Mapping output back\<close>

lemma at_match_prefix: "at_match (nd @ r) nd ci = Some (length nd)"
  by (induction nd) (auto simp: ci_eq_def)

lemma conv_tok_map:
  assumes "\<forall>c \<in> set line. c \<noteq> CHR '' '' \<and> c \<noteq> TAB \<and> c \<noteq> CHR 0x22" and "length out + length line \<le> OUT_LIM"
  shows "conv_tok line out = ([], out @ map (\<lambda>c. if c = BSLASH then SLASH else c) line)"
  using assms by (induction line arbitrary: out) auto

lemma norm_id: "l \<noteq> [] \<Longrightarrow> length l = 1 \<or> last l \<noteq> SLASH \<Longrightarrow> norm l = l"
  by (cases l rule: rev_cases) (auto simp: norm_def pfx_norm_len_def nth_append)



end
