(* ===== verification/Remote.thy ===== *)
theory Remote
  imports Lineio Pathmap "HOL-Library.Word"
begin

text \<open>
  \<^verbatim>\<open>client/remote.c\<close>: the client's connection to a daemon.  Diagnostics on the client's standard
  error are not modelled; what the remote command wrote is, as the bytes \<^verbatim>\<open>write\<close> accepted on the
  descriptors 1 and 2 (\<open>out1\<close>, \<open>out2\<close> of \<open>cio\<close>).  The alarm clock of \<^verbatim>\<open>arm\<close> makes a blocked read
  fail, which a device models as the end of its input.

  How a connection is opened is the argument of \<open>rc_open\<close>: \<open>ser_open\<close> and \<open>net_connect\<close>.
\<close>

unbundle bit_operations_syntax

section \<open>State\<close>

record gcds_rc =
  ch :: gcds_chan
  is_open :: bool
  cap_async :: bool
  cap_ix :: bool
  cap_live :: bool
  ostag :: string
  rhost :: string

text \<open>The output side: the two descriptors, the configuration of \<^verbatim>\<open>rc_mapback\<close> and the line
  accumulators \<^verbatim>\<open>g_acc\<close>.\<close>

record cio =
  out1 :: dev
  out2 :: dev
  mb_conf :: "(gcds_kv list \<times> string) option"
  acc1 :: string
  acc2 :: string

datatype fd = FD1 | FD2

section \<open>Opening a session\<close>

text \<open>\<^verbatim>\<open>strtok\<close> on blanks: the words of a line.\<close>

fun strtok_words :: "string \<Rightarrow> string \<Rightarrow> string list" where
  "strtok_words cur [] = (if cur = [] then [] else [cur])"
| "strtok_words cur (c # s) =
     (if c = CHR '' '' then (if cur = [] then strtok_words [] s else cur # strtok_words [] s)
      else strtok_words (cur @ [c]) s)"

definition parse_greet :: "gcds_rc \<Rightarrow> string \<Rightarrow> gcds_rc option" where
  "parse_greet rc0 line =
     (let rc = rc0\<lparr>cap_async := False, cap_ix := False, cap_live := False, ostag := [], rhost := []\<rparr> in
      case strtok_words [] line of
        g # ver # tag # host # caps \<Rightarrow>
          if g \<noteq> ''GCDS'' \<or> atol ver < 1 then None
          else Some (rc\<lparr>ostag := strlcpy tag 32, rhost := strlcpy host 64,
                       cap_async := (''ASYNC'' \<in> set caps), cap_ix := (''INTERACTIVE'' \<in> set caps),
                       cap_live := (''LIVE'' \<in> set caps)\<rparr>)
      | _ \<Rightarrow> None)"

text \<open>The loop that waits for the greeting: on a serial line other lines are skipped.\<close>

function greet_loop :: "gcds_chan \<Rightarrow> string option \<times> gcds_chan" where
  "greet_loop c =
     (case lio_get_line c GCDSP_LINE_MAX of (r, raw, c1) \<Rightarrow>
        if r \<noteq> LIO_OK then
          (if r = LIO_ELONG \<and> kind c = GCDS_CHAN_SER then greet_loop c1 else (None, fst (chan_close c1)))
        else if gcds_starts (cstr raw) ''GCDS '' then (Some (cstr raw), c1)
        else if kind c = GCDS_CHAN_TCP then (None, fst (chan_close c1))
        else greet_loop c1)"
  by pat_completeness auto
termination
  by (relation "measure (\<lambda>c. length (chan_in c))")
    (auto dest!: sym [of _ "lio_get_line _ _"] lio_get_line_shrinks)

declare greet_loop.simps [simp del]

text \<open>The channel of the configured host, \<open>None\<close> when it cannot be opened.\<close>

definition rc_connect :: "(string \<Rightarrow> int \<Rightarrow> dev option) \<Rightarrow> (string \<Rightarrow> int \<Rightarrow> dev option) \<Rightarrow> gcds_kv list \<Rightarrow> string
    \<Rightarrow> gcds_chan option" where
  "rc_connect ser_open net_connect kv al =
     (case conf_get kv (rc_key CONF_KEY_MAX al ''serial'') of
        Some serial \<Rightarrow>
          if serial \<noteq> [] then
            (case (case rcut (CHR '':'') (strlcpy serial CONF_VAL_MAX) of
                None \<Rightarrow> (strlcpy serial CONF_VAL_MAX, 9600)
              | Some (d, b) \<Rightarrow> (d, atol b)) of (d, baud) \<Rightarrow>
              (case ser_open d baud of
                 None \<Rightarrow> None
               | Some f \<Rightarrow>
                   (case lio_put_line (chan_ser f) ''QUIT'' of (r1, c1) \<Rightarrow>
                      if r1 \<noteq> LIO_OK then None
                      else (case lio_put_line c1 ''HELLO'' of (r2, c2) \<Rightarrow>
                        if r2 \<noteq> LIO_OK then None else Some c2))))
          else (case conf_get kv (rc_key CONF_KEY_MAX al ''addr'') of
              None \<Rightarrow> None
            | Some addr \<Rightarrow> map_option chan_tcp
                (net_connect addr (atol (conf_gets kv (rc_key CONF_KEY_MAX al ''port'') ''9910'') mod 65536)))
      | None \<Rightarrow>
          (case conf_get kv (rc_key CONF_KEY_MAX al ''addr'') of
             None \<Rightarrow> None
           | Some addr \<Rightarrow> map_option chan_tcp
               (net_connect addr (atol (conf_gets kv (rc_key CONF_KEY_MAX al ''port'') ''9910'') mod 65536))))"

definition rc_open :: "(string \<Rightarrow> int \<Rightarrow> dev option) \<Rightarrow> (string \<Rightarrow> int \<Rightarrow> dev option) \<Rightarrow> gcds_rc \<Rightarrow> gcds_kv list
    \<Rightarrow> string \<Rightarrow> bool \<times> gcds_rc" where
  "rc_open ser_open net_connect rc0 kv al =
     (let rc = rc0\<lparr>is_open := False\<rparr> in
      case rc_connect ser_open net_connect kv al of
        None \<Rightarrow> (False, rc)
      | Some c \<Rightarrow>
          (case greet_loop c of
             (None, c1) \<Rightarrow> (False, rc\<lparr>ch := c1\<rparr>)
           | (Some line, c1) \<Rightarrow>
               (case parse_greet (rc\<lparr>ch := c1\<rparr>) line of
                  None \<Rightarrow> (False, rc\<lparr>ch := fst (chan_close c1)\<rparr>)
                | Some rc1 \<Rightarrow> (True, rc1\<lparr>is_open := True\<rparr>))))"

section \<open>Commands\<close>

text \<open>\<open>None\<close> is the return value -1.\<close>

definition rc_get_reply :: "gcds_rc \<Rightarrow> int \<Rightarrow> string option \<times> gcds_rc" where
  "rc_get_reply rc sz =
     (case lio_get_line (ch rc) sz of (r, raw, c) \<Rightarrow>
        (if r = LIO_OK then Some (cstr raw) else None, rc\<lparr>ch := c\<rparr>))"

definition rc_cmd :: "gcds_rc \<Rightarrow> string \<Rightarrow> int \<Rightarrow> string option \<times> gcds_rc" where
  "rc_cmd rc line sz =
     (case lio_put_line (ch rc) line of (r, c) \<Rightarrow>
        if r \<noteq> LIO_OK then (None, rc\<lparr>ch := c\<rparr>)
        else (case lio_get_line c sz of (r', raw, c') \<Rightarrow>
          (if r' = LIO_OK then Some (cstr raw) else None, rc\<lparr>ch := c'\<rparr>)))"

definition rc_auth :: "gcds_rc \<Rightarrow> gcds_kv list \<Rightarrow> string \<Rightarrow> bool \<times> gcds_rc" where
  "rc_auth rc kv al =
     (case conf_get kv (rc_key CONF_KEY_MAX al ''token'') of
        None \<Rightarrow> (False, rc)
      | Some token \<Rightarrow>
          (case rc_cmd rc (strlcat (strlcat [] ''AUTH '' GCDSP_LINE_MAX) token GCDSP_LINE_MAX) GCDSP_LINE_MAX of
             (rep, rc1) \<Rightarrow> (rep = Some ''OK'', rc1)))"

text \<open>As for \<open>chan_close\<close>, the second result is the device handed back to the operating system.\<close>

definition rc_close :: "gcds_rc \<Rightarrow> gcds_rc \<times> dev option" where
  "rc_close rc =
     (if is_open rc then (case chan_close (ch rc) of (c, d) \<Rightarrow> (rc\<lparr>ch := c, is_open := False\<rparr>, d)) else (rc, None))"

section \<open>Output\<close>

definition write_fd :: "fd \<Rightarrow> char list \<Rightarrow> cio \<Rightarrow> bool \<times> cio" where
  "write_fd f buf io =
     (case f of
        FD1 \<Rightarrow> (case dev_write_all (out1 io) buf of (b, d) \<Rightarrow> (b, io\<lparr>out1 := d\<rparr>))
      | FD2 \<Rightarrow> (case dev_write_all (out2 io) buf of (b, d) \<Rightarrow> (b, io\<lparr>out2 := d\<rparr>)))"

definition acc :: "fd \<Rightarrow> cio \<Rightarrow> string" where
  "acc f io = (case f of FD1 \<Rightarrow> acc1 io | FD2 \<Rightarrow> acc2 io)"

definition set_acc :: "fd \<Rightarrow> string \<Rightarrow> cio \<Rightarrow> cio" where
  "set_acc f a io = (case f of FD1 \<Rightarrow> io\<lparr>acc1 := a\<rparr> | FD2 \<Rightarrow> io\<lparr>acc2 := a\<rparr>)"

definition rc_mapback :: "gcds_kv list \<Rightarrow> string \<Rightarrow> cio \<Rightarrow> cio" where
  "rc_mapback kv al io = io\<lparr>mb_conf := Some (kv, al), acc1 := [], acc2 := []\<rparr>"

abbreviation MB_LINE :: int where "MB_LINE \<equiv> 2048"

definition mb_emit_line :: "fd \<Rightarrow> string \<Rightarrow> bool \<Rightarrow> cio \<Rightarrow> bool \<times> cio" where
  "mb_emit_line f a newline io =
     (let line = (case mb_conf io of None \<Rightarrow> cstr a | Some (kv, al) \<Rightarrow> pm_back_line kv al (cstr a) MB_LINE) in
      case write_fd f line io of (b, io1) \<Rightarrow>
        if \<not> b then (False, io1)
        else if newline then write_fd f [LF] io1 else (True, io1))"

fun mb_feed :: "fd \<Rightarrow> char list \<Rightarrow> cio \<Rightarrow> bool \<times> cio" where
  "mb_feed f [] io = (True, io)"
| "mb_feed f (b # buf) io =
     (if b = LF then
        (case mb_emit_line f (acc f io) True io of (ok, io1) \<Rightarrow>
           if \<not> ok then (False, io1) else mb_feed f buf (set_acc f [] io1))
      else if int (length (acc f io)) \<ge> MB_LINE - 1 then
        (case write_fd f (acc f io) io of (ok, io1) \<Rightarrow>
           if \<not> ok then (False, io1) else mb_feed f buf (set_acc f [b] io1))
      else mb_feed f buf (set_acc f (acc f io @ [b]) io))"

definition mb_flush :: "cio \<Rightarrow> cio" where
  "mb_flush io =
     (if mb_conf io = None then io
      else let io1 = (if acc1 io \<noteq> [] then snd (mb_emit_line FD1 (acc1 io) False io) else io);
               io2 = (if acc2 io1 \<noteq> [] then snd (mb_emit_line FD2 (acc2 io1) False io1) else io1) in
           io2\<lparr>acc1 := [], acc2 := []\<rparr>)"

text \<open>The outcome of one line of the stream: go on, or finished with the exit code.\<close>

definition rc_out_frame :: "build \<Rightarrow> gcds_rc \<Rightarrow> string \<Rightarrow> cio \<Rightarrow> int option \<times> gcds_rc \<times> cio" where
  "rc_out_frame B rc line io =
     (if (char_at line 0 = CHR ''O'' \<or> char_at line 0 = CHR ''E'') \<and> char_at line 1 = CHR '' '' then
        (let n = atol (drop 2 line) in
         if n < 1 \<or> n > GCDSP_FRAME_MAX B then (Some (-1), rc, io)
         else (case chan_read_n (ch rc) (nat n) of
             (None, c) \<Rightarrow> (Some (-1), rc\<lparr>ch := c\<rparr>, io)
           | (Some buf, c) \<Rightarrow>
               let f = (if char_at line 0 = CHR ''O'' then FD1 else FD2) in
               case (if mb_conf io \<noteq> None then mb_feed f buf io else write_fd f buf io) of (b, io1) \<Rightarrow>
                 (if b then None else Some (-1), rc\<lparr>ch := c\<rparr>, io1)))
      else if char_at line 0 = CHR ''X'' \<and> char_at line 1 = CHR '' '' then
        (Some (atol (drop 2 line) AND 255), rc, mb_flush io)
      else (Some (-1), rc, mb_flush io))"

lemma rc_out_frame_le:
  "rc_out_frame B rc line io = (x, rc', io') \<Longrightarrow> length (chan_in (ch rc')) \<le> length (chan_in (ch rc))"
  by (auto simp: rc_out_frame_def Let_def split: if_splits option.splits prod.splits dest!: chan_read_n_le)

function rc_stream :: "build \<Rightarrow> gcds_rc \<Rightarrow> cio \<Rightarrow> int \<times> gcds_rc \<times> cio" where
  "rc_stream B rc io =
     (case lio_get_line (ch rc) GCDSP_LINE_MAX of (r, raw, c) \<Rightarrow>
        if r \<noteq> LIO_OK then (-1, rc\<lparr>ch := c\<rparr>, io)
        else (case rc_out_frame B (rc\<lparr>ch := c\<rparr>) (cstr raw) io of
            (None, rc1, io1) \<Rightarrow> rc_stream B rc1 io1
          | (Some code, rc1, io1) \<Rightarrow> (code, rc1, io1)))"
  by pat_completeness auto
termination
  by (relation "measure (\<lambda>(B, rc, io). length (chan_in (ch rc)))")
    (auto dest!: sym [of _ "lio_get_line _ _"] sym [of _ "rc_out_frame _ _ _ _"] lio_get_line_shrinks
      rc_out_frame_le)

declare rc_stream.simps [simp del]

section \<open>A stream of frames\<close>

lemma write_fd_ok:
  assumes "dev_ok (out1 io)" and "dev_ok (out2 io)"
  obtains io' where "write_fd f buf io = (True, io')" and "dev_ok (out1 io')" and "dev_ok (out2 io')"
    and "tx (out1 io') = tx (out1 io) @ (if f = FD1 then buf else [])"
    and "tx (out2 io') = tx (out2 io) @ (if f = FD2 then buf else [])" and "mb_conf io' = mb_conf io"
proof -
  obtain b1 d1 where 1: "dev_write_all (out1 io) buf = (b1, d1)" by (metis surj_pair)
  obtain b2 d2 where 2: "dev_write_all (out2 io) buf = (b2, d2)" by (metis surj_pair)
  have "b1 \<and> tx d1 = tx (out1 io) @ buf \<and> dev_ok d1" "b2 \<and> tx d2 = tx (out2 io) @ buf \<and> dev_ok d2"
    using dev_write_all_ok [OF assms(1), of buf] dev_write_all_ok [OF assms(2), of buf] 1 2 by simp_all
  with that 1 2 assms show thesis by (cases f) (auto simp: write_fd_def)
qed

lemma rc_stream_frames:
  assumes "chan_in (ch rc) = frames fs @ (''X '' @ ld code) @ LF # rest"
    and "\<forall>f \<in> set fs. frame_wf B f \<and> fst f \<in> {CHR ''O'', CHR ''E''}"
    and "0 \<le> code" and "code \<le> 255"
    and "mb_conf io = None" and "dev_ok (out1 io)" and "dev_ok (out2 io)"
  shows "\<exists>rc' io'. rc_stream B rc io = (code, rc', io') \<and> chan_in (ch rc') = rest
    \<and> chan_out (ch rc') = chan_out (ch rc)
    \<and> tx (out1 io') = tx (out1 io) @ payload (CHR ''O'') fs
    \<and> tx (out2 io') = tx (out2 io) @ payload (CHR ''E'') fs"
  using assms
proof (induction fs arbitrary: rc io)
  case Nil
  have m: "is_msg GCDSP_LINE_MAX (''X '' @ ld code)"
  proof -
    have "length (dec (nat code)) \<le> 3" using Nil.prems(3,4) by (intro dec_length) simp_all
    with Nil.prems(3) show ?thesis by (auto simp: is_msg_def ld_def)
  qed
  from Nil.prems(1) have "chan_in (ch rc) = (''X '' @ ld code) @ LF # rest" by simp
  from lio_get_line_msg [OF this m] obtain c' where
    g: "lio_get_line (ch rc) GCDSP_LINE_MAX = (LIO_OK, ''X '' @ ld code, c')" "chan_in c' = rest"
      "chan_out c' = chan_out (ch rc)" by metis
  have a: "atol (ld code) AND 255 = code"
  proof -
    have "atol (ld code) = code" using Nil.prems(3,4) by (intro atol_ld_nonneg) simp_all
    moreover have "code AND 255 = take_bit 8 code"
      by (simp add: take_bit_eq_mask mask_eq_exp_minus_1)
    ultimately show ?thesis using Nil.prems(3,4) by (simp add: take_bit_int_eq_self)
  qed
  have "rc_stream B rc io = (code, rc\<lparr>ch := c'\<rparr>, mb_flush io)"
    using g(1) is_msg_cstr [OF m] a
    by (simp add: rc_stream.simps [of B rc io] rc_out_frame_def char_at_def)
  with g(2,3) Nil.prems(5) show ?case by (simp add: mb_flush_def)
next
  case (Cons f fs)
  obtain t d where f: "f = (t, d)" by (cases f)
  let ?rest = "frames fs @ (''X '' @ ld code) @ LF # rest"
  from Cons.prems(2) f have wf: "frame_wf B (t, d)" and t: "t \<in> {CHR ''O'', CHR ''E''}" by simp_all
  have "chan_in (ch rc) = frame t d @ ?rest" using Cons.prems(1) f by simp
  then obtain c1 l where h: "lio_get_line (ch rc) GCDSP_LINE_MAX = (LIO_OK, l, c1)" "cstr l = l"
    "char_at l 0 = t" "char_at l 1 = CHR '' ''" "atol (drop 2 l) = int (length d)"
    "chan_in c1 = d @ ?rest" "chan_out c1 = chan_out (ch rc)"
    using wf t by (auto elim!: frame_hdr_read [where sz = GCDSP_LINE_MAX])
  obtain c2 where r: "chan_read_n c1 (length d) = (Some d, c2)" "chan_in c2 = ?rest" "chan_out c2 = chan_out c1"
    by (rule chan_read_append [OF h(6)])
  let ?f = "if t = CHR ''O'' then FD1 else FD2"
  obtain io1 where w: "write_fd ?f d io = (True, io1)" "dev_ok (out1 io1)" "dev_ok (out2 io1)"
    "tx (out1 io1) = tx (out1 io) @ (if ?f = FD1 then d else [])"
    "tx (out2 io1) = tx (out2 io) @ (if ?f = FD2 then d else [])" "mb_conf io1 = mb_conf io"
    by (rule write_fd_ok [OF Cons.prems(6,7)])
  have "rc_out_frame B (rc\<lparr>ch := c1\<rparr>) l io = (None, rc\<lparr>ch := c2\<rparr>, io1)"
  proof -
    have "\<not> (int (length d) < 1 \<or> int (length d) > GCDSP_FRAME_MAX B)"
      using wf by (simp add: frame_wf_def Suc_le_eq)
    then show ?thesis
      using h(3-5) r(1) w(1) t Cons.prems(5) by (auto simp: rc_out_frame_def Let_def)
  qed
  then have st: "rc_stream B rc io = rc_stream B (rc\<lparr>ch := c2\<rparr>) io1"
    using h(1,2) by (simp add: rc_stream.simps [of B rc io])
  have "\<exists>rc' io'. rc_stream B (rc\<lparr>ch := c2\<rparr>) io1 = (code, rc', io') \<and> chan_in (ch rc') = rest
    \<and> chan_out (ch rc') = chan_out (ch (rc\<lparr>ch := c2\<rparr>))
    \<and> tx (out1 io') = tx (out1 io1) @ payload (CHR ''O'') fs
    \<and> tx (out2 io') = tx (out2 io1) @ payload (CHR ''E'') fs"
    using Cons.prems(2-5) r(2) w(2,3,6) by (intro Cons.IH) simp_all
  then show ?case
    using st f t w(4,5) r(3) h(7) by auto
qed

end
