(* ===== verification/World.thy ===== *)
theory World
  imports Chan
begin

text \<open>
  What the daemon sees of its operating system.

  \<open>world\<close> is the state the daemon's calls change: the files it can open (by full name), the working
  directory and the process environment.  \<open>os\<close> collects the system calls whose answers the sources
  cannot determine; they are arguments of the model, and a statement for every \<open>os\<close> is a statement
  for every behaviour of the system.  Opening for reading fails exactly on a name that is no file.
\<close>

record world =
  files :: "string \<Rightarrow> char list option"
  cwd :: string
  environ :: "string \<Rightarrow> string option"

text \<open>A child of \<^verbatim>\<open>fork\<close>: what its output pipes deliver, its standard input, the status \<^verbatim>\<open>waitpid\<close>
  reports and the world it leaves behind.\<close>

record child =
  c_out :: dev
  c_err :: dev
  c_in :: dev
  c_status :: int
  c_after :: world

record os =
  os_resolve :: "string \<Rightarrow> string \<Rightarrow> string"
  os_chdir :: "world \<Rightarrow> string \<Rightarrow> string option"
  os_can_create :: "world \<Rightarrow> string \<Rightarrow> bool"
  os_fwrite_ok :: "world \<Rightarrow> string \<Rightarrow> char list \<Rightarrow> bool"
  os_fclose_ok :: "world \<Rightarrow> string \<Rightarrow> bool"
  os_system :: "string \<Rightarrow> world \<Rightarrow> int \<times> world"
  os_spawn :: "string list \<Rightarrow> string \<Rightarrow> string \<Rightarrow> world \<Rightarrow> int \<times> world"
  os_fork :: "string \<Rightarrow> world \<Rightarrow> child option"
  os_gethostname :: "string option"
  os_ostag :: "string option"

section \<open>File operations\<close>

definition w_name :: "os \<Rightarrow> world \<Rightarrow> string \<Rightarrow> string" where
  "w_name S w p = os_resolve S (cwd w) p"

definition w_read :: "os \<Rightarrow> world \<Rightarrow> string \<Rightarrow> char list option" where
  "w_read S w p = files w (w_name S w p)"

definition w_put :: "os \<Rightarrow> world \<Rightarrow> string \<Rightarrow> char list \<Rightarrow> world" where
  "w_put S w p d = w\<lparr>files := (files w)(w_name S w p \<mapsto> d)\<rparr>"

text \<open>\<^verbatim>\<open>unlink\<close>: removing what is not there changes nothing.\<close>

definition w_unlink :: "os \<Rightarrow> world \<Rightarrow> string \<Rightarrow> world" where
  "w_unlink S w p = w\<lparr>files := (files w)(w_name S w p := None)\<rparr>"

text \<open>\<^verbatim>\<open>fopen(p, "wb")\<close>: creates or truncates.\<close>

definition w_fopen_wb :: "os \<Rightarrow> world \<Rightarrow> string \<Rightarrow> world option" where
  "w_fopen_wb S w p = (if os_can_create S w p then Some (w_put S w p []) else None)"

lemma w_name_put [simp]: "w_name S (w_put S' w p d) q = w_name S w q"
  by (simp add: w_name_def w_put_def)

lemma w_name_unlink [simp]: "w_name S (w_unlink S' w p) q = w_name S w q"
  by (simp add: w_name_def w_unlink_def)

lemma w_read_put [simp]: "w_read S (w_put S w p d) p = Some d"
  by (simp add: w_read_def) (simp add: w_put_def)

lemma w_read_put_other: "w_name S w q \<noteq> w_name S w p \<Longrightarrow> w_read S (w_put S w p d) q = w_read S w q"
  by (simp add: w_read_def) (simp add: w_put_def)

lemma w_put_put [simp]: "w_put S (w_put S w p d) p e = w_put S w p e"
  by (simp add: w_put_def [of S "w_put S w p d"]) (simp add: w_put_def)

lemma w_unlink_put [simp]: "w_unlink S (w_put S w p d) p = w_unlink S w p"
  by (simp add: w_unlink_def [of S "w_put S w p d"]) (simp add: w_put_def w_unlink_def)

lemma w_read_unlink [simp]: "w_read S (w_unlink S w p) p = None"
  by (simp add: w_read_def) (simp add: w_unlink_def)

lemma w_cwd [simp]: "cwd (w_put S w p d) = cwd w" "cwd (w_unlink S w p) = cwd w"
  by (simp_all add: w_put_def w_unlink_def)

end
