(* ===== verification/Xfer.thy ===== *)
theory Xfer
  imports Remote World
begin

text \<open>
  \<^verbatim>\<open>client/xfer.c\<close>: the client side of PUT and GET.  The client's files are a \<open>world\<close> with the \<open>os\<close>
  of its machine.  The return value 0 is \<open>True\<close>, -1 is \<open>False\<close>; diagnostics are not modelled.
\<close>

section \<open>Upload\<close>

text \<open>The loop on the rest of the file, with the header and the data written separately.\<close>

function put_frames :: "nat \<Rightarrow> char list \<Rightarrow> gcds_chan \<Rightarrow> bool \<times> gcds_chan" where
  "put_frames chunk rest c =
     (if rest = [] \<or> chunk = 0 then (True, c)
      else let buf = take chunk rest in
        case chan_write_all c (frame_hdr (CHR ''D'') (int (length buf))) of (b1, c1) \<Rightarrow>
          if \<not> b1 then (False, c1)
          else (case chan_write_all c1 buf of (b2, c2) \<Rightarrow>
            if \<not> b2 then (False, c2) else put_frames chunk (drop chunk rest) c2))"
  by pat_completeness auto
termination
  by (relation "measure (\<lambda>(chunk, rest, c). length rest)") auto

declare put_frames.simps [simp del]

definition xfer_put :: "build \<Rightarrow> os \<Rightarrow> world \<Rightarrow> gcds_rc \<Rightarrow> string \<Rightarrow> string \<Rightarrow> bool \<times> gcds_rc" where
  "xfer_put B S w rc lpath rpath =
     (case w_read S w lpath of
        None \<Rightarrow> (False, rc)
      | Some d \<Rightarrow>
          (case rc_cmd rc (strlcat (strlcat [] ''PUT '' GCDSP_LINE_MAX) rpath GCDSP_LINE_MAX) GCDSP_LINE_MAX of
             (rep, rc1) \<Rightarrow>
               if rep \<noteq> Some ''OK'' then (False, rc1)
               else (case put_frames (nat (min (chan_chunk (ch rc1)) (GCDSP_FRAME_MAX B))) d (ch rc1) of (b, c2) \<Rightarrow>
                 if \<not> b then (False, rc1\<lparr>ch := c2\<rparr>)
                 else (case lio_put_line c2 ''D 0'' of (r, c3) \<Rightarrow>
                   if r \<noteq> LIO_OK then (False, rc1\<lparr>ch := c3\<rparr>)
                   else (case rc_get_reply (rc1\<lparr>ch := c3\<rparr>) GCDSP_LINE_MAX of
                       (None, rc4) \<Rightarrow> (False, rc4)
                     | (Some line, rc4) \<Rightarrow> (gcds_starts line ''OK'', rc4))))))"

section \<open>Download\<close>

text \<open>Draining the stream when the local file cannot be created.\<close>

function get_drain :: "build \<Rightarrow> gcds_rc \<Rightarrow> gcds_rc" where
  "get_drain B rc =
     (case rc_get_reply rc GCDSP_LINE_MAX of
        (None, rc1) \<Rightarrow> rc1
      | (Some line, rc1) \<Rightarrow>
          if char_at line 0 = CHR ''D'' \<and> char_at line 1 = CHR '' '' then
            (let n = atol (drop 2 line) in
             if n = 0 then rc1
             else if n < 0 \<or> n > GCDSP_FRAME_MAX B then rc1
             else (case chan_read_n (ch rc1) (nat n) of
                 (None, c) \<Rightarrow> rc1\<lparr>ch := c\<rparr>
               | (Some _, c) \<Rightarrow> get_drain B (rc1\<lparr>ch := c\<rparr>)))
          else rc1)"
  by pat_completeness auto

lemma rc_get_reply_shrinks:
  "rc_get_reply rc sz = (Some l, rc') \<Longrightarrow> length (chan_in (ch rc')) < length (chan_in (ch rc))"
  by (auto simp: rc_get_reply_def split: prod.splits if_splits dest!: lio_get_line_shrinks)

termination get_drain
  by (relation "measure (\<lambda>(B, rc). length (chan_in (ch rc)))")
    (auto dest!: sym [of _ "rc_get_reply _ _"] sym [of _ "chan_read_n _ _"] rc_get_reply_shrinks chan_read_n_le)

declare get_drain.simps [simp del]

text \<open>The receiving loop; \<open>got\<close> is what the local file holds.\<close>

function get_frames :: "build \<Rightarrow> os \<Rightarrow> string \<Rightarrow> char list \<Rightarrow> gcds_rc \<Rightarrow> world \<Rightarrow> bool \<times> gcds_rc \<times> world" where
  "get_frames B S lpath got rc w =
     (case rc_get_reply rc GCDSP_LINE_MAX of
        (None, rc1) \<Rightarrow> (False, rc1, w)
      | (Some line, rc1) \<Rightarrow>
          if char_at line 0 = CHR ''D'' \<and> char_at line 1 = CHR '' '' then
            (let n = atol (drop 2 line) in
             if n = 0 then (os_fclose_ok S w lpath, rc1, w)
             else if n < 0 \<or> n > GCDSP_FRAME_MAX B then (False, rc1, w)
             else (case chan_read_n (ch rc1) (nat n) of
                 (None, c) \<Rightarrow> (False, rc1\<lparr>ch := c\<rparr>, w)
               | (Some buf, c) \<Rightarrow>
                   if \<not> os_fwrite_ok S w lpath buf then (False, rc1\<lparr>ch := c\<rparr>, w)
                   else get_frames B S lpath (got @ buf) (rc1\<lparr>ch := c\<rparr>) (w_put S w lpath (got @ buf))))
          else (False, rc1, w))"
  by pat_completeness auto
termination
  by (relation "measure (\<lambda>(B, S, lpath, got, rc, w). length (chan_in (ch rc)))")
    (auto dest!: sym [of _ "rc_get_reply _ _"] sym [of _ "chan_read_n _ _"] rc_get_reply_shrinks chan_read_n_le)

declare get_frames.simps [simp del]

definition xfer_get :: "build \<Rightarrow> os \<Rightarrow> world \<Rightarrow> gcds_rc \<Rightarrow> string \<Rightarrow> string \<Rightarrow> bool \<times> gcds_rc \<times> world" where
  "xfer_get B S w rc rpath lpath =
     (case rc_cmd rc (strlcat (strlcat [] ''GET '' GCDSP_LINE_MAX) rpath GCDSP_LINE_MAX) GCDSP_LINE_MAX of
        (rep, rc1) \<Rightarrow>
          if rep \<noteq> Some ''OK'' then (False, rc1, w)
          else (case w_fopen_wb S w lpath of
              None \<Rightarrow> (False, get_drain B rc1, w)
            | Some w1 \<Rightarrow> get_frames B S lpath [] rc1 w1))"

section \<open>What is sent and what arrives\<close>

lemma rc_get_reply_msg:
  assumes "chan_in (ch rc) = l @ LF # rest" and "is_msg GCDSP_LINE_MAX l"
  obtains c where "rc_get_reply rc GCDSP_LINE_MAX = (Some l, rc\<lparr>ch := c\<rparr>)" "chan_in c = rest"
    "chan_out c = chan_out (ch rc)" "chan_ok c = chan_ok (ch rc)" "kind c = kind (ch rc)"
proof -
  obtain c where "lio_get_line (ch rc) GCDSP_LINE_MAX = (LIO_OK, l, c)" "chan_in c = rest"
    "chan_out c = chan_out (ch rc)" "chan_ok c = chan_ok (ch rc)" "kind c = kind (ch rc)"
    by (rule lio_get_line_msg [OF assms])
  with that [of c] is_msg_cstr [OF assms(2)] show thesis by (simp add: rc_get_reply_def)
qed

lemma rc_cmd_msg:
  assumes "chan_in (ch rc) = l @ LF # rest" and "is_msg GCDSP_LINE_MAX l" and "chan_ok (ch rc)"
  obtains c where "rc_cmd rc cmd GCDSP_LINE_MAX = (Some l, rc\<lparr>ch := c\<rparr>)" "chan_in c = rest"
    "chan_out c = chan_out (ch rc) @ cmd @ [LF]" "chan_ok c" "kind c = kind (ch rc)"
proof -
  obtain c1 where p: "lio_put_line (ch rc) cmd = (LIO_OK, c1)" "chan_out c1 = chan_out (ch rc) @ cmd @ [LF]"
    "chan_ok c1" "chan_in c1 = chan_in (ch rc)" "kind c1 = kind (ch rc)" by (rule put_line_ok [OF assms(3)])
  from assms(1) p(4) have "chan_in c1 = l @ LF # rest" by simp
  then obtain c where "lio_get_line c1 GCDSP_LINE_MAX = (LIO_OK, l, c)" "chan_in c = rest"
    "chan_out c = chan_out c1" "chan_ok c = chan_ok c1" "kind c = kind c1"
    by (rule lio_get_line_msg [OF _ assms(2)])
  with p that [of c] is_msg_cstr [OF assms(2)] show thesis by (simp add: rc_cmd_def)
qed

text \<open>An upload is the command, the file as D frames and the terminator.\<close>

lemma put_frames_out:
  assumes "0 < chunk" and "int chunk \<le> GCDSP_FRAME_MAX B" and "chan_ok c"
  shows "\<exists>c' fs. put_frames chunk rest c = (True, c') \<and> chan_out c' = chan_out c @ frames fs
    \<and> (\<forall>f \<in> set fs. frame_wf B f \<and> fst f = CHR ''D'') \<and> concat (map snd fs) = rest
    \<and> chan_ok c' \<and> chan_in c' = chan_in c \<and> kind c' = kind c"
  using assms(3)
proof (induction "length rest" arbitrary: rest c rule: less_induct)
  case less
  show ?case
  proof (cases "rest = []")
    case True
    with less.prems show ?thesis
      by (intro exI [of _ c] exI [of _ "[]"]) (simp add: put_frames.simps [of chunk "[]"])
  next
    case False
    let ?b = "take chunk rest" and ?h = "frame_hdr (CHR ''D'') (int (length (take chunk rest)))"
    have b: "frame_wf B (CHR ''D'', ?b)" using False assms(1,2) by (auto simp: frame_wf_def)
    obtain c1 where w1: "chan_write_all c ?h = (True, c1)" "chan_out c1 = chan_out c @ ?h" "chan_ok c1"
      "chan_in c1 = chan_in c" "kind c1 = kind c" by (rule chan_write_ok [OF less.prems])
    obtain c2 where w2: "chan_write_all c1 ?b = (True, c2)" "chan_out c2 = chan_out c1 @ ?b" "chan_ok c2"
      "chan_in c2 = chan_in c1" "kind c2 = kind c1" by (rule chan_write_ok [OF w1(3)])
    have o: "chan_out c2 = chan_out c @ frame (CHR ''D'') ?b" using w1(2) w2(2) by (simp add: frame_def)
    have "length (drop chunk rest) < length rest" using False assms(1) by simp
    from less.hyps [OF this w2(3)] obtain c' fs where IH: "put_frames chunk (drop chunk rest) c2 = (True, c')"
      "chan_out c' = chan_out c2 @ frames fs" "\<forall>f \<in> set fs. frame_wf B f \<and> fst f = CHR ''D''"
      "concat (map snd fs) = drop chunk rest" "chan_ok c'" "chan_in c' = chan_in c2" "kind c' = kind c2" by blast
    have "put_frames chunk rest c = (True, c')"
      unfolding put_frames.simps [of chunk rest] Let_def using False assms(1) w1(1) w2(1) IH(1) by (simp del: length_take)
    then show ?thesis using IH(2-7) b o w1(4,5) w2(4,5)
      by (intro exI [of _ c'] exI [of _ "(CHR ''D'', ?b) # fs"]) simp
  qed
qed

text \<open>A sequence of D frames and the terminator is stored as the concatenation of the payloads.\<close>

lemma get_frames_in:
  assumes "chan_in (ch rc) = frames fs @ ''D 0'' @ LF # rest"
    and "\<forall>f \<in> set fs. frame_wf B f \<and> fst f = CHR ''D''"
    and "\<forall>v p b. os_fwrite_ok S v p b" and "\<forall>v p. os_fclose_ok S v p"
    and "w_read S w lpath = Some got"
  shows "\<exists>rc' w'. get_frames B S lpath got rc w = (True, rc', w') \<and> chan_in (ch rc') = rest
    \<and> chan_out (ch rc') = chan_out (ch rc) \<and> chan_ok (ch rc') = chan_ok (ch rc)
    \<and> w' = (if fs = [] then w else w_put S w lpath (got @ concat (map snd fs)))"
  using assms(1,2,5)
proof (induction fs arbitrary: rc got w)
  case Nil
  have m: "is_msg GCDSP_LINE_MAX ''D 0''" by (simp add: is_msg_def)
  from Nil have "chan_in (ch rc) = ''D 0'' @ LF # rest" by simp
  then obtain c where c: "rc_get_reply rc GCDSP_LINE_MAX = (Some ''D 0'', rc\<lparr>ch := c\<rparr>)" "chan_in c = rest"
    "chan_out c = chan_out (ch rc)" "chan_ok c = chan_ok (ch rc)"
    by (rule rc_get_reply_msg [OF _ m])
  have "atol ''0'' = 0" by code_simp
  with c assms(4) show ?case by (simp add: get_frames.simps [of B S lpath got rc] char_at_def)
next
  case (Cons f fs)
  obtain t d where f: "f = (t, d)" by (cases f)
  let ?rest = "frames fs @ ''D 0'' @ LF # rest"
  from Cons.prems(2) f have wf: "frame_wf B (t, d)" and t: "t = CHR ''D''" by auto
  have "chan_in (ch rc) = frame t d @ ?rest" using Cons.prems(1) f by simp
  then obtain c1 l where h: "lio_get_line (ch rc) GCDSP_LINE_MAX = (LIO_OK, l, c1)" "cstr l = l"
    "char_at l 0 = t" "char_at l 1 = CHR '' ''" "atol (drop 2 l) = int (length d)"
    "chan_in c1 = d @ ?rest" "chan_out c1 = chan_out (ch rc)" "chan_ok c1 = chan_ok (ch rc)"
    using wf t by (auto elim!: frame_hdr_read [where sz = GCDSP_LINE_MAX])
  obtain c2 where r: "chan_read_n c1 (length d) = (Some d, c2)" "chan_in c2 = ?rest" "chan_out c2 = chan_out c1"
    "chan_ok c2 = chan_ok c1" by (rule chan_read_append [OF h(6)])
  have g: "rc_get_reply rc GCDSP_LINE_MAX = (Some l, rc\<lparr>ch := c1\<rparr>)" using h(1,2) by (simp add: rc_get_reply_def)
  have n: "d \<noteq> []" "\<not> (int (length d) < 0 \<or> int (length d) > GCDSP_FRAME_MAX B)"
    using wf by (simp_all add: frame_wf_def)
  have st: "get_frames B S lpath got rc w
      = get_frames B S lpath (got @ d) (rc\<lparr>ch := c2\<rparr>) (w_put S w lpath (got @ d))"
    using g h(3-5) t n r(1) assms(3) by (simp add: get_frames.simps [of B S lpath got rc] Let_def)
  have "\<exists>rc' w'. get_frames B S lpath (got @ d) (rc\<lparr>ch := c2\<rparr>) (w_put S w lpath (got @ d)) = (True, rc', w')
    \<and> chan_in (ch rc') = rest \<and> chan_out (ch rc') = chan_out (ch (rc\<lparr>ch := c2\<rparr>))
    \<and> chan_ok (ch rc') = chan_ok (ch (rc\<lparr>ch := c2\<rparr>))
    \<and> w' = (if fs = [] then w_put S w lpath (got @ d) else w_put S (w_put S w lpath (got @ d)) lpath ((got @ d) @ concat (map snd fs)))"
    using Cons.prems(2) r(2) by (intro Cons.IH) simp_all
  then show ?case using st f h(7,8) r(3,4) by auto
qed

end
