(* ===== verification/Client.thy ===== *)
theory Client
  imports Xfer
begin

text \<open>
  The rest of the client: \<^verbatim>\<open>client/toolias.c\<close>, \<^verbatim>\<open>client/asyncjob.c\<close>, \<^verbatim>\<open>client/ixmode.c\<close> and
  \<^verbatim>\<open>client/main.c\<close>.  Diagnostics on standard error are not modelled.  What the environment of the client
  decides is data of the model: what each attempt to connect finds (\<open>attempt\<close>), what each round of
  \<^verbatim>\<open>select\<close> reports (\<open>ixtick\<close>); a result \<open>None\<close> means that the client is still waiting at the end of these
  lists.
\<close>

abbreviation (input) EX_FAIL :: int where "EX_FAIL \<equiv> 125"

text \<open>One attempt to connect: what \<^verbatim>\<open>ser_open\<close> and \<^verbatim>\<open>net_connect\<close> return.\<close>

record attempt =
  a_ser :: "string \<Rightarrow> int \<Rightarrow> dev option"
  a_net :: "string \<Rightarrow> int \<Rightarrow> dev option"

section \<open>Tool aliases\<close>

definition tool_expand :: "gcds_kv list \<Rightarrow> string \<Rightarrow> string \<Rightarrow> int \<Rightarrow> string option" where
  "tool_expand kv al name sz =
     (let what = strlcat (strlcat [] ''tool.'' CONF_KEY_MAX) name CONF_KEY_MAX in
      case conf_get kv (rc_key CONF_KEY_MAX al what) of
        None \<Rightarrow> None
      | Some v \<Rightarrow> Some (strlcpy v sz))"

section \<open>Polling for a result\<close>

text \<open>The loop of \<^verbatim>\<open>poll_result\<close>; \<open>want\<close> is the buffer of that name.\<close>

fun poll_loop :: "build \<Rightarrow> gcds_kv list \<Rightarrow> string \<Rightarrow> int \<Rightarrow> string \<Rightarrow> attempt list \<Rightarrow> gcds_rc \<Rightarrow> cio
    \<Rightarrow> (int \<times> dev option \<times> cio) option" where
  "poll_loop B kv al jobid want [] rc io = None"
| "poll_loop B kv al jobid want (e # es) rc io =
     (case rc_open (a_ser e) (a_net e) rc kv al of (opened, rc1) \<Rightarrow>
        if \<not> opened then poll_loop B kv al jobid want es rc1 io
        else (case rc_auth rc1 kv al of (authed, rc2) \<Rightarrow>
          if \<not> authed then Some (-1, snd (rc_close rc2), io)
          else (case rc_cmd rc2 ''STAT'' GCDSP_LINE_MAX of (rep, rc3) \<Rightarrow>
            (case rep of
               None \<Rightarrow> poll_loop B kv al jobid want es (fst (rc_close rc3)) io
             | Some line \<Rightarrow>
                 if line = want then
                   (let want1 = ''RESULT '' @ ld jobid in
                    case lio_put_line (ch rc3) want1 of (r, c) \<Rightarrow>
                      if r \<noteq> LIO_OK then poll_loop B kv al jobid want1 es (fst (rc_close (rc3\<lparr>ch := c\<rparr>))) io
                      else (case rc_stream B (rc3\<lparr>ch := c\<rparr>) io of (code, rc4, io1) \<Rightarrow>
                        if code < 0 then poll_loop B kv al jobid want1 es (fst (rc_close rc4)) io1
                        else Some (code, snd (rc_close rc4), io1)))
                 else if gcds_starts line ''OK busy'' then poll_loop B kv al jobid want es (fst (rc_close rc3)) io
                 else Some (-1, snd (rc_close rc3), io)))))"

declare poll_loop.simps [simp del]

definition poll_result :: "build \<Rightarrow> gcds_kv list \<Rightarrow> string \<Rightarrow> int \<Rightarrow> attempt list \<Rightarrow> gcds_rc \<Rightarrow> cio
    \<Rightarrow> (int \<times> dev option \<times> cio) option" where
  "poll_result B kv al jobid es rc io = poll_loop B kv al jobid (''OK result '' @ ld jobid) es rc io"

section \<open>Interactive execution\<close>

text \<open>A round of the loop: whether an interrupt arrived before it, whether \<^verbatim>\<open>select\<close> was interrupted, what
  \<^verbatim>\<open>read\<close> on the standard input returns when it is ready (nothing at the end of file or on an error), and
  whether the session is readable.\<close>

record ixtick =
  i_int :: bool
  i_eintr :: bool
  i_stdin :: "char list option"
  i_sess :: bool

text \<open>The first part of a round: the interrupt.  The result is the new channel and \<^verbatim>\<open>sent_k\<close>, or \<open>None\<close>
  when the loop ends with -1.\<close>

definition ix_int :: "ixtick \<Rightarrow> bool \<Rightarrow> gcds_chan \<Rightarrow> bool \<times> gcds_chan \<times> bool" where
  "ix_int t sent_k c =
     (if \<not> i_int t then (True, c, sent_k)
      else if sent_k then (False, c, sent_k)
      else (case lio_put_line c ''K'' of (r, c1) \<Rightarrow> (r = LIO_OK, c1, True)))"

text \<open>The second part: the standard input.\<close>

definition ix_stdin :: "ixtick \<Rightarrow> bool \<Rightarrow> gcds_chan \<Rightarrow> bool \<times> gcds_chan \<times> bool" where
  "ix_stdin t stdin_open c =
     (case i_stdin t of
        None \<Rightarrow> (True, c, stdin_open)
      | Some data \<Rightarrow>
          if \<not> stdin_open then (True, c, stdin_open)
          else let buf = take 1024 data in
            if buf = [] then (case lio_put_line c ''I 0'' of (r, c1) \<Rightarrow> (r = LIO_OK, c1, False))
            else (case chan_write_all c (frame_hdr (CHR ''I'') (int (length buf))) of (b1, c1) \<Rightarrow>
              if \<not> b1 then (False, c1, True)
              else (case chan_write_all c1 buf of (b2, c2) \<Rightarrow> (b2, c2, True))))"

fun ix_loop :: "build \<Rightarrow> ixtick list \<Rightarrow> bool \<Rightarrow> bool \<Rightarrow> gcds_rc \<Rightarrow> cio \<Rightarrow> (int \<times> gcds_rc \<times> cio) option" where
  "ix_loop B [] sent_k stdin_open rc io = None"
| "ix_loop B (t # ts) sent_k stdin_open rc io =
     (case ix_int t sent_k (ch rc) of (ok, c, k) \<Rightarrow>
        if \<not> ok then Some (-1, rc\<lparr>ch := c\<rparr>, io)
        else if i_eintr t then ix_loop B ts k stdin_open (rc\<lparr>ch := c\<rparr>) io
        else (case ix_stdin t stdin_open c of (ok1, c1, so) \<Rightarrow>
          if \<not> ok1 then Some (-1, rc\<lparr>ch := c1\<rparr>, io)
          else if \<not> i_sess t then ix_loop B ts k so (rc\<lparr>ch := c1\<rparr>) io
          else (case lio_get_line c1 GCDSP_LINE_MAX of (r, raw, c2) \<Rightarrow>
            if r \<noteq> LIO_OK then Some (-1, rc\<lparr>ch := c2\<rparr>, io)
            else (case rc_out_frame B (rc\<lparr>ch := c2\<rparr>) (cstr raw) io of (res, rc1, io1) \<Rightarrow>
              (case res of None \<Rightarrow> ix_loop B ts k so rc1 io1 | Some code \<Rightarrow> Some (code, rc1, io1))))))"

definition ix_client :: "build \<Rightarrow> gcds_rc \<Rightarrow> string \<Rightarrow> ixtick list \<Rightarrow> cio \<Rightarrow> (int \<times> gcds_rc \<times> cio) option" where
  "ix_client B rc cmd ts io =
     (case lio_put_line (ch rc) (strlcat (strlcat [] ''RUNI '' GCDSP_LINE_MAX) cmd GCDSP_LINE_MAX) of (r, c) \<Rightarrow>
        if r \<noteq> LIO_OK then Some (-1, rc\<lparr>ch := c\<rparr>, io)
        else ix_loop B ts False True (rc\<lparr>ch := c\<rparr>) io)"

section \<open>The configuration\<close>

record cl_env =
  ce_file :: "string \<Rightarrow> char list option"
  ce_getenv :: "string \<Rightarrow> string option"
  ce_net_ok :: bool
  ce_first :: attempt
  ce_polls :: "attempt list"
  ce_cwd :: "string option"
  ce_ticks :: "ixtick list"
  ce_os :: os

definition try_conf :: "build \<Rightarrow> cl_env \<Rightarrow> string option \<Rightarrow> string \<Rightarrow> gcds_kv list option" where
  "try_conf B E dir name =
     (let p0 = (case dir of None \<Rightarrow> [] | Some d \<Rightarrow> strlcat [] d CONF_VAL_MAX) in
      conf_load (ce_file E (strlcat p0 name CONF_VAL_MAX)) (CONF_ENT_MAX B))"

definition or_else :: "'a option \<Rightarrow> 'a option \<Rightarrow> 'a option" where
  "or_else a b = (case a of None \<Rightarrow> b | Some x \<Rightarrow> Some x)"

definition load_conf :: "build \<Rightarrow> cl_env \<Rightarrow> gcds_kv list option" where
  "load_conf B E =
     (case ce_getenv E ''GCDS_CONF'' of
        Some p \<Rightarrow> conf_load (ce_file E p) (CONF_ENT_MAX B)
      | None \<Rightarrow>
          or_else (try_conf B E None ''gcds.cnf'') (or_else (try_conf B E None ''gcds.conf'')
            (case ce_getenv E ''HOME'' of
               None \<Rightarrow> None
             | Some h \<Rightarrow> or_else (try_conf B E (Some h) ''/.gcds.cnf'') (try_conf B E (Some h) ''/.gcds.conf''))))"

section \<open>The command line\<close>

record copts =
  do_ping :: bool
  do_stat :: bool
  do_ix :: bool
  do_put :: bool
  do_get :: bool
  mapback :: bool
  force_async :: bool

definition copts0 :: copts where
  "copts0 = \<lparr>do_ping = False, do_stat = False, do_ix = False, do_put = False, do_get = False, mapback = False, force_async = False\<rparr>"

text \<open>The options and the arguments after them; \<open>None\<close> prints the usage.\<close>

fun client_opts :: "copts \<Rightarrow> string list \<Rightarrow> (copts \<times> string list) option" where
  "client_opts p [] = Some (p, [])"
| "client_opts p (a # as) =
     (if char_at a 0 \<noteq> CHR ''-'' then Some (p, a # as)
      else if a = ''--ping'' then client_opts (p\<lparr>do_ping := True\<rparr>) as
      else if a = ''--stat'' then client_opts (p\<lparr>do_stat := True\<rparr>) as
      else if a = ''--async'' then client_opts (p\<lparr>force_async := True\<rparr>) as
      else if a = ''-i'' then client_opts (p\<lparr>do_ix := True\<rparr>) as
      else if a = ''--mapback'' then client_opts (p\<lparr>mapback := True\<rparr>) as
      else if a = ''--put'' then client_opts (p\<lparr>do_put := True\<rparr>) as
      else if a = ''--get'' then client_opts (p\<lparr>do_get := True\<rparr>) as
      else None)"

fun join_args :: "string \<Rightarrow> string list \<Rightarrow> string option" where
  "join_args cmd [] = Some cmd"
| "join_args cmd (a # as) =
     (let c1 = (if cmd \<noteq> [] then strlcat cmd '' '' GCDSP_LINE_MAX else cmd) in
      case gcds_strlcat c1 a GCDSP_LINE_MAX of (c2, n) \<Rightarrow> if n \<ge> GCDSP_LINE_MAX - 8 then None else join_args c2 as)"

text \<open>The command of the RUN modes.\<close>

definition client_cmd :: "gcds_kv list \<Rightarrow> string \<Rightarrow> string list \<Rightarrow> string option" where
  "client_cmd kv al args =
     (case args of
        [] \<Rightarrow> join_args [] []
      | a # as \<Rightarrow>
          if char_at a 0 = CHR ''@'' then
            (case tool_expand kv al (tl a) GCDSP_LINE_MAX of None \<Rightarrow> None | Some c \<Rightarrow> join_args c as)
          else join_args [] args)"

section \<open>The program\<close>

text \<open>The exit code, the connection as it was closed, and what the client wrote.\<close>

type_synonym cl_result = "(int \<times> dev option \<times> cio \<times> world) option"

definition cl_end :: "int \<Rightarrow> gcds_rc \<Rightarrow> cio \<Rightarrow> world \<Rightarrow> cl_result" where
  "cl_end code rc io w = Some (code, snd (rc_close rc), io, w)"

definition cl_code :: "int \<Rightarrow> int" where
  "cl_code code = (if code < 0 then EX_FAIL else code)"

text \<open>\<^verbatim>\<open>--put\<close> and \<^verbatim>\<open>--get\<close>.\<close>

definition client_xfer :: "build \<Rightarrow> cl_env \<Rightarrow> copts \<Rightarrow> string list \<Rightarrow> gcds_rc \<Rightarrow> cio \<Rightarrow> world \<Rightarrow> cl_result" where
  "client_xfer B E p args rc io w =
     (if do_put p then
        (case xfer_put B (ce_os E) w rc (args ! 0) (args ! 1) of (ok, rc1) \<Rightarrow>
           cl_end (if ok then 0 else EX_FAIL) rc1 io w)
      else (case xfer_get B (ce_os E) w rc (args ! 0) (args ! 1) of (ok, rc1, w1) \<Rightarrow>
           cl_end (if ok then 0 else EX_FAIL) rc1 io w1))"

definition client_ping :: "string \<Rightarrow> gcds_rc \<Rightarrow> cio \<Rightarrow> world \<Rightarrow> cl_result" where
  "client_ping al rc io w =
     (case rc_cmd rc ''PING'' GCDSP_LINE_MAX of (rep, rc1) \<Rightarrow>
        if rep = Some ''OK'' then
          cl_end 0 rc1 (snd (write_fd FD1 (al @ '': alive ('' @ ostag rc1 @ '', '' @ rhost rc1 @ '')'' @ [LF]) io)) w
        else cl_end EX_FAIL rc1 io w)"

definition client_stat :: "string \<Rightarrow> gcds_rc \<Rightarrow> cio \<Rightarrow> world \<Rightarrow> cl_result" where
  "client_stat al rc io w =
     (case rc_cmd rc ''STAT'' GCDSP_LINE_MAX of (rep, rc1) \<Rightarrow>
        (case rep of
           None \<Rightarrow> cl_end EX_FAIL rc1 io w
         | Some line \<Rightarrow>
             if gcds_starts line ''OK'' then cl_end 0 rc1 (snd (write_fd FD1 (al @ '': '' @ drop 3 line @ [LF]) io)) w
             else cl_end EX_FAIL rc1 io w))"

text \<open>The change of the remote directory: \<open>False\<close> ends the client.\<close>

definition client_cwd :: "gcds_kv list \<Rightarrow> string \<Rightarrow> string option \<Rightarrow> gcds_rc \<Rightarrow> bool \<times> gcds_rc" where
  "client_cwd kv al getcwd rc =
     (case pm_cwd kv al getcwd CONF_VAL_MAX of
        PM_ERR \<Rightarrow> (False, rc)
      | PM_NONE \<Rightarrow> (True, rc)
      | PM_OK rcwd \<Rightarrow>
          (case rc_cmd rc (strlcat (strlcat [] ''CWD '' GCDSP_LINE_MAX) rcwd GCDSP_LINE_MAX) GCDSP_LINE_MAX of (rep, rc1) \<Rightarrow>
             (rep = Some ''OK'', rc1)))"

definition client_async :: "build \<Rightarrow> cl_env \<Rightarrow> gcds_kv list \<Rightarrow> string \<Rightarrow> string \<Rightarrow> gcds_rc \<Rightarrow> cio \<Rightarrow> world \<Rightarrow> cl_result" where
  "client_async B E kv al cmd rc io w =
     (case rc_cmd rc (strlcat (strlcat [] ''RUNA '' GCDSP_LINE_MAX) cmd GCDSP_LINE_MAX) GCDSP_LINE_MAX of (rep, rc1) \<Rightarrow>
        (case rep of
           None \<Rightarrow> cl_end EX_FAIL rc1 io w
         | Some line \<Rightarrow>
             if \<not> gcds_starts line ''OK '' then cl_end EX_FAIL rc1 io w
             else (case poll_result B kv al (atol (drop 3 line)) (ce_polls E) (fst (rc_close rc1)) io of
                 None \<Rightarrow> None
               | Some (code, d, io1) \<Rightarrow> Some (cl_code code, d, io1, w))))"

definition client_ix :: "build \<Rightarrow> cl_env \<Rightarrow> string \<Rightarrow> gcds_rc \<Rightarrow> cio \<Rightarrow> world \<Rightarrow> cl_result" where
  "client_ix B E cmd rc io w =
     (if \<not> cap_ix rc then cl_end EX_FAIL rc io w
      else (case ix_client B rc cmd (ce_ticks E) io of
          None \<Rightarrow> None
        | Some (code, rc1, io1) \<Rightarrow> cl_end (cl_code code) rc1 io1 w))"

definition client_run :: "build \<Rightarrow> string \<Rightarrow> gcds_rc \<Rightarrow> cio \<Rightarrow> world \<Rightarrow> cl_result" where
  "client_run B cmd rc io w =
     (case lio_put_line (ch rc) (strlcat (strlcat [] ''RUN '' GCDSP_LINE_MAX) cmd GCDSP_LINE_MAX) of (r, c) \<Rightarrow>
        if r \<noteq> LIO_OK then cl_end EX_FAIL (rc\<lparr>ch := c\<rparr>) io w
        else (case rc_stream B (rc\<lparr>ch := c\<rparr>) io of (code, rc1, io1) \<Rightarrow> cl_end (cl_code code) rc1 io1 w))"

text \<open>From the open session on.\<close>

definition client_session :: "build \<Rightarrow> cl_env \<Rightarrow> copts \<Rightarrow> gcds_kv list \<Rightarrow> string \<Rightarrow> string list \<Rightarrow> string \<Rightarrow> gcds_rc \<Rightarrow> cio \<Rightarrow> world
    \<Rightarrow> cl_result" where
  "client_session B E p kv al args cmd rc io w =
     (if do_put p \<or> do_get p then client_xfer B E p args rc io w
      else if do_ping p then client_ping al rc io w
      else if do_stat p then client_stat al rc io w
      else (case client_cwd kv al (ce_cwd E) rc of (ok, rc1) \<Rightarrow>
        if \<not> ok then cl_end EX_FAIL rc1 io w
        else let io1 = (if mapback p then rc_mapback kv al io else io) in
          if do_ix p then client_ix B E cmd rc1 io1 w
          else if cap_async rc1 \<or> force_async p then client_async B E kv al cmd rc1 io1 w
          else client_run B cmd rc1 io1 w))"

definition client_main :: "build \<Rightarrow> cl_env \<Rightarrow> string list \<Rightarrow> gcds_rc \<Rightarrow> cio \<Rightarrow> world \<Rightarrow> cl_result" where
  "client_main B E argv rc0 io w =
     (case client_opts copts0 argv of
        None \<Rightarrow> Some (EX_FAIL, None, io, w)
      | Some (p, []) \<Rightarrow> Some (EX_FAIL, None, io, w)
      | Some (p, al # args) \<Rightarrow>
          if (do_put p \<or> do_get p) \<and> length args \<noteq> 2 then Some (EX_FAIL, None, io, w)
          else if \<not> (do_put p \<or> do_get p) \<and> \<not> do_ping p \<and> \<not> do_stat p \<and> args = [] then Some (EX_FAIL, None, io, w)
          else (case load_conf B E of
              None \<Rightarrow> Some (EX_FAIL, None, io, w)
            | Some kv \<Rightarrow>
                if \<not> ce_net_ok E then Some (EX_FAIL, None, io, w)
                else (case (if do_put p \<or> do_get p then Some [] else client_cmd kv al args) of
                    None \<Rightarrow> Some (EX_FAIL, None, io, w)
                  | Some cmd \<Rightarrow>
                      (case rc_open (a_ser (ce_first E)) (a_net (ce_first E)) rc0 kv al of (opened, rc1) \<Rightarrow>
                         if \<not> opened then Some (EX_FAIL, None, io, w)
                         else (case rc_auth rc1 kv al of (authed, rc2) \<Rightarrow>
                           if \<not> authed then cl_end EX_FAIL rc2 io w
                           else client_session B E p kv al args cmd rc2 io w)))))"

end
