(* ===== verification/Exec.thy ===== *)
theory Exec
  imports World "HOL-Library.Word"
begin

text \<open>
  The execution backends: \<^verbatim>\<open>daemon/exec_psx.c\<close>, \<^verbatim>\<open>daemon/exec_w32.c\<close> and \<^verbatim>\<open>daemon/exec_dos.c\<close>.
  Each builds a command from the client's command line and the session's environment and hands it to
  the system.  \<open>None\<close> is the return value -1 of a builder.

  \<open>sh_word\<close> is the reference: how a POSIX shell reads one word of quoted and escaped characters.
\<close>

unbundle bit_operations_syntax

abbreviation SQ :: char where "SQ \<equiv> CHR 0x27"
abbreviation DQ :: char where "DQ \<equiv> CHR 0x22"
abbreviation BSL :: char where "BSL \<equiv> CHR 0x5C"

record gcds_env =
  env_name :: string
  env_val :: string

section \<open>Wait status\<close>

definition WIFEXITED :: "int \<Rightarrow> bool" where "WIFEXITED s \<longleftrightarrow> s AND 0xFF = 0"
definition WEXITSTATUS :: "int \<Rightarrow> int" where "WEXITSTATUS s = drop_bit 8 s AND 0xFF"
definition WIFSIGNALED :: "int \<Rightarrow> bool" where "WIFSIGNALED s \<longleftrightarrow> s AND 0x7F \<noteq> 0 \<and> s AND 0x7F \<noteq> 0x7F"
definition WTERMSIG :: "int \<Rightarrow> int" where "WTERMSIG s = s AND 0x7F"

text \<open>The last lines of \<^verbatim>\<open>run_command\<close> and of \<^verbatim>\<open>live_exec\<close>: the exit code of a status.\<close>

definition status_code :: "int \<Rightarrow> int" where
  "status_code s =
     (if WIFEXITED s then WEXITSTATUS s AND 255
      else if WIFSIGNALED s then (128 + WTERMSIG s) AND 255
      else -1)"

section \<open>POSIX\<close>

abbreviation CMDBUF_MAX :: int where "CMDBUF_MAX \<equiv> 32768"

fun cat_quoted_loop :: "string \<Rightarrow> int \<Rightarrow> string \<Rightarrow> string option" where
  "cat_quoted_loop dst sz [] =
     (if int (length dst) + 1 \<ge> sz then None else Some (dst @ [SQ]))"
| "cat_quoted_loop dst sz (c # src) =
     (if c = SQ
      then (if int (length dst) + 4 \<ge> sz then None
            else cat_quoted_loop (dst @ [SQ, BSL, SQ, SQ]) sz src)
      else (if int (length dst) + 1 \<ge> sz then None
            else cat_quoted_loop (dst @ [c]) sz src))"

definition cat_quoted :: "string \<Rightarrow> int \<Rightarrow> string \<Rightarrow> string option" where
  "cat_quoted dst sz src =
     (if int (length dst) + 2 \<ge> sz then None else cat_quoted_loop (dst @ [SQ]) sz src)"

text \<open>The loop of \<^verbatim>\<open>build_script\<close> over the environment.\<close>

fun script_env :: "string \<Rightarrow> int \<Rightarrow> gcds_env list \<Rightarrow> string option" where
  "script_env dst sz [] = Some dst"
| "script_env dst sz (e # es) =
     (let d1 = strlcat dst ''export '' sz;
          d2 = strlcat d1 (env_name e) sz;
          d3 = strlcat d2 ''='' sz in
      case cat_quoted d3 sz (env_val e) of
        None \<Rightarrow> None
      | Some d4 \<Rightarrow> script_env (strlcat d4 ''; '' sz) sz es)"

definition build_script :: "int \<Rightarrow> string \<Rightarrow> gcds_env list \<Rightarrow> string option" where
  "build_script sz cmdline env =
     (case script_env (strlcat [] ''( '' sz) sz env of
        None \<Rightarrow> None
      | Some d \<Rightarrow>
          (if snd (gcds_strlcat d cmdline sz) \<ge> sz then None
           else let d' = strlcat d cmdline sz in
             if snd (gcds_strlcat d' '' )'' sz) \<ge> sz then None
             else Some (strlcat d' '' )'' sz)))"

text \<open>The command \<^verbatim>\<open>run_command\<close> passes to \<^verbatim>\<open>system\<close>.\<close>

definition psx_cmdbuf :: "string \<Rightarrow> gcds_env list \<Rightarrow> string \<Rightarrow> string \<Rightarrow> string option" where
  "psx_cmdbuf cmdline env outf errf =
     (case build_script CMDBUF_MAX cmdline env of
        None \<Rightarrow> None
      | Some b1 \<Rightarrow>
          (case cat_quoted (strlcat b1 '' > '' CMDBUF_MAX) CMDBUF_MAX outf of
             None \<Rightarrow> None
           | Some b2 \<Rightarrow>
               (case cat_quoted (strlcat b2 '' 2> '' CMDBUF_MAX) CMDBUF_MAX errf of
                  None \<Rightarrow> None
                | Some b3 \<Rightarrow> if int (length b3) \<ge> CMDBUF_MAX - 1 then None else Some b3)))"

definition psx_run_command :: "os \<Rightarrow> string \<Rightarrow> gcds_env list \<Rightarrow> string \<Rightarrow> string \<Rightarrow> world \<Rightarrow> int \<times> world" where
  "psx_run_command S cmdline env outf errf w =
     (case psx_cmdbuf cmdline env outf errf of
        None \<Rightarrow> (-1, w)
      | Some cmdbuf \<Rightarrow>
          (case os_system S cmdbuf w of (rc, w') \<Rightarrow>
             if rc = -1 then (-1, w') else (status_code rc, w')))"

section \<open>Win32\<close>

fun wcmd_env :: "string \<Rightarrow> int \<Rightarrow> gcds_env list \<Rightarrow> string option" where
  "wcmd_env dst sz [] = Some dst"
| "wcmd_env dst sz (e # es) =
     (if DQ \<in> set (env_val e) then None
      else let d1 = strlcat dst (''set '' @ [DQ]) sz;
               d2 = strlcat d1 (env_name e) sz;
               d3 = strlcat d2 ''='' sz;
               d4 = strlcat d3 (env_val e) sz;
               d5 = strlcat d4 (DQ # '' && '') sz in
           wcmd_env d5 sz es)"

definition build_wcmd :: "int \<Rightarrow> string \<Rightarrow> gcds_env list \<Rightarrow> string option" where
  "build_wcmd sz cmdline env =
     (case wcmd_env [] sz env of
        None \<Rightarrow> None
      | Some d \<Rightarrow>
          (let d1 = strlcat d ''( '' sz; d2 = strlcat d1 cmdline sz in
           if snd (gcds_strlcat d2 '' )'' sz) \<ge> sz then None else Some (strlcat d2 '' )'' sz)))"

abbreviation W32_CMDBUF_MAX :: int where "W32_CMDBUF_MAX \<equiv> 16384"

definition w32_cmdbuf :: "string \<Rightarrow> gcds_env list \<Rightarrow> string \<Rightarrow> string \<Rightarrow> string option" where
  "w32_cmdbuf cmdline env outf errf =
     (if DQ \<in> set outf \<or> DQ \<in> set errf then None
      else (case build_wcmd W32_CMDBUF_MAX cmdline env of
          None \<Rightarrow> None
        | Some b \<Rightarrow>
            (let b1 = strlcat b ('' > '' @ [DQ]) W32_CMDBUF_MAX;
                 b2 = strlcat b1 outf W32_CMDBUF_MAX;
                 b3 = strlcat b2 (DQ # '' 2> '' @ [DQ]) W32_CMDBUF_MAX;
                 b4 = strlcat b3 errf W32_CMDBUF_MAX in
             if snd (gcds_strlcat b4 [DQ] W32_CMDBUF_MAX) \<ge> W32_CMDBUF_MAX then None
             else Some (strlcat b4 [DQ] W32_CMDBUF_MAX))))"

definition w32_run_command :: "os \<Rightarrow> string \<Rightarrow> gcds_env list \<Rightarrow> string \<Rightarrow> string \<Rightarrow> world \<Rightarrow> int \<times> world" where
  "w32_run_command S cmdline env outf errf w =
     (case w32_cmdbuf cmdline env outf errf of
        None \<Rightarrow> (-1, w)
      | Some cmdbuf \<Rightarrow>
          (case os_system S cmdbuf w of (rc, w') \<Rightarrow>
             (if rc < 0 then -1 else if rc > 255 then 255 else rc, w')))"

section \<open>MS-DOS\<close>

text \<open>The tokenizer: the words found, and the word being read (\<open>None\<close> between words).  Reading stops
  at the blank that would start the word after the last of \<^verbatim>\<open>DOS_ARGV_MAX\<close>.\<close>

fun split_loop :: "string \<Rightarrow> string list \<Rightarrow> string option \<Rightarrow> string list" where
  "split_loop [] argv cur = (case cur of None \<Rightarrow> argv | Some w \<Rightarrow> argv @ [w])"
| "split_loop (c # s) argv cur =
     (if c = CHR '' '' \<or> c = TAB
      then split_loop s (case cur of None \<Rightarrow> argv | Some w \<Rightarrow> argv @ [w]) None
      else (case cur of
          Some w \<Rightarrow> split_loop s argv (Some (w @ [c]))
        | None \<Rightarrow> if length argv \<ge> 32 then argv else split_loop s argv (Some [c])))"

definition split_args :: "string \<Rightarrow> string list" where
  "split_args cmdline = split_loop (strlcpy cmdline GCDSP_LINE_MAX) [] None"

definition has_shell_meta :: "string \<Rightarrow> bool" where
  "has_shell_meta s \<longleftrightarrow> (\<exists>c \<in> set s. c = CHR ''<'' \<or> c = CHR ''>'' \<or> c = CHR ''|'')"

text \<open>\<^verbatim>\<open>putenv\<close> of Watcom C: \<^verbatim>\<open>NAME=value\<close> sets, \<^verbatim>\<open>NAME=\<close> deletes.\<close>

definition putenv :: "string \<Rightarrow> world \<Rightarrow> world" where
  "putenv s w = (case cut (CHR ''='') s of
      None \<Rightarrow> w
    | Some (n, v) \<Rightarrow> w\<lparr>environ := (environ w)(n := if v = [] then None else Some v)\<rparr>)"

definition dos_envbuf :: "gcds_env \<Rightarrow> string \<Rightarrow> string" where
  "dos_envbuf e v = strlcat (strlcat (strlcat [] (env_name e) 256) ''='' 256) v 256"

definition dos_set_env :: "gcds_env list \<Rightarrow> world \<Rightarrow> world" where
  "dos_set_env env w = fold (\<lambda>e. putenv (dos_envbuf e (env_val e))) env w"

definition dos_restore_env :: "gcds_env list \<Rightarrow> world \<Rightarrow> world" where
  "dos_restore_env env w = fold (\<lambda>e. putenv (dos_envbuf e [])) env w"

definition dos_run_command :: "os \<Rightarrow> string \<Rightarrow> gcds_env list \<Rightarrow> string \<Rightarrow> string \<Rightarrow> world \<Rightarrow> int \<times> world" where
  "dos_run_command S cmdline env outf errf w =
     (let comspec = (case environ w ''COMSPEC'' of None \<Rightarrow> ''COMMAND.COM'' | Some c \<Rightarrow> c);
          w1 = dos_set_env env w;
          fo = w_fopen_wb S w1 outf;
          w2 = (case fo of None \<Rightarrow> w1 | Some x \<Rightarrow> x);
          fe = w_fopen_wb S w2 errf;
          w3 = (case fe of None \<Rightarrow> w2 | Some x \<Rightarrow> x) in
      if fo = None \<or> fe = None then (-1, dos_restore_env env w3)
      else
        let argv = split_args cmdline;
            (rc1, w4) = (if \<not> has_shell_meta cmdline \<and> length argv \<ge> 1
                         then os_spawn S argv outf errf w3 else (-1, w3));
            (rc2, w5) = (if rc1 < 0 then os_spawn S [comspec, ''/C'', cmdline] outf errf w4
                         else (rc1, w4)) in
        (if rc2 < 0 then -1 else if rc2 > 255 then 255 else rc2, dos_restore_env env w5))"

section \<open>The backend of a build\<close>

definition run_command :: "build \<Rightarrow> os \<Rightarrow> string \<Rightarrow> gcds_env list \<Rightarrow> string \<Rightarrow> string \<Rightarrow> world \<Rightarrow> int \<times> world" where
  "run_command B = (if GCDS_DOS B then dos_run_command
                    else if GCDS_WIN32 B then w32_run_command else psx_run_command)"

text \<open>The name of the system and that of the host.  \<^verbatim>\<open>GetComputerNameA\<close> fails on a buffer that has no room for
  the whole name and its NUL; \<^verbatim>\<open>gethostname\<close> truncates.\<close>

definition psx_os_tag :: "os \<Rightarrow> string" where
  "psx_os_tag S = (case os_ostag S of None \<Rightarrow> ''posix'' | Some t \<Rightarrow> t)"

definition w32_os_tag :: string where
  "w32_os_tag = ''win32''"

definition dos_os_tag :: string where
  "dos_os_tag = ''dos''"

definition os_tag :: "build \<Rightarrow> os \<Rightarrow> string" where
  "os_tag B S = (if GCDS_DOS B then dos_os_tag else if GCDS_WIN32 B then w32_os_tag else psx_os_tag S)"

definition psx_os_hostname :: "os \<Rightarrow> int \<Rightarrow> string" where
  "psx_os_hostname S sz =
     (case os_gethostname S of None \<Rightarrow> strlcpy ''unknown'' sz | Some h \<Rightarrow> take (nat (sz - 1)) h)"

definition w32_os_hostname :: "os \<Rightarrow> int \<Rightarrow> string" where
  "w32_os_hostname S sz =
     (let n = sz - 1 in
      case os_gethostname S of
        None \<Rightarrow> strlcpy ''unknown'' sz
      | Some h \<Rightarrow> if int (length h) < n then h else strlcpy ''unknown'' sz)"

definition dos_os_hostname :: "world \<Rightarrow> int \<Rightarrow> string" where
  "dos_os_hostname w sz =
     (case environ w ''HOSTNAME'' of
        None \<Rightarrow> strlcpy ''dospc'' sz
      | Some h \<Rightarrow> strlcpy (if h = [] then ''dospc'' else h) sz)"

definition os_hostname :: "build \<Rightarrow> os \<Rightarrow> world \<Rightarrow> int \<Rightarrow> string" where
  "os_hostname B S w sz =
     (if GCDS_DOS B then dos_os_hostname w sz else if GCDS_WIN32 B then w32_os_hostname S sz else psx_os_hostname S sz)"

section \<open>Reference: what the shell reads\<close>

definition shq :: "string \<Rightarrow> string" where
  "shq v = SQ # concat (map (\<lambda>c. if c = SQ then [SQ, BSL, SQ, SQ] else [c]) v) @ [SQ]"

definition exports :: "gcds_env list \<Rightarrow> string" where
  "exports es = concat (map (\<lambda>e. ''export '' @ env_name e @ ''='' @ shq (env_val e) @ ''; '') es)"

definition script :: "string \<Rightarrow> gcds_env list \<Rightarrow> string" where
  "script cmd es = ''( '' @ exports es @ cmd @ '' )''"

text \<open>A word of a POSIX shell: characters between single quotes stand for themselves, a backslash
  outside them quotes the next character, and an unquoted blank or operator ends the word.\<close>

definition sh_delim :: "char \<Rightarrow> bool" where
  "sh_delim c \<longleftrightarrow> c \<in> {CHR '' '', TAB, LF, CHR '';'', CHR ''&'', CHR ''|'', CHR ''<'', CHR ''>'', CHR ''('', CHR '')''}"

fun sh_word :: "bool \<Rightarrow> string \<Rightarrow> string \<Rightarrow> (string \<times> string) option" where
  "sh_word q acc [] = (if q then None else Some (acc, []))"
| "sh_word q acc (c # s) =
     (if q then (if c = SQ then sh_word False acc s else sh_word True (acc @ [c]) s)
      else if c = SQ then sh_word True acc s
      else if c = BSL then (case s of [] \<Rightarrow> None | d # s' \<Rightarrow> sh_word False (acc @ [d]) s')
      else if sh_delim c then Some (acc, c # s)
      else sh_word False (acc @ [c]) s)"

definition strip :: "string \<Rightarrow> string \<Rightarrow> string option" where
  "strip p s = (if gcds_starts s p then Some (drop (length p) s) else None)"

text \<open>Reading \<open>n\<close> commands \<^verbatim>\<open>export NAME=word;\<close> from the front of a script.\<close>

fun sh_exports :: "nat \<Rightarrow> string \<Rightarrow> (gcds_env list \<times> string) option" where
  "sh_exports 0 s = Some ([], s)"
| "sh_exports (Suc n) s =
     (case strip ''export '' s of None \<Rightarrow> None | Some s1 \<Rightarrow>
      case cut (CHR ''='') s1 of None \<Rightarrow> None | Some (nm, s2) \<Rightarrow>
      case sh_word False [] s2 of None \<Rightarrow> None | Some (v, s3) \<Rightarrow>
      case strip ''; '' s3 of None \<Rightarrow> None | Some s4 \<Rightarrow>
      map_option (apfst ((#) \<lparr>env_name = nm, env_val = v\<rparr>)) (sh_exports n s4))"

section \<open>The builders never truncate silently\<close>

lemma cat_quoted_loop_exact:
  "cat_quoted_loop dst sz src =
     (let q = concat (map (\<lambda>c. if c = SQ then [SQ, BSL, SQ, SQ] else [c]) src) @ [SQ] in
      if int (length dst) + int (length q) < sz then Some (dst @ q) else None)"
  by (induction dst sz src rule: cat_quoted_loop.induct) (auto simp: Let_def)

lemma cat_quoted_exact:
  "cat_quoted dst sz src =
     (if int (length dst) + int (length (shq src)) < sz then Some (dst @ shq src) else None)"
  by (auto simp: cat_quoted_def cat_quoted_loop_exact Let_def shq_def)

lemma cat_quoted_full: "sz - 1 \<le> int (length dst) \<Longrightarrow> cat_quoted dst sz src = None"
  by (simp add: cat_quoted_exact shq_def)

lemma strlcat_full:
  "int (length d) < sz \<Longrightarrow> sz \<le> int (length d) + int (length s) \<Longrightarrow> int (length (strlcat d s sz)) = sz - 1"
  by (simp add: gcds_strlcat_take)

lemma exact_or_full:
  assumes "int (length d) < sz"
  obtains "strlcat d a sz = d @ a" "int (length (d @ a)) < sz"
    | "int (length (strlcat d a sz)) = sz - 1" "sz \<le> int (length (d @ a))"
proof (cases "int (length (d @ a)) < sz")
  case True
  then have "strlcat d a sz = d @ a" by (simp add: gcds_strlcat_fits)
  with True that(1) show thesis by blast
next
  case False
  then have "int (length (strlcat d a sz)) = sz - 1" using assms by (simp add: strlcat_full)
  with False that(2) show thesis by simp
qed

lemma exports_Cons:
  "exports (e # es) = ''export '' @ env_name e @ ''='' @ shq (env_val e) @ ''; '' @ exports es"
  by (simp add: exports_def)

lemma script_env_step:
  assumes "int (length dst) < sz"
  shows "script_env dst sz (e # es) =
    (let d = strlcat dst (''export '' @ env_name e @ ''='') sz in
     case cat_quoted d sz (env_val e) of None \<Rightarrow> None
     | Some d4 \<Rightarrow> script_env (strlcat d4 ''; '' sz) sz es)"
  using assms by (simp add: Let_def gcds_strlcat_append)

lemma script_env_full:
  assumes "int (length dst) = sz - 1" and "script_env dst sz es = Some d"
  shows "int (length d) = sz - 1"
proof (cases es)
  case Nil
  with assms show ?thesis by simp
next
  case (Cons e es')
  have "int (length (strlcat dst (''export '' @ env_name e @ ''='') sz)) = sz - 1"
    using assms(1) by (intro strlcat_full) simp_all
  then have "cat_quoted (strlcat dst (''export '' @ env_name e @ ''='') sz) sz (env_val e) = None"
    by (simp add: cat_quoted_full)
  with Cons assms script_env_step [of dst sz e es'] show ?thesis by (simp add: Let_def)
qed

lemma script_env_exact:
  assumes "int (length dst) < sz"
  shows "if int (length (dst @ exports es)) < sz then script_env dst sz es = Some (dst @ exports es)
    else (\<forall>d. script_env dst sz es = Some d \<longrightarrow> int (length d) = sz - 1)"
  using assms
proof (induction es arbitrary: dst)
  case Nil
  then show ?case by (simp add: exports_def)
next
  case (Cons e es)
  let ?x = "''export '' @ env_name e @ ''=''" and ?q = "shq (env_val e)"
  let ?d = "strlcat dst ?x sz"
  from Cons.prems show ?case
  proof (cases rule: exact_or_full [of dst sz ?x])
    case 2
    then have "cat_quoted ?d sz (env_val e) = None" by (simp add: cat_quoted_full)
    with 2 show ?thesis
      unfolding script_env_step [OF Cons.prems] Let_def by (auto simp: exports_Cons)
  next
    case 1
    show ?thesis
    proof (cases "int (length (dst @ ?x @ ?q)) < sz")
      case False
      with 1 have "cat_quoted ?d sz (env_val e) = None" by (simp add: cat_quoted_exact)
      with False show ?thesis
        unfolding script_env_step [OF Cons.prems] Let_def by (auto simp: exports_Cons)
    next
      case q: True
      let ?d4 = "dst @ ?x @ ?q"
      have step: "script_env dst sz (e # es) = script_env (strlcat ?d4 ''; '' sz) sz es"
        unfolding script_env_step [OF Cons.prems] Let_def using q 1 by (simp add: cat_quoted_exact)
      from q show ?thesis
      proof (cases rule: exact_or_full [of ?d4 sz "''; ''"])
        case a: 1
        have assoc: "(?d4 @ ''; '') @ exports es = dst @ exports (e # es)" by (simp add: exports_Cons)
        show ?thesis using Cons.IH [OF a(2)] unfolding step a(1) assoc .
      next
        case 2
        then have "\<not> int (length (dst @ exports (e # es))) < sz" by (simp add: exports_Cons)
        with script_env_full [OF 2(1)] show ?thesis unfolding step by simp
      qed
    qed
  qed
qed

lemma build_script_exact:
  assumes "2 < sz"
  shows "build_script sz cmd env =
    (if int (length (script cmd env)) < sz then Some (script cmd env) else None)"
proof -
  let ?e = "''( '' @ exports env"
  have s0: "strlcat [] ''( '' sz = ''( ''" using assms by (simp add: gcds_strlcat_fits)
  have x: "if int (length ?e) < sz then script_env ''( '' sz env = Some ?e
      else (\<forall>d. script_env ''( '' sz env = Some d \<longrightarrow> int (length d) = sz - 1)"
    using script_env_exact [of "''( ''" sz env] assms by simp
  show ?thesis
  proof (cases "int (length ?e) < sz")
    case False
    then have "\<not> int (length (script cmd env)) < sz" by (simp add: script_def)
    moreover have "build_script sz cmd env = None"
    proof (cases "script_env ''( '' sz env")
      case (Some d)
      have "\<forall>d. script_env ''( '' sz env = Some d \<longrightarrow> int (length d) = sz - 1"
        using x by (simp only: False if_False)
      with Some have l: "int (length d) = sz - 1" by blast
      show ?thesis
      proof (cases "cmd = []")
        case True
        with l Some show ?thesis by (simp add: build_script_def s0 Let_def gcds_strlcat_fits)
      next
        case False
        with l Some show ?thesis by (simp add: build_script_def s0)
      qed
    qed (simp add: build_script_def s0)
    ultimately show ?thesis by simp
  next
    case True
    have e: "script_env ''( '' sz env = Some ?e" using x by (simp only: True if_True)
    show ?thesis
    proof (cases "int (length (?e @ cmd)) < sz")
      case False
      then show ?thesis using e by (simp add: build_script_def s0 script_def)
    next
      case c: True
      then have "strlcat ?e cmd sz = ?e @ cmd" by (simp add: gcds_strlcat_fits)
      with c e gcds_strlcat_fits [of "?e @ cmd" "'' )''" sz] show ?thesis
        by (auto simp: build_script_def s0 Let_def script_def)
    qed
  qed
qed

definition psx_text :: "string \<Rightarrow> gcds_env list \<Rightarrow> string \<Rightarrow> string \<Rightarrow> string" where
  "psx_text cmd env outf errf = script cmd env @ '' > '' @ shq outf @ '' 2> '' @ shq errf"

lemma cat_after:
  assumes "int (length b) < sz"
  shows "cat_quoted (strlcat b x sz) sz f =
    (if int (length (b @ x @ shq f)) < sz then Some (b @ x @ shq f) else None)"
  using assms
proof (cases rule: exact_or_full [of b sz x])
  case 1
  then show ?thesis by (simp add: cat_quoted_exact)
next
  case 2
  then show ?thesis by (simp add: cat_quoted_full)
qed

lemma psx_cmdbuf_exact:
  "psx_cmdbuf cmd env outf errf =
    (if int (length (psx_text cmd env outf errf)) < CMDBUF_MAX - 1
     then Some (psx_text cmd env outf errf) else None)"
proof -
  let ?t = "psx_text cmd env outf errf"
  let ?b1 = "script cmd env" and ?b2 = "script cmd env @ '' > '' @ shq outf"
  have t: "?t = ?b2 @ '' 2> '' @ shq errf" by (simp add: psx_text_def)
  then have lt: "int (length ?b1) \<le> int (length ?b2)" "int (length ?b2) \<le> int (length ?t)" by simp_all
  show ?thesis
  proof (cases "int (length ?b2) < CMDBUF_MAX")
    case False
    then have "psx_cmdbuf cmd env outf errf = None"
      by (auto simp: psx_cmdbuf_def build_script_exact cat_after)
    with False lt show ?thesis by simp
  next
    case True
    have "cat_quoted (strlcat ?b1 '' > '' CMDBUF_MAX) CMDBUF_MAX outf = Some ?b2"
      using True lt cat_after [of ?b1 CMDBUF_MAX "'' > ''" outf] by simp
    moreover have "cat_quoted (strlcat ?b2 '' 2> '' CMDBUF_MAX) CMDBUF_MAX errf =
        (if int (length ?t) < CMDBUF_MAX then Some ?t else None)"
      using cat_after [OF True, of "'' 2> ''" errf] unfolding t append.assoc .
    ultimately show ?thesis
      using True lt by (simp add: psx_cmdbuf_def build_script_exact)
  qed
qed

section \<open>What the shell reads\<close>

lemma sh_word_quoted:
  "sh_word True acc (concat (map (\<lambda>c. if c = SQ then [SQ, BSL, SQ, SQ] else [c]) v) @ SQ # r) =
     sh_word False (acc @ v) r"
  by (induction v arbitrary: acc) auto

lemma sh_word_shq: "sh_delim d \<Longrightarrow> sh_word False [] (shq v @ d # r) = Some (v, d # r)"
  by (simp add: shq_def sh_word_quoted) (auto simp: sh_delim_def)

lemma strip_append [simp]: "strip p (p @ s) = Some s"
  by (simp add: strip_def gcds_starts_iff)

lemma sh_exports_exports:
  assumes "\<forall>e \<in> set es. CHR ''='' \<notin> set (env_name e)"
  shows "sh_exports (length es) (exports es @ r) = Some (es, r)"
  using assms
proof (induction es)
  case Nil
  then show ?case by (simp add: exports_def)
next
  case (Cons e es)
  let ?s2 = "shq (env_val e) @ ''; '' @ exports es @ r"
  have x: "exports (e # es) @ r = ''export '' @ (env_name e @ CHR ''='' # ?s2)"
    by (simp add: exports_Cons)
  have c: "cut (CHR ''='') (env_name e @ CHR ''='' # ?s2) = Some (env_name e, ?s2)"
    using Cons.prems by simp
  have w: "sh_word False [] ?s2 = Some (env_val e, ''; '' @ exports es @ r)"
    using sh_word_shq [of "CHR '';''" "env_val e"] by (simp add: sh_delim_def)
  have "sh_exports (length (e # es)) (exports (e # es) @ r) =
      map_option (apfst ((#) \<lparr>env_name = env_name e, env_val = env_val e\<rparr>)) (sh_exports (length es) (exports es @ r))"
    unfolding x list.size add_0_right add_Suc_right sh_exports.simps strip_append option.case c prod.case w ..
  with Cons show ?case by simp
qed


definition demo_env :: "gcds_env list" where
  "demo_env = [\<lparr>env_name = ''CC'', env_val = ''g'' @ [SQ] @ ''cc; rm''\<rparr>]"


section \<open>Exit codes\<close>

lemma and_255: "(x :: int) AND 255 = x mod 256" "(x :: int) AND 127 = x mod 128"
  using take_bit_eq_mask [of 8 x] take_bit_eq_mask [of 7 x]
  by (simp_all add: take_bit_eq_mod mask_eq_exp_minus_1)

lemma status_code_range: "-1 \<le> status_code s" "status_code s \<le> 255"
proof -
  have m: "0 \<le> x mod 256" "x mod 256 < 256" for x :: int by simp_all
  show "-1 \<le> status_code s" "status_code s \<le> 255"
    using m [of "WEXITSTATUS s"] m [of "128 + WTERMSIG s"] by (auto simp: status_code_def and_255)
qed

lemma run_command_range: "fst (run_command B S cmd env outf errf w) \<in> {-1..255}"
proof -
  have "fst (psx_run_command S cmd env outf errf w) \<in> {-1..255}"
    using status_code_range by (auto simp: psx_run_command_def split: option.splits prod.splits)
  moreover have "fst (w32_run_command S cmd env outf errf w) \<in> {-1..255}"
    by (auto simp: w32_run_command_def split: option.splits prod.splits)
  moreover have "fst (dos_run_command S cmd env outf errf w) \<in> {-1..255}"
    by (auto simp: dos_run_command_def Let_def split: option.splits prod.splits if_splits)
  ultimately show ?thesis by (simp add: run_command_def)
qed

text \<open>
  The exit code \<^verbatim>\<open>run_command\<close> returns is -1 or in 0..255 on every backend, and a POSIX status
  of normal termination with code \<open>k\<close> yields \<open>k\<close>, one of termination by signal \<open>g\<close> yields \<open>128 + g\<close>.
\<close>

lemma run_command_code:
  assumes "0 \<le> k" and "k \<le> 255" and "1 \<le> g" and "g \<le> 126"
  shows "fst (run_command B S cmd env outf errf w) \<in> {-1..255}
    \<and> status_code (256 * k) = k \<and> status_code g = 128 + g"
proof -
  have "status_code (256 * k) = k"
    using assms(1,2) by (simp add: status_code_def WIFEXITED_def WEXITSTATUS_def and_255 drop_bit_eq_div)
  moreover have "status_code g = 128 + g"
    using assms(3,4)
    by (simp add: status_code_def WIFEXITED_def WIFSIGNALED_def WTERMSIG_def and_255)
  ultimately show ?thesis using run_command_range by blast
qed

section \<open>The Win32 command is complete too\<close>

definition wsets :: "gcds_env list \<Rightarrow> string" where
  "wsets es = concat (map (\<lambda>e. ''set '' @ [DQ] @ env_name e @ ''='' @ env_val e @ DQ # '' && '') es)"

definition w32_text :: "string \<Rightarrow> gcds_env list \<Rightarrow> string \<Rightarrow> string \<Rightarrow> string" where
  "w32_text cmd env outf errf =
     wsets env @ ''( '' @ cmd @ '' )'' @ '' > '' @ [DQ] @ outf @ DQ # '' 2> '' @ [DQ] @ errf @ [DQ]"

lemma wcmd_env_text:
  assumes "int (length dst) < sz"
  shows "wcmd_env dst sz es =
    (if \<exists>e \<in> set es. DQ \<in> set (env_val e) then None else Some (strlcat dst (wsets es) sz))"
  using assms
proof (induction es arbitrary: dst)
  case Nil
  then show ?case by (simp add: wsets_def gcds_strlcat_fits)
next
  case (Cons e es)
  let ?x = "''set '' @ [DQ] @ env_name e @ ''='' @ env_val e @ DQ # '' && ''"
  have s: "wsets (e # es) = ?x @ wsets es" by (simp add: wsets_def)
  have step: "wcmd_env dst sz (e # es) =
      (if DQ \<in> set (env_val e) then None else wcmd_env (strlcat dst ?x sz) sz es)"
    using Cons.prems by (simp add: Let_def gcds_strlcat_append)
  show ?case
    using Cons.IH [of "strlcat dst ?x sz"] gcds_strlcat_bound [OF Cons.prems]
      gcds_strlcat_append [OF Cons.prems, of ?x "wsets es"]
    unfolding step s by simp
qed

lemma detect_last:
  assumes "0 < sz"
  shows "(if snd (gcds_strlcat (strlcat [] a sz) b sz) \<ge> sz then None else Some (strlcat (strlcat [] a sz) b sz))
    = (if int (length (a @ b)) < sz \<or> b = [] \<and> sz \<le> int (length a) then Some (strlcat [] (a @ b) sz) else None)"
proof -
  from assms have "int (length []) < sz" by simp
  then show ?thesis
  proof (cases rule: exact_or_full [of "[]" sz a])
    case 1
    then show ?thesis using gcds_strlcat_append [of "[]" sz a b] assms by auto
  next
    case 2
    then show ?thesis using gcds_strlcat_append [of "[]" sz a b] assms by (cases b) auto
  qed
qed

lemma build_wcmd_text:
  assumes "0 < sz" and "\<forall>e \<in> set env. DQ \<notin> set (env_val e)"
  shows "build_wcmd sz cmd env =
    (let t = wsets env @ ''( '' @ cmd @ '' )'' in if int (length t) < sz then Some t else None)"
proof -
  let ?a = "wsets env @ ''( '' @ cmd"
  have "wcmd_env [] sz env = Some (strlcat [] (wsets env) sz)"
    using assms by (simp add: wcmd_env_text)
  then have "build_wcmd sz cmd env =
      (if snd (gcds_strlcat (strlcat [] ?a sz) '' )'' sz) \<ge> sz then None
       else Some (strlcat (strlcat [] ?a sz) '' )'' sz))"
    using assms(1) by (simp add: build_wcmd_def Let_def gcds_strlcat_append)
  also have "\<dots> = (if int (length (?a @ '' )'')) < sz then Some (?a @ '' )'') else None)"
    unfolding detect_last [OF assms(1)] by (auto simp: gcds_strlcat_fits)
  finally show ?thesis by (simp add: Let_def)
qed

text \<open>
  The Win32 command line is complete or refused: \<open>w32_cmdbuf\<close> yields the full text of the
  variable settings, the grouped command and the redirections exactly when no value or file name
  contains a double quote and the text fits the buffer.
\<close>

lemma w32_cmdbuf_exact:
  "w32_cmdbuf cmd env outf errf =
     (if DQ \<in> set outf \<or> DQ \<in> set errf \<or> (\<exists>e \<in> set env. DQ \<in> set (env_val e))
         \<or> W32_CMDBUF_MAX \<le> int (length (w32_text cmd env outf errf))
      then None else Some (w32_text cmd env outf errf))"
proof (cases "DQ \<in> set outf \<or> DQ \<in> set errf \<or> (\<exists>e \<in> set env. DQ \<in> set (env_val e))")
  case True
  then show ?thesis by (auto simp: w32_cmdbuf_def build_wcmd_def wcmd_env_text)
next
  case False
  let ?t = "wsets env @ ''( '' @ cmd @ '' )''"
  let ?u = "'' > '' @ [DQ] @ outf @ (DQ # '' 2> '' @ [DQ]) @ errf"
  have w: "w32_text cmd env outf errf = (?t @ ?u) @ [DQ]" by (simp add: w32_text_def)
  have b: "build_wcmd W32_CMDBUF_MAX cmd env = (if int (length ?t) < W32_CMDBUF_MAX then Some ?t else None)"
    using False build_wcmd_text [of W32_CMDBUF_MAX env cmd] by (simp add: Let_def)
  show ?thesis
  proof (cases "int (length ?t) < W32_CMDBUF_MAX")
    case f: False
    then show ?thesis using False b unfolding w by (simp add: w32_cmdbuf_def)
  next
    case True
    then have t0: "?t = strlcat [] ?t W32_CMDBUF_MAX" by (simp add: gcds_strlcat_fits)
    have j: "strlcat (strlcat (strlcat (strlcat ?t ('' > '' @ [DQ]) W32_CMDBUF_MAX) outf W32_CMDBUF_MAX)
        (DQ # '' 2> '' @ [DQ]) W32_CMDBUF_MAX) errf W32_CMDBUF_MAX = strlcat [] (?t @ ?u) W32_CMDBUF_MAX"
      using True by (subst t0) (simp add: gcds_strlcat_append)
    have "w32_cmdbuf cmd env outf errf =
        (if snd (gcds_strlcat (strlcat [] (?t @ ?u) W32_CMDBUF_MAX) [DQ] W32_CMDBUF_MAX) \<ge> W32_CMDBUF_MAX
         then None else Some (strlcat (strlcat [] (?t @ ?u) W32_CMDBUF_MAX) [DQ] W32_CMDBUF_MAX))"
      using False True b unfolding w32_cmdbuf_def Let_def by (simp only: j if_True option.case) simp
    also have "\<dots> = (if int (length ((?t @ ?u) @ [DQ])) < W32_CMDBUF_MAX
        then Some (strlcat [] ((?t @ ?u) @ [DQ]) W32_CMDBUF_MAX) else None)"
      by (subst detect_last) simp_all
    finally show ?thesis using False unfolding w by (simp add: gcds_strlcat_fits)
  qed
qed

section \<open>MS-DOS leaves variables deleted\<close>

lemma putenv_delete:
  assumes "CHR ''='' \<notin> set (env_name e)" and "length (env_name e) < 255"
  shows "putenv (dos_envbuf e []) w = w\<lparr>environ := (environ w)(env_name e := None)\<rparr>"
proof -
  have "dos_envbuf e [] = env_name e @ [CHR ''='']"
    using assms(2) by (simp add: dos_envbuf_def gcds_strlcat_append gcds_strlcat_fits)
  then show ?thesis using assms(1) cut_append [of "CHR ''=''" "env_name e" "[]"] by (simp add: putenv_def)
qed

lemma dos_restore_deletes:
  assumes "\<forall>e \<in> set env. CHR ''='' \<notin> set (env_name e) \<and> length (env_name e) < 255"
  shows "environ (dos_restore_env env w) n = (if n \<in> env_name ` set env then None else environ w n)"
  using assms unfolding dos_restore_env_def
  by (induction env arbitrary: w) (auto simp: putenv_delete)

text \<open>
  The MS-DOS backend does not restore the environment of the daemon: after a command every
  variable the session had set is deleted, also one the daemon itself had before (such as PATH or
  COMSPEC), whatever the command did.
\<close>

lemma dos_run_deletes_variables:
  assumes "\<forall>e \<in> set env. CHR ''='' \<notin> set (env_name e) \<and> length (env_name e) < 255"
    and "n \<in> env_name ` set env"
  shows "environ (snd (dos_run_command S cmd env outf errf w)) n = None"
proof -
  have "\<exists>w'. snd (dos_run_command S cmd env outf errf w) = dos_restore_env env w'"
    by (auto simp: dos_run_command_def Let_def split: prod.splits)
  then show ?thesis using dos_restore_deletes [OF assms(1)] assms(2) by auto
qed

definition demo_os :: os where
  "demo_os = \<lparr>os_resolve = (\<lambda>d p. p), os_chdir = (\<lambda>w p. Some p), os_can_create = (\<lambda>w p. True),
     os_fwrite_ok = (\<lambda>w p d. True), os_fclose_ok = (\<lambda>w p. True), os_system = (\<lambda>c w. (0, w)),
     os_spawn = (\<lambda>a x e w. (0, w)), os_fork = (\<lambda>s w. None), os_gethostname = Some ''host'',
     os_ostag = None\<rparr>"

definition demo_world :: world where
  "demo_world = \<lparr>files = (\<lambda>_. None), cwd = ''/'', environ = [''PATH'' \<mapsto> ''C:'']\<rparr>"

end
