(* ===== verification/Acl.thy ===== *)
theory Acl
  imports Prelude "HOL-Library.Word"
begin

text \<open>
  \<^verbatim>\<open>common/acl.c\<close>: the IPv4 allow list that gates incoming peers.

  The \<^verbatim>\<open>unsigned long\<close> values hold at most 32 significant bits (four octets, and masks the code cuts
  with \<^verbatim>\<open>0xFFFFFFFF\<close>), so they are 32-bit words.  \<open>show_ip\<close> and \<open>show_entry\<close> are the reference
  printers: the theorem says what the code decides on any list written with them.
\<close>

unbundle bit_operations_syntax

section \<open>Operations\<close>

text \<open>The \<^verbatim>\<open>while\<close> loop over the digits of one octet.\<close>

fun parse_octet :: "string \<Rightarrow> int \<Rightarrow> int \<Rightarrow> (int \<times> int \<times> string) option" where
  "parse_octet [] oct digits = Some (oct, digits, [])"
| "parse_octet (c # s) oct digits =
     (if is_digit c
      then let oct' = oct * 10 + int (digit_val c); digits' = digits + 1 in
           if oct' > 255 \<or> digits' > 3 then None else parse_octet s oct' digits'
      else Some (oct, digits, c # s))"

text \<open>The \<^verbatim>\<open>for\<close> loop, with \<open>n\<close> octets left to read.\<close>

fun parse_ip_loop :: "nat \<Rightarrow> 32 word \<Rightarrow> string \<Rightarrow> (32 word \<times> string) option" where
  "parse_ip_loop 0 v s = Some (v, s)"
| "parse_ip_loop (Suc n) v s =
     (case parse_octet s 0 0 of
        None \<Rightarrow> None
      | Some (oct, digits, s') \<Rightarrow>
          if digits = 0 then None
          else let v' = push_bit 8 v OR word_of_int oct in
            if n > 0
            then (case s' of [] \<Rightarrow> None | c # s'' \<Rightarrow>
                    if c \<noteq> CHR ''.'' then None else parse_ip_loop n v' s'')
            else parse_ip_loop n v' s')"

definition parse_ip :: "string \<Rightarrow> (32 word \<times> string) option" where
  "parse_ip s = parse_ip_loop 4 0 s"

text \<open>The loop over the digits of the prefix length.\<close>

fun parse_bits :: "string \<Rightarrow> int \<Rightarrow> (int \<times> string) option" where
  "parse_bits [] bits = Some (bits, [])"
| "parse_bits (c # s) bits =
     (if is_digit c
      then let bits' = bits * 10 + int (digit_val c) in
           if bits' > 32 then None else parse_bits s bits'
      else Some (bits, c # s))"

definition cidr_mask :: "int \<Rightarrow> 32 word" where
  "cidr_mask bits = (if bits = 0 then 0 else push_bit (nat (32 - bits)) 0xFFFFFFFF) AND 0xFFFFFFFF"

definition match_entry :: "string \<Rightarrow> 32 word \<Rightarrow> bool" where
  "match_entry ent peer =
     (if length ent = 0 \<or> length ent \<ge> 64 then False
      else (case parse_ip ent of
          None \<Rightarrow> False
        | Some (net, e) \<Rightarrow>
            (case e of
               [] \<Rightarrow> peer = net
             | c # p \<Rightarrow>
                 if c \<noteq> CHR ''/'' then False
                 else if p = [] \<or> \<not> is_digit (hd p) then False
                 else (case parse_bits p 0 of
                     None \<Rightarrow> False
                   | Some (bits, r) \<Rightarrow>
                       if r \<noteq> [] then False
                       else peer AND cidr_mask bits = net AND cidr_mask bits))))"

definition acl_sep :: "char \<Rightarrow> bool" where
  "acl_sep c \<longleftrightarrow> c = CHR '' '' \<or> c = TAB \<or> c = CHR '',''"

lemma acl_scan_shrinks:
  "s \<noteq> [] \<Longrightarrow> length (dropWhile (\<lambda>c. \<not> acl_sep c) (dropWhile acl_sep s)) < length s"
proof (cases s)
  case (Cons c cs)
  then show ?thesis
    using length_dropWhile_le [of "\<lambda>c. \<not> acl_sep c" "dropWhile acl_sep cs"]
      length_dropWhile_le [of acl_sep cs] length_dropWhile_le [of "\<lambda>c. \<not> acl_sep c" cs]
    by auto
qed simp

text \<open>The scan of the list: skip separators, take an entry, match it.\<close>

function acl_scan :: "string \<Rightarrow> 32 word \<Rightarrow> bool" where
  "acl_scan s peer =
     (if s = [] then False
      else let start = dropWhile acl_sep s;
               ent = takeWhile (\<lambda>c. \<not> acl_sep c) start;
               s' = dropWhile (\<lambda>c. \<not> acl_sep c) start in
           if ent \<noteq> [] \<and> match_entry ent peer then True else acl_scan s' peer)"
  by pat_completeness auto
termination
  by (relation "measure (length \<circ> fst)") (auto simp: acl_scan_shrinks)

declare acl_scan.simps [simp del]

definition acl_allowed :: "string \<Rightarrow> string \<Rightarrow> bool" where
  "acl_allowed allow ip =
     (if allow = [] then True
      else (case parse_ip ip of None \<Rightarrow> False | Some (peer, _) \<Rightarrow> acl_scan allow peer))"

section \<open>Reference: printed addresses and prefixes\<close>

definition octet :: "nat \<Rightarrow> 32 word \<Rightarrow> nat" where
  "octet i w = unat (take_bit 8 (drop_bit (8 * i) w))"

definition show_ip :: "32 word \<Rightarrow> string" where
  "show_ip w = dec (octet 3 w) @ ''.'' @ dec (octet 2 w) @ ''.'' @ dec (octet 1 w) @ ''.'' @ dec (octet 0 w)"

type_synonym acl_entry = "32 word \<times> nat option"

definition show_entry :: "acl_entry \<Rightarrow> string" where
  "show_entry e = show_ip (fst e) @ (case snd e of None \<Rightarrow> [] | Some b \<Rightarrow> ''/'' @ dec b)"

text \<open>An entry covers the addresses that agree with it on the leading bits of its prefix.\<close>

definition entry_wf :: "acl_entry \<Rightarrow> bool" where
  "entry_wf e \<longleftrightarrow> (case snd e of None \<Rightarrow> True | Some b \<Rightarrow> b \<le> 32)"

definition entry_covers :: "acl_entry \<Rightarrow> 32 word \<Rightarrow> bool" where
  "entry_covers e peer \<longleftrightarrow>
     (let b = (case snd e of None \<Rightarrow> 32 | Some b \<Rightarrow> b) in
      unat peer div 2 ^ (32 - b) = unat (fst e) div 2 ^ (32 - b))"

text \<open>A list: entries, each after its separators, and trailing separators.\<close>

fun show_acl :: "(string \<times> acl_entry) list \<Rightarrow> string \<Rightarrow> string" where
  "show_acl [] trail = trail"
| "show_acl ((g, e) # xs) trail = g @ show_entry e @ show_acl xs trail"

definition seps_ok :: "string list \<Rightarrow> bool" where
  "seps_ok gs \<longleftrightarrow> (\<forall>g \<in> set gs. \<forall>c \<in> set g. acl_sep c) \<and> (\<forall>g \<in> set (tl gs). g \<noteq> [])"

section \<open>Parsing what was printed\<close>

lemma num_acc_mono: "0 \<le> a \<Longrightarrow> a \<le> num_acc a ds"
proof (induction ds arbitrary: a)
  case (Cons c ds)
  then have "10 * a + int (digit_val c) \<le> num_acc (10 * a + int (digit_val c)) ds" by simp
  then show ?case using Cons.prems by simp
qed simp

lemma parse_octet_digits:
  assumes "\<And>c. c \<in> set ds \<Longrightarrow> is_digit c" and "0 \<le> oct" and "num_acc oct ds \<le> 255"
    and "digits + int (length ds) \<le> 3"
  shows "parse_octet (ds @ r) oct digits = parse_octet r (num_acc oct ds) (digits + int (length ds))"
  using assms
proof (induction ds arbitrary: oct digits)
  case (Cons c ds)
  let ?o = "10 * oct + int (digit_val c)"
  have le: "?o \<le> num_acc ?o ds" using Cons.prems(2) by (intro num_acc_mono) simp
  have "parse_octet (ds @ r) ?o (digits + 1)
      = parse_octet r (num_acc ?o ds) (digits + 1 + int (length ds))"
    using Cons.prems by (intro Cons.IH) auto
  then show ?case using Cons.prems le by (simp add: Let_def algebra_simps)
qed simp

lemma parse_bits_digits:
  assumes "\<And>c. c \<in> set ds \<Longrightarrow> is_digit c" and "0 \<le> bits" and "num_acc bits ds \<le> 32"
  shows "parse_bits (ds @ r) bits = parse_bits r (num_acc bits ds)"
  using assms
proof (induction ds arbitrary: bits)
  case (Cons c ds)
  let ?b = "10 * bits + int (digit_val c)"
  have le: "?b \<le> num_acc ?b ds" using Cons.prems(2) by (intro num_acc_mono) simp
  have "parse_bits (ds @ r) ?b = parse_bits r (num_acc ?b ds)"
    using Cons.prems by (intro Cons.IH) auto
  then show ?case using Cons.prems le by (simp add: Let_def algebra_simps)
qed simp

definition stops :: "string \<Rightarrow> bool" where
  "stops r \<longleftrightarrow> r = [] \<or> \<not> is_digit (hd r)"

lemma stops_simps [simp]: "stops []" "stops (c # r) \<longleftrightarrow> \<not> is_digit c"
  by (simp_all add: stops_def)

lemma parse_octet_stop: "stops r \<Longrightarrow> parse_octet r oct digits = Some (oct, digits, r)"
  by (cases r) auto

lemma parse_octet_dec:
  assumes "n < 256" and "stops r"
  shows "parse_octet (dec n @ r) 0 0 = Some (int n, int (length (dec n)), r)"
proof -
  have "length (dec n) \<le> 3"
    using assms(1) by (auto simp: dec.simps)
  then show ?thesis
    using parse_octet_digits [of "dec n" 0 0 r] assms
    by (simp add: dec_digits num_acc_dec parse_octet_stop)
qed

lemma octet_less: "octet i w < 256"
  using take_bit_nat_less_exp [of 8 "unat (drop_bit (8 * i) w)"]
  by (simp add: octet_def unsigned_take_bit_eq)

lemma octets_compose:
  fixes w :: "32 word"
  shows "push_bit 8 (push_bit 8 (push_bit 8 (push_bit 8 0 OR word_of_int (int (octet 3 w)))
      OR word_of_int (int (octet 2 w))) OR word_of_int (int (octet 1 w)))
      OR word_of_int (int (octet 0 w)) = w"
proof (rule bit_word_eqI)
  fix n :: nat
  assume "n < LENGTH(32)"
  then consider "n < 8" | "8 \<le> n" "n < 16" | "16 \<le> n" "n < 24" | "24 \<le> n" "n < 32"
    by fastforce
  then show "bit (push_bit 8 (push_bit 8 (push_bit 8 (push_bit 8 (0 :: 32 word) OR word_of_int (int (octet 3 w)))
      OR word_of_int (int (octet 2 w))) OR word_of_int (int (octet 1 w)))
      OR word_of_int (int (octet 0 w))) n = bit w n"
    unfolding octet_def by cases (simp_all add: bit_simps less_diff_conv2)
qed

lemma parse_ip_show:
  assumes "stops r"
  shows "parse_ip (show_ip w @ r) = Some (w, r)"
proof -
  have four: "parse_ip s = parse_ip_loop (Suc (Suc (Suc (Suc 0)))) 0 s" for s
    by (simp add: parse_ip_def eval_nat_numeral)
  show ?thesis
    using octets_compose [of w] assms
    by (simp add: four show_ip_def parse_octet_dec octet_less Let_def)
qed

lemma mask_and_iff:
  fixes a c :: "32 word"
  shows "a AND push_bit k (-1) = c AND push_bit k (-1) \<longleftrightarrow> drop_bit k a = drop_bit k c"
proof -
  have "push_bit k (drop_bit k x) = x AND push_bit k (-1)" for x :: "32 word"
    by (rule bit_word_eqI) (auto simp: bit_simps)
  moreover have "drop_bit k (x AND push_bit k (-1)) = drop_bit k x" for x :: "32 word"
    by (rule bit_word_eqI) (auto simp: bit_simps dest: bit_imp_le_length)
  ultimately show ?thesis by metis
qed

lemma cidr_mask_push:
  assumes "0 \<le> b" and "b \<le> 32"
  shows "cidr_mask b = push_bit (nat (32 - b)) (-1)"
proof -
  have m: "(0xFFFFFFFF :: 32 word) = -1" by simp
  have z: "push_bit 32 (-1 :: 32 word) = 0"
    by (rule bit_word_eqI) (simp add: bit_simps)
  show ?thesis
    using z unfolding cidr_mask_def m and.right_neutral by (cases "b = 0") (simp_all del: push_bit_minus_one)
qed

lemma cidr_mask_iff:
  assumes "0 \<le> b" and "b \<le> 32"
  shows "a AND cidr_mask b = c AND cidr_mask b
    \<longleftrightarrow> unat a div 2 ^ (32 - nat b) = unat c div 2 ^ (32 - nat b)"
proof -
  have n: "nat (32 - b) = 32 - nat b" using assms by simp
  have "a AND cidr_mask b = c AND cidr_mask b \<longleftrightarrow>
      unat (drop_bit (32 - nat b) a) = unat (drop_bit (32 - nat b) c)"
    unfolding cidr_mask_push [OF assms] mask_and_iff n by (simp add: word_unat_eq_iff)
  moreover have "unat (drop_bit k x) = unat x div 2 ^ k" for k and x :: "32 word"
    by (metis drop_bit_eq_div unat_drop_bit_eq)
  ultimately show ?thesis by simp
qed

lemma parse_bits_dec:
  assumes "b \<le> 32"
  shows "parse_bits (dec b) 0 = Some (int b, [])"
  using parse_bits_digits [of "dec b" 0 "[]"] assms by (simp add: dec_digits num_acc_dec)

lemma hd_dec_digit: "is_digit (hd (dec n))"
  using dec_digits [of "hd (dec n)" n] by simp

lemma octet_len: "length (dec (octet i w)) \<le> 3"
  using octet_less [of i w] by (auto simp: dec.simps)

lemma show_ip_len: "0 < length (show_ip w)" "length (show_ip w) \<le> 15"
  using octet_len [of 0 w] octet_len [of 1 w] octet_len [of 2 w] octet_len [of 3 w]
  by (simp_all add: show_ip_def)

lemma match_entry_show:
  assumes "entry_wf e"
  shows "match_entry (show_entry e) peer \<longleftrightarrow> entry_covers e peer"
proof (cases "snd e")
  case None
  have "match_entry (show_entry e) peer \<longleftrightarrow> peer = fst e"
    using parse_ip_show [of "[]" "fst e"] show_ip_len [of "fst e"] None
    by (simp add: match_entry_def show_entry_def)
  then show ?thesis using None by (simp add: entry_covers_def word_unat_eq_iff)
next
  case (Some b)
  with assms have b: "b \<le> 32" by (simp add: entry_wf_def)
  then have "length (dec b) \<le> 2" by (auto simp: dec.simps)
  then have "match_entry (show_entry e) peer \<longleftrightarrow>
      peer AND cidr_mask (int b) = fst e AND cidr_mask (int b)"
    using parse_ip_show [of "CHR ''/'' # dec b" "fst e"] show_ip_len [of "fst e"] Some
    by (simp add: match_entry_def show_entry_def parse_bits_dec [OF b] hd_dec_digit)
  also have "\<dots> \<longleftrightarrow> entry_covers e peer"
    using b Some by (simp add: cidr_mask_iff entry_covers_def)
  finally show ?thesis .
qed

section \<open>Scanning the list\<close>

lemma digit_not_sep: "is_digit c \<Longrightarrow> \<not> acl_sep c"
  by (auto simp: acl_sep_def is_digit_def)

lemma show_entry_no_sep: "c \<in> set (show_entry e) \<Longrightarrow> \<not> acl_sep c"
  by (auto simp: show_entry_def show_ip_def dest!: dec_digits digit_not_sep split: option.splits)
     (simp_all add: acl_sep_def)

lemma show_entry_nonempty: "show_entry e \<noteq> []"
  using show_ip_len by (simp add: show_entry_def)

lemma acl_scan_seps:
  assumes "\<forall>c \<in> set g. acl_sep c"
  shows "\<not> acl_scan g peer"
proof -
  from assms have d: "dropWhile acl_sep g = []" by simp
  show ?thesis unfolding acl_scan.simps [of g] d Let_def by (simp add: acl_scan.simps [of "[]"])
qed

lemma acl_scan_entry:
  assumes "\<forall>c \<in> set g. acl_sep c" and "r = [] \<or> acl_sep (hd r)"
  shows "acl_scan (g @ show_entry e @ r) peer \<longleftrightarrow>
    match_entry (show_entry e) peer \<or> acl_scan r peer"
proof -
  let ?t = "show_entry e"
  have hd: "\<not> acl_sep (hd ?t)"
    using show_entry_no_sep [of "hd ?t" e] show_entry_nonempty [of e] by simp
  have d1: "dropWhile acl_sep (g @ ?t @ r) = ?t @ r"
    using assms(1) hd show_entry_nonempty [of e]
    by (cases ?t) (simp_all add: dropWhile_append2)
  have d2: "takeWhile (\<lambda>c. \<not> acl_sep c) (?t @ r) = ?t" "dropWhile (\<lambda>c. \<not> acl_sep c) (?t @ r) = r"
    using assms(2) show_entry_no_sep [of _ e]
    by (cases r; simp add: takeWhile_append2 dropWhile_append2)+
  show ?thesis
    using show_entry_nonempty [of e]
    by (subst acl_scan.simps) (simp add: d1 d2 Let_def)
qed

lemma show_acl_sep:
  assumes "seps_ok (g # map fst xs)" and "\<forall>c \<in> set trail. acl_sep c"
  shows "show_acl xs trail = [] \<or> acl_sep (hd (show_acl xs trail))"
proof (cases xs)
  case Nil
  then show ?thesis using assms by (cases trail) auto
next
  case (Cons x ys)
  then have "fst x \<noteq> []" "\<forall>c \<in> set (fst x). acl_sep c" using assms by (auto simp: seps_ok_def)
  then show ?thesis using Cons by (cases x; cases "fst x") auto
qed

lemma acl_scan_show:
  assumes "seps_ok (map fst xs)" and "\<forall>c \<in> set trail. acl_sep c" and "\<forall>x \<in> set xs. entry_wf (snd x)"
  shows "acl_scan (show_acl xs trail) peer \<longleftrightarrow> (\<exists>x \<in> set xs. entry_covers (snd x) peer)"
  using assms
proof (induction xs)
  case Nil
  then show ?case by (simp add: acl_scan_seps)
next
  case (Cons x xs)
  obtain g e where x: "x = (g, e)" by (cases x)
  have ok: "seps_ok (map fst xs)"
    using Cons.prems(1) by (cases xs) (auto simp: seps_ok_def)
  have g: "\<forall>c \<in> set g. acl_sep c" using Cons.prems(1) x by (simp add: seps_ok_def)
  have "show_acl xs trail = [] \<or> acl_sep (hd (show_acl xs trail))"
    using Cons.prems(1,2) x show_acl_sep by simp
  then show ?case
    using acl_scan_entry [OF g, of "show_acl xs trail" e peer] Cons.IH [OF ok] Cons.prems x
    by (simp add: match_entry_show)
qed

text \<open>
  C29. An allow list of printed addresses and prefixes, however they are separated by blanks and
  commas, admits exactly the peers whose address agrees with some entry on the leading bits of the
  entry's prefix (all 32 for a plain address); the empty list admits everyone.
\<close>

theorem acl_allowed_cidr:
  assumes "seps_ok (map fst xs)" and "\<forall>c \<in> set trail. acl_sep c" and "\<forall>x \<in> set xs. entry_wf (snd x)"
  shows "acl_allowed (show_acl xs trail) (show_ip peer) \<longleftrightarrow>
    show_acl xs trail = [] \<or> (\<exists>x \<in> set xs. entry_covers (snd x) peer)"
  using acl_scan_show [OF assms, of peer] parse_ip_show [of "[]" peer]
  by (simp add: acl_allowed_def)

theorem acl_allowed_cidr_witness:
  "acl_allowed (show_acl [([], (0xC0A80000, Some 16)), ('', '', (0x0A000001, None))] '' '') (show_ip 0xC0A80102)"
proof -
  have "entry_covers (0xC0A80000, Some 16) 0xC0A80102" by (simp add: entry_covers_def)
  then show ?thesis
    using acl_allowed_cidr [of "[([], (0xC0A80000, Some 16)), ('', '', (0x0A000001, None))]" "'' ''" "0xC0A80102"]
    by (simp add: seps_ok_def acl_sep_def entry_wf_def)
qed

end
