(* ===== verification/Textcv.thy ===== *)
theory Textcv
  imports Gcdsp
begin

text \<open>
  \<^verbatim>\<open>common/textcv.c\<close>: normalisation of text to the wire encoding, as streams with hold-back.

  The macOS part (Hangul NFD to NFC) is modelled in full.  The Win32 part calls
  \<^verbatim>\<open>MultiByteToWideChar\<close> and its relatives; they are the fields of \<open>w32nls\<close>.  Both are values of
  \<open>txt_ops\<close>, what the sessions call; a build without \<^verbatim>\<open>GCDS_TEXTCV\<close> uses \<open>txt_none\<close>.

  A conversion that returns -1 is \<open>None\<close>.  The reference splits the bytes into items (code points
  and undecodable bytes), composes the Hangul clusters of the item list and encodes it again.
\<close>

unbundle bit_operations_syntax

section \<open>Streams\<close>

text \<open>\<^verbatim>\<open>txt_stream_t\<close>: the bytes held back, at most 16.\<close>

record txt_stream =
  pend :: "char list"

definition txt_stream_init :: txt_stream where
  "txt_stream_init = \<lparr>pend = []\<rparr>"

definition splice :: "txt_stream \<Rightarrow> char list \<Rightarrow> int \<Rightarrow> char list \<times> txt_stream" where
  "splice s inb jmax =
     (if pend s = [] then (inb, s)
      else let npend = int (length (pend s));
               n = (if npend + int (length inb) > jmax then jmax - npend else int (length inb)) in
           (pend s @ take (nat n) inb, s\<lparr>pend := []\<rparr>))"

definition hold :: "txt_stream \<Rightarrow> char list \<Rightarrow> txt_stream" where
  "hold s p = (if p = [] then s else s\<lparr>pend := take 16 p\<rparr>)"

section \<open>Hangul composition\<close>

abbreviation L_BASE :: int where "L_BASE \<equiv> 0x1100"
abbreviation V_BASE :: int where "V_BASE \<equiv> 0x1161"
abbreviation T_BASE :: int where "T_BASE \<equiv> 0x11A7"
abbreviation S_BASE :: int where "S_BASE \<equiv> 0xAC00"
abbreviation L_CNT :: int where "L_CNT \<equiv> 19"
abbreviation V_CNT :: int where "V_CNT \<equiv> 21"
abbreviation T_CNT :: int where "T_CNT \<equiv> 28"
abbreviation N_CNT :: int where "N_CNT \<equiv> 588"
abbreviation S_CNT :: int where "S_CNT \<equiv> 11172"

definition is_L :: "int \<Rightarrow> bool" where "is_L c \<longleftrightarrow> c \<ge> L_BASE \<and> c < L_BASE + L_CNT"
definition is_V :: "int \<Rightarrow> bool" where "is_V c \<longleftrightarrow> c \<ge> V_BASE \<and> c < V_BASE + V_CNT"
definition is_T :: "int \<Rightarrow> bool" where "is_T c \<longleftrightarrow> c > T_BASE \<and> c < T_BASE + T_CNT"
definition is_S :: "int \<Rightarrow> bool" where "is_S c \<longleftrightarrow> c \<ge> S_BASE \<and> c < S_BASE + S_CNT"

text \<open>Decoding one character: the code point and the bytes used, or incomplete, or invalid.\<close>

datatype u8 = U8 int nat | U8short | U8bad

definition byte :: "char list \<Rightarrow> nat \<Rightarrow> int" where
  "byte p i = of_char (p ! i)"

definition u8dec :: "char list \<Rightarrow> u8" where
  "u8dec p =
     (let b0 = byte p 0; n = length p in
      if b0 < 0x80 then U8 b0 1
      else if b0 AND 0xE0 = 0xC0 then
        (if n < 2 then U8short
         else U8 (push_bit 6 (b0 AND 0x1F) OR (byte p 1 AND 0x3F)) 2)
      else if b0 AND 0xF0 = 0xE0 then
        (if n < 3 then U8short
         else U8 (push_bit 12 (b0 AND 0x0F) OR push_bit 6 (byte p 1 AND 0x3F)
                  OR (byte p 2 AND 0x3F)) 3)
      else if b0 AND 0xF8 = 0xF0 then
        (if n < 4 then U8short
         else U8 (push_bit 18 (b0 AND 0x07) OR push_bit 12 (byte p 1 AND 0x3F)
                  OR push_bit 6 (byte p 2 AND 0x3F) OR (byte p 3 AND 0x3F)) 4)
      else U8bad)"

definition u8enc :: "int \<Rightarrow> char list" where
  "u8enc c =
     (if c < 0x80 then [char_of c]
      else if c < 0x800 then
        [char_of (0xC0 OR drop_bit 6 c), char_of (0x80 OR (c AND 0x3F))]
      else if c < 0x10000 then
        [char_of (0xE0 OR drop_bit 12 c), char_of (0x80 OR (drop_bit 6 c AND 0x3F)),
         char_of (0x80 OR (c AND 0x3F))]
      else
        [char_of (0xF0 OR drop_bit 18 c), char_of (0x80 OR (drop_bit 12 c AND 0x3F)),
         char_of (0x80 OR (drop_bit 6 c AND 0x3F)), char_of (0x80 OR (c AND 0x3F))])"

text \<open>The scan of \<^verbatim>\<open>safe_end\<close>: the last two characters with their positions, and the end of the
  last complete one.\<close>

record scan =
  sc_st0 :: int
  sc_st1 :: int
  sc_cv0 :: int
  sc_cv1 :: int
  sc_complete :: int

definition scan_init :: scan where
  "scan_init = \<lparr>sc_st0 = -1, sc_st1 = -1, sc_cv0 = 0, sc_cv1 = 0, sc_complete = 0\<rparr>"

definition scan_step :: "int \<Rightarrow> int \<Rightarrow> nat \<Rightarrow> scan \<Rightarrow> scan" where
  "scan_step p c k z = \<lparr>sc_st0 = sc_st1 z, sc_st1 = p, sc_cv0 = sc_cv1 z, sc_cv1 = c, sc_complete = p + int k\<rparr>"

function safe_scan :: "char list \<Rightarrow> int \<Rightarrow> scan \<Rightarrow> scan" where
  "safe_scan r p z =
     (if r = [] then z
      else (case u8dec r of
          U8short \<Rightarrow> z
        | U8bad \<Rightarrow> safe_scan (drop 1 r) (p + 1) (scan_step p (-1) 1 z)
        | U8 c k \<Rightarrow> safe_scan (drop k r) (p + int k) (scan_step p c k z)))"
  by pat_completeness auto
termination
  by (relation "measure (\<lambda>(r, p, z). length r)")
    (auto simp: u8dec_def Let_def split: if_splits)

declare safe_scan.simps [simp del]

definition safe_end :: "char list \<Rightarrow> int" where
  "safe_end src =
     (let z = safe_scan src 0 scan_init in
      if sc_st1 z < 0 then sc_complete z
      else if is_L (sc_cv1 z) then sc_st1 z
      else if is_V (sc_cv1 z) then (if sc_st0 z \<ge> 0 \<and> is_L (sc_cv0 z) then sc_st0 z else sc_st1 z)
      else if is_S (sc_cv1 z) \<and> (sc_cv1 z - S_BASE) mod T_CNT = 0 then sc_st1 z
      else sc_complete z)"

text \<open>The two lookaheads of \<^verbatim>\<open>compose\<close> after a decoded \<open>cp\<close> with the bytes \<open>r1\<close> behind it: the
  composed syllable and what is left, \<open>None\<close> when the cluster does not continue.\<close>

definition compose_lv :: "int \<Rightarrow> char list \<Rightarrow> (int \<times> char list) option" where
  "compose_lv cp r1 =
     (if is_L cp \<and> r1 \<noteq> [] then
        (case u8dec r1 of
           U8 cp2 k2 \<Rightarrow>
             if is_V cp2 then
               (let sy = S_BASE + (cp - L_BASE) * N_CNT + (cp2 - V_BASE) * T_CNT;
                    r2 = drop k2 r1 in
                if r2 \<noteq> [] then
                  (case u8dec r2 of
                     U8 cp3 k3 \<Rightarrow> if is_T cp3 then Some (sy + (cp3 - T_BASE), drop k3 r2) else Some (sy, r2)
                   | _ \<Rightarrow> Some (sy, r2))
                else Some (sy, r2))
             else None
         | _ \<Rightarrow> None)
      else None)"

definition compose_st :: "int \<Rightarrow> char list \<Rightarrow> (int \<times> char list) option" where
  "compose_st cp r1 =
     (if is_S cp \<and> (cp - S_BASE) mod T_CNT = 0 \<and> r1 \<noteq> [] then
        (case u8dec r1 of
           U8 cp2 k2 \<Rightarrow> if is_T cp2 then Some (cp + (cp2 - T_BASE), drop k2 r1) else None
         | _ \<Rightarrow> None)
      else None)"

lemma u8dec_used: "u8dec r = U8 c k \<Longrightarrow> 0 < k \<and> k \<le> 4 \<and> (r \<noteq> [] \<longrightarrow> k \<le> length r)"
  by (cases r) (auto simp: u8dec_def Let_def Suc_le_eq split: if_splits)

lemma compose_shrinks:
  assumes "r \<noteq> []" and "u8dec r = U8 cp k"
  shows "compose_lv cp (drop k r) = Some (sy, r') \<Longrightarrow> length r' < length r"
    and "compose_st cp (drop k r) = Some (sy, r') \<Longrightarrow> length r' < length r"
  using assms
  by (auto simp: compose_lv_def compose_st_def Let_def dest!: u8dec_used split: if_splits u8.splits)

text \<open>\<open>r\<close> is the input from position \<^verbatim>\<open>i\<close> up to \<^verbatim>\<open>lim\<close>, \<open>out\<close> the bytes written.\<close>

function compose_loop :: "char list \<Rightarrow> char list \<Rightarrow> int \<Rightarrow> char list option" where
  "compose_loop r out omax =
     (if r = [] then Some out
      else (case u8dec r of
          U8short \<Rightarrow> Some out
        | U8bad \<Rightarrow>
            if int (length out) \<ge> omax then None
            else compose_loop (drop 1 r) (out @ [hd r]) omax
        | U8 cp k \<Rightarrow>
            (let r1 = drop k r in
             case compose_lv cp r1 of
               Some (sy, r') \<Rightarrow>
                 if int (length out) + 3 > omax then None
                 else compose_loop r' (out @ u8enc sy) omax
             | None \<Rightarrow>
                 (case compose_st cp r1 of
                    Some (sy, r') \<Rightarrow>
                      if int (length out) + 3 > omax then None
                      else compose_loop r' (out @ u8enc sy) omax
                  | None \<Rightarrow>
                      if int (length out) + int k > omax then None
                      else compose_loop r1 (out @ u8enc cp) omax))))"
  by pat_completeness auto
termination
  by (relation "measure (\<lambda>(r, out, omax). length r)")
    (auto simp: compose_shrinks dest: u8dec_used)

declare compose_loop.simps [simp del]

definition compose :: "char list \<Rightarrow> int \<Rightarrow> char list option" where
  "compose src omax = compose_loop src [] omax"

abbreviation JOIN_MAX :: int where "JOIN_MAX \<equiv> 8192"

definition mac_txt_out :: "txt_stream \<Rightarrow> char list \<Rightarrow> int \<Rightarrow> char list option \<times> txt_stream" where
  "mac_txt_out s inb omax =
     (case splice s inb JOIN_MAX of (src, s1) \<Rightarrow>
        let lim = nat (safe_end src) in
        (compose (take lim src) omax, hold s1 (drop lim src)))"

definition mac_txt_flush :: "txt_stream \<Rightarrow> int \<Rightarrow> char list option \<times> txt_stream" where
  "mac_txt_flush s omax =
     (if pend s = [] then (Some [], s) else (compose (pend s) omax, s\<lparr>pend := []\<rparr>))"

definition mac_txt_in :: "char list \<Rightarrow> int \<Rightarrow> char list option" where
  "mac_txt_in inb omax = (if int (length inb) > omax then None else Some inb)"

definition mac_txt_init :: "string option \<Rightarrow> bool" where
  "mac_txt_init mode \<longleftrightarrow> mode \<noteq> Some ''off''"

section \<open>Win32 code pages\<close>

text \<open>The kernel32 routines: the lead bytes of a code page, the conversion of a byte string to wide
  characters with the size of the wide buffer, and back with the size of the byte buffer (\<open>None\<close> for
  a result of 0 or less), and the two default code pages.\<close>

record w32nls =
  IsDBCSLeadByteEx :: "int \<Rightarrow> char \<Rightarrow> bool"
  MultiByteToWideChar :: "int \<Rightarrow> char list \<Rightarrow> int \<Rightarrow> int list option"
  WideCharToMultiByte :: "int \<Rightarrow> int list \<Rightarrow> int \<Rightarrow> char list option"
  GetConsoleOutputCP :: int
  GetACP :: int

abbreviation CP_UTF8 :: int where "CP_UTF8 \<equiv> 65001"
abbreviation WBUF_MAX :: int where "WBUF_MAX \<equiv> 4096"

text \<open>The result is \<^verbatim>\<open>g_active\<close> and \<^verbatim>\<open>g_cp\<close>.\<close>

definition w32_txt_init :: "w32nls \<Rightarrow> string option \<Rightarrow> bool \<times> int" where
  "w32_txt_init N mode =
     (if mode = Some ''off'' then (False, CP_UTF8)
      else let forced = (case mode of None \<Rightarrow> 0
                         | Some m \<Rightarrow> if m = [] \<or> m = ''auto'' then 0 else num_acc 0 m);
               cp = (if forced > 0 then forced
                     else if GetConsoleOutputCP N = 0 then GetACP N else GetConsoleOutputCP N) in
           (cp \<noteq> CP_UTF8, cp))"

fun dbcs_complete :: "(char \<Rightarrow> bool) \<Rightarrow> char list \<Rightarrow> nat" where
  "dbcs_complete lead [] = 0"
| "dbcs_complete lead (c # r) =
     (if lead c then (case r of [] \<Rightarrow> 0 | _ # r' \<Rightarrow> 2 + dbcs_complete lead r')
      else 1 + dbcs_complete lead r)"

definition w32_txt_out :: "w32nls \<Rightarrow> int \<Rightarrow> txt_stream \<Rightarrow> char list \<Rightarrow> int \<Rightarrow> char list option \<times> txt_stream" where
  "w32_txt_out N cp s inb omax =
     (case splice s inb JOIN_MAX of (src, s1) \<Rightarrow>
        let n = dbcs_complete (IsDBCSLeadByteEx N cp) src;
            s2 = hold s1 (drop n src) in
        if n = 0 then (Some [], s2)
        else (case MultiByteToWideChar N cp (take n src) WBUF_MAX of
            None \<Rightarrow> (None, s2)
          | Some w \<Rightarrow> (WideCharToMultiByte N CP_UTF8 w omax, s2)))"

definition w32_txt_flush :: "w32nls \<Rightarrow> int \<Rightarrow> txt_stream \<Rightarrow> int \<Rightarrow> char list option \<times> txt_stream" where
  "w32_txt_flush N cp s omax =
     (if pend s = [] then (Some [], s)
      else (case MultiByteToWideChar N cp (pend s) WBUF_MAX of
          None \<Rightarrow> (Some [], s\<lparr>pend := []\<rparr>)
        | Some w \<Rightarrow>
            (Some (case WideCharToMultiByte N CP_UTF8 w omax of None \<Rightarrow> [] | Some b \<Rightarrow> b), s\<lparr>pend := []\<rparr>)))"

definition w32_txt_in :: "w32nls \<Rightarrow> int \<Rightarrow> char list \<Rightarrow> int \<Rightarrow> char list option" where
  "w32_txt_in N cp inb omax =
     (if inb = [] then Some []
      else (case MultiByteToWideChar N CP_UTF8 inb WBUF_MAX of
          None \<Rightarrow> None
        | Some w \<Rightarrow> WideCharToMultiByte N cp w omax))"

section \<open>What the sessions call\<close>

record txt_ops =
  txt_active :: bool
  txt_out :: "txt_stream \<Rightarrow> char list \<Rightarrow> int \<Rightarrow> char list option \<times> txt_stream"
  txt_flush :: "txt_stream \<Rightarrow> int \<Rightarrow> char list option \<times> txt_stream"
  txt_in :: "char list \<Rightarrow> int \<Rightarrow> char list option"

definition txt_mac :: "string option \<Rightarrow> txt_ops" where
  "txt_mac mode = \<lparr>txt_active = mac_txt_init mode, txt_out = mac_txt_out,
                   txt_flush = mac_txt_flush, txt_in = mac_txt_in\<rparr>"

definition txt_w32 :: "w32nls \<Rightarrow> string option \<Rightarrow> txt_ops" where
  "txt_w32 N mode = (case w32_txt_init N mode of (act, cp) \<Rightarrow>
     \<lparr>txt_active = act, txt_out = w32_txt_out N cp, txt_flush = w32_txt_flush N cp,
      txt_in = w32_txt_in N cp\<rparr>)"

definition txt_none :: txt_ops where
  "txt_none = \<lparr>txt_active = False, txt_out = (\<lambda>s b m. (Some b, s)), txt_flush = (\<lambda>s m. (Some [], s)),
               txt_in = (\<lambda>b m. Some b)\<rparr>"

section \<open>Reference: items\<close>

datatype titem = Cp int | Raw char

function items :: "char list \<Rightarrow> titem list" where
  "items r =
     (if r = [] then []
      else (case u8dec r of
          U8short \<Rightarrow> []
        | U8bad \<Rightarrow> Raw (hd r) # items (drop 1 r)
        | U8 c k \<Rightarrow> Cp c # items (drop k r)))"
  by pat_completeness auto
termination
  by (relation "measure length") (auto dest: u8dec_used)

declare items.simps [simp del]

fun cp_sat :: "(int \<Rightarrow> bool) \<Rightarrow> titem \<Rightarrow> bool" where
  "cp_sat P (Cp c) = P c"
| "cp_sat P (Raw b) = False"

definition sat :: "(int \<Rightarrow> bool) \<Rightarrow> titem list \<Rightarrow> bool" where
  "sat P xs \<longleftrightarrow> xs \<noteq> [] \<and> cp_sat P (hd xs)"

definition is_LV :: "int \<Rightarrow> bool" where
  "is_LV c \<longleftrightarrow> is_S c \<and> (c - S_BASE) mod T_CNT = 0"

fun cpcode :: "titem \<Rightarrow> int" where
  "cpcode (Cp c) = c"
| "cpcode (Raw b) = -1"

definition syl :: "int \<Rightarrow> int \<Rightarrow> int" where
  "syl l v = S_BASE + (l - L_BASE) * N_CNT + (v - V_BASE) * T_CNT"

text \<open>Composition of an item list: a leading and a vowel jamo, with a trailing jamo if there is one,
  become a syllable; a syllable without a trailing jamo takes one.\<close>

function hcomp :: "titem list \<Rightarrow> titem list" where
  "hcomp [] = []"
| "hcomp (x # xs) =
     (if cp_sat is_L x \<and> sat is_V xs
      then (if sat is_T (tl xs)
            then Cp (syl (cpcode x) (cpcode (hd xs)) + (cpcode (hd (tl xs)) - T_BASE)) # hcomp (tl (tl xs))
            else Cp (syl (cpcode x) (cpcode (hd xs))) # hcomp (tl xs))
      else if cp_sat is_LV x \<and> sat is_T xs
      then Cp (cpcode x + (cpcode (hd xs) - T_BASE)) # hcomp (tl xs)
      else x # hcomp xs)"
  by pat_completeness auto
termination by (relation "measure length") auto

declare hcomp.simps(2) [simp del]

fun enc :: "titem \<Rightarrow> char list" where
  "enc (Cp c) = u8enc c"
| "enc (Raw b) = [b]"

definition render :: "char list \<Rightarrow> char list" where
  "render r = concat (map enc (hcomp (items r)))"

section \<open>The encoding in arithmetic\<close>

lemma or_shift: "0 \<le> y \<Longrightarrow> y < 2 ^ n \<Longrightarrow> push_bit n x OR y = x * 2 ^ n + (y :: int)"
proof -
  assume "0 \<le> y" "y < 2 ^ n"
  then have "take_bit n y = y" by (simp add: take_bit_int_eq_self)
  then show ?thesis
    using concat_bit_eq [of n y x] concat_bit_def [of n y x]
    by (simp add: push_bit_eq_mult or.commute add.commute)
qed

lemma and_masks:
  fixes x :: int
  shows "x AND 0x3F = x mod 64" "x AND 0x1F = x mod 32" "x AND 0x0F = x mod 16" "x AND 0x07 = x mod 8"
  using take_bit_eq_mask [of 6 x] take_bit_eq_mask [of 5 x] take_bit_eq_mask [of 4 x] take_bit_eq_mask [of 3 x]
  by (simp_all add: take_bit_eq_mod mask_eq_exp_minus_1)

lemma or_heads:
  fixes y :: int
  shows "0 \<le> y \<Longrightarrow> y < 64 \<Longrightarrow> 0x80 OR y = 128 + y" "0 \<le> y \<Longrightarrow> y < 32 \<Longrightarrow> 0xC0 OR y = 192 + y"
    "0 \<le> y \<Longrightarrow> y < 16 \<Longrightarrow> 0xE0 OR y = 224 + y" "0 \<le> y \<Longrightarrow> y < 8 \<Longrightarrow> 0xF0 OR y = 240 + y"
  using or_shift [of y 6 2] or_shift [of y 6 3] or_shift [of y 5 7] or_shift [of y 4 15] by simp_all

lemma and_field: "b AND push_bit n (mask m) = (b div 2 ^ n) mod 2 ^ m * 2 ^ (n :: nat)" for b :: int
proof -
  have "b AND push_bit n (mask m) = push_bit n (take_bit m (drop_bit n b))"
    by (rule bit_eqI) (auto simp: bit_simps)
  then show ?thesis by (simp add: push_bit_eq_mult take_bit_eq_mod drop_bit_eq_div)
qed

lemma lead_class:
  fixes b :: int
  assumes "0 \<le> b" and "b < 256"
  shows "b AND 0xE0 = 0xC0 \<longleftrightarrow> 192 \<le> b \<and> b < 224"
    and "b AND 0xF0 = 0xE0 \<longleftrightarrow> 224 \<le> b \<and> b < 240"
    and "b AND 0xF8 = 0xF0 \<longleftrightarrow> 240 \<le> b \<and> b < 248"
proof -
  have "b AND 0xE0 = b div 32 * 32" "b AND 0xF0 = b div 16 * 16" "b AND 0xF8 = b div 8 * 8"
    using and_field [of b 5 3] and_field [of b 4 4] and_field [of b 3 5] assms
    by (simp_all add: mask_eq_exp_minus_1)
  then show "b AND 0xE0 = 0xC0 \<longleftrightarrow> 192 \<le> b \<and> b < 224"
    "b AND 0xF0 = 0xE0 \<longleftrightarrow> 224 \<le> b \<and> b < 240"
    "b AND 0xF8 = 0xF0 \<longleftrightarrow> 240 \<le> b \<and> b < 248"
    using assms by presburger+
qed

lemma byte_range [simp]: "0 \<le> byte p i" "byte p i < 256"
proof -
  have "byte p i = byte p i mod 256" by (simp add: byte_def)
  then show "0 \<le> byte p i" "byte p i < 256"
    using pos_mod_sign [of 256 "byte p i"] pos_mod_bound [of 256 "byte p i"] by linarith+
qed

text \<open>Decoding with divisions instead of masks.\<close>

lemma u8dec_arith:
  "u8dec p =
     (let b0 = byte p 0; n = length p in
      if b0 < 128 then U8 b0 1
      else if 192 \<le> b0 \<and> b0 < 224 then
        (if n < 2 then U8short else U8 (b0 mod 32 * 64 + byte p 1 mod 64) 2)
      else if 224 \<le> b0 \<and> b0 < 240 then
        (if n < 3 then U8short
         else U8 (b0 mod 16 * 4096 + byte p 1 mod 64 * 64 + byte p 2 mod 64) 3)
      else if 240 \<le> b0 \<and> b0 < 248 then
        (if n < 4 then U8short
         else U8 (b0 mod 8 * 262144 + byte p 1 mod 64 * 4096 + byte p 2 mod 64 * 64 + byte p 3 mod 64) 4)
      else U8bad)"
proof -
  have s6: "push_bit 6 x OR (y mod 64) = x * 64 + y mod 64" for x y :: int
    using or_shift [of "y mod 64" 6 x] by simp
  have s12: "push_bit 12 x OR push_bit 6 (y mod 64) OR (z mod 64) = x * 4096 + y mod 64 * 64 + z mod 64"
    for x y z :: int
  proof -
    have "push_bit 12 x OR push_bit 6 (y mod 64) = push_bit 6 (push_bit 6 x OR (y mod 64))"
      by (simp add: push_bit_or push_bit_push_bit)
    then show ?thesis
      using s6 [of "push_bit 6 x OR (y mod 64)" z] s6 [of x y] by (simp add: or.assoc [symmetric])
  qed
  have s18: "push_bit 18 w OR push_bit 12 (x mod 64) OR push_bit 6 (y mod 64) OR (z mod 64)
      = w * 262144 + x mod 64 * 4096 + y mod 64 * 64 + z mod 64" for w x y z :: int
  proof -
    have "push_bit 18 w OR push_bit 12 (x mod 64) OR push_bit 6 (y mod 64)
        = push_bit 6 (push_bit 12 w OR push_bit 6 (x mod 64) OR (y mod 64))"
      by (simp add: push_bit_or push_bit_push_bit or.assoc)
    then show ?thesis
      using s6 [of "push_bit 12 w OR push_bit 6 (x mod 64) OR (y mod 64)" z] s12 [of w x y]
      by (simp add: or.assoc [symmetric])
  qed
  show ?thesis
    unfolding u8dec_def Let_def lead_class [OF byte_range] and_masks
    unfolding s18
    unfolding s12
    unfolding s6 ..
qed

lemma u8dec_bounds:
  assumes "u8dec p = U8 c k"
  shows "0 \<le> c \<and> (k = 1 \<longrightarrow> c < 128) \<and> (k = 2 \<longrightarrow> c < 2048) \<and> (k = 3 \<longrightarrow> c < 65536) \<and> c < 2097152"
proof -
  have m: "0 \<le> byte p i mod 64" "byte p i mod 64 < 64" for i by simp_all
  have h: "0 \<le> byte p 0 mod 32" "byte p 0 mod 32 < 32" "0 \<le> byte p 0 mod 16" "byte p 0 mod 16 < 16"
    "0 \<le> byte p 0 mod 8" "byte p 0 mod 8 < 8" by simp_all
  show ?thesis
    using assms m [of 1] m [of 2] m [of 3] h byte_range [of p 0]
    unfolding u8dec_arith Let_def
    by (auto split: if_splits)
qed

lemma u8enc_len: "length (u8enc c) = (if c < 128 then 1 else if c < 2048 then 2 else if c < 65536 then 3 else 4)"
  by (simp add: u8enc_def)

lemma u8enc_le:
  assumes "u8dec p = U8 c k"
  shows "length (u8enc c) \<le> k"
proof -
  have "k = 1 \<or> k = 2 \<or> k = 3 \<or> k = 4"
    using assms by (auto simp: u8dec_def Let_def split: if_splits)
  then show ?thesis using u8dec_bounds [OF assms] by (auto simp: u8enc_len)
qed

lemma u8enc_pos: "0 < length (u8enc c)"
  by (simp add: u8enc_len)

lemma byte_append: "i < length p \<Longrightarrow> byte (p @ q) i = byte p i"
  by (simp add: byte_def nth_append)

lemma u8dec_append:
  assumes "p \<noteq> []" and "u8dec p \<noteq> U8short"
  shows "u8dec (p @ q) = u8dec p"
  using assms by (auto simp: u8dec_def Let_def byte_append split: if_splits)

lemma u8dec_take:
  assumes "p \<noteq> []" and "u8dec p = U8 c k"
  shows "u8dec (take k p) = U8 c k"
proof -
  have "k \<le> length p" "0 < k" using assms u8dec_used by auto
  then have "byte (take k p) i = byte p i" if "i < k" for i using that by (simp add: byte_def)
  then show ?thesis
    using assms \<open>k \<le> length p\<close> by (auto simp: u8dec_def Let_def split: if_splits)
qed

text \<open>Decoding what was encoded.\<close>

lemma byte_char_of: "0 \<le> x \<Longrightarrow> x < 256 \<Longrightarrow> of_char (char_of x) = (x :: int)"
  by simp

lemma u8enc_arith:
  assumes "0 \<le> c" and "c < 2097152"
  shows "u8enc c =
     (if c < 128 then [char_of c]
      else if c < 2048 then [char_of (192 + c div 64), char_of (128 + c mod 64)]
      else if c < 65536 then
        [char_of (224 + c div 4096), char_of (128 + c div 64 mod 64), char_of (128 + c mod 64)]
      else
        [char_of (240 + c div 262144), char_of (128 + c div 4096 mod 64),
         char_of (128 + c div 64 mod 64), char_of (128 + c mod 64)])"
proof -
  have t: "0x80 OR (x mod 64) = 128 + x mod 64" for x :: int by (rule or_heads) simp_all
  have "c < 2048 \<Longrightarrow> 0xC0 OR (c div 64) = 192 + c div 64"
    "c < 65536 \<Longrightarrow> 0xE0 OR (c div 4096) = 224 + c div 4096"
    "0xF0 OR (c div 262144) = 240 + c div 262144"
    using assms by (intro or_heads; simp add: div_int_pos_iff)+
  then show ?thesis
    unfolding u8enc_def drop_bit_eq_div and_masks t by simp
qed

lemma mod_shift: "0 \<le> q \<Longrightarrow> q < m \<Longrightarrow> (k * m + q) mod m = (q :: int)"
  by (simp add: mod_mult_self3)

lemmas head_mods =
  mod_shift [of _ 32 6, simplified] mod_shift [of _ 16 14, simplified] mod_shift [of _ 8 30, simplified]
  mod_shift [of "_ mod 64" 64 2, simplified]

lemma digits64:
  fixes c :: int
  shows "c div 64 * 64 + c mod 64 = c"
    "c div 4096 * 4096 + c div 64 mod 64 * 64 + c mod 64 = c"
    "c div 262144 * 262144 + c div 4096 mod 64 * 4096 + c div 64 mod 64 * 64 + c mod 64 = c"
proof -
  have d: "c div 4096 = c div 64 div 64" "c div 262144 = c div 64 div 64 div 64"
    using zdiv_zmult2_eq [of 64 c 64] zdiv_zmult2_eq [of 64 c 4096] zdiv_zmult2_eq [of 64 "c div 64" 64]
    by simp_all
  have e: "x div 64 * 64 + x mod 64 = x" for x :: int by simp
  show "c div 64 * 64 + c mod 64 = c" by simp
  show "c div 4096 * 4096 + c div 64 mod 64 * 64 + c mod 64 = c"
    using e [of c] e [of "c div 64"] unfolding d by linarith
  show "c div 262144 * 262144 + c div 4096 mod 64 * 4096 + c div 64 mod 64 * 64 + c mod 64 = c"
    using e [of c] e [of "c div 64"] e [of "c div 64 div 64"] unfolding d by linarith
qed

lemma u8dec_u8enc:
  assumes "0 \<le> c" and "c < 2097152"
  shows "u8dec (u8enc c @ r) = U8 c (length (u8enc c))"
proof -
  have q: "0 \<le> c div k" if "0 < k" for k using assms(1) that by (simp add: div_int_pos_iff)
  have u: "0 \<le> x mod 64" "x mod 64 < 64" for x :: int by simp_all
  consider "c < 128" | "128 \<le> c" "c < 2048" | "2048 \<le> c" "c < 65536" | "65536 \<le> c" by linarith
  then show ?thesis
  proof cases
    case 1
    with assms show ?thesis by (simp add: u8enc_arith u8dec_arith byte_def)
  next
    case 2
    then have b: "c div 64 < 32" by simp
    with 2 assms q [of 64] u show ?thesis
      by (simp add: u8enc_arith u8dec_arith byte_def head_mods digits64)
  next
    case 3
    then have b: "c div 4096 < 16" by simp
    with 3 assms q [of 4096] u show ?thesis
      by (simp add: u8enc_arith u8dec_arith byte_def head_mods digits64)
  next
    case 4
    then have b: "c div 262144 < 8" using assms by simp
    with 4 assms q [of 262144] u show ?thesis
      by (simp add: u8enc_arith u8dec_arith byte_def head_mods digits64)
  qed
qed

section \<open>The contract of a conversion\<close>

text \<open>What the daemon applies to a piece of output and at its end: the conversion when it is active.\<close>

definition tx_out :: "build \<Rightarrow> txt_ops \<Rightarrow> txt_stream \<Rightarrow> char list \<Rightarrow> char list option \<times> txt_stream" where
  "tx_out B T cv buf = (if txt_active T then txt_out T cv buf (2 * GCDSP_FRAME_MAX B) else (Some buf, cv))"

definition tx_tail :: "build \<Rightarrow> txt_ops \<Rightarrow> txt_stream \<Rightarrow> char list option" where
  "tx_tail B T cv = (if txt_active T then fst (txt_flush T cv (2 * GCDSP_FRAME_MAX B)) else Some [])"

text \<open>
  What streaming relies on.  \<open>cvt cv a e\<close> relates the hold-back state to the bytes converted so far and
  the bytes emitted for them; \<open>wire\<close> is the conversion of a whole text.  A piece of at most a chunk
  always converts into at most a frame, at the end the tail completes the whole conversion, and the
  conversion of no text is empty.
\<close>

locale text_stream =
  fixes B :: build and T :: txt_ops
    and wire :: "char list \<Rightarrow> char list"
    and cvt :: "txt_stream \<Rightarrow> char list \<Rightarrow> char list \<Rightarrow> bool"
  assumes cvt_init: "cvt txt_stream_init [] []"
    and cvt_step: "cvt cv a e \<Longrightarrow> length buf \<le> 1024 \<Longrightarrow>
      \<exists>d cv'. tx_out B T cv buf = (Some d, cv') \<and> cvt cv' (a @ buf) (e @ d) \<and> int (length d) \<le> GCDSP_FRAME_MAX B"
    and cvt_end: "cvt cv a e \<Longrightarrow>
      \<exists>d. tx_tail B T cv = Some d \<and> e @ d = wire a \<and> int (length d) \<le> GCDSP_FRAME_MAX B"
    and wire_Nil: "wire [] = []"
begin

text \<open>What was emitted so far is a prefix of the conversion of the whole.\<close>

lemma cvt_prefix: "cvt cv a e \<Longrightarrow> \<exists>d. wire (a @ rest) = e @ d"
proof (induction rest arbitrary: cv a e)
  case Nil
  then show ?case using cvt_end [of cv a e] by (metis append_Nil2)
next
  case (Cons x rest)
  obtain d cv' where "cvt cv' (a @ [x]) (e @ d)" using cvt_step [OF Cons.prems, of "[x]"] by auto
  from Cons.IH [OF this] show ?case by auto
qed

end

text \<open>The builds without a conversion.\<close>

interpretation plain: text_stream B txt_none "\<lambda>a. a" "\<lambda>cv a e. e = a" for B
  by unfold_locales (auto simp: tx_out_def tx_tail_def txt_none_def GCDSP_FRAME_MAX_def)

end
