(* ===== verification/Sesscore.thy ===== *)
theory Sesscore
  imports Exec Lineio Acl Textcv
begin

text \<open>
  \<^verbatim>\<open>daemon/session.c\<close>, first part: the module state, the capture files, file transfer, the greeting,
  authentication and control sessions.  The static variables \<^verbatim>\<open>g_*\<close> are the record \<open>sess_cfg\<close>.

  An operation that returns 0 or -1 returns \<open>True\<close> or \<open>False\<close> with the new channel (and world).
  Loops that read the channel end because each round consumes input.
\<close>

section \<open>Module state\<close>

abbreviation PATHBUF :: int where "PATHBUF \<equiv> 256"
abbreviation ALLOWBUF :: int where "ALLOWBUF \<equiv> 512"

record sess_cfg =
  g_token :: string
  g_async :: bool
  g_live :: bool
  g_ix :: bool
  g_allow :: string
  g_maxout :: int
  g_outf :: string
  g_errf :: string
  g_rof :: string
  g_ref :: string

definition TMP_SEP :: "build \<Rightarrow> string" where
  "TMP_SEP B = (if GCDS_WIN32 B \<or> GCDS_DOS B then [BSL] else ''/'')"

definition join_tmp :: "build \<Rightarrow> string \<Rightarrow> string \<Rightarrow> string" where
  "join_tmp B dir nm =
     (let d = strlcpy dir PATHBUF;
          d' = (if d \<noteq> [] \<and> last d \<noteq> CHR ''/'' \<and> last d \<noteq> BSL then strlcat d (TMP_SEP B) PATHBUF else d) in
      strlcat d' nm PATHBUF)"

definition session_init :: "build \<Rightarrow> sess_cfg \<Rightarrow> string \<Rightarrow> string \<Rightarrow> bool \<Rightarrow> bool \<Rightarrow> bool \<Rightarrow> sess_cfg" where
  "session_init B G tmpdir token adv_async live_ok ix_ok =
     G\<lparr>g_token := strlcpy token (GCDSP_TOK_MAX + 1), g_async := adv_async, g_live := live_ok, g_ix := ix_ok,
       g_outf := join_tmp B tmpdir ''gcds_out.tmp'', g_errf := join_tmp B tmpdir ''gcds_err.tmp'',
       g_rof := join_tmp B tmpdir ''gcds_ro.tmp'', g_ref := join_tmp B tmpdir ''gcds_re.tmp''\<rparr>"

definition session_set_acl :: "sess_cfg \<Rightarrow> string option \<Rightarrow> sess_cfg" where
  "session_set_acl G allow =
     G\<lparr>g_allow := (case allow of None \<Rightarrow> [] | Some a \<Rightarrow> strlcpy a ALLOWBUF)\<rparr>"

definition session_set_maxout :: "sess_cfg \<Rightarrow> int \<Rightarrow> sess_cfg" where
  "session_set_maxout G maxout = G\<lparr>g_maxout := if maxout > 0 then maxout else 0\<rparr>"

definition session_peer_ok :: "sess_cfg \<Rightarrow> string \<Rightarrow> bool" where
  "session_peer_ok G ip = acl_allowed (g_allow G) ip"

definition sess_cleanup_tmp :: "os \<Rightarrow> sess_cfg \<Rightarrow> world \<Rightarrow> world" where
  "sess_cleanup_tmp S G w =
     w_unlink S (w_unlink S (w_unlink S (w_unlink S w (g_outf G)) (g_errf G)) (g_rof G)) (g_ref G)"

text \<open>The static counter is the argument; the result is the new counter and the job number.\<close>

definition next_jobid :: "int \<Rightarrow> int" where
  "next_jobid j = (if j + 1 > GCDSP_JOB_MAX then 1 else j + 1)"

section \<open>Capture files\<close>

definition cap_notice :: string where
  "cap_notice = LF # ''[gcdsd: output truncated at cap]'' @ [LF]"

text \<open>The loop of \<^verbatim>\<open>send_file\<close> on the rest of the file, with the hold-back state and \<^verbatim>\<open>*sent\<close>.\<close>

function send_loop :: "build \<Rightarrow> txt_ops \<Rightarrow> int \<Rightarrow> nat \<Rightarrow> char \<Rightarrow> char list \<Rightarrow> txt_stream \<Rightarrow> int \<Rightarrow> gcds_chan
    \<Rightarrow> bool \<times> gcds_chan \<times> int" where
  "send_loop B T cap chunk tag rest cv sent c =
     (if rest = [] \<or> chunk = 0 then
        (if txt_active T
         then (case txt_flush T cv (2 * GCDSP_FRAME_MAX B) of
             (None, _) \<Rightarrow> (True, c, sent - 1)
           | (Some o1, _) \<Rightarrow>
               if o1 = [] then (True, c, sent)
               else (case lio_put_frame B c tag o1 of (r, c') \<Rightarrow>
                 if r \<noteq> LIO_OK then (False, c', sent) else (True, c', sent + int (length o1))))
         else (True, c, sent))
      else
        let buf = take chunk rest; rest' = drop chunk rest in
        case (if txt_active T then txt_out T cv buf (2 * GCDSP_FRAME_MAX B) else (Some buf, cv)) of
          (None, _) \<Rightarrow> (False, c, sent)
        | (Some o1, cv') \<Rightarrow>
            if txt_active T \<and> o1 = [] then send_loop B T cap chunk tag rest' cv' sent c
            else if cap > 0 \<and> sent + int (length o1) > cap then
              (let n = cap - sent;
                   (r, c1) = (if n > 0 then lio_put_frame B c tag (take (nat n) o1) else (LIO_OK, c)) in
               if r \<noteq> LIO_OK then (False, c1, sent)
               else (True, snd (lio_put_frame B c1 (CHR ''E'') cap_notice), sent + n))
            else (case lio_put_frame B c tag o1 of (r, c1) \<Rightarrow>
              if r \<noteq> LIO_OK then (False, c1, sent)
              else send_loop B T cap chunk tag rest' cv' (sent + int (length o1)) c1))"
  by pat_completeness auto
termination
  by (relation "measure (\<lambda>(B, T, cap, chunk, tag, rest, cv, sent, c). length rest)") auto

declare send_loop.simps [simp del]

definition send_file :: "build \<Rightarrow> os \<Rightarrow> txt_ops \<Rightarrow> sess_cfg \<Rightarrow> world \<Rightarrow> gcds_chan \<Rightarrow> char \<Rightarrow> string \<Rightarrow> int
    \<Rightarrow> bool \<times> gcds_chan \<times> int" where
  "send_file B S T G w c tag path sent =
     (case w_read S w path of
        None \<Rightarrow> (True, c, sent)
      | Some d \<Rightarrow>
          send_loop B T (g_maxout G) (nat (chan_chunk c)) tag d txt_stream_init sent c)"

section \<open>PUT and GET\<close>

text \<open>\<open>say\<close> is \<^verbatim>\<open>lio_put_line(c, l) == LIO_OK ? 0 : -1\<close>.\<close>

definition say :: "gcds_chan \<Rightarrow> string \<Rightarrow> bool \<times> gcds_chan" where
  "say c l = (case lio_put_line c l of (r, c') \<Rightarrow> (r = LIO_OK, c'))"

text \<open>The loop of \<^verbatim>\<open>do_put\<close>; \<open>acc\<close> is what the file holds, \<^verbatim>\<open>total\<close> its length.\<close>

function put_loop :: "build \<Rightarrow> os \<Rightarrow> int \<Rightarrow> string \<Rightarrow> char list \<Rightarrow> gcds_chan \<Rightarrow> world \<Rightarrow> bool \<times> gcds_chan \<times> world" where
  "put_loop B S cap path acc c w =
     (case lio_get_line c 48 of (r, raw, c1) \<Rightarrow>
        if r \<noteq> LIO_OK then (False, c1, w_unlink S w path)
        else let line = cstr raw in
          if char_at line 0 \<noteq> CHR ''D'' \<or> char_at line 1 \<noteq> CHR '' '' then
            (False, snd (lio_put_line c1 ''ERR 400 expected data frame''), w_unlink S w path)
          else let len = atol (drop 2 line) in
            if len = 0 then
              (if \<not> os_fclose_ok S w path then
                 (case say c1 ''ERR 500 write failed'' of (b, c2) \<Rightarrow> (b, c2, w_unlink S w path))
               else (case say c1 (''OK '' @ ld (int (length acc))) of (b, c2) \<Rightarrow> (b, c2, w)))
            else if len < 0 \<or> len > GCDSP_FRAME_MAX B then
              (False, snd (lio_put_line c1 ''ERR 400 bad frame length''), w_unlink S w path)
            else (case chan_read_n c1 (nat len) of
                (None, c2) \<Rightarrow> (False, c2, w_unlink S w path)
              | (Some buf, c2) \<Rightarrow>
                  if cap > 0 \<and> int (length acc) + len > cap then
                    (case say c2 ''ERR 413 too large'' of (b, c3) \<Rightarrow> (b, c3, w_unlink S w path))
                  else if \<not> os_fwrite_ok S w path buf then
                    (case say c2 ''ERR 500 write failed'' of (b, c3) \<Rightarrow> (b, c3, w_unlink S w path))
                  else put_loop B S cap path (acc @ buf) c2 (w_put S w path (acc @ buf))))"
  by pat_completeness auto
termination
  by (relation "measure (\<lambda>(B, S, cap, path, acc, c, w). length (chan_in c))")
    (auto dest!: sym [of _ "lio_get_line _ _"] sym [of _ "chan_read_n _ _"] lio_get_line_shrinks
      chan_read_n_le)

declare put_loop.simps [simp del]

definition do_put :: "build \<Rightarrow> os \<Rightarrow> sess_cfg \<Rightarrow> gcds_chan \<Rightarrow> string option \<Rightarrow> world \<Rightarrow> bool \<times> gcds_chan \<times> world" where
  "do_put B S G c path w =
     (case path of
        None \<Rightarrow> (case say c ''ERR 400 missing path'' of (b, c') \<Rightarrow> (b, c', w))
      | Some p \<Rightarrow>
          if p = [] then (case say c ''ERR 400 missing path'' of (b, c') \<Rightarrow> (b, c', w))
          else (case w_fopen_wb S w p of
              None \<Rightarrow> (case say c ''ERR 404 cannot create'' of (b, c') \<Rightarrow> (b, c', w))
            | Some w1 \<Rightarrow>
                (case lio_put_line c ''OK'' of (r, c1) \<Rightarrow>
                   if r \<noteq> LIO_OK then (False, c1, w1)
                   else put_loop B S (g_maxout G) p [] c1 w1)))"

text \<open>The loop of \<^verbatim>\<open>do_get\<close> on the rest of the file.\<close>

function get_loop :: "build \<Rightarrow> nat \<Rightarrow> char list \<Rightarrow> gcds_chan \<Rightarrow> bool \<times> gcds_chan" where
  "get_loop B chunk rest c =
     (if rest = [] \<or> chunk = 0 then say c ''D 0''
      else (case lio_put_frame B c (CHR ''D'') (take chunk rest) of (r, c1) \<Rightarrow>
        if r \<noteq> LIO_OK then (False, c1) else get_loop B chunk (drop chunk rest) c1))"
  by pat_completeness auto
termination
  by (relation "measure (\<lambda>(B, chunk, rest, c). length rest)") auto

declare get_loop.simps [simp del]

definition do_get :: "build \<Rightarrow> os \<Rightarrow> world \<Rightarrow> gcds_chan \<Rightarrow> string option \<Rightarrow> bool \<times> gcds_chan" where
  "do_get B S w c path =
     (case path of
        None \<Rightarrow> say c ''ERR 400 missing path''
      | Some p \<Rightarrow>
          if p = [] then say c ''ERR 400 missing path''
          else (case w_read S w p of
              None \<Rightarrow> say c ''ERR 404 no such file''
            | Some d \<Rightarrow>
                (case lio_put_line c ''OK'' of (r, c1) \<Rightarrow>
                   if r \<noteq> LIO_OK then (False, c1)
                   else get_loop B (nat (chan_chunk c1)) d c1)))"

definition send_exit :: "gcds_chan \<Rightarrow> int \<Rightarrow> lio \<times> gcds_chan" where
  "send_exit c code = lio_put_line c (''X '' @ ld (code AND 255))"

section \<open>Greeting, authentication, control sessions\<close>

definition is_name_start :: "char \<Rightarrow> bool" where
  "is_name_start c \<longleftrightarrow> (65 \<le> (of_char c :: nat) \<and> (of_char c :: nat) \<le> 90)
     \<or> (97 \<le> (of_char c :: nat) \<and> (of_char c :: nat) \<le> 122) \<or> c = CHR ''_''"

definition env_name_ok :: "string \<Rightarrow> bool" where
  "env_name_ok s = (case s of [] \<Rightarrow> False
     | c # cs \<Rightarrow> is_name_start c \<and> (\<forall>d \<in> set cs. is_name_start d \<or> is_digit d))"

definition TXT_WIRE_UTF8 :: "build \<Rightarrow> bool" where
  "TXT_WIRE_UTF8 B \<longleftrightarrow> \<not> (GCDS_DOS B \<or> GCDS_NEXT B)"

definition greeting :: "build \<Rightarrow> os \<Rightarrow> sess_cfg \<Rightarrow> world \<Rightarrow> string" where
  "greeting B S G w =
     (let host = os_hostname B S w 64;
          g1 = strlcat [] ''GCDS 1 '' GCDSP_LINE_MAX;
          g2 = strlcat g1 (os_tag B S) GCDSP_LINE_MAX;
          g3 = strlcat g2 '' '' GCDSP_LINE_MAX;
          g4 = strlcat g3 host GCDSP_LINE_MAX;
          g5 = (if g_async G then strlcat g4 '' ASYNC'' GCDSP_LINE_MAX else g4);
          g6 = (if g_live G then strlcat g5 '' LIVE'' GCDSP_LINE_MAX else g5);
          g7 = (if g_ix G then strlcat g6 '' INTERACTIVE'' GCDSP_LINE_MAX else g6) in
      if TXT_WIRE_UTF8 B then strlcat g7 '' UTF8'' GCDSP_LINE_MAX else g7)"

definition put_greeting :: "build \<Rightarrow> os \<Rightarrow> sess_cfg \<Rightarrow> world \<Rightarrow> gcds_chan \<Rightarrow> lio \<times> gcds_chan" where
  "put_greeting B S G w c = lio_put_line c (greeting B S G w)"

text \<open>The command word and the argument of a line.\<close>

definition split_cmd :: "string \<Rightarrow> string \<times> string option" where
  "split_cmd line = (case cut (CHR '' '') line of None \<Rightarrow> (line, None) | Some (l, a) \<Rightarrow> (l, Some a))"

definition handle_auth :: "sess_cfg \<Rightarrow> gcds_chan \<Rightarrow> string \<Rightarrow> string option \<Rightarrow> bool \<times> gcds_chan" where
  "handle_auth G c cmd arg =
     (if cmd = ''QUIT'' then (False, snd (lio_put_line c ''OK''))
      else if cmd \<noteq> ''AUTH'' \<or> arg = None \<or> arg \<noteq> Some (g_token G)
      then (False, snd (lio_put_line c ''ERR 401 auth failed''))
      else (case lio_put_line c ''OK'' of (r, c') \<Rightarrow> (r = LIO_OK, c')))"

text \<open>One round of the loop of \<^verbatim>\<open>ctl_session\<close> after the line was read: \<open>None\<close> is \<^verbatim>\<open>return\<close>.\<close>

definition ctl_line :: "sess_cfg \<Rightarrow> int \<Rightarrow> bool \<Rightarrow> string \<Rightarrow> gcds_chan \<Rightarrow> bool option \<times> gcds_chan" where
  "ctl_line G busy authed line0 c =
     (case split_cmd line0 of (line, arg) \<Rightarrow>
        if \<not> authed then
          (case handle_auth G c line arg of (b, c') \<Rightarrow> (if b then Some True else None, c'))
        else if line = ''PING'' then
          (case say c ''OK'' of (b, c') \<Rightarrow> (if b then Some True else None, c'))
        else if line = ''STAT'' then
          (case say c (''OK busy '' @ ld busy) of (b, c') \<Rightarrow> (if b then Some True else None, c'))
        else if line = ''QUIT'' then (None, snd (lio_put_line c ''OK''))
        else (case say c ''ERR 409 busy'' of (b, c') \<Rightarrow> (if b then Some True else None, c')))"

lemma say_in [simp]: "chan_in (snd (say c l)) = chan_in c"
  by (simp add: say_def split: prod.splits) (metis lio_put_line_in snd_conv)

lemma handle_auth_in [simp]: "chan_in (snd (handle_auth G c cmd arg)) = chan_in c"
  by (auto simp: handle_auth_def split: prod.splits) (metis lio_put_line_in snd_conv)

lemma ctl_line_in: "ctl_line G busy authed l c = (r, c') \<Longrightarrow> chan_in c' = chan_in c"
  by (auto simp: ctl_line_def split: prod.splits if_splits)
     (metis say_in handle_auth_in snd_conv)+

function ctl_loop :: "sess_cfg \<Rightarrow> int \<Rightarrow> bool \<Rightarrow> gcds_chan \<Rightarrow> gcds_chan" where
  "ctl_loop G busy authed c =
     (case lio_get_line c GCDSP_LINE_MAX of (r, raw, c1) \<Rightarrow>
        if r \<noteq> LIO_OK then c1
        else (case ctl_line G busy authed (cstr raw) c1 of
            (None, c2) \<Rightarrow> c2
          | (Some authed', c2) \<Rightarrow> ctl_loop G busy authed' c2))"
  by pat_completeness auto
termination
  by (relation "measure (\<lambda>(G, busy, authed, c). length (chan_in c))")
    (auto dest!: sym [of _ "lio_get_line _ _"] sym [of _ "ctl_line _ _ _ _ _"] lio_get_line_shrinks ctl_line_in)

declare ctl_loop.simps [simp del]

definition ctl_session :: "build \<Rightarrow> os \<Rightarrow> sess_cfg \<Rightarrow> world \<Rightarrow> gcds_chan \<Rightarrow> int \<Rightarrow> gcds_chan" where
  "ctl_session B S G w c busy =
     (case put_greeting B S G w c of (r, c1) \<Rightarrow>
        if r \<noteq> LIO_OK then c1 else ctl_loop G busy False c1)"

section \<open>Reading and the rest of the input\<close>

text \<open>What only writes leaves the input alone; what reads only shortens it.\<close>

lemma say_in': "say c l = (b, c') \<Longrightarrow> chan_in c' = chan_in c"
  using say_in [of c l] by simp

lemma send_loop_in: "send_loop B T cap chunk tag rest cv sent c = (b, c', n) \<Longrightarrow> chan_in c' = chan_in c"
proof (induction B T cap chunk tag rest cv sent c arbitrary: b c' n rule: send_loop.induct)
  case (1 B T cap chunk tag rest cv sent c)
  show ?case
  proof (cases "rest = [] \<or> chunk = 0")
    case True
    with "1.prems" show ?thesis
      by (auto simp: send_loop.simps [of B T cap chunk tag rest] dest!: lio_in
          split: if_splits option.splits prod.splits)
  next
    case False
    obtain o1 cv' where o: "(if txt_active T then txt_out T cv (take chunk rest) (2 * GCDSP_FRAME_MAX B)
        else (Some (take chunk rest), cv)) = (o1, cv')" by (metis surj_pair)
    note step = "1.prems" [unfolded send_loop.simps [of B T cap chunk tag rest] Let_def o]
    show ?thesis
    proof (cases o1)
      case None
      with step False show ?thesis by simp
    next
      case (Some d)
      obtain r c1 where f: "lio_put_frame B c tag d = (r, c1)" by (metis surj_pair)
      note IH1 = "1.IH"(1) [OF False refl refl o [symmetric] Some]
      note IH2 = "1.IH"(2) [OF False refl refl o [symmetric] Some]
      from step False Some f IH1 IH2 lio_in(2) [OF f] show ?thesis
        by (auto split: if_splits prod.splits dest!: lio_in)
    qed
  qed
qed

lemma send_file_in: "send_file B S T G w c tag path sent = (b, c', n) \<Longrightarrow> chan_in c' = chan_in c"
  by (auto simp: send_file_def split: option.splits dest: send_loop_in)

lemma get_loop_in: "get_loop B chunk rest c = (b, c') \<Longrightarrow> chan_in c' = chan_in c"
proof (induction B chunk rest c arbitrary: b c' rule: get_loop.induct)
  case (1 B chunk rest c)
  obtain r c1 where f: "lio_put_frame B c (CHR ''D'') (take chunk rest) = (r, c1)" by (metis surj_pair)
  from "1.prems" "1.IH" f lio_in(2) [OF f] show ?case
    by (auto simp: get_loop.simps [of B chunk rest] split: if_splits dest!: say_in')
qed

lemma do_get_in: "do_get B S w c path = (b, c') \<Longrightarrow> chan_in c' = chan_in c"
  by (auto simp: do_get_def split: option.splits if_splits prod.splits dest!: say_in' get_loop_in lio_in)

lemma put_loop_le: "put_loop B S cap path acc c w = (b, c', w') \<Longrightarrow> length (chan_in c') \<le> length (chan_in c)"
proof (induction B S cap path acc c w arbitrary: b c' w' rule: put_loop.induct)
  case (1 B S cap path acc c w)
  obtain r raw c1 where g: "lio_get_line c 48 = (r, raw, c1)" by (metis surj_pair)
  have g': "length (chan_in c1) \<le> length (chan_in c)" using lio_get_line_shrinks [OF g] by simp
  obtain x c2 where rd: "chan_read_n c1 (nat (atol (drop 2 (cstr raw)))) = (x, c2)" by (metis surj_pair)
  note rd' = chan_read_n_le [OF rd]
  note step = "1.prems" [unfolded put_loop.simps [of B S cap path acc c w] g Let_def]
  show ?case
  proof (cases x)
    case None
    with step rd rd' g' show ?thesis
      by (auto split: if_splits prod.splits dest!: say_in')
  next
    case (Some buf)
    note IH = "1.IH" [OF g [symmetric] refl _ refl _ refl]
    from Some step rd rd' g' IH show ?thesis
      by (auto split: if_splits prod.splits dest!: say_in') (metis le_trans)+
  qed
qed

lemma do_put_le: "do_put B S G c path w = (b, c', w') \<Longrightarrow> length (chan_in c') \<le> length (chan_in c)"
  by (auto simp: do_put_def split: option.splits if_splits prod.splits dest!: say_in' put_loop_le lio_in)

lemma send_exit_in: "send_exit c code = (r, c') \<Longrightarrow> chan_in c' = chan_in c"
  by (auto simp: send_exit_def dest: lio_in)

section \<open>What a capture file becomes on the wire\<close>

lemma chan_chunk_bounds: "0 < nat (chan_chunk c)" "int (nat (chan_chunk c)) \<le> GCDSP_FRAME_MAX B"
  by (auto simp: chan_chunk_def GCDSP_FRAME_MAX_def)

lemma cap_notice_wf: "frame_wf B (CHR ''E'', cap_notice)"
  using FRAME_MAX_bounds(1) [of B] by (simp add: frame_wf_def cap_notice_def)

text \<open>The frames a file is sent as: all of it, or what the cap leaves and the notice.\<close>

definition sent_frames :: "build \<Rightarrow> int \<Rightarrow> char \<Rightarrow> char list \<Rightarrow> int \<Rightarrow> (char \<times> char list) list \<Rightarrow> int \<Rightarrow> bool" where
  "sent_frames B cap tag d sent fs sent' \<longleftrightarrow>
     (\<exists>gs. (\<forall>f \<in> set gs. frame_wf B f \<and> fst f = tag) \<and>
       (if cap \<le> 0 \<or> sent + int (length d) \<le> cap
        then fs = gs \<and> concat (map snd gs) = d \<and> sent' = sent + int (length d)
        else fs = gs @ [(CHR ''E'', cap_notice)] \<and> concat (map snd gs) = take (nat (cap - sent)) d \<and> sent' = cap))"

lemma sent_frames_Nil: "cap > 0 \<longrightarrow> sent \<le> cap \<Longrightarrow> sent_frames B cap tag [] sent [] sent"
  by (auto simp: sent_frames_def)

lemma sent_frames_Cons:
  assumes "sent_frames B cap tag r (sent + int (length b)) fs s2" and "frame_wf B (tag, b)"
    and "\<not> (cap > 0 \<and> sent + int (length b) > cap)"
  shows "sent_frames B cap tag (b @ r) sent ((tag, b) # fs) s2"
proof -
  from assms(1) obtain gs where g: "\<forall>f \<in> set gs. frame_wf B f \<and> fst f = tag"
    "if cap \<le> 0 \<or> sent + int (length b) + int (length r) \<le> cap
     then fs = gs \<and> concat (map snd gs) = r \<and> s2 = sent + int (length b) + int (length r)
     else fs = gs @ [(CHR ''E'', cap_notice)]
       \<and> concat (map snd gs) = take (nat (cap - (sent + int (length b)))) r \<and> s2 = cap"
    by (auto simp: sent_frames_def)
  have "nat (cap - sent) = length b + nat (cap - (sent + int (length b)))" if "cap > 0"
    using assms(3) that by linarith
  then have "b @ take (nat (cap - (sent + int (length b)))) r = take (nat (cap - sent)) (b @ r)" if "cap > 0"
    using that by simp
  then have "if cap \<le> 0 \<or> sent + int (length (b @ r)) \<le> cap
     then (tag, b) # fs = (tag, b) # gs \<and> concat (map snd ((tag, b) # gs)) = b @ r \<and> s2 = sent + int (length (b @ r))
     else (tag, b) # fs = ((tag, b) # gs) @ [(CHR ''E'', cap_notice)]
       \<and> concat (map snd ((tag, b) # gs)) = take (nat (cap - sent)) (b @ r) \<and> s2 = cap"
    using g(2) by (auto simp: add.assoc split: if_splits)
  moreover have "\<forall>f \<in> set ((tag, b) # gs). frame_wf B f \<and> fst f = tag" using g(1) assms(2) by simp
  ultimately show ?thesis unfolding sent_frames_def by blast
qed

text \<open>The step at which the cap is reached.\<close>

lemma send_capped:
  assumes "chan_ok c" and "int (length b) \<le> GCDSP_FRAME_MAX B" and "cap > 0" and "sent \<le> cap"
    and "sent + int (length b) > cap"
  shows "\<exists>c' fs. (let n = cap - sent;
        (r, c1) = (if n > 0 then lio_put_frame B c tag (take (nat n) b) else (LIO_OK, c)) in
      if r \<noteq> LIO_OK then (False, c1, sent)
      else (True, snd (lio_put_frame B c1 (CHR ''E'') cap_notice), sent + n)) = (True, c', cap)
    \<and> chan_out c' = chan_out c @ frames fs \<and> sent_frames B cap tag (b @ r) sent fs cap
    \<and> chan_ok c' \<and> chan_in c' = chan_in c \<and> kind c' = kind c"
proof -
  let ?n = "nat (cap - sent)"
  define gs where "gs = (if cap - sent > 0 then [(tag, take ?n b)] else [])"
  have gw: "\<forall>f \<in> set gs. frame_wf B f \<and> fst f = tag"
    using assms(2,5) by (auto simp: gs_def frame_wf_def)
  obtain c1 where c1: "(if cap - sent > 0 then lio_put_frame B c tag (take ?n b) else (LIO_OK, c)) = (LIO_OK, c1)"
    "chan_out c1 = chan_out c @ frames gs" "chan_ok c1" "chan_in c1 = chan_in c" "kind c1 = kind c"
  proof (cases "cap - sent > 0")
    case p: True
    then have "frame_wf B (tag, take ?n b)" using gw by (simp add: gs_def)
    from put_frame_ok [OF assms(1) this] p that show ?thesis by (auto simp: gs_def)
  next
    case False
    with assms(1) that show ?thesis by (simp add: gs_def)
  qed
  obtain c2 where c2: "lio_put_frame B c1 (CHR ''E'') cap_notice = (LIO_OK, c2)"
    "chan_out c2 = chan_out c1 @ frame (CHR ''E'') cap_notice" "chan_ok c2" "chan_in c2 = chan_in c1" "kind c2 = kind c1"
    by (rule put_frame_ok [OF c1(3) cap_notice_wf])
  have "sent_frames B cap tag (b @ r) sent (gs @ [(CHR ''E'', cap_notice)]) cap"
    using gw assms(3-5) by (auto simp: sent_frames_def gs_def)
  moreover have "chan_out c2 = chan_out c @ frames (gs @ [(CHR ''E'', cap_notice)])" using c1(2) c2(2) by simp
  ultimately show ?thesis using c1 c2
    by (intro exI [of _ c2] exI [of _ "gs @ [(CHR ''E'', cap_notice)]"]) (simp add: Let_def)
qed

lemma send_loop_step:
  assumes "\<not> txt_active T" and "0 < chunk" and "rest \<noteq> []"
  shows "send_loop B T cap chunk tag rest cv sent c =
    (if cap > 0 \<and> sent + int (length (take chunk rest)) > cap then
       (let n = cap - sent;
            (r, c1) = (if n > 0 then lio_put_frame B c tag (take (nat n) (take chunk rest)) else (LIO_OK, c)) in
        if r \<noteq> LIO_OK then (False, c1, sent)
        else (True, snd (lio_put_frame B c1 (CHR ''E'') cap_notice), sent + n))
     else (case lio_put_frame B c tag (take chunk rest) of (r, c1) \<Rightarrow>
       if r \<noteq> LIO_OK then (False, c1, sent)
       else send_loop B T cap chunk tag (drop chunk rest) cv (sent + int (length (take chunk rest))) c1))"
  using assms by (simp add: send_loop.simps [of B T cap chunk tag rest] Let_def)

lemma send_loop_frames:
  assumes "\<not> txt_active T" and "0 < chunk" and "int chunk \<le> GCDSP_FRAME_MAX B" and "cap > 0 \<longrightarrow> sent \<le> cap"
    and "chan_ok c"
  shows "\<exists>c' fs sent'. send_loop B T cap chunk tag rest cv sent c = (True, c', sent')
    \<and> chan_out c' = chan_out c @ frames fs \<and> sent_frames B cap tag rest sent fs sent'
    \<and> chan_ok c' \<and> chan_in c' = chan_in c \<and> kind c' = kind c"
  using assms(4,5)
proof (induction "length rest" arbitrary: rest sent c rule: less_induct)
  case less
  show ?case
  proof (cases "rest = []")
    case True
    then have "send_loop B T cap chunk tag rest cv sent c = (True, c, sent)"
      using assms(1) by (simp add: send_loop.simps [of B T cap chunk tag "[]"])
    with True less.prems sent_frames_Nil [of cap sent B tag] show ?thesis
      by (intro exI [of _ c] exI [of _ "[]"] exI [of _ sent]) simp
  next
    case ne: False
    let ?b = "take chunk rest" and ?r = "drop chunk rest"
    have b: "frame_wf B (tag, ?b)" "int (length ?b) \<le> GCDSP_FRAME_MAX B"
      using ne assms(2,3) by (auto simp: frame_wf_def)
    note st = send_loop_step [OF assms(1,2) ne, of B cap tag cv sent c]
    show ?thesis
    proof (cases "cap > 0 \<and> sent + int (length ?b) > cap")
      case True
      with less.prems have "sent \<le> cap" by simp
      from send_capped [OF less.prems(2) b(2) _ this, of tag ?r] True st show ?thesis by auto
    next
      case False
      obtain c1 where c1: "lio_put_frame B c tag ?b = (LIO_OK, c1)" "chan_out c1 = chan_out c @ frame tag ?b"
        "chan_ok c1" "chan_in c1 = chan_in c" "kind c1 = kind c" by (rule put_frame_ok [OF less.prems(2) b(1)])
      have "length ?r < length rest" using ne assms(2) by simp
      from less.hyps [OF this, of "sent + int (length ?b)" c1] False c1(3)
      obtain c2 fs s2 where IH: "send_loop B T cap chunk tag ?r cv (sent + int (length ?b)) c1 = (True, c2, s2)"
        "chan_out c2 = chan_out c1 @ frames fs" "sent_frames B cap tag ?r (sent + int (length ?b)) fs s2"
        "chan_ok c2" "chan_in c2 = chan_in c1" "kind c2 = kind c1" by auto
      have "sent_frames B cap tag rest sent ((tag, ?b) # fs) s2"
        using sent_frames_Cons [OF IH(3) b(1) False] by simp
      moreover have "send_loop B T cap chunk tag rest cv sent c = (True, c2, s2)"
        unfolding st if_not_P [OF False] c1(1) using IH(1) by (simp del: length_take)
      ultimately show ?thesis using IH(2,4-6) c1(2,4,5)
        by (intro exI [of _ c2] exI [of _ "(tag, ?b) # fs"] exI [of _ s2]) simp
    qed
  qed
qed

lemma get_loop_frames:
  assumes "0 < chunk" and "int chunk \<le> GCDSP_FRAME_MAX B" and "chan_ok c"
  shows "\<exists>c' fs. get_loop B chunk rest c = (True, c') \<and> chan_out c' = chan_out c @ frames fs @ ''D 0'' @ [LF]
    \<and> (\<forall>f \<in> set fs. frame_wf B f \<and> fst f = CHR ''D'') \<and> concat (map snd fs) = rest
    \<and> chan_ok c' \<and> chan_in c' = chan_in c \<and> kind c' = kind c"
  using assms(3)
proof (induction "length rest" arbitrary: rest c rule: less_induct)
  case less
  show ?case
  proof (cases "rest = []")
    case True
    obtain c' where "lio_put_line c ''D 0'' = (LIO_OK, c')" "chan_out c' = chan_out c @ ''D 0'' @ [LF]"
      "chan_ok c'" "chan_in c' = chan_in c" "kind c' = kind c" by (rule put_line_ok [OF less.prems])
    with True show ?thesis
      by (intro exI [of _ c'] exI [of _ "[]"]) (simp add: get_loop.simps [of B chunk "[]"] say_def)
  next
    case False
    let ?b = "take chunk rest"
    have b: "frame_wf B (CHR ''D'', ?b)" using False assms(1,2) by (auto simp: frame_wf_def)
    obtain c1 where c1: "lio_put_frame B c (CHR ''D'') ?b = (LIO_OK, c1)" "chan_out c1 = chan_out c @ frame (CHR ''D'') ?b"
      "chan_ok c1" "chan_in c1 = chan_in c" "kind c1 = kind c" by (rule put_frame_ok [OF less.prems b])
    have "length (drop chunk rest) < length rest" using False assms(1) by simp
    from less.hyps [OF this c1(3)] obtain c2 fs where
      IH: "get_loop B chunk (drop chunk rest) c1 = (True, c2)" "chan_out c2 = chan_out c1 @ frames fs @ ''D 0'' @ [LF]"
        "\<forall>f \<in> set fs. frame_wf B f \<and> fst f = CHR ''D''" "concat (map snd fs) = drop chunk rest"
        "chan_ok c2" "chan_in c2 = chan_in c1" "kind c2 = kind c1" by blast
    then show ?thesis
      using False assms(1) b c1
      by (intro exI [of _ c2] exI [of _ "(CHR ''D'', ?b) # fs"]) (simp add: get_loop.simps [of B chunk rest])
  qed
qed

end
