(* ===== verification/Live.thy ===== *)
theory Live
  imports Sesscore
begin

text \<open>
  \<^verbatim>\<open>daemon/live.c\<close>: supervised execution of a child while its output is streamed, control sessions
  are served and, for RUNI, input and kill frames are obeyed.

  One round of the loop is one return of \<^verbatim>\<open>select\<close>; what it and the other calls of the round answer is
  a \<open>tick\<close>: which descriptors are ready, the connection \<^verbatim>\<open>accept\<close> returns, the size of the capture
  files, the time, and whether \<^verbatim>\<open>waitpid\<close> found the child dead.  \<open>live_loop\<close> runs over a list of
  ticks and returns \<open>None\<close> when they end before the loop does; a statement for every list of ticks
  is a statement for every schedule of the system.  The pipes of the child are devices.
\<close>

section \<open>State\<close>

datatype live_mode = LIVE_RUN | LIVE_RUNI | LIVE_JOB

datatype signal = SIGTERM | SIGKILL

record tick =
  t_ctl :: "(string \<times> dev) option option"
  t_out :: bool
  t_err :: bool
  t_sess :: bool
  t_size :: int
  t_now :: int
  t_dead :: bool

text \<open>The local variables of \<^verbatim>\<open>live_exec\<close>; a closed descriptor (-1) is \<open>None\<close>.  \<open>l_sigs\<close> is what
  was sent to the child's process group and \<open>l_ctl\<close> the closed control connections.\<close>

record lstate =
  l_sess :: "gcds_chan option"
  l_out :: "dev option"
  l_err :: "dev option"
  l_inp :: "dev option"
  l_killed :: int
  l_tkill :: int
  l_sigs :: "signal list"
  l_reaped :: bool
  l_total :: int
  l_capped :: bool
  l_cvo :: txt_stream
  l_cve :: txt_stream
  l_ctl :: "dev option list"

section \<open>Operations\<close>

definition kill_child :: "int \<Rightarrow> lstate \<Rightarrow> lstate" where
  "kill_child now s =
     (if l_killed s = 0 then s\<lparr>l_sigs := l_sigs s @ [SIGTERM], l_killed := 1, l_tkill := now\<rparr> else s)"

definition hardkill_child :: "lstate \<Rightarrow> lstate" where
  "hardkill_child s = s\<lparr>l_sigs := l_sigs s @ [SIGKILL]\<rparr>"

text \<open>Sending bytes read from a pipe, after the conversion of the build; 0 or -1.\<close>

definition pump_send :: "build \<Rightarrow> txt_ops \<Rightarrow> char \<Rightarrow> char list \<Rightarrow> lstate \<Rightarrow> int \<times> lstate" where
  "pump_send B T tag buf s =
     (case l_sess s of
        None \<Rightarrow> (0, s)
      | Some c \<Rightarrow>
          if txt_active T then
            (case txt_out T (if tag = CHR ''O'' then l_cvo s else l_cve s) buf (2 * GCDSP_FRAME_MAX B) of
               (o1, cv) \<Rightarrow>
                 let s1 = (if tag = CHR ''O'' then s\<lparr>l_cvo := cv\<rparr> else s\<lparr>l_cve := cv\<rparr>) in
                 case o1 of
                   None \<Rightarrow> (-1, s1)
                 | Some d \<Rightarrow>
                     if d = [] then (0, s1)
                     else (case lio_put_frame B c tag d of (r, c') \<Rightarrow>
                       (if r \<noteq> LIO_OK then -1 else 0, s1\<lparr>l_sess := Some c'\<rparr>)))
          else (case lio_put_frame B c tag buf of (r, c') \<Rightarrow>
            (if r \<noteq> LIO_OK then -1 else 0, s\<lparr>l_sess := Some c'\<rparr>)))"

definition pump_out :: "build \<Rightarrow> txt_ops \<Rightarrow> nat \<Rightarrow> dev \<Rightarrow> lstate \<Rightarrow> int \<times> lstate" where
  "pump_out B T chunk fd s =
     (case dev_recv fd chunk of (buf, fd') \<Rightarrow>
        if buf = [] then (1, s\<lparr>l_out := Some fd'\<rparr>)
        else pump_send B T (CHR ''O'') buf (s\<lparr>l_out := Some fd', l_total := l_total s + int (length buf)\<rparr>))"

definition pump_err :: "build \<Rightarrow> txt_ops \<Rightarrow> nat \<Rightarrow> dev \<Rightarrow> lstate \<Rightarrow> int \<times> lstate" where
  "pump_err B T chunk fd s =
     (case dev_recv fd chunk of (buf, fd') \<Rightarrow>
        if buf = [] then (1, s\<lparr>l_err := Some fd'\<rparr>)
        else pump_send B T (CHR ''E'') buf (s\<lparr>l_err := Some fd', l_total := l_total s + int (length buf)\<rparr>))"

text \<open>One line from the RUNI client; \<open>False\<close> is the return value -1.\<close>

definition runi_frame :: "build \<Rightarrow> int \<Rightarrow> gcds_chan \<Rightarrow> string \<Rightarrow> lstate \<Rightarrow> bool \<times> lstate" where
  "runi_frame B now c line s =
     (if line = ''K'' then (True, kill_child now s)
      else if char_at line 0 = CHR ''I'' \<and> char_at line 1 = CHR '' '' then
        (let n = atol (drop 2 line) in
         if n < 0 \<or> n > GCDSP_FRAME_MAX B then (False, s)
         else if n = 0 then (True, s\<lparr>l_inp := None\<rparr>)
         else (case chan_read_n c (nat n) of
             (None, c') \<Rightarrow> (False, s\<lparr>l_sess := Some c'\<rparr>)
           | (Some buf, c') \<Rightarrow>
               let s1 = s\<lparr>l_sess := Some c'\<rparr> in
               case l_inp s1 of
                 None \<Rightarrow> (True, s1)
               | Some d \<Rightarrow>
                   if l_killed s1 = 0 then
                     (case dev_write_all d buf of (b, d') \<Rightarrow>
                       (True, s1\<lparr>l_inp := if b then Some d' else None\<rparr>))
                   else (True, s1)))
      else (False, s))"

section \<open>The loop\<close>

datatype round = Next lstate | Lost lstate | Done lstate

text \<open>The parts of one round, in the order of the code.  \<open>busy\<close> is the number STAT reports.\<close>

definition tick_ctl :: "build \<Rightarrow> os \<Rightarrow> sess_cfg \<Rightarrow> world \<Rightarrow> bool \<Rightarrow> int \<Rightarrow> tick \<Rightarrow> lstate \<Rightarrow> lstate" where
  "tick_ctl B S G w ls busy t s =
     (if GCDS_HAS_LIVE B \<and> ls then
        (case t_ctl t of
           Some (Some (ip, d)) \<Rightarrow>
             if session_peer_ok G ip
             then s\<lparr>l_ctl := l_ctl s @ [snd (chan_close (ctl_session B S G w (chan_tcp d) busy))]\<rparr>
             else s\<lparr>l_ctl := l_ctl s @ [Some d]\<rparr>
         | _ \<Rightarrow> s)
      else s)"

definition tick_out :: "build \<Rightarrow> txt_ops \<Rightarrow> nat \<Rightarrow> tick \<Rightarrow> lstate \<Rightarrow> bool \<times> lstate" where
  "tick_out B T chunk t s =
     (case l_out s of
        None \<Rightarrow> (True, s)
      | Some fd \<Rightarrow>
          if \<not> t_out t then (True, s)
          else (case pump_out B T chunk fd s of (r, s1) \<Rightarrow>
            if r \<noteq> 0 then (r > 0, s1\<lparr>l_out := None\<rparr>) else (True, s1)))"

definition tick_err :: "build \<Rightarrow> txt_ops \<Rightarrow> nat \<Rightarrow> tick \<Rightarrow> lstate \<Rightarrow> bool \<times> lstate" where
  "tick_err B T chunk t s =
     (case l_err s of
        None \<Rightarrow> (True, s)
      | Some fd \<Rightarrow>
          if \<not> t_err t then (True, s)
          else (case pump_err B T chunk fd s of (r, s1) \<Rightarrow>
            if r \<noteq> 0 then (r > 0, s1\<lparr>l_err := None\<rparr>) else (True, s1)))"

definition tick_cap :: "build \<Rightarrow> sess_cfg \<Rightarrow> tick \<Rightarrow> lstate \<Rightarrow> lstate" where
  "tick_cap B G t s =
     (if g_maxout G > 0 \<and> l_total s > g_maxout G \<and> \<not> l_capped s then
        hardkill_child (kill_child (t_now t)
          (s\<lparr>l_capped := True,
             l_sess := map_option (\<lambda>c. snd (lio_put_frame B c (CHR ''E'') cap_notice)) (l_sess s)\<rparr>))
      else s)"

definition tick_sess :: "build \<Rightarrow> live_mode \<Rightarrow> tick \<Rightarrow> lstate \<Rightarrow> bool \<times> lstate" where
  "tick_sess B mode t s =
     (case l_sess s of
        None \<Rightarrow> (True, s)
      | Some c \<Rightarrow>
          if \<not> t_sess t then (True, s)
          else if mode = LIVE_RUN then (False, s)
          else (case lio_get_line c GCDSP_LINE_MAX of (r, raw, c') \<Rightarrow>
            let s1 = s\<lparr>l_sess := Some c'\<rparr> in
            if r \<noteq> LIO_OK then (False, s1) else runi_frame B (t_now t) c' (cstr raw) s1))"

definition tick_job_cap :: "sess_cfg \<Rightarrow> live_mode \<Rightarrow> tick \<Rightarrow> lstate \<Rightarrow> lstate" where
  "tick_job_cap G mode t s =
     (if mode = LIVE_JOB \<and> g_maxout G > 0 \<and> \<not> l_capped s \<and> t_size t > g_maxout G
      then hardkill_child (kill_child (t_now t) (s\<lparr>l_capped := True\<rparr>)) else s)"

abbreviation KILL_GRACE :: int where "KILL_GRACE \<equiv> 2"

definition tick_escalate :: "tick \<Rightarrow> lstate \<Rightarrow> lstate" where
  "tick_escalate t s =
     (if l_killed s = 1 \<and> t_now t - l_tkill s \<ge> KILL_GRACE
      then (hardkill_child s)\<lparr>l_killed := 2\<rparr> else s)"

text \<open>From the size check of a job to the end of the round.\<close>

definition tick_end :: "sess_cfg \<Rightarrow> live_mode \<Rightarrow> tick \<Rightarrow> lstate \<Rightarrow> round" where
  "tick_end G mode t s =
     (let s1 = tick_escalate t (tick_job_cap G mode t s);
          s2 = s1\<lparr>l_reaped := l_reaped s1 \<or> t_dead t\<rparr> in
      if mode = LIVE_JOB then (if l_reaped s2 then Done s2 else Next s2)
      else if l_out s2 = None \<and> l_err s2 = None then Done (s2\<lparr>l_reaped := True\<rparr>)
      else Next s2)"

definition live_tick :: "build \<Rightarrow> os \<Rightarrow> txt_ops \<Rightarrow> sess_cfg \<Rightarrow> world \<Rightarrow> live_mode \<Rightarrow> bool \<Rightarrow> int \<Rightarrow> nat
    \<Rightarrow> tick \<Rightarrow> lstate \<Rightarrow> round" where
  "live_tick B S T G w mode ls busy chunk t s0 =
     (let s = tick_ctl B S G w ls busy t s0 in
      if mode = LIVE_JOB then tick_end G mode t s
      else (case tick_out B T chunk t s of (b1, s1) \<Rightarrow>
        if \<not> b1 then Lost s1
        else (case tick_err B T chunk t s1 of (b2, s2) \<Rightarrow>
          if \<not> b2 then Lost s2
          else (case tick_sess B mode t (tick_cap B G t s2) of (b3, s3) \<Rightarrow>
            if \<not> b3 then Lost s3 else tick_end G mode t s3))))"

text \<open>The code at the label \<^verbatim>\<open>lost\<close>.\<close>

definition live_lost :: "lstate \<Rightarrow> lstate" where
  "live_lost s = (hardkill_child (kill_child 0 s))\<lparr>l_inp := None, l_out := None, l_err := None, l_reaped := True\<rparr>"

definition cv_flush_one :: "build \<Rightarrow> txt_ops \<Rightarrow> char \<Rightarrow> txt_stream \<Rightarrow> gcds_chan \<Rightarrow> bool \<times> gcds_chan" where
  "cv_flush_one B T tag cv c =
     (case fst (txt_flush T cv (2 * GCDSP_FRAME_MAX B)) of
        None \<Rightarrow> (True, c)
      | Some d \<Rightarrow> if d = [] then (True, c)
          else (case lio_put_frame B c tag d of (r, c') \<Rightarrow> (r = LIO_OK, c')))"

definition cv_flush_all :: "build \<Rightarrow> txt_ops \<Rightarrow> lstate \<Rightarrow> lstate" where
  "cv_flush_all B T s =
     (case l_sess s of
        None \<Rightarrow> s
      | Some c \<Rightarrow>
          if \<not> txt_active T then s
          else (case cv_flush_one B T (CHR ''O'') (l_cvo s) c of (b, c1) \<Rightarrow>
            s\<lparr>l_sess := Some (if b then snd (cv_flush_one B T (CHR ''E'') (l_cve s) c1) else c1)\<rparr>))"

fun live_loop :: "build \<Rightarrow> os \<Rightarrow> txt_ops \<Rightarrow> sess_cfg \<Rightarrow> world \<Rightarrow> live_mode \<Rightarrow> bool \<Rightarrow> int \<Rightarrow> nat \<Rightarrow> int
    \<Rightarrow> tick list \<Rightarrow> lstate \<Rightarrow> (int \<times> lstate \<times> tick list) option" where
  "live_loop B S T G w mode ls busy chunk status [] s = None"
| "live_loop B S T G w mode ls busy chunk status (t # ts) s =
     (case live_tick B S T G w mode ls busy chunk t s of
        Next s1 \<Rightarrow> live_loop B S T G w mode ls busy chunk status ts s1
      | Lost s1 \<Rightarrow> Some (-2, live_lost s1, ts)
      | Done s1 \<Rightarrow> Some (status_code status, (cv_flush_all B T s1)\<lparr>l_inp := None\<rparr>, ts))"

definition lstate_init :: "live_mode \<Rightarrow> gcds_chan option \<Rightarrow> child \<Rightarrow> lstate" where
  "lstate_init mode sess k =
     \<lparr>l_sess = sess,
      l_out = (if mode = LIVE_JOB then None else Some (c_out k)),
      l_err = (if mode = LIVE_JOB then None else Some (c_err k)),
      l_inp = (if mode = LIVE_RUNI then Some (c_in k) else None),
      l_killed = 0, l_tkill = 0, l_sigs = [], l_reaped = False, l_total = 0, l_capped = False,
      l_cvo = txt_stream_init, l_cve = txt_stream_init, l_ctl = []\<rparr>"

abbreviation SCRIPT_MAX :: int where "SCRIPT_MAX \<equiv> 32768"

text \<open>The capture files of a job are created before the child: \<open>False\<close> when one cannot be.\<close>

definition job_files :: "os \<Rightarrow> string \<Rightarrow> string \<Rightarrow> world \<Rightarrow> bool \<times> world" where
  "job_files S outf errf w =
     (let fo = w_fopen_wb S w outf; w1 = (case fo of None \<Rightarrow> w | Some x \<Rightarrow> x);
          fe = w_fopen_wb S w1 errf; w2 = (case fe of None \<Rightarrow> w1 | Some x \<Rightarrow> x) in
      (fo \<noteq> None \<and> fe \<noteq> None, w2))"

text \<open>The result: the return value, the session channel, the world, the ticks left, and the final
  local state.  \<open>ls\<close> says that there is a listening socket.\<close>

definition live_exec :: "build \<Rightarrow> os \<Rightarrow> txt_ops \<Rightarrow> sess_cfg \<Rightarrow> live_mode \<Rightarrow> gcds_chan option \<Rightarrow> bool \<Rightarrow> string
    \<Rightarrow> gcds_env list \<Rightarrow> string \<Rightarrow> string \<Rightarrow> int \<Rightarrow> world \<Rightarrow> tick list
    \<Rightarrow> (int \<times> gcds_chan option \<times> world \<times> tick list \<times> signal list) option" where
  "live_exec B S T G mode sess ls cmd env outf errf jobid w ts =
     (case build_script SCRIPT_MAX cmd env of
        None \<Rightarrow> Some (-1, sess, w, ts, [])
      | Some scr \<Rightarrow>
          (case (if mode = LIVE_JOB then job_files S outf errf w else (True, w)) of
             (False, w1) \<Rightarrow> Some (-1, sess, w1, ts, [])
           | (True, w1) \<Rightarrow>
               (case os_fork S scr w1 of
                  None \<Rightarrow> Some (-1, sess, w1, ts, [])
                | Some k \<Rightarrow>
                    (case live_loop B S T G w1 mode ls (if mode = LIVE_JOB then jobid else 0)
                            (case sess of None \<Rightarrow> 0 | Some c \<Rightarrow> nat (chan_chunk c)) (c_status k) ts
                            (lstate_init mode sess k) of
                       None \<Rightarrow> None
                     | Some (code, s, ts') \<Rightarrow> Some (code, l_sess s, c_after k, ts', l_sigs s)))))"

section \<open>The session's input during execution\<close>

definition sess_in :: "gcds_chan option \<Rightarrow> char list" where
  "sess_in x = (case x of None \<Rightarrow> [] | Some c \<Rightarrow> chan_in c)"

text \<open>\<open>keeps s s'\<close>: the session channel was at most written to; \<open>reads s s'\<close>: it was also read.\<close>

definition keeps :: "lstate \<Rightarrow> lstate \<Rightarrow> bool" where
  "keeps s s' \<longleftrightarrow> (l_sess s' = None \<longleftrightarrow> l_sess s = None) \<and> sess_in (l_sess s') = sess_in (l_sess s)"

definition reads :: "lstate \<Rightarrow> lstate \<Rightarrow> bool" where
  "reads s s' \<longleftrightarrow> (l_sess s' = None \<longleftrightarrow> l_sess s = None)
     \<and> length (sess_in (l_sess s')) \<le> length (sess_in (l_sess s))"

lemma keeps_refl [simp]: "keeps s s" and keeps_trans: "keeps s t \<Longrightarrow> keeps t u \<Longrightarrow> keeps s u"
  by (simp_all add: keeps_def)

lemma reads_refl [simp]: "reads s s" and reads_trans: "reads s t \<Longrightarrow> reads t u \<Longrightarrow> reads s u"
  by (auto simp: reads_def)

lemma keeps_reads: "keeps s s' \<Longrightarrow> reads s s'"
  by (simp add: keeps_def reads_def)

lemma keeps_same: "l_sess s' = l_sess s \<Longrightarrow> keeps s s'"
  by (simp add: keeps_def)

lemma kill_sess [simp]:
  "l_sess (kill_child n s) = l_sess s" "l_sess (hardkill_child s) = l_sess s"
  "l_out (kill_child n s) = l_out s" "l_out (hardkill_child s) = l_out s"
  "l_err (kill_child n s) = l_err s" "l_err (hardkill_child s) = l_err s"
  by (simp_all add: kill_child_def hardkill_child_def)

lemma pump_send_keeps: "pump_send B T tag buf s = (r, s') \<Longrightarrow> keeps s s'"
  by (auto simp: pump_send_def keeps_def sess_in_def Let_def dest!: lio_in
      split: option.splits if_splits prod.splits)

lemma pump_keeps:
  "pump_out B T chunk fd s = (r, s') \<Longrightarrow> keeps s s'"
  "pump_err B T chunk fd s = (r, s') \<Longrightarrow> keeps s s'"
  by (auto simp: pump_out_def pump_err_def keeps_def split: prod.splits if_splits dest!: pump_send_keeps)

lemma tick_pump_keeps:
  "tick_out B T chunk t s = (b, s') \<Longrightarrow> keeps s s'"
  "tick_err B T chunk t s = (b, s') \<Longrightarrow> keeps s s'"
  by (auto simp: tick_out_def tick_err_def keeps_def split: option.splits prod.splits if_splits
      dest!: pump_keeps)

lemma tick_ctl_keeps: "keeps s (tick_ctl B S G w ls busy t s)"
  by (rule keeps_same) (auto simp: tick_ctl_def split: option.splits prod.splits)

lemma tick_cap_keeps: "keeps s (tick_cap B G t s)"
  by (auto simp: tick_cap_def keeps_def sess_in_def split: option.splits)

lemma runi_frame_reads:
  "runi_frame B n c line s = (b, s') \<Longrightarrow> l_sess s = Some c \<Longrightarrow> reads s s'"
  by (auto simp: runi_frame_def reads_def sess_in_def Let_def dest!: chan_read_n_le
      split: if_splits option.splits prod.splits)

lemma tick_sess_reads: "tick_sess B mode t s = (b, s') \<Longrightarrow> reads s s'"
proof (cases "l_sess s")
  case (Some c)
  assume h: "tick_sess B mode t s = (b, s')"
  obtain r raw c' where g: "lio_get_line c GCDSP_LINE_MAX = (r, raw, c')" by (metis surj_pair)
  have "reads s (s\<lparr>l_sess := Some c'\<rparr>)"
    using Some lio_get_line_shrinks [OF g] by (simp add: reads_def sess_in_def)
  moreover have "reads (s\<lparr>l_sess := Some c'\<rparr>) s'" if "runi_frame B (t_now t) c' (cstr raw) (s\<lparr>l_sess := Some c'\<rparr>) = (b, s')"
    using runi_frame_reads [OF that] by simp
  ultimately show ?thesis
    using h Some g reads_trans by (auto simp: tick_sess_def Let_def split: if_splits)
qed (simp add: tick_sess_def)

lemma tick_end_keeps:
  "tick_end G mode t s = Next s' \<Longrightarrow> keeps s s'" "tick_end G mode t s = Done s' \<Longrightarrow> keeps s s'"
  "tick_end G mode t s \<noteq> Lost s'"
  by (auto simp: tick_end_def tick_escalate_def tick_job_cap_def Let_def keeps_def split: if_splits)

lemma live_tick_reads:
  assumes "live_tick B S T G w mode ls busy chunk t s \<in> {Next s', Lost s', Done s'}"
  shows "reads s s'"
proof -
  define s0 where "s0 = tick_ctl B S G w ls busy t s"
  obtain b1 s1 where 1: "tick_out B T chunk t s0 = (b1, s1)" by (metis surj_pair)
  obtain b2 s2 where 2: "tick_err B T chunk t s1 = (b2, s2)" by (metis surj_pair)
  obtain b3 s3 where 3: "tick_sess B mode t (tick_cap B G t s2) = (b3, s3)" by (metis surj_pair)
  have k0: "reads s s0" unfolding s0_def by (rule keeps_reads) (rule tick_ctl_keeps)
  have k1: "reads s s1" using k0 keeps_reads [OF tick_pump_keeps(1) [OF 1]] by (rule reads_trans)
  have k2: "reads s s2" using k1 keeps_reads [OF tick_pump_keeps(2) [OF 2]] by (rule reads_trans)
  have k3: "reads s s3"
    using k2 reads_trans [OF keeps_reads [OF tick_cap_keeps] tick_sess_reads [OF 3]] by (rule reads_trans)
  have e: "tick_end G mode t x \<in> {Next s', Lost s', Done s'} \<Longrightarrow> reads x s'" for x
    using tick_end_keeps keeps_reads by auto
  from assms show ?thesis
    using k1 k2 k3 reads_trans [OF k0 e] reads_trans [OF k3 e]
    unfolding live_tick_def Let_def s0_def [symmetric]
    by (auto simp: 1 2 3 split: if_splits)
qed

lemma cv_flush_all_keeps: "keeps s (cv_flush_all B T s)"
proof -
  have "chan_in (snd (cv_flush_one B T tag cv c)) = chan_in c" for tag cv c
    by (auto simp: cv_flush_one_def split: option.splits prod.splits dest!: lio_in)
  then show ?thesis
    by (auto simp: cv_flush_all_def keeps_def sess_in_def split: option.splits prod.splits)
      (metis snd_conv)+
qed

lemma live_lost_keeps: "keeps s (live_lost s)"
  by (rule keeps_same) (simp add: live_lost_def)

lemma live_loop_reads:
  "live_loop B S T G w mode ls busy chunk status ts s = Some (code, s', ts') \<Longrightarrow> reads s s'"
proof (induction B S T G w mode ls busy chunk status ts s rule: live_loop.induct)
  case (2 B S T G w mode ls busy chunk status t ts s)
  show ?case
  proof (cases "live_tick B S T G w mode ls busy chunk t s")
    case (Next s1)
    with 2 live_tick_reads [of B S T G w mode ls busy chunk t s s1] reads_trans show ?thesis by auto
  next
    case (Lost s1)
    with "2.prems" live_tick_reads [of B S T G w mode ls busy chunk t s s1]
      reads_trans [OF _ keeps_reads [OF live_lost_keeps]] show ?thesis by auto
  next
    case (Done s1)
    have "keeps s1 ((cv_flush_all B T s1)\<lparr>l_inp := None\<rparr>)"
      using cv_flush_all_keeps [of s1 B T] by (simp add: keeps_def)
    with Done "2.prems" live_tick_reads [of B S T G w mode ls busy chunk t s s1] reads_trans keeps_reads
    show ?thesis by auto
  qed
qed simp

lemma live_exec_reads:
  assumes "live_exec B S T G mode (Some c) ls cmd env outf errf jobid w ts = Some (code, x, w', ts', sg)"
  obtains c' where "x = Some c'" "length (chan_in c') \<le> length (chan_in c)"
proof -
  have "reads (lstate_init mode (Some c) k) s' \<Longrightarrow> \<exists>c'. l_sess s' = Some c' \<and> length (chan_in c') \<le> length (chan_in c)"
    for k s' by (auto simp: reads_def lstate_init_def sess_in_def split: option.splits)
  with assms that show thesis
    by (fastforce simp: live_exec_def split: option.splits prod.splits bool.splits dest: live_loop_reads)
qed

end
