(* ===== verification/W32exec.thy ===== *)
theory W32exec
  imports Live
begin

text \<open>
  \<^verbatim>\<open>daemon/live_w32.c\<close>: supervised execution on Win32.  The state and the ticks are those of \<open>Live\<close>, one
  tick for each return of \<^verbatim>\<open>sock_wait\<close>; that \<^verbatim>\<open>PeekNamedPipe\<close> finds bytes, or a broken pipe, is \<open>t_out\<close> and
  \<open>t_err\<close> of the tick, and \<^verbatim>\<open>WaitForSingleObject\<close> its \<open>t_dead\<close>.  A finished stream is \<open>None\<close>.  Terminating
  the child's job, or the child on systems without jobs, is recorded as \<open>SIGKILL\<close>.  \<^verbatim>\<open>CreateProcess\<close> is the
  \<open>os_fork\<close> of \<open>os\<close>, with the command line, and \<open>c_status\<close> the exit code of the process, a 32-bit number.
  The handles the function closes and the job objects are not modelled.
\<close>

abbreviation WCMD_MAX :: int where "WCMD_MAX \<equiv> 16384"

section \<open>Operations\<close>

definition kill_job :: "lstate \<Rightarrow> lstate" where
  "kill_job s = s\<lparr>l_sigs := l_sigs s @ [SIGKILL]\<rparr>"

text \<open>Which sockets are readable: the session only when it is a TCP one.\<close>

definition w32_sess_rd :: "live_mode \<Rightarrow> tick \<Rightarrow> lstate \<Rightarrow> bool" where
  "w32_sess_rd mode t s \<longleftrightarrow> mode \<noteq> LIVE_JOB \<and> t_sess t
     \<and> (case l_sess s of None \<Rightarrow> False | Some c \<Rightarrow> kind c = GCDS_CHAN_TCP)"

text \<open>\<^verbatim>\<open>pump\<close> on the two pipes: the flag is \<open>False\<close> when writing to the session failed.\<close>

definition w32_pump_out :: "build \<Rightarrow> txt_ops \<Rightarrow> nat \<Rightarrow> tick \<Rightarrow> lstate \<Rightarrow> bool \<times> lstate" where
  "w32_pump_out B T chunk t s =
     (case l_out s of
        None \<Rightarrow> (True, s)
      | Some h \<Rightarrow>
          if \<not> t_out t then (True, s)
          else (case dev_recv h chunk of (buf, h') \<Rightarrow>
            if buf = [] then (True, s\<lparr>l_out := None\<rparr>)
            else (case pump_send B T (CHR ''O'') buf (s\<lparr>l_out := Some h', l_total := l_total s + int (length buf)\<rparr>) of
                (r, s1) \<Rightarrow> (r = 0, s1))))"

definition w32_pump_err :: "build \<Rightarrow> txt_ops \<Rightarrow> nat \<Rightarrow> tick \<Rightarrow> lstate \<Rightarrow> bool \<times> lstate" where
  "w32_pump_err B T chunk t s =
     (case l_err s of
        None \<Rightarrow> (True, s)
      | Some h \<Rightarrow>
          if \<not> t_err t then (True, s)
          else (case dev_recv h chunk of (buf, h') \<Rightarrow>
            if buf = [] then (True, s\<lparr>l_err := None\<rparr>)
            else (case pump_send B T (CHR ''E'') buf (s\<lparr>l_err := Some h', l_total := l_total s + int (length buf)\<rparr>) of
                (r, s1) \<Rightarrow> (r = 0, s1))))"

text \<open>A frame of the RUNI client; writing to the child's input pipe blocks until it took everything or
  fails.\<close>

definition w32_runi_frame :: "build \<Rightarrow> gcds_chan \<Rightarrow> string \<Rightarrow> lstate \<Rightarrow> bool \<times> lstate" where
  "w32_runi_frame B c line s =
     (if line = ''K'' then (True, if l_killed s = 0 then (kill_job s)\<lparr>l_killed := 1\<rparr> else s)
      else if char_at line 0 = CHR ''I'' \<and> char_at line 1 = CHR '' '' then
        (let n = atol (drop 2 line) in
         if n < 0 \<or> n > GCDSP_FRAME_MAX B then (False, s)
         else if n = 0 then (True, s\<lparr>l_inp := None\<rparr>)
         else (case chan_read_n c (nat n) of
             (None, c') \<Rightarrow> (False, s\<lparr>l_sess := Some c'\<rparr>)
           | (Some buf, c') \<Rightarrow>
               let s1 = s\<lparr>l_sess := Some c'\<rparr> in
               case l_inp s1 of
                 None \<Rightarrow> (True, s1)
               | Some d \<Rightarrow>
                   if l_killed s1 = 0 then
                     (case dev_write_all d buf of (b, d') \<Rightarrow> (True, s1\<lparr>l_inp := if b then Some d' else None\<rparr>))
                   else (True, s1)))
      else (False, s))"

text \<open>The parts of one round, in the order of the code; a flag \<open>False\<close> sets \<^verbatim>\<open>lost\<close>.\<close>

definition w32_ctl :: "build \<Rightarrow> os \<Rightarrow> sess_cfg \<Rightarrow> world \<Rightarrow> bool \<Rightarrow> int \<Rightarrow> tick \<Rightarrow> lstate \<Rightarrow> lstate" where
  "w32_ctl B S G w ls busy t s =
     (if ls then
        (case t_ctl t of
           Some (Some (ip, d)) \<Rightarrow>
             if session_peer_ok G ip
             then s\<lparr>l_ctl := l_ctl s @ [snd (chan_close (ctl_session B S G w (chan_tcp d) busy))]\<rparr>
             else s\<lparr>l_ctl := l_ctl s @ [Some d]\<rparr>
         | _ \<Rightarrow> s)
      else s)"

definition w32_sess :: "build \<Rightarrow> live_mode \<Rightarrow> tick \<Rightarrow> lstate \<Rightarrow> bool \<times> lstate" where
  "w32_sess B mode t s =
     (if \<not> w32_sess_rd mode t s then (True, s)
      else if mode = LIVE_RUN then (False, s)
      else (case l_sess s of
          None \<Rightarrow> (True, s)
        | Some c \<Rightarrow>
            (case lio_get_line c GCDSP_LINE_MAX of (r, raw, c') \<Rightarrow>
               let s1 = s\<lparr>l_sess := Some c'\<rparr> in
               if r \<noteq> LIO_OK then (False, s1) else w32_runi_frame B c' (cstr raw) s1)))"

definition w32_cap :: "build \<Rightarrow> sess_cfg \<Rightarrow> live_mode \<Rightarrow> tick \<Rightarrow> lstate \<Rightarrow> lstate" where
  "w32_cap B G mode t s =
     (if g_maxout G > 0 \<and> \<not> l_capped s \<and> (if mode = LIVE_JOB then t_size t else l_total s) > g_maxout G then
        kill_job (s\<lparr>l_capped := True,
          l_sess := (if mode = LIVE_JOB then l_sess s
                     else map_option (\<lambda>c. snd (lio_put_frame B c (CHR ''E'') cap_notice)) (l_sess s))\<rparr>)
      else s)"

definition w32_tick :: "build \<Rightarrow> os \<Rightarrow> txt_ops \<Rightarrow> sess_cfg \<Rightarrow> world \<Rightarrow> live_mode \<Rightarrow> bool \<Rightarrow> int \<Rightarrow> nat \<Rightarrow> tick \<Rightarrow> lstate \<Rightarrow> round" where
  "w32_tick B S T G w mode ls busy chunk t s =
     (case w32_sess B mode t (w32_ctl B S G w ls busy t s) of (b1, s1) \<Rightarrow>
      case w32_pump_out B T chunk t s1 of (b2, s2) \<Rightarrow>
      case w32_pump_err B T chunk t s2 of (b3, s3) \<Rightarrow>
        let s4 = w32_cap B G mode t s3 in
        if \<not> (b1 \<and> b2 \<and> b3) then Lost (kill_job s4)
        else if l_out s4 = None \<and> l_err s4 = None \<and> t_dead t then Done s4
        else Next s4)"

text \<open>\<^verbatim>\<open>cv_flush_all\<close> of this file: the second stream is not reached after a failure of the first.  The flag is
  \<open>False\<close> when the session was lost.\<close>

definition w32_flush_all :: "build \<Rightarrow> txt_ops \<Rightarrow> lstate \<Rightarrow> bool \<times> lstate" where
  "w32_flush_all B T s =
     (case l_sess s of
        None \<Rightarrow> (True, s)
      | Some c \<Rightarrow>
          if \<not> txt_active T then (True, s)
          else (case cv_flush_one B T (CHR ''O'') (l_cvo s) c of (b, c1) \<Rightarrow>
            if \<not> b then (False, s\<lparr>l_sess := Some c1\<rparr>)
            else (case cv_flush_one B T (CHR ''E'') (l_cve s) c1 of (b2, c2) \<Rightarrow> (b2, s\<lparr>l_sess := Some c2\<rparr>))))"

text \<open>The exit code: a 32-bit unsigned number, cut to 255.\<close>

definition w32_code :: "int \<Rightarrow> int" where
  "w32_code status = (let code = status mod 2 ^ 32 in if code > 255 then 255 else code)"

fun w32_loop :: "build \<Rightarrow> os \<Rightarrow> txt_ops \<Rightarrow> sess_cfg \<Rightarrow> world \<Rightarrow> live_mode \<Rightarrow> bool \<Rightarrow> int \<Rightarrow> nat \<Rightarrow> int
    \<Rightarrow> tick list \<Rightarrow> lstate \<Rightarrow> (int \<times> lstate \<times> tick list) option" where
  "w32_loop B S T G w mode ls busy chunk status [] s = None"
| "w32_loop B S T G w mode ls busy chunk status (t # ts) s =
     (case w32_tick B S T G w mode ls busy chunk t s of
        Next s1 \<Rightarrow> w32_loop B S T G w mode ls busy chunk status ts s1
      | Lost s1 \<Rightarrow> Some (-2, snd (w32_flush_all B T s1), ts)
      | Done s1 \<Rightarrow> (case w32_flush_all B T s1 of (b, s2) \<Rightarrow> Some (if b then w32_code status else -2, s2, ts)))"

definition w32_live_exec :: "build \<Rightarrow> os \<Rightarrow> txt_ops \<Rightarrow> sess_cfg \<Rightarrow> live_mode \<Rightarrow> gcds_chan option \<Rightarrow> bool \<Rightarrow> string
    \<Rightarrow> gcds_env list \<Rightarrow> string \<Rightarrow> string \<Rightarrow> int \<Rightarrow> world \<Rightarrow> tick list
    \<Rightarrow> (int \<times> gcds_chan option \<times> world \<times> tick list \<times> signal list) option" where
  "w32_live_exec B S T G mode sess ls cmd env outf errf jobid w ts =
     (case build_wcmd (WCMD_MAX - 16) cmd env of
        None \<Rightarrow> Some (-1, sess, w, ts, [])
      | Some wcmd \<Rightarrow>
          (case (if mode = LIVE_JOB then job_files S outf errf w else (True, w)) of
             (False, w1) \<Rightarrow> Some (-1, sess, w1, ts, [])
           | (True, w1) \<Rightarrow>
               (case os_fork S (''cmd.exe /c '' @ wcmd) w1 of
                  None \<Rightarrow> Some (-1, sess, w1, ts, [])
                | Some k \<Rightarrow>
                    (case w32_loop B S T G w1 mode ls (if mode = LIVE_JOB then jobid else 0)
                            (case sess of None \<Rightarrow> 0 | Some c \<Rightarrow> nat (chan_chunk c)) (c_status k) ts
                            (lstate_init mode sess k) of
                       None \<Rightarrow> None
                     | Some (code, s, ts') \<Rightarrow> Some (code, l_sess s, c_after k, ts', l_sigs s)))))"

section \<open>The session's input during execution\<close>

lemma w32_pump_keeps:
  "w32_pump_out B T chunk t s = (b, s') \<Longrightarrow> keeps s s'"
  "w32_pump_err B T chunk t s = (b, s') \<Longrightarrow> keeps s s'"
  by (auto simp: w32_pump_out_def w32_pump_err_def keeps_def split: option.splits if_splits prod.splits
      dest!: pump_send_keeps)

lemma w32_ctl_keeps: "keeps s (w32_ctl B S G w ls busy t s)"
  by (rule keeps_same) (auto simp: w32_ctl_def split: option.splits prod.splits)

lemma w32_cap_keeps: "keeps s (w32_cap B G mode t s)"
  by (auto simp: w32_cap_def kill_job_def keeps_def sess_in_def split: option.splits)

lemma kill_job_keeps: "keeps s (kill_job s)"
  by (rule keeps_same) (simp add: kill_job_def)

lemma w32_runi_frame_reads:
  "w32_runi_frame B c line s = (b, s') \<Longrightarrow> l_sess s = Some c \<Longrightarrow> reads s s'"
  by (auto simp: w32_runi_frame_def kill_job_def reads_def sess_in_def Let_def dest!: chan_read_n_le
      split: if_splits option.splits prod.splits)

lemma w32_sess_reads:
  assumes "w32_sess B mode t s = (b, s')"
  shows "reads s s' \<and> (mode = LIVE_RUN \<longrightarrow> keeps s s')"
proof (cases "l_sess s")
  case (Some c)
  obtain r raw c' where g: "lio_get_line c GCDSP_LINE_MAX = (r, raw, c')" by (metis surj_pair)
  have "reads s (s\<lparr>l_sess := Some c'\<rparr>)"
    using Some lio_get_line_shrinks [OF g] by (simp add: reads_def sess_in_def)
  moreover have "reads (s\<lparr>l_sess := Some c'\<rparr>) s'" if "w32_runi_frame B c' (cstr raw) (s\<lparr>l_sess := Some c'\<rparr>) = (b, s')"
    using w32_runi_frame_reads [OF that] by simp
  ultimately show ?thesis
    using assms Some g reads_trans by (auto simp: w32_sess_def Let_def split: if_splits)
qed (use assms in \<open>auto simp: w32_sess_def split: if_splits\<close>)

lemma w32_tick_reads:
  assumes "w32_tick B S T G w mode ls busy chunk t s \<in> {Next s', Lost s', Done s'}"
  shows "reads s s'" and "mode = LIVE_RUN \<Longrightarrow> keeps s s'"
proof -
  obtain b1 s1 where 1: "w32_sess B mode t (w32_ctl B S G w ls busy t s) = (b1, s1)" by (metis surj_pair)
  obtain b2 s2 where 2: "w32_pump_out B T chunk t s1 = (b2, s2)" by (metis surj_pair)
  obtain b3 s3 where 3: "w32_pump_err B T chunk t s2 = (b3, s3)" by (metis surj_pair)
  let ?s4 = "w32_cap B G mode t s3"
  have k: "keeps s1 ?s4" "keeps s1 (kill_job ?s4)"
    using keeps_trans [OF keeps_trans [OF w32_pump_keeps(1) [OF 2] w32_pump_keeps(2) [OF 3]] w32_cap_keeps]
      keeps_trans [OF _ kill_job_keeps] by blast+
  have "s' = ?s4 \<or> s' = kill_job ?s4"
    using assms by (auto simp: w32_tick_def 1 2 3 Let_def split: if_splits)
  then have e: "keeps s1 s'" using k by blast
  have 0: "keeps s (w32_ctl B S G w ls busy t s)" by (rule w32_ctl_keeps)
  note r = w32_sess_reads [OF 1]
  show "reads s s'" using reads_trans [OF reads_trans [OF keeps_reads [OF 0] conjunct1 [OF r]] keeps_reads [OF e]] .
  show "keeps s s'" if "mode = LIVE_RUN" using keeps_trans [OF keeps_trans [OF 0] e] r that by blast
qed

lemma w32_flush_keeps: "w32_flush_all B T s = (b, s') \<Longrightarrow> keeps s s'"
proof -
  have "chan_in c' = chan_in c" if "cv_flush_one B T tag cv c = (b, c')" for tag cv c b c'
    using that by (auto simp: cv_flush_one_def split: option.splits prod.splits if_splits dest!: lio_in)
  then show "w32_flush_all B T s = (b, s') \<Longrightarrow> keeps s s'"
    by (fastforce simp: w32_flush_all_def keeps_def sess_in_def split: option.splits prod.splits if_splits)
qed

lemma w32_loop_reads:
  assumes "w32_loop B S T G w mode ls busy chunk status ts s = Some (code, s', ts')"
  shows "reads s s' \<and> (mode = LIVE_RUN \<longrightarrow> keeps s s')"
  using assms
proof (induction ts arbitrary: s)
  case (Cons t ts)
  note tk = w32_tick_reads [of B S T G w mode ls busy chunk t s]
  show ?case
  proof (cases "w32_tick B S T G w mode ls busy chunk t s")
    case (Next s1)
    with Cons.prems have l: "w32_loop B S T G w mode ls busy chunk status ts s1 = Some (code, s', ts')" by simp
    show ?thesis using Cons.IH [OF l] tk [of s1] Next reads_trans keeps_trans by blast
  next
    case (Lost s1)
    obtain b s2 where f: "w32_flush_all B T s1 = (b, s2)" by (metis surj_pair)
    have "s' = s2" using Cons.prems Lost f by simp
    then show ?thesis
      using tk [of s1] Lost w32_flush_keeps [OF f] reads_trans [OF _ keeps_reads] keeps_trans by blast
  next
    case (Done s1)
    obtain b s2 where f: "w32_flush_all B T s1 = (b, s2)" by (metis surj_pair)
    have "s' = s2" using Cons.prems Done f by simp
    then show ?thesis
      using tk [of s1] Done w32_flush_keeps [OF f] reads_trans [OF _ keeps_reads] keeps_trans by blast
  qed
qed simp

lemma w32_live_exec_reads:
  assumes "w32_live_exec B S T G mode (Some c) ls cmd env outf errf jid w ts = Some (code, x, w', ts', sg)"
  shows "\<exists>c'. x = Some c' \<and> length (chan_in c') \<le> length (chan_in c) \<and> (mode = LIVE_RUN \<longrightarrow> chan_in c' = chan_in c)"
proof -
  have "reads (lstate_init mode (Some c) k) s' \<and> (mode = LIVE_RUN \<longrightarrow> keeps (lstate_init mode (Some c) k) s') \<Longrightarrow>
      \<exists>c'. l_sess s' = Some c' \<and> length (chan_in c') \<le> length (chan_in c) \<and> (mode = LIVE_RUN \<longrightarrow> chan_in c' = chan_in c)"
    for k s' by (auto simp: reads_def keeps_def lstate_init_def sess_in_def split: option.splits)
  with assms show ?thesis
    by (fastforce simp: w32_live_exec_def split: option.splits prod.splits bool.splits dest: w32_loop_reads)
qed

end
