(* ===== verification/Supervise.thy ===== *)
theory Supervise
  imports W32exec
begin

text \<open>
  \<^verbatim>\<open>daemon/live.h\<close>: the one function \<^verbatim>\<open>live_exec\<close> has two implementations, and a build links that of its
  system.  The locale \<open>supervisor\<close> is what the session relies on when it hands its channel over: it gets a
  channel back, and what the execution consumed of the input is gone from it.
\<close>

locale supervisor =
  fixes exec :: "build \<Rightarrow> os \<Rightarrow> txt_ops \<Rightarrow> sess_cfg \<Rightarrow> live_mode \<Rightarrow> gcds_chan option \<Rightarrow> bool \<Rightarrow> string
    \<Rightarrow> gcds_env list \<Rightarrow> string \<Rightarrow> string \<Rightarrow> int \<Rightarrow> world \<Rightarrow> tick list
    \<Rightarrow> (int \<times> gcds_chan option \<times> world \<times> tick list \<times> signal list) option"
  assumes reads: "exec B S T G mode (Some c) ls cmd env outf errf jid w ts = Some (code, x, w', ts', sg) \<Longrightarrow>
      \<exists>c'. x = Some c' \<and> length (chan_in c') \<le> length (chan_in c)"

interpretation psx: supervisor live_exec
  by unfold_locales (blast elim: live_exec_reads)

interpretation w32: supervisor w32_live_exec
  by unfold_locales (blast dest: w32_live_exec_reads)

text \<open>The implementation a build links.\<close>

definition sess_exec :: "build \<Rightarrow> os \<Rightarrow> txt_ops \<Rightarrow> sess_cfg \<Rightarrow> live_mode \<Rightarrow> gcds_chan option \<Rightarrow> bool \<Rightarrow> string
    \<Rightarrow> gcds_env list \<Rightarrow> string \<Rightarrow> string \<Rightarrow> int \<Rightarrow> world \<Rightarrow> tick list
    \<Rightarrow> (int \<times> gcds_chan option \<times> world \<times> tick list \<times> signal list) option" where
  "sess_exec B = (if GCDS_WIN32 B then w32_live_exec B else live_exec B)"

interpretation sx: supervisor sess_exec
  by unfold_locales (auto simp: sess_exec_def split: if_splits dest: psx.reads w32.reads)

end
