(* ===== verification/Session.thy ===== *)
theory Session
  imports Supervise
begin

text \<open>
  \<^verbatim>\<open>daemon/session.c\<close>, second part: \<^verbatim>\<open>session_run\<close>, the command dispatcher.

  \<open>sess_state\<close> holds its local variables, what it shares with \<^verbatim>\<open>main.c\<close> (job, result), the static
  counter of \<^verbatim>\<open>next_jobid\<close>, the world and the ticks of the executions still to come.  One command is
  one \<open>step\<close>: the loop goes on, or the function returns, or it waits in an execution whose ticks
  have ended.  The loop consumes at least the LF of a line in each round, so it is a total function.

  In builds with \<^verbatim>\<open>GCDS_HAS_LIVE\<close> or \<^verbatim>\<open>GCDS_HAS_IX\<close> the executions are those of the supervisor the build
  links (\<open>Supervise\<close>).
\<close>

section \<open>State\<close>

record gcds_job =
  pending :: bool
  jobid :: int
  jcmd :: string
  jenv :: "gcds_env list"

record gcds_res =
  valid :: bool
  rjobid :: int
  rcode :: int

record sess_state =
  s_chan :: gcds_chan
  s_world :: world
  s_env :: "gcds_env list"
  s_authed :: bool
  s_job :: gcds_job
  s_res :: gcds_res
  s_jctr :: int
  s_ticks :: "tick list"

datatype step = Continue sess_state | Return sess_state | Blocked

section \<open>Commands\<close>

definition reply :: "sess_state \<Rightarrow> string \<Rightarrow> step" where
  "reply st l = (case say (s_chan st) l of (b, c) \<Rightarrow>
     if b then Continue (st\<lparr>s_chan := c\<rparr>) else Return (st\<lparr>s_chan := c\<rparr>))"

definition reply_exit :: "sess_state \<Rightarrow> int \<Rightarrow> step" where
  "reply_exit st code = (case send_exit (s_chan st) code of (r, c) \<Rightarrow>
     if r = LIO_OK then Continue (st\<lparr>s_chan := c\<rparr>) else Return (st\<lparr>s_chan := c\<rparr>))"

definition sess_stat :: "sess_state \<Rightarrow> step" where
  "sess_stat st = (if valid (s_res st) then reply st (''OK result '' @ ld (rjobid (s_res st)))
                   else reply st ''OK idle'')"

definition sess_cwd :: "os \<Rightarrow> string option \<Rightarrow> sess_state \<Rightarrow> step" where
  "sess_cwd S arg st =
     (case arg of
        None \<Rightarrow> reply st ''ERR 404 no such directory''
      | Some a \<Rightarrow>
          (case os_chdir S (s_world st) a of
             None \<Rightarrow> reply st ''ERR 404 no such directory''
           | Some d \<Rightarrow> reply (st\<lparr>s_world := (s_world st)\<lparr>cwd := d\<rparr>\<rparr>) ''OK''))"

text \<open>The index of the first entry with the name, the length of the table if there is none.\<close>

fun env_index :: "gcds_env list \<Rightarrow> string \<Rightarrow> nat" where
  "env_index [] n = 0"
| "env_index (e # es) n = (if env_name e = n then 0 else Suc (env_index es n))"

text \<open>Setting a variable: \<open>None\<close> when the table is full.\<close>

definition env_put :: "build \<Rightarrow> gcds_env list \<Rightarrow> string \<Rightarrow> string \<Rightarrow> gcds_env list option" where
  "env_put B env n v =
     (let i = env_index env n;
          e = \<lparr>env_name = strlcpy n GCDSP_ENVN_MAX, env_val = strlcpy v GCDSP_ENVV_MAX\<rparr> in
      if i = length env then (if int (length env) \<ge> GCDSP_ENV_MAX B then None else Some (env @ [e]))
      else Some (env[i := e]))"

definition sess_env :: "build \<Rightarrow> string option \<Rightarrow> sess_state \<Rightarrow> step" where
  "sess_env B arg st =
     (case arg of
        None \<Rightarrow> reply st ''ERR 400 bad env''
      | Some a \<Rightarrow>
          (case cut (CHR ''='') a of
             None \<Rightarrow> reply st ''ERR 400 bad env''
           | Some (n, v) \<Rightarrow>
               if \<not> env_name_ok n \<or> int (length n) \<ge> GCDSP_ENVN_MAX \<or> int (length v) \<ge> GCDSP_ENVV_MAX
               then reply st ''ERR 431 env too long''
               else (case env_put B (s_env st) n v of
                   None \<Rightarrow> reply st ''ERR 431 too many env''
                 | Some env \<Rightarrow> reply (st\<lparr>s_env := env\<rparr>) ''OK'')))"

text \<open>The outcome of an execution with \<^verbatim>\<open>live_exec\<close>.\<close>

definition live_reply :: "sess_state \<Rightarrow> (int \<times> gcds_chan option \<times> world \<times> tick list \<times> signal list) option \<Rightarrow> step" where
  "live_reply st x =
     (case x of
        None \<Rightarrow> Blocked
      | Some (code, c, w, ts, _) \<Rightarrow>
          let st1 = st\<lparr>s_chan := (case c of None \<Rightarrow> s_chan st | Some c' \<Rightarrow> c'), s_world := w, s_ticks := ts\<rparr> in
          if code = -2 then Return st1
          else if code < 0 then reply st1 ''ERR 500 exec failed''
          else reply_exit st1 code)"

text \<open>The capture files are sent and removed.\<close>

definition send_captured :: "build \<Rightarrow> os \<Rightarrow> txt_ops \<Rightarrow> sess_cfg \<Rightarrow> world \<Rightarrow> string \<Rightarrow> string \<Rightarrow> gcds_chan \<Rightarrow> bool \<times> gcds_chan" where
  "send_captured B S T G w outf errf c =
     (case send_file B S T G w c (CHR ''O'') outf 0 of (b, c1, sent) \<Rightarrow>
        if b then (case send_file B S T G w c1 (CHR ''E'') errf sent of (b2, c2, _) \<Rightarrow> (b2, c2))
        else (False, c1))"

definition sess_run :: "build \<Rightarrow> os \<Rightarrow> txt_ops \<Rightarrow> sess_cfg \<Rightarrow> bool \<Rightarrow> string option \<Rightarrow> sess_state \<Rightarrow> step" where
  "sess_run B S T G ls arg st0 =
     (case arg of
        None \<Rightarrow> reply st0 ''ERR 400 missing command''
      | Some cmd \<Rightarrow>
          let st = st0\<lparr>s_res := (s_res st0)\<lparr>valid := False\<rparr>\<rparr> in
          if GCDS_HAS_LIVE B then
            live_reply st (sess_exec B S T G LIVE_RUN (Some (s_chan st)) ls cmd (s_env st) [] [] 0
                             (s_world st) (s_ticks st))
          else
            (case run_command B S cmd (s_env st) (g_outf G) (g_errf G) (s_world st) of (code, w1) \<Rightarrow>
               let w2 = w_unlink S (w_unlink S w1 (g_outf G)) (g_errf G) in
               if code < 0 then reply (st\<lparr>s_world := w2\<rparr>) ''ERR 500 exec failed''
               else (case send_captured B S T G w1 (g_outf G) (g_errf G) (s_chan st) of (b, c) \<Rightarrow>
                 let st1 = st\<lparr>s_chan := c, s_world := w2\<rparr> in
                 if \<not> b then Return st1 else reply_exit st1 code)))"

definition sess_runa :: "string option \<Rightarrow> sess_state \<Rightarrow> step" where
  "sess_runa arg st =
     (case arg of
        None \<Rightarrow> reply st ''ERR 400 missing command''
      | Some cmd \<Rightarrow>
          let j = next_jobid (s_jctr st);
              st1 = st\<lparr>s_res := (s_res st)\<lparr>valid := False\<rparr>, s_jctr := j,
                       s_job := \<lparr>pending = True, jobid = j, jcmd = strlcpy cmd GCDSP_LINE_MAX, jenv = s_env st\<rparr>\<rparr> in
          Return (st1\<lparr>s_chan := snd (lio_put_line (s_chan st) (''OK '' @ ld j))\<rparr>))"

definition sess_result :: "build \<Rightarrow> os \<Rightarrow> txt_ops \<Rightarrow> sess_cfg \<Rightarrow> string option \<Rightarrow> sess_state \<Rightarrow> step" where
  "sess_result B S T G arg st =
     (let i = (case arg of None \<Rightarrow> -1 | Some a \<Rightarrow> atol a) in
      if \<not> valid (s_res st) \<or> rjobid (s_res st) \<noteq> i then reply st ''ERR 404 no such result''
      else (case send_captured B S T G (s_world st) (g_rof G) (g_ref G) (s_chan st) of (b, c) \<Rightarrow>
        if \<not> b then Return (st\<lparr>s_chan := c\<rparr>) else reply_exit (st\<lparr>s_chan := c\<rparr>) (rcode (s_res st))))"

definition sess_runi :: "build \<Rightarrow> os \<Rightarrow> txt_ops \<Rightarrow> sess_cfg \<Rightarrow> bool \<Rightarrow> string option \<Rightarrow> sess_state \<Rightarrow> step" where
  "sess_runi B S T G ls arg st0 =
     (if \<not> GCDS_HAS_IX B \<or> \<not> g_ix G then reply st0 ''ERR 501 not supported''
      else (case arg of
          None \<Rightarrow> reply st0 ''ERR 400 missing command''
        | Some cmd \<Rightarrow>
            let st = st0\<lparr>s_res := (s_res st0)\<lparr>valid := False\<rparr>\<rparr> in
            live_reply st (sess_exec B S T G LIVE_RUNI (Some (s_chan st)) ls cmd (s_env st) [] [] 0
                             (s_world st) (s_ticks st))))"

definition sess_put :: "build \<Rightarrow> os \<Rightarrow> sess_cfg \<Rightarrow> string option \<Rightarrow> sess_state \<Rightarrow> step" where
  "sess_put B S G arg st =
     (case do_put B S G (s_chan st) arg (s_world st) of (b, c, w) \<Rightarrow>
        let st1 = st\<lparr>s_chan := c, s_world := w\<rparr> in if b then Continue st1 else Return st1)"

definition sess_get :: "build \<Rightarrow> os \<Rightarrow> string option \<Rightarrow> sess_state \<Rightarrow> step" where
  "sess_get B S arg st =
     (case do_get B S (s_world st) (s_chan st) arg of (b, c) \<Rightarrow>
        let st1 = st\<lparr>s_chan := c\<rparr> in if b then Continue st1 else Return st1)"

section \<open>The dispatcher\<close>

text \<open>The conversion of a received line to the local encoding.\<close>

definition sess_line_in :: "txt_ops \<Rightarrow> build \<Rightarrow> string \<Rightarrow> string" where
  "sess_line_in T B line =
     (if txt_active T then
        (case txt_in T line (2 * GCDSP_FRAME_MAX B) of
           None \<Rightarrow> line
         | Some d \<Rightarrow> if 0 < length d \<and> int (length d) < GCDSP_LINE_MAX then cstr d else line)
      else line)"

definition session_line :: "build \<Rightarrow> os \<Rightarrow> txt_ops \<Rightarrow> sess_cfg \<Rightarrow> bool \<Rightarrow> string \<Rightarrow> sess_state \<Rightarrow> step" where
  "session_line B S T G ls line0 st =
     (case split_cmd (sess_line_in T B line0) of (line, arg) \<Rightarrow>
        if \<not> s_authed st then
          (case handle_auth G (s_chan st) line arg of (b, c) \<Rightarrow>
             let st1 = st\<lparr>s_chan := c\<rparr> in if b then Continue (st1\<lparr>s_authed := True\<rparr>) else Return st1)
        else if line = ''PING'' then reply st ''OK''
        else if line = ''STAT'' then sess_stat st
        else if line = ''CWD'' then sess_cwd S arg st
        else if line = ''ENV'' then sess_env B arg st
        else if line = ''RUN'' then sess_run B S T G ls arg st
        else if line = ''RUNA'' then sess_runa arg st
        else if line = ''RESULT'' then sess_result B S T G arg st
        else if line = ''RUNI'' then sess_runi B S T G ls arg st
        else if line = ''PUT'' then sess_put B S G arg st
        else if line = ''GET'' then sess_get B S arg st
        else if line = ''QUIT'' then Return (st\<lparr>s_chan := snd (lio_put_line (s_chan st) ''OK'')\<rparr>)
        else reply st ''ERR 500 unknown command'')"

section \<open>Input only shrinks\<close>

definition step_le :: "sess_state \<Rightarrow> step \<Rightarrow> bool" where
  "step_le st x \<longleftrightarrow> (\<forall>st'. x = Continue st' \<or> x = Return st' \<longrightarrow> length (chan_in (s_chan st')) \<le> length (chan_in (s_chan st)))"

lemma reply_le: "s_chan st' = s_chan st \<Longrightarrow> step_le st (reply st' l)"
  by (auto simp: reply_def step_le_def split: prod.splits if_splits dest!: say_in')

lemma reply_exit_le: "length (chan_in (s_chan st')) \<le> length (chan_in (s_chan st)) \<Longrightarrow> step_le st (reply_exit st' code)"
  by (auto simp: reply_exit_def step_le_def split: prod.splits if_splits dest!: send_exit_in)

lemma reply_le': "length (chan_in (s_chan st')) \<le> length (chan_in (s_chan st)) \<Longrightarrow> step_le st (reply st' l)"
  by (auto simp: reply_def step_le_def split: prod.splits if_splits dest!: say_in')

lemma live_reply_le:
  assumes "x = sess_exec B S T G mode (Some (s_chan st)) ls cmd env outf errf jid w ts"
    and "s_chan st' = s_chan st"
  shows "step_le st (live_reply st' x)"
proof (cases x)
  case (Some y)
  obtain code c w' ts' sg where y: "y = (code, c, w', ts', sg)" by (cases y)
  with assms Some obtain c' where "c = Some c'" "length (chan_in c') \<le> length (chan_in (s_chan st))"
    using sx.reads [of B S T G mode "s_chan st" ls cmd env outf errf jid w ts code c w' ts' sg]
    by (metis option.inject)
  with Some y show ?thesis
    by (auto simp: live_reply_def Let_def intro!: reply_le' reply_exit_le) (simp add: step_le_def)
qed (simp add: live_reply_def step_le_def)

lemma send_captured_in: "send_captured B S T G w outf errf c = (b, c') \<Longrightarrow> chan_in c' = chan_in c"
  by (auto simp: send_captured_def split: prod.splits if_splits dest!: send_file_in)

lemma session_line_le: "step_le st (session_line B S T G ls line st)"
proof -
  obtain l arg where sc: "split_cmd (sess_line_in T B line) = (l, arg)" by (metis surj_pair)
  have "step_le st (sess_stat st)" "step_le st (sess_cwd S arg st)" "step_le st (sess_env B arg st)"
    by (auto simp: sess_stat_def sess_cwd_def sess_env_def Let_def intro!: reply_le split: option.splits)
  moreover have "step_le st (sess_run B S T G ls arg st)"
    by (auto simp: sess_run_def Let_def intro!: reply_le reply_exit_le live_reply_le [OF refl]
        split: option.splits prod.splits dest!: send_captured_in) (simp_all add: step_le_def)
  moreover have "step_le st (sess_runa arg st)"
    by (auto simp: sess_runa_def Let_def intro!: reply_le split: option.splits) (auto simp: step_le_def)
  moreover have "step_le st (sess_result B S T G arg st)"
    by (auto simp: sess_result_def Let_def intro!: reply_le reply_exit_le
        split: option.splits prod.splits dest!: send_captured_in) (simp_all add: step_le_def)
  moreover have "step_le st (sess_runi B S T G ls arg st)"
    by (auto simp: sess_runi_def Let_def intro!: reply_le live_reply_le [OF refl] split: option.splits)
  moreover have "step_le st (sess_put B S G arg st)"
    by (auto simp: sess_put_def Let_def step_le_def split: prod.splits if_splits dest!: do_put_le)
  moreover have "step_le st (sess_get B S arg st)"
    by (auto simp: sess_get_def Let_def step_le_def split: prod.splits if_splits dest!: do_get_in)
  moreover have "step_le st (case handle_auth G (s_chan st) l arg of (b, c) \<Rightarrow>
             let st1 = st\<lparr>s_chan := c\<rparr> in if b then Continue (st1\<lparr>s_authed := True\<rparr>) else Return st1)"
    by (cases "handle_auth G (s_chan st) l arg")
      (use handle_auth_in [of G "s_chan st" l arg] in \<open>auto simp: step_le_def Let_def\<close>)
  moreover have "step_le st (Return (st\<lparr>s_chan := snd (lio_put_line (s_chan st) ''OK'')\<rparr>))" by (auto simp: step_le_def)
  ultimately show ?thesis
    by (simp add: session_line_def sc reply_le)
qed

lemma session_line_shrinks:
  "session_line B S T G ls line st = Continue st' \<Longrightarrow> length (chan_in (s_chan st')) \<le> length (chan_in (s_chan st))"
  "session_line B S T G ls line st = Return st' \<Longrightarrow> length (chan_in (s_chan st')) \<le> length (chan_in (s_chan st))"
  using session_line_le [of st B S T G ls line] by (simp_all add: step_le_def)

text \<open>The loop: \<open>None\<close> when an execution never ends.\<close>

function session_loop :: "build \<Rightarrow> os \<Rightarrow> txt_ops \<Rightarrow> sess_cfg \<Rightarrow> bool \<Rightarrow> sess_state \<Rightarrow> sess_state option" where
  "session_loop B S T G ls st =
     (case lio_get_line (s_chan st) GCDSP_LINE_MAX of (r, raw, c1) \<Rightarrow>
        if r = LIO_ELONG then
          Some (st\<lparr>s_chan := snd (lio_put_line c1 ''ERR 400 protocol violation'')\<rparr>)
        else if r \<noteq> LIO_OK then Some (st\<lparr>s_chan := c1\<rparr>)
        else (case session_line B S T G ls (cstr raw) (st\<lparr>s_chan := c1\<rparr>) of
            Continue st' \<Rightarrow> session_loop B S T G ls st'
          | Return st' \<Rightarrow> Some st'
          | Blocked \<Rightarrow> None))"
  by pat_completeness auto
termination
  by (relation "measure (\<lambda>(B, S, T, G, ls, st). length (chan_in (s_chan st)))")
    (auto dest!: sym [of _ "lio_get_line _ _"] sym [of _ "session_line _ _ _ _ _ _ _"] lio_get_line_shrinks
      session_line_shrinks(1))

declare session_loop.simps [simp del]

definition session_run :: "build \<Rightarrow> os \<Rightarrow> txt_ops \<Rightarrow> sess_cfg \<Rightarrow> bool \<Rightarrow> sess_state \<Rightarrow> sess_state option" where
  "session_run B S T G ls st0 =
     (let st = st0\<lparr>s_job := (s_job st0)\<lparr>pending := False\<rparr>, s_env := [], s_authed := False\<rparr> in
      case put_greeting B S G (s_world st) (s_chan st) of (r, c1) \<Rightarrow>
        if r \<noteq> LIO_OK then Some (st\<lparr>s_chan := c1\<rparr>)
        else session_loop B S T G ls (st\<lparr>s_chan := c1\<rparr>))"

section \<open>A session only shortens the input of its channel\<close>

lemma session_loop_le:
  "session_loop B S T G ls st = Some st' \<Longrightarrow> length (chan_in (s_chan st')) \<le> length (chan_in (s_chan st))"
proof (induction B S T G ls st rule: session_loop.induct)
  case (1 B S T G ls st)
  obtain r raw c1 where g: "lio_get_line (s_chan st) GCDSP_LINE_MAX = (r, raw, c1)" by (metis surj_pair)
  note eq = session_loop.simps [of B S T G ls st, unfolded g prod.case] and sh = lio_get_line_shrinks [OF g]
  show ?case
  proof (cases "r = LIO_OK")
    case False
    with "1.prems" sh show ?thesis unfolding eq by (auto split: if_splits)
  next
    case True
    then show ?thesis
      using "1.IH" [OF g [symmetric] refl] "1.prems" sh
        session_line_shrinks [of B S T G ls "cstr raw" "st\<lparr>s_chan := c1\<rparr>"] unfolding eq
      by (cases "session_line B S T G ls (cstr raw) (st\<lparr>s_chan := c1\<rparr>)") (force intro: le_trans)+
  qed
qed

lemma session_run_le:
  assumes "session_run B S T G ls st = Some st'"
  shows "length (chan_in (s_chan st')) \<le> length (chan_in (s_chan st))"
proof -
  obtain r c where p: "put_greeting B S G (s_world st) (s_chan st) = (r, c)" by (metis surj_pair)
  then have "chan_in c = chan_in (s_chan st)" by (auto simp: put_greeting_def dest: lio_in)
  with assms p show ?thesis
    by (auto simp: session_run_def Let_def split: if_splits dest!: session_loop_le)
qed

end
