(* ===== verification/Envtable.thy ===== *)
theory Envtable
  imports Session
begin

text \<open>
  The variable table of a session.  The locale \<open>bounded_table\<close> is the contract of a bounded table of
  named values: a successful store changes exactly one name, a store fails exactly when the name is new
  and the table is full, and the well-formedness of the table is kept.  \<open>tab\<close> interprets it on the
  table of \<^verbatim>\<open>session_run\<close>.
\<close>

section \<open>The contract\<close>

locale bounded_table =
  fixes put :: "'t \<Rightarrow> 'k \<Rightarrow> 'v \<Rightarrow> 't option"
    and look :: "'t \<Rightarrow> 'k \<Rightarrow> 'v option"
    and good :: "'k \<Rightarrow> 'v \<Rightarrow> bool"
    and wf :: "'t \<Rightarrow> bool"
    and cap :: nat
  assumes wf_size: "wf t \<Longrightarrow> finite (dom (look t)) \<and> card (dom (look t)) \<le> cap"
    and put_look: "wf t \<Longrightarrow> good k v \<Longrightarrow> put t k v = Some t' \<Longrightarrow> look t' = (look t)(k \<mapsto> v)"
    and put_wf: "wf t \<Longrightarrow> good k v \<Longrightarrow> put t k v = Some t' \<Longrightarrow> wf t'"
    and put_full: "wf t \<Longrightarrow> good k v \<Longrightarrow> put t k v = None \<longleftrightarrow> look t k = None \<and> card (dom (look t)) = cap"
begin

fun put_all :: "'t \<Rightarrow> ('k \<times> 'v) list \<Rightarrow> 't option" where
  "put_all t [] = Some t"
| "put_all t (x # xs) = (case put t (fst x) (snd x) of None \<Rightarrow> None | Some t' \<Rightarrow> put_all t' xs)"

lemma put_fits:
  assumes "wf t" and "good k v" and "card (insert k (dom (look t))) \<le> cap"
  obtains t' where "put t k v = Some t'" and "wf t'" and "look t' = (look t)(k \<mapsto> v)"
proof -
  have "put t k v \<noteq> None"
    using put_full [OF assms(1,2)] assms(3) wf_size [OF assms(1)] by (auto simp: domIff)
  then show thesis using that put_look put_wf assms by blast
qed

text \<open>Stores that fit all succeed, and the last value of each name wins.\<close>

lemma put_all_last_wins:
  assumes "wf t" and "\<forall>x \<in> set xs. good (fst x) (snd x)" and "card (dom (look t) \<union> fst ` set xs) \<le> cap"
  shows "\<exists>t'. put_all t xs = Some t' \<and> wf t' \<and> look t' = look t ++ map_of (rev xs)"
  using assms
proof (induction xs arbitrary: t)
  case (Cons x xs)
  let ?k = "fst x" and ?v = "snd x"
  have "card (insert ?k (dom (look t))) \<le> card (dom (look t) \<union> fst ` set (x # xs))"
    using wf_size [OF Cons.prems(1)] by (intro card_mono) auto
  with Cons.prems obtain t1 where t1: "put t ?k ?v = Some t1" "wf t1" "look t1 = (look t)(?k \<mapsto> ?v)"
    by (auto intro: put_fits [of t ?k ?v])
  have "dom (look t1) \<union> fst ` set xs = dom (look t) \<union> fst ` set (x # xs)" using t1(3) by auto
  with Cons.IH [OF t1(2)] Cons.prems obtain t' where "put_all t1 xs = Some t'" "wf t'" "look t' = look t1 ++ map_of (rev xs)"
    by auto
  then show ?case using t1 by (auto simp: map_add_def fun_eq_iff split: option.splits)
qed auto

end

section \<open>The table of a session\<close>

definition env_look :: "gcds_env list \<Rightarrow> string \<Rightarrow> string option" where
  "env_look env = map_of (map (\<lambda>e. (env_name e, env_val e)) env)"

definition env_good :: "string \<Rightarrow> string \<Rightarrow> bool" where
  "env_good n v \<longleftrightarrow> env_name_ok n \<and> int (length n) < GCDSP_ENVN_MAX \<and> int (length v) < GCDSP_ENVV_MAX"

definition env_wf :: "build \<Rightarrow> gcds_env list \<Rightarrow> bool" where
  "env_wf B env \<longleftrightarrow> distinct (map env_name env) \<and> int (length env) \<le> GCDSP_ENV_MAX B
     \<and> (\<forall>e \<in> set env. env_good (env_name e) (env_val e))"

lemma env_index_le: "env_index env n \<le> length env"
  by (induction env n rule: env_index.induct) auto

lemma env_index_new: "env_index env n = length env \<longleftrightarrow> n \<notin> env_name ` set env"
  by (induction env n rule: env_index.induct) auto

lemma env_index_name: "env_index env n < length env \<Longrightarrow> env_name (env ! env_index env n) = n"
  by (induction env n rule: env_index.induct) auto

lemma env_dom: "dom (env_look env) = env_name ` set env"
  by (auto simp: env_look_def dom_map_of_conv_image_fst image_image)

lemma env_good_copy:
  "env_good n v \<Longrightarrow> strlcpy n GCDSP_ENVN_MAX = n \<and> strlcpy v GCDSP_ENVV_MAX = v"
  by (simp add: env_good_def gcds_strlcpy_pos)

lemma env_put_good:
  assumes "env_good n v"
  shows "env_put B env n v =
    (if n \<notin> env_name ` set env
     then if int (length env) \<ge> GCDSP_ENV_MAX B then None else Some (env @ [\<lparr>env_name = n, env_val = v\<rparr>])
     else Some (env[env_index env n := \<lparr>env_name = n, env_val = v\<rparr>]))"
  using env_good_copy [OF assms] by (simp add: env_put_def Let_def env_index_new)

lemma env_update_look:
  "n \<in> env_name ` set env \<Longrightarrow>
     env_look (env[env_index env n := \<lparr>env_name = n, env_val = v\<rparr>]) = (env_look env)(n \<mapsto> v)"
  by (induction env) (auto simp: env_look_def fun_eq_iff split: nat.splits)

lemma env_append_look:
  "n \<notin> env_name ` set env \<Longrightarrow> env_look (env @ [\<lparr>env_name = n, env_val = v\<rparr>]) = (env_look env)(n \<mapsto> v)"
  by (induction env) (auto simp: env_look_def fun_eq_iff)

lemma env_update_names:
  "map env_name (env[env_index env n := \<lparr>env_name = n, env_val = v\<rparr>]) = map env_name env"
  by (induction env) (auto split: nat.splits)

interpretation tab: bounded_table "env_put B" env_look env_good "env_wf B" "nat (GCDSP_ENV_MAX B)" for B
proof (unfold_locales, goal_cases)
  case (1 t)
  then have "card (dom (env_look t)) = length t"
    by (metis distinct_card env_dom env_wf_def length_map list.set_map)
  with 1 show ?case by (auto simp: env_dom env_wf_def)
next
  case (2 t k v t')
  then show ?case using env_update_look env_append_look by (auto simp: env_put_good split: if_splits)
next
  case (3 t k v t')
  have "set (t[i := e]) \<subseteq> insert e (set t)" for i e by (rule set_update_subset_insert)
  with 3 show ?case
    by (fastforce simp: env_put_good env_wf_def env_update_names split: if_splits)
next
  case (4 t k v)
  then have "card (dom (env_look t)) = length t"
    by (metis distinct_card env_dom env_wf_def length_map list.set_map)
  moreover have "env_look t k = None \<longleftrightarrow> k \<notin> env_name ` set t" using env_dom [of t] by (metis domIff)
  ultimately show ?case using 4 by (auto simp: env_put_good env_wf_def)
qed

end
