(* ===== verification/Sessprops.thy ===== *)
theory Sessprops
  imports Envtable
begin

text \<open>
  Properties of the command dispatcher: nothing happens before authentication, the variable table and
  the job counter stay in range whatever the peer sends, and the variables of a session are those of
  its ENV lines.
\<close>

section \<open>Rounds of the loop\<close>

lemma reply_ok:
  assumes "chan_ok (s_chan st)"
  obtains c where "reply st l = Continue (st\<lparr>s_chan := c\<rparr>)" "chan_out c = chan_out (s_chan st) @ l @ [LF]"
    "chan_ok c" "chan_in c = chan_in (s_chan st)" "kind c = kind (s_chan st)"
proof -
  obtain c where "lio_put_line (s_chan st) l = (LIO_OK, c)" "chan_out c = chan_out (s_chan st) @ l @ [LF]"
    "chan_ok c" "chan_in c = chan_in (s_chan st)" "kind c = kind (s_chan st)" by (rule put_line_ok [OF assms])
  with that [of c] show thesis by (simp add: reply_def say_def)
qed

text \<open>The next line of the input decides the round.\<close>

lemma session_loop_line:
  assumes "chan_in (s_chan st) = l @ LF # rest" and "is_msg GCDSP_LINE_MAX l"
  obtains c where "chan_in c = rest" "chan_out c = chan_out (s_chan st)" "chan_ok c = chan_ok (s_chan st)"
    "kind c = kind (s_chan st)"
    "session_loop B S T G ls st = (case session_line B S T G ls l (st\<lparr>s_chan := c\<rparr>) of
       Continue st' \<Rightarrow> session_loop B S T G ls st' | Return st' \<Rightarrow> Some st' | Blocked \<Rightarrow> None)"
proof -
  obtain c where "lio_get_line (s_chan st) GCDSP_LINE_MAX = (LIO_OK, l, c)" "chan_in c = rest"
    "chan_out c = chan_out (s_chan st)" "chan_ok c = chan_ok (s_chan st)" "kind c = kind (s_chan st)"
    by (rule lio_get_line_msg [OF assms])
  with that [of c] is_msg_cstr [OF assms(2)] show thesis by (simp add: session_loop.simps [of B S T G ls st])
qed

section \<open>The invariant\<close>

definition job_wf :: "build \<Rightarrow> gcds_job \<Rightarrow> bool" where
  "job_wf B j \<longleftrightarrow> (pending j \<longrightarrow> 1 \<le> jobid j \<and> jobid j \<le> GCDSP_JOB_MAX \<and> int (length (jcmd j)) < GCDSP_LINE_MAX
     \<and> env_wf B (jenv j))"

definition res_wf :: "gcds_res \<Rightarrow> bool" where
  "res_wf r \<longleftrightarrow> (valid r \<longrightarrow> 1 \<le> rjobid r \<and> rjobid r \<le> GCDSP_JOB_MAX \<and> 0 \<le> rcode r \<and> rcode r \<le> 255)"

definition sess_inv :: "build \<Rightarrow> sess_state \<Rightarrow> bool" where
  "sess_inv B st \<longleftrightarrow> env_wf B (s_env st) \<and> 0 \<le> s_jctr st \<and> s_jctr st \<le> GCDSP_JOB_MAX \<and> job_wf B (s_job st)
     \<and> (\<not> s_authed st \<longrightarrow> \<not> pending (s_job st)) \<and> res_wf (s_res st)"

text \<open>One command of the dispatcher, from any peer: the line and the channel are arbitrary.\<close>

inductive sess_step :: "build \<Rightarrow> os \<Rightarrow> txt_ops \<Rightarrow> sess_cfg \<Rightarrow> bool \<Rightarrow> sess_state \<Rightarrow> sess_state \<Rightarrow> bool"
  for B S T G ls where
  go: "session_line B S T G ls line (st\<lparr>s_chan := c\<rparr>) = Continue st' \<Longrightarrow> sess_step B S T G ls st st'"
| stop: "session_line B S T G ls line (st\<lparr>s_chan := c\<rparr>) = Return st' \<Longrightarrow> sess_step B S T G ls st st'"

inductive_cases sess_stepE: "sess_step B S T G ls st st'"

text \<open>The parts of the state the invariant speaks of.\<close>

definition same_ctl :: "sess_state \<Rightarrow> sess_state \<Rightarrow> bool" where
  "same_ctl st st' \<longleftrightarrow> s_env st' = s_env st \<and> s_jctr st' = s_jctr st \<and> s_job st' = s_job st \<and> s_authed st' = s_authed st
     \<and> (valid (s_res st') \<longrightarrow> s_res st' = s_res st)"

definition outcome :: "step \<Rightarrow> sess_state option" where
  "outcome x = (case x of Continue st \<Rightarrow> Some st | Return st \<Rightarrow> Some st | Blocked \<Rightarrow> None)"

lemma outcome_simps [simp]:
  "outcome (Continue st) = Some st" "outcome (Return st) = Some st" "outcome Blocked = None"
  by (simp_all add: outcome_def)

lemma same_inv: "sess_inv B st \<Longrightarrow> same_ctl st st' \<Longrightarrow> sess_inv B st'"
  by (auto simp: sess_inv_def same_ctl_def res_wf_def)

lemma same_ctl_trans: "same_ctl a b \<Longrightarrow> same_ctl b c \<Longrightarrow> same_ctl a c"
  by (auto simp: same_ctl_def)

lemma reply_same: "outcome (reply st l) = Some st' \<Longrightarrow> same_ctl st st'"
  "outcome (reply_exit st code) = Some st' \<Longrightarrow> same_ctl st st'"
  by (auto simp: reply_def reply_exit_def same_ctl_def split: prod.splits if_splits)

lemma live_reply_same: "outcome (live_reply st x) = Some st' \<Longrightarrow> same_ctl st st'"
proof (cases x)
  case (Some y)
  obtain code c w ts sg where y: "y = (code, c, w, ts, sg)" by (cases y)
  let ?st = "st\<lparr>s_chan := (case c of None \<Rightarrow> s_chan st | Some c' \<Rightarrow> c'), s_world := w, s_ticks := ts\<rparr>"
  assume "outcome (live_reply st x) = Some st'"
  then have "same_ctl ?st st' \<or> st' = ?st"
    using Some y reply_same [of ?st] by (auto simp: live_reply_def Let_def split: if_splits)
  then show ?thesis by (auto simp: same_ctl_def)
qed (simp add: live_reply_def)

lemma commands_same:
  "outcome (sess_stat st) = Some st' \<Longrightarrow> same_ctl st st'"
  "outcome (sess_cwd S arg st) = Some st' \<Longrightarrow> same_ctl st st'"
  "outcome (sess_run B S T G ls arg st) = Some st' \<Longrightarrow> same_ctl st st'"
  "outcome (sess_result B S T G arg st) = Some st' \<Longrightarrow> same_ctl st st'"
  "outcome (sess_runi B S T G ls arg st) = Some st' \<Longrightarrow> same_ctl st st'"
  "outcome (sess_put B S G arg st) = Some st' \<Longrightarrow> same_ctl st st'"
  "outcome (sess_get B S arg st) = Some st' \<Longrightarrow> same_ctl st st'"
  by (auto simp: sess_stat_def sess_cwd_def sess_run_def sess_result_def sess_runi_def sess_put_def sess_get_def Let_def
      split: option.splits prod.splits if_splits dest!: reply_same live_reply_same) (auto simp: same_ctl_def)

lemma sess_env_inv:
  assumes "sess_inv B st" and "outcome (sess_env B arg st) = Some st'"
  shows "sess_inv B st'"
proof -
  have "sess_inv B (st\<lparr>s_env := e\<rparr>)" if "env_put B (s_env st) n v = Some e" "env_good n v" for n v e
    using tab.put_wf [OF _ that(2,1)] assms(1) by (simp add: sess_inv_def)
  with assms show ?thesis
    by (auto simp: sess_env_def env_good_def not_le split: option.splits prod.splits if_splits
        dest!: reply_same intro: same_inv)
qed

lemma sess_runa_inv:
  assumes "sess_inv B st" and "s_authed st" and "outcome (sess_runa arg st) = Some st'"
  shows "sess_inv B st'"
proof (cases arg)
  case None
  with assms show ?thesis by (auto simp: sess_runa_def dest!: reply_same intro: same_inv)
next
  case (Some cmd)
  have "1 \<le> next_jobid (s_jctr st) \<and> next_jobid (s_jctr st) \<le> GCDSP_JOB_MAX"
    using assms(1) by (simp add: next_jobid_def sess_inv_def)
  moreover have "int (length (strlcpy cmd GCDSP_LINE_MAX)) < GCDSP_LINE_MAX" by (simp add: gcds_strlcpy_pos)
  ultimately show ?thesis
    using assms Some by (auto simp: sess_runa_def Let_def sess_inv_def job_wf_def res_wf_def)
qed

lemma session_line_inv:
  assumes "sess_inv B st" and "outcome (session_line B S T G ls line st) = Some st'"
  shows "sess_inv B st'"
proof -
  obtain l arg where sc: "split_cmd (sess_line_in T B line) = (l, arg)" by (metis surj_pair)
  show ?thesis
  proof (cases "s_authed st")
    case False
    obtain b c where h: "handle_auth G (s_chan st) l arg = (b, c)" by (metis surj_pair)
    with False assms sc show ?thesis by (auto simp: session_line_def Let_def sess_inv_def split: if_splits)
  next
    case True
    have "same_ctl st (st\<lparr>s_chan := c\<rparr>)" for c by (simp add: same_ctl_def)
    with True assms sc show ?thesis
      by (auto simp: session_line_def split: if_splits dest: sess_env_inv sess_runa_inv
          dest!: commands_same reply_same intro: same_inv)
  qed
qed

lemma sess_step_inv: "sess_step B S T G ls st st' \<Longrightarrow> sess_inv B st \<Longrightarrow> sess_inv B st'"
proof (elim sess_stepE)
  fix line c x
  assume "sess_inv B st"
  then have "sess_inv B (st\<lparr>s_chan := c\<rparr>)" by (simp add: sess_inv_def)
  from session_line_inv [OF this, of S T G ls line st']
  show "session_line B S T G ls line (st\<lparr>s_chan := c\<rparr>) = Continue st' \<Longrightarrow> sess_inv B st'"
    "session_line B S T G ls line (st\<lparr>s_chan := c\<rparr>) = Return st' \<Longrightarrow> sess_inv B st'" by simp_all
qed

lemma sess_steps_inv: "(sess_step B S T G ls)\<^sup>*\<^sup>* st st' \<Longrightarrow> sess_inv B st \<Longrightarrow> sess_inv B st'"
  by (induction rule: rtranclp_induct) (auto intro: sess_step_inv)

text \<open>What the loop does is a sequence of such steps, up to the channel.\<close>

lemma session_loop_steps:
  "session_loop B S T G ls st = Some st' \<Longrightarrow>
     \<exists>st1 c. (sess_step B S T G ls)\<^sup>*\<^sup>* st st1 \<and> st' = st1\<lparr>s_chan := c\<rparr>"
proof (induction B S T G ls st rule: session_loop.induct)
  case (1 B S T G ls st)
  obtain r raw c1 where g: "lio_get_line (s_chan st) GCDSP_LINE_MAX = (r, raw, c1)" by (metis surj_pair)
  note eq = session_loop.simps [of B S T G ls st, unfolded g prod.case]
  show ?case
  proof (cases "r = LIO_OK")
    case False
    then have "\<exists>c. st' = st\<lparr>s_chan := c\<rparr>" using "1.prems" unfolding eq by (auto split: if_splits)
    then show ?thesis by blast
  next
    case True
    show ?thesis
    proof (cases "session_line B S T G ls (cstr raw) (st\<lparr>s_chan := c1\<rparr>)")
      case (Continue st1)
      have "\<exists>st2 c. (sess_step B S T G ls)\<^sup>*\<^sup>* st1 st2 \<and> st' = st2\<lparr>s_chan := c\<rparr>"
        using "1.IH" [OF g [symmetric] refl _ _ Continue] "1.prems" True Continue unfolding eq by simp
      moreover have "sess_step B S T G ls st st1" by (rule sess_step.go [OF Continue])
      ultimately show ?thesis using converse_rtranclp_into_rtranclp [of "sess_step B S T G ls" st st1] by blast
    next
      case (Return st1)
      then have "st' = st1\<lparr>s_chan := s_chan st1\<rparr>" using "1.prems" True unfolding eq by simp
      moreover have "sess_step B S T G ls st st1" by (rule sess_step.stop [OF Return])
      ultimately show ?thesis by blast
    next
      case Blocked
      then show ?thesis using "1.prems" True unfolding eq by simp
    qed
  qed
qed

section \<open>Before authentication\<close>

text \<open>The first line a session accepts: \<^verbatim>\<open>AUTH\<close> and the token.\<close>

definition opens :: "build \<Rightarrow> txt_ops \<Rightarrow> sess_cfg \<Rightarrow> char list \<Rightarrow> bool" where
  "opens B T G s \<longleftrightarrow> (case line_ref s [] GCDSP_LINE_MAX of (r, l, _) \<Rightarrow>
     r = LIO_OK \<and> split_cmd (sess_line_in T B (cstr l)) = (''AUTH'', Some (g_token G)))"

lemma handle_auth_refuses:
  "(l, arg) \<noteq> (''AUTH'', Some (g_token G)) \<Longrightarrow> fst (handle_auth G c l arg) = False"
  by (auto simp: handle_auth_def)

lemma session_unauth:
  assumes "\<not> opens B T G (chan_in (s_chan st))"
  shows "\<exists>st'. session_run B S T G ls st = Some st' \<and> s_world st' = s_world st \<and> s_res st' = s_res st
    \<and> s_jctr st' = s_jctr st \<and> s_ticks st' = s_ticks st \<and> \<not> pending (s_job st') \<and> \<not> s_authed st'"
proof -
  let ?st = "st\<lparr>s_job := (s_job st)\<lparr>pending := False\<rparr>, s_env := [], s_authed := False\<rparr>"
  obtain r0 c0 where p: "put_greeting B S G (s_world st) (s_chan st) = (r0, c0)" by (metis surj_pair)
  have i: "chan_in c0 = chan_in (s_chan st)" using p by (auto simp: put_greeting_def dest: lio_in)
  obtain r raw c1 where g: "lio_get_line c0 GCDSP_LINE_MAX = (r, raw, c1)" by (metis surj_pair)
  obtain l arg where sc: "split_cmd (sess_line_in T B (cstr raw)) = (l, arg)" by (metis surj_pair)
  have v: "line_ref (chan_in (s_chan st)) [] GCDSP_LINE_MAX = (r, raw, chan_in c1)"
    using lio_get_line_view [OF g] i by simp
  have "\<not> fst (handle_auth G c1 l arg)" if "r = LIO_OK"
    using assms that v sc handle_auth_refuses [of l arg G c1] by (auto simp: opens_def)
  then obtain c2 where a: "r = LIO_OK \<Longrightarrow> handle_auth G c1 l arg = (False, c2)"
    by (metis (full_types) prod.collapse)
  have "\<exists>st'. session_loop B S T G ls (?st\<lparr>s_chan := c0\<rparr>) = Some st' \<and> (\<exists>c. st' = ?st\<lparr>s_chan := c\<rparr>)"
    using a by (cases r) (simp_all add: session_loop.simps [of B S T G ls "?st\<lparr>s_chan := c0\<rparr>"] g session_line_def sc, blast+)
  then show ?thesis using p by (auto simp: session_run_def Let_def)
qed

lemma session_run_inv:
  assumes "session_run B S T G ls st = Some st'" and "0 \<le> s_jctr st" and "s_jctr st \<le> GCDSP_JOB_MAX" and "res_wf (s_res st)"
  shows "sess_inv B st'"
proof -
  let ?st = "st\<lparr>s_job := (s_job st)\<lparr>pending := False\<rparr>, s_env := [], s_authed := False\<rparr>"
  have i: "sess_inv B (?st\<lparr>s_chan := c\<rparr>)" for c
    using assms(2-4) by (simp add: sess_inv_def job_wf_def env_wf_def GCDSP_ENV_MAX_def)
  obtain r0 c0 where p: "put_greeting B S G (s_world st) (s_chan st) = (r0, c0)" by (metis surj_pair)
  show ?thesis
  proof (cases "r0 = LIO_OK")
    case False
    with assms(1) p i [of c0] show ?thesis by (auto simp: session_run_def Let_def)
  next
    case True
    then have "session_loop B S T G ls (?st\<lparr>s_chan := c0\<rparr>) = Some st'"
      using assms(1) p by (simp add: session_run_def Let_def)
    from session_loop_steps [OF this] sess_steps_inv [OF _ i [of c0]] show ?thesis
      by (auto simp: sess_inv_def)
  qed
qed

text \<open>
  C3. Nothing happens before authentication.  When the first line of a connection is not \<^verbatim>\<open>AUTH\<close> with
  the configured token, the session ends: files, directory and environment of the daemon, the stored
  result, the job counter and the executions to come are untouched and no job is scheduled, whatever
  else the peer sends.
\<close>

theorem session_requires_auth:
  assumes "\<not> opens B T G (chan_in (s_chan st))"
  shows "\<exists>st'. session_run B S T G ls st = Some st' \<and> s_world st' = s_world st \<and> s_res st' = s_res st
    \<and> s_jctr st' = s_jctr st \<and> s_ticks st' = s_ticks st \<and> \<not> pending (s_job st') \<and> \<not> s_authed st'"
  using assms by (rule session_unauth)

text \<open>
  C14. What a session leaves behind is well-formed whatever the peer sends: the variable table has
  distinct valid names, at most the configured number of them and values within their limit; the job
  counter stays within its range, the stored result keeps a valid number and code; and a job is scheduled only by an authenticated session, with a number
  in 1..\<^verbatim>\<open>GCDSP_JOB_MAX\<close>, a command that fits its buffer and a well-formed table.
\<close>

theorem session_leaves_invariant:
  assumes "session_run B S T G ls st = Some st'" and "0 \<le> s_jctr st" and "s_jctr st \<le> GCDSP_JOB_MAX" and "res_wf (s_res st)"
  shows "sess_inv B st'"
  using assms by (rule session_run_inv)

section \<open>Variables\<close>

definition env_line :: "string \<times> string \<Rightarrow> string" where
  "env_line x = ''ENV '' @ fst x @ CHR ''='' # snd x"

definition env_sendable :: "string \<times> string \<Rightarrow> bool" where
  "env_sendable x \<longleftrightarrow> env_good (fst x) (snd x) \<and> set (snd x) \<inter> {CR, LF, NUL} = {}"

lemma env_name_chars:
  assumes "env_name_ok n"
  shows "CHR ''='' \<notin> set n \<and> CHR '' '' \<notin> set n \<and> CR \<notin> set n \<and> LF \<notin> set n \<and> NUL \<notin> set n"
  using assms by (auto simp: env_name_ok_def is_name_start_def is_digit_def split: list.splits)

lemma env_line_msg: "env_sendable x \<Longrightarrow> is_msg GCDSP_LINE_MAX (env_line x)"
  using env_name_chars [of "fst x"] by (auto simp: env_sendable_def env_good_def is_msg_def env_line_def)

lemma session_line_env:
  assumes "env_sendable x" and "s_authed st" and "chan_ok (s_chan st)" and "\<not> txt_active T"
    and "env_put B (s_env st) (fst x) (snd x) = Some env"
  obtains c where "session_line B S T G ls (env_line x) st = Continue (st\<lparr>s_env := env, s_chan := c\<rparr>)"
    "chan_out c = chan_out (s_chan st) @ ''OK'' @ [LF]" "chan_ok c" "chan_in c = chan_in (s_chan st)"
proof -
  have "cut (CHR '' '') (env_line x) = Some (''ENV'', fst x @ CHR ''='' # snd x)"
    by (simp add: cut_Some_iff env_line_def)
  moreover have "cut (CHR ''='') (fst x @ CHR ''='' # snd x) = Some (fst x, snd x)"
    using assms(1) env_name_chars by (simp add: env_sendable_def env_good_def)
  ultimately have "session_line B S T G ls (env_line x) st = reply (st\<lparr>s_env := env\<rparr>) ''OK''"
    using assms by (cases x) (simp add: session_line_def split_cmd_def sess_line_in_def sess_env_def env_sendable_def
        env_good_def not_le)
  moreover obtain c where "reply (st\<lparr>s_env := env\<rparr>) ''OK'' = Continue (st\<lparr>s_env := env, s_chan := c\<rparr>)"
    "chan_out c = chan_out (s_chan st) @ ''OK'' @ [LF]" "chan_ok c" "chan_in c = chan_in (s_chan st)"
    by (rule reply_ok [of "st\<lparr>s_env := env\<rparr>" "''OK''"]) (use assms(3) in auto)
  ultimately show thesis using that by simp
qed

lemma session_loop_env:
  assumes "\<forall>x \<in> set xs. env_sendable x" and "s_authed st" and "chan_ok (s_chan st)" and "\<not> txt_active T"
    and "chan_in (s_chan st) = concat (map (\<lambda>x. env_line x @ [LF]) xs) @ rest"
    and "tab.put_all B (s_env st) xs = Some env"
  shows "\<exists>c. session_loop B S T G ls st = session_loop B S T G ls (st\<lparr>s_env := env, s_chan := c\<rparr>)
    \<and> chan_in c = rest \<and> chan_ok c \<and> chan_out c = chan_out (s_chan st) @ concat (replicate (length xs) (''OK'' @ [LF]))"
  using assms(1-3,5,6)
proof (induction xs arbitrary: st)
  case Nil
  then have e: "env = s_env st" by simp
  from Nil show ?case unfolding e by (intro exI [of _ "s_chan st"]) simp
next
  case (Cons x xs)
  then have x: "env_sendable x" by simp
  from Cons.prems obtain env1 where e: "env_put B (s_env st) (fst x) (snd x) = Some env1" "tab.put_all B env1 xs = Some env"
    by (auto split: option.splits)
  from Cons.prems have "chan_in (s_chan st) = env_line x @ LF # (concat (map (\<lambda>x. env_line x @ [LF]) xs) @ rest)"
    by simp
  then obtain c where c: "chan_in c = concat (map (\<lambda>x. env_line x @ [LF]) xs) @ rest" "chan_out c = chan_out (s_chan st)"
    "chan_ok c = chan_ok (s_chan st)"
    "session_loop B S T G ls st = (case session_line B S T G ls (env_line x) (st\<lparr>s_chan := c\<rparr>) of
       Continue st' \<Rightarrow> session_loop B S T G ls st' | Return st' \<Rightarrow> Some st' | Blocked \<Rightarrow> None)"
    by (rule session_loop_line [OF _ env_line_msg [OF x], of st _ B S T G ls])
  obtain c1 where c1: "session_line B S T G ls (env_line x) (st\<lparr>s_chan := c\<rparr>) = Continue (st\<lparr>s_chan := c, s_env := env1, s_chan := c1\<rparr>)"
    "chan_out c1 = chan_out c @ ''OK'' @ [LF]" "chan_ok c1" "chan_in c1 = chan_in c"
    using session_line_env [OF x, of "st\<lparr>s_chan := c\<rparr>" T B env1 S G ls thesis] Cons.prems c(3) assms(4) e(1) by auto
  from Cons.IH [of "st\<lparr>s_env := env1, s_chan := c1\<rparr>"] Cons.prems c c1 e(2) show ?case by auto
qed

text \<open>
  C16. The variables of a session are those of its ENV lines, the last value of a name winning: an
  authenticated session that receives ENV lines with valid names and values within the limits, for at
  most as many names as the table holds, answers OK to each and goes on with a table that maps exactly
  these names to their last values, each stored once, and with the rest of its input.
\<close>

theorem session_env_last_wins:
  assumes "\<forall>x \<in> set xs. env_sendable x" and "s_authed st" and "chan_ok (s_chan st)" and "\<not> txt_active T"
    and "chan_in (s_chan st) = concat (map (\<lambda>x. env_line x @ [LF]) xs) @ rest"
    and "env_wf B (s_env st)" and "card (env_name ` set (s_env st) \<union> fst ` set xs) \<le> nat (GCDSP_ENV_MAX B)"
  shows "\<exists>env c. session_loop B S T G ls st = session_loop B S T G ls (st\<lparr>s_env := env, s_chan := c\<rparr>)
    \<and> env_wf B env \<and> env_look env = env_look (s_env st) ++ map_of (rev xs) \<and> chan_in c = rest
    \<and> chan_out c = chan_out (s_chan st) @ concat (replicate (length xs) (''OK'' @ [LF]))"
proof -
  have "\<forall>x \<in> set xs. env_good (fst x) (snd x)" using assms(1) by (simp add: env_sendable_def)
  from tab.put_all_last_wins [OF assms(6) this] assms(7)
  obtain env where "tab.put_all B (s_env st) xs = Some env" "env_wf B env" "env_look env = env_look (s_env st) ++ map_of (rev xs)"
    by (auto simp: env_dom)
  with session_loop_env [OF assms(1-5)] show ?thesis by blast
qed

section \<open>Examples\<close>

definition sess_dev :: "string \<Rightarrow> dev" where
  "sess_dev s = \<lparr>rx = [s], tx = [], wlim = []\<rparr>"

definition demo_sess :: "bool \<Rightarrow> string \<Rightarrow> sess_state" where
  "demo_sess a s = \<lparr>s_chan = chan_tcp (sess_dev s), s_world = demo_world, s_env = [], s_authed = a,
     s_job = \<lparr>pending = False, jobid = 0, jcmd = [], jenv = []\<rparr>,
     s_res = \<lparr>valid = False, rjobid = 0, rcode = 0\<rparr>, s_jctr = 0, s_ticks = []\<rparr>"

definition token_cfg :: sess_cfg where
  "token_cfg = \<lparr>g_token = ''tok'', g_async = True, g_live = True, g_ix = True, g_allow = [], g_maxout = 0,
     g_outf = ''o'', g_errf = ''e'', g_rof = ''ro'', g_ref = ''re''\<rparr>"

lemma demo_sess_chan:
  "s \<noteq> [] \<Longrightarrow> chan_in (s_chan (demo_sess a s)) = s" "chan_ok (s_chan (demo_sess a s))"
  "chan_out (s_chan (demo_sess a s)) = []"
  by (simp_all add: demo_sess_def chan_in_def chan_out_def chan_ok_def chan_dev_def chan_tcp_def dev_in_def sess_dev_def
      dev_ok_def)

theorem session_requires_auth_witness:
  "\<exists>st'. session_run posix_build demo_os txt_none token_cfg False (demo_sess False (''RUN rm -r /'' @ [LF])) = Some st'
    \<and> s_world st' = demo_world \<and> \<not> pending (s_job st')"
proof -
  have "\<not> opens posix_build txt_none token_cfg (''RUN rm -r /'' @ [LF])" by code_simp
  then show ?thesis
    using session_requires_auth [of posix_build txt_none token_cfg "demo_sess False (''RUN rm -r /'' @ [LF])" demo_os False]
    by (auto simp: demo_sess_chan) (auto simp: demo_sess_def)
qed

definition demo_final :: "sess_state option" where
  "demo_final = session_run posix_build demo_os txt_none token_cfg False
     (demo_sess False (''AUTH tok'' @ [LF] @ ''RUNA make'' @ [LF]))"

lemma demo_final_Some: "map_option (\<lambda>st. jobid (s_job st)) demo_final = Some 1"
  by code_simp

theorem session_leaves_invariant_witness:
  "\<exists>st'. session_run posix_build demo_os txt_none token_cfg False
      (demo_sess False (''AUTH tok'' @ [LF] @ ''RUNA make'' @ [LF])) = Some st' \<and> jobid (s_job st') = 1 \<and> sess_inv posix_build st'"
proof -
  obtain st' where st: "demo_final = Some st'" "jobid (s_job st') = 1" using demo_final_Some by auto
  from session_leaves_invariant [OF st(1) [unfolded demo_final_def]] st show ?thesis
    by (simp add: demo_final_def) (simp add: demo_sess_def res_wf_def)
qed

theorem session_env_last_wins_witness:
  "\<exists>env. env_wf posix_build env \<and> env_look env ''CC'' = Some ''gcc'' \<and>
    (\<exists>c. chan_in c = [] \<and> session_loop posix_build demo_os txt_none token_cfg False
       (demo_sess True (env_line (''CC'', ''cc'') @ [LF] @ env_line (''CC'', ''gcc'') @ [LF]))
     = session_loop posix_build demo_os txt_none token_cfg False
       ((demo_sess True (env_line (''CC'', ''cc'') @ [LF] @ env_line (''CC'', ''gcc'') @ [LF]))\<lparr>s_env := env, s_chan := c\<rparr>))"
proof -
  let ?st = "demo_sess True (env_line (''CC'', ''cc'') @ [LF] @ env_line (''CC'', ''gcc'') @ [LF])"
  have s: "env_sendable (''CC'', ''cc'')" "env_sendable (''CC'', ''gcc'')" by code_simp+
  have e: "s_env ?st = []" "s_authed ?st" by (simp_all add: demo_sess_def)
  have i: "chan_in (s_chan ?st) = concat (map (\<lambda>x. env_line x @ [LF]) [(''CC'', ''cc''), (''CC'', ''gcc'')]) @ []"
    by (subst demo_sess_chan(1)) simp_all
  have m: "\<forall>x \<in> set [(''CC'', ''cc''), (''CC'', ''gcc'')]. env_sendable x" using s by simp
  have w: "env_wf posix_build (s_env ?st)" "\<not> txt_active txt_none"
    "card (env_name ` set (s_env ?st) \<union> fst ` set [(''CC'', ''cc''), (''CC'', ''gcc'')]) \<le> nat (GCDSP_ENV_MAX posix_build)"
    unfolding e(1) by (simp_all add: env_wf_def GCDSP_ENV_MAX_def txt_none_def)
  from session_env_last_wins [OF m e(2) demo_sess_chan(2) w(2) i w(1,3), of demo_os token_cfg False]
  obtain env c where
    "session_loop posix_build demo_os txt_none token_cfg False ?st
      = session_loop posix_build demo_os txt_none token_cfg False (?st\<lparr>s_env := env, s_chan := c\<rparr>)"
    "env_wf posix_build env" "env_look env = env_look [] ++ map_of (rev [(''CC'', ''cc''), (''CC'', ''gcc'')])" "chan_in c = []"
    unfolding e(1) by blast
  then show ?thesis by (intro exI [of _ env] conjI exI [of _ c]) (simp_all add: map_add_def)
qed

end
