(* ===== verification/Filexfer.thy ===== *)
theory Filexfer
  imports Sessprops Xfer
begin

text \<open>
  File transfer end to end: \<^verbatim>\<open>xfer_put\<close> and \<^verbatim>\<open>xfer_get\<close> of the client against the session of the daemon.
  A conversation is stated by what each side receives: the session is given exactly the bytes the
  client sends and the client exactly the bytes the session answers.
\<close>

section \<open>Commands with an argument\<close>

lemma split_cmd_word: "CHR '' '' \<notin> set w \<Longrightarrow> split_cmd (w @ CHR '' '' # a) = (w, Some a)"
  by (simp add: split_cmd_def)

lemma sess_line_in_plain: "\<not> txt_active T \<Longrightarrow> sess_line_in T B l = l"
  by (simp add: sess_line_in_def)

text \<open>What a received line does is decided by its form in the daemon's encoding.\<close>

lemma session_line_word:
  assumes "s_authed st"
  shows "sess_line_in T B l = ''PUT '' @ a \<Longrightarrow> session_line B S T G ls l st = sess_put B S G (Some a) st"
    and "sess_line_in T B l = ''GET '' @ a \<Longrightarrow> session_line B S T G ls l st = sess_get B S (Some a) st"
    and "sess_line_in T B l = ''RUN '' @ a \<Longrightarrow> session_line B S T G ls l st = sess_run B S T G ls (Some a) st"
    and "sess_line_in T B l = ''RUNA '' @ a \<Longrightarrow> session_line B S T G ls l st = sess_runa (Some a) st"
    and "sess_line_in T B l = ''RESULT '' @ a \<Longrightarrow> session_line B S T G ls l st = sess_result B S T G (Some a) st"
  using assms split_cmd_word [of "''PUT''" a] split_cmd_word [of "''GET''" a] split_cmd_word [of "''RUN''" a]
    split_cmd_word [of "''RUNA''" a] split_cmd_word [of "''RESULT''" a]
  by (simp_all add: session_line_def)

text \<open>A remote path that fits its command line.\<close>

definition sendable :: "nat \<Rightarrow> string \<Rightarrow> bool" where
  "sendable n p \<longleftrightarrow> p \<noteq> [] \<and> length p + n < 1024 \<and> set p \<inter> {CR, LF, NUL} = {}"

lemma sendable_msg: "sendable n p \<Longrightarrow> length w \<le> n \<Longrightarrow> set w \<inter> {CR, LF, NUL} = {} \<Longrightarrow> is_msg GCDSP_LINE_MAX (w @ p)"
  by (auto simp: sendable_def is_msg_def)

lemma sendable_line:
  assumes "sendable n p" and "length w \<le> n"
  shows "strlcat (strlcat [] w GCDSP_LINE_MAX) p GCDSP_LINE_MAX = w @ p"
  using assms by (auto simp: sendable_def gcds_strlcat_take)

section \<open>Upload\<close>

lemma msg_OK: "is_msg GCDSP_LINE_MAX ''OK''" "is_msg GCDSP_LINE_MAX ''D 0''" "is_msg 48 ''D 0''"
  by (simp_all add: is_msg_def)

lemma msg_OK_n: "is_msg GCDSP_LINE_MAX (''OK '' @ ld (int n))" if "n < 10 ^ 18"
proof -
  have "length (dec n) \<le> 18" using that by (intro dec_length) simp_all
  then show ?thesis by (auto simp: is_msg_def ld_def)
qed

text \<open>The daemon's loop on a stream of data frames.\<close>

lemma put_loop_frames:
  assumes "chan_in c = frames fs @ ''D 0'' @ LF # rest"
    and "\<forall>f \<in> set fs. frame_wf B f \<and> fst f = CHR ''D''"
    and "\<forall>v p b. os_fwrite_ok S v p b" and "\<forall>v p. os_fclose_ok S v p"
    and "cap > 0 \<longrightarrow> int (length got + length (concat (map snd fs))) \<le> cap" and "chan_ok c"
  shows "\<exists>c' w'. put_loop B S cap path got c w = (True, c', w')
    \<and> chan_in c' = rest \<and> chan_out c' = chan_out c @ ''OK '' @ ld (int (length got + length (concat (map snd fs)))) @ [LF]
    \<and> chan_ok c' \<and> kind c' = kind c \<and> w' = (if fs = [] then w else w_put S w path (got @ concat (map snd fs)))"
  using assms(1,2,5,6)
proof (induction fs arbitrary: c got w)
  case Nil
  then have "chan_in c = ''D 0'' @ LF # rest" by simp
  then obtain c1 where c1: "lio_get_line c 48 = (LIO_OK, ''D 0'', c1)" "chan_in c1 = rest" "chan_out c1 = chan_out c"
    "chan_ok c1 = chan_ok c" "kind c1 = kind c" by (rule lio_get_line_msg [OF _ msg_OK(3)])
  have "chan_ok c1" using c1(4) Nil.prems(4) by simp
  then obtain c2 where c2: "lio_put_line c1 (''OK '' @ ld (int (length got))) = (LIO_OK, c2)"
    "chan_out c2 = chan_out c1 @ (''OK '' @ ld (int (length got))) @ [LF]" "chan_ok c2" "chan_in c2 = chan_in c1"
    "kind c2 = kind c1" by (rule put_line_ok)
  have "atol ''0'' = 0" "cstr ''D 0'' = ''D 0''" by code_simp+
  then have "put_loop B S cap path got c w = (True, c2, w)"
    using c1(1) c2(1) assms(4) by (simp add: put_loop.simps [of B S cap path got c] char_at_def say_def)
  with c1 c2 show ?case by simp
next
  case (Cons f fs)
  obtain t d where f: "f = (t, d)" by (cases f)
  let ?rest = "frames fs @ ''D 0'' @ LF # rest"
  from Cons.prems(2) f have wf: "frame_wf B (t, d)" and t: "t = CHR ''D''" by auto
  have "chan_in c = frame t d @ ?rest" using Cons.prems(1) f by simp
  then obtain c1 l where h: "lio_get_line c 48 = (LIO_OK, l, c1)" "cstr l = l"
    "char_at l 0 = t" "char_at l 1 = CHR '' ''" "atol (drop 2 l) = int (length d)"
    "chan_in c1 = d @ ?rest" "chan_out c1 = chan_out c" "chan_ok c1 = chan_ok c" "kind c1 = kind c"
    using wf t by (auto elim!: frame_hdr_read [where sz = 48])
  obtain c2 where r: "chan_read_n c1 (length d) = (Some d, c2)" "chan_in c2 = ?rest" "chan_out c2 = chan_out c1"
    "chan_ok c2 = chan_ok c1" "kind c2 = kind c1" by (rule chan_read_append [OF h(6)])
  have n: "d \<noteq> []" "\<not> (int (length d) < 0 \<or> int (length d) > GCDSP_FRAME_MAX B)"
    using wf by (simp_all add: frame_wf_def)
  have cap: "\<not> (cap > 0 \<and> int (length got) + int (length d) > cap)" using Cons.prems(3) f by auto
  have st: "put_loop B S cap path got c w = put_loop B S cap path (got @ d) c2 (w_put S w path (got @ d))"
    using h(1-5) t n r(1) assms(3) cap by (auto simp: put_loop.simps [of B S cap path got c] Let_def)
  have "\<exists>c' w'. put_loop B S cap path (got @ d) c2 (w_put S w path (got @ d)) = (True, c', w')
    \<and> chan_in c' = rest \<and> chan_out c' = chan_out c2 @ ''OK '' @ ld (int (length (got @ d) + length (concat (map snd fs)))) @ [LF]
    \<and> chan_ok c' \<and> kind c' = kind c2 \<and> w' = (if fs = [] then w_put S w path (got @ d)
        else w_put S (w_put S w path (got @ d)) path ((got @ d) @ concat (map snd fs)))"
    using Cons.prems(2-4) f r(2,4) h(8) by (intro Cons.IH) auto
  then show ?case using st f h(7-9) r(3-5) by (auto simp: add.assoc)
qed

lemma sess_put_frames:
  assumes "chan_in (s_chan st) = frames fs @ ''D 0'' @ LF # rest" and "chan_ok (s_chan st)"
    and "\<forall>f \<in> set fs. frame_wf B f \<and> fst f = CHR ''D''"
    and "\<forall>v p b. os_fwrite_ok S v p b" and "\<forall>v p. os_fclose_ok S v p" and "os_can_create S (s_world st) p" and "p \<noteq> []"
    and "g_maxout G > 0 \<longrightarrow> int (length (concat (map snd fs))) \<le> g_maxout G"
  shows "\<exists>c. sess_put B S G (Some p) st =
      Continue (st\<lparr>s_chan := c, s_world := w_put S (s_world st) p (concat (map snd fs))\<rparr>)
    \<and> chan_in c = rest \<and> chan_ok c
    \<and> chan_out c = chan_out (s_chan st) @ ''OK'' @ LF # (''OK '' @ ld (int (length (concat (map snd fs))))) @ [LF]"
proof -
  let ?w = "w_put S (s_world st) p []"
  obtain c1 where c1: "lio_put_line (s_chan st) ''OK'' = (LIO_OK, c1)" "chan_out c1 = chan_out (s_chan st) @ ''OK'' @ [LF]"
    "chan_ok c1" "chan_in c1 = chan_in (s_chan st)" by (rule put_line_ok [OF assms(2)])
  have pre: "chan_in c1 = frames fs @ ''D 0'' @ LF # rest" using c1(4) assms(1) by simp
  have cap: "g_maxout G > 0 \<longrightarrow> int (length ([] :: char list) + length (concat (map snd fs))) \<le> g_maxout G" using assms(8) by simp
  obtain c2 w' where c2: "put_loop B S (g_maxout G) p [] c1 ?w = (True, c2, w')" "chan_in c2 = rest"
    "chan_out c2 = chan_out c1 @ ''OK '' @ ld (int (length ([] :: char list) + length (concat (map snd fs)))) @ [LF]" "chan_ok c2"
    "w' = (if fs = [] then ?w else w_put S ?w p ([] @ concat (map snd fs)))"
    using put_loop_frames [OF pre assms(3-5) cap c1(3), of p ?w] by blast
  have w: "w' = w_put S (s_world st) p (concat (map snd fs))" using c2(5) by simp
  have "do_put B S G (s_chan st) (Some p) (s_world st) = (True, c2, w_put S (s_world st) p (concat (map snd fs)))"
    using c1(1) c2(1) assms(6,7) by (simp add: do_put_def w_fopen_wb_def w)
  then have "sess_put B S G (Some p) st = Continue (st\<lparr>s_chan := c2, s_world := w_put S (s_world st) p (concat (map snd fs))\<rparr>)"
    by (simp add: sess_put_def)
  with c2(2-4) c1(2) show ?thesis by (intro exI [of _ c2]) simp
qed

text \<open>What the client sends for a file, and that the replies satisfy it.\<close>

lemma xfer_put_sends:
  assumes "w_read Sc wc lpath = Some d" and "sendable 4 p" and "length d < 10 ^ 18" and "chan_ok (ch rc)"
    and "chan_in (ch rc) = ''OK'' @ LF # (''OK '' @ ld (int (length d))) @ LF # x"
  shows "\<exists>rc' fs. xfer_put Bc Sc wc rc lpath p = (True, rc')
    \<and> chan_out (ch rc') = chan_out (ch rc) @ (''PUT '' @ p) @ LF # frames fs @ ''D 0'' @ [LF]
    \<and> (\<forall>f \<in> set fs. frame_wf B f \<and> fst f = CHR ''D'') \<and> concat (map snd fs) = d \<and> chan_in (ch rc') = x"
proof -
  have l: "strlcat (strlcat [] ''PUT '' GCDSP_LINE_MAX) p GCDSP_LINE_MAX = ''PUT '' @ p"
    using sendable_line [OF assms(2), of "''PUT ''"] by simp
  obtain c1 where c1: "rc_cmd rc (''PUT '' @ p) GCDSP_LINE_MAX = (Some ''OK'', rc\<lparr>ch := c1\<rparr>)"
    "chan_in c1 = (''OK '' @ ld (int (length d))) @ LF # x" "chan_out c1 = chan_out (ch rc) @ (''PUT '' @ p) @ [LF]"
    "chan_ok c1" "kind c1 = kind (ch rc)" by (rule rc_cmd_msg [OF assms(5) msg_OK(1) assms(4)])
  let ?n = "nat (min (chan_chunk c1) (GCDSP_FRAME_MAX Bc))"
  have n: "0 < ?n" "int ?n \<le> GCDSP_FRAME_MAX B" by (auto simp: chan_chunk_def GCDSP_FRAME_MAX_def)
  obtain c2 fs where c2: "put_frames ?n d c1 = (True, c2)" "chan_out c2 = chan_out c1 @ frames fs"
    "\<forall>f \<in> set fs. frame_wf B f \<and> fst f = CHR ''D''" "concat (map snd fs) = d" "chan_ok c2" "chan_in c2 = chan_in c1"
    using put_frames_out [OF n c1(4), of d] by blast
  obtain c3 where c3: "lio_put_line c2 ''D 0'' = (LIO_OK, c3)" "chan_out c3 = chan_out c2 @ ''D 0'' @ [LF]"
    "chan_ok c3" "chan_in c3 = chan_in c2" by (rule put_line_ok [OF c2(5)])
  have "chan_in (ch (rc\<lparr>ch := c3\<rparr>)) = (''OK '' @ ld (int (length d))) @ LF # x" using c3(4) c2(6) c1(2) by simp
  then obtain c4 where c4: "rc_get_reply (rc\<lparr>ch := c3\<rparr>) GCDSP_LINE_MAX = (Some (''OK '' @ ld (int (length d))), rc\<lparr>ch := c3, ch := c4\<rparr>)"
    "chan_in c4 = x" "chan_out c4 = chan_out (ch (rc\<lparr>ch := c3\<rparr>))"
    by (rule rc_get_reply_msg [OF _ msg_OK_n [OF assms(3)]])
  have "xfer_put Bc Sc wc rc lpath p = (True, rc\<lparr>ch := c4\<rparr>)"
    unfolding xfer_put_def l assms(1) using c1(1) c2(1) c3(1) c4(1) by simp
  with c1(3) c2(2-4) c3(2) c4(2,3) show ?thesis by (intro exI [of _ "rc\<lparr>ch := c4\<rparr>"] exI [of _ fs]) simp
qed

text \<open>The daemon's conditions for a transfer: an authenticated session whose file system takes every write.\<close>

definition ready :: "os \<Rightarrow> sess_state \<Rightarrow> bool" where
  "ready S st \<longleftrightarrow> s_authed st \<and> chan_ok (s_chan st)
     \<and> (\<forall>v p b. os_fwrite_ok S v p b) \<and> (\<forall>v p. os_fclose_ok S v p)"

text \<open>
  C6. A file uploaded with PUT arrives unchanged.  For any file within the daemon's size limit, the
  client reports success when it receives the answers the daemon gives, and the daemon, receiving the
  bytes the client sends, stores exactly the file under the remote path, gives exactly these answers,
  and goes on with the next command of the session.  This holds under every text conversion: it applies to the
  path (\<open>lp\<close> is the path in the daemon's encoding), not to the data.
\<close>

theorem put_round_trip:
  assumes "w_read Sc wc lpath = Some d" and "sendable 4 p" and "length d < 10 ^ 18" and "chan_ok (ch rc)"
    and "chan_in (ch rc) = ''OK'' @ LF # (''OK '' @ ld (int (length d))) @ LF # x"
    and "ready S st" and "os_can_create S (s_world st) lp"
    and "g_maxout G > 0 \<longrightarrow> int (length d) \<le> g_maxout G"
    and "sess_line_in T B (''PUT '' @ p) = ''PUT '' @ lp" and "lp \<noteq> []"
    and "chan_in (s_chan st) = drop (length (chan_out (ch rc))) (chan_out (ch (snd (xfer_put Bc Sc wc rc lpath p)))) @ rest"
  shows "fst (xfer_put Bc Sc wc rc lpath p) \<and> (\<exists>c. session_loop B S T G ls st =
      session_loop B S T G ls (st\<lparr>s_chan := c, s_world := w_put S (s_world st) lp d\<rparr>)
    \<and> chan_in c = rest
    \<and> chan_out c = chan_out (s_chan st) @ ''OK'' @ LF # (''OK '' @ ld (int (length d))) @ [LF])"
proof -
  obtain rc' fs where x: "xfer_put Bc Sc wc rc lpath p = (True, rc')"
    "chan_out (ch rc') = chan_out (ch rc) @ (''PUT '' @ p) @ LF # frames fs @ ''D 0'' @ [LF]"
    "\<forall>f \<in> set fs. frame_wf B f \<and> fst f = CHR ''D''" "concat (map snd fs) = d"
    using xfer_put_sends [OF assms(1-5), of Bc B] by blast
  have i: "chan_in (s_chan st) = (''PUT '' @ p) @ LF # (frames fs @ ''D 0'' @ LF # rest)" using assms(11) x(1,2) by simp
  have m: "is_msg GCDSP_LINE_MAX (''PUT '' @ p)" by (rule sendable_msg [OF assms(2)]) simp_all
  obtain c1 where c1: "chan_in c1 = frames fs @ ''D 0'' @ LF # rest" "chan_out c1 = chan_out (s_chan st)"
    "chan_ok c1 = chan_ok (s_chan st)"
    "session_loop B S T G ls st = (case session_line B S T G ls (''PUT '' @ p) (st\<lparr>s_chan := c1\<rparr>) of
       Continue st' \<Rightarrow> session_loop B S T G ls st' | Return st' \<Rightarrow> Some st' | Blocked \<Rightarrow> None)"
    by (rule session_loop_line [OF i m])
  let ?st = "st\<lparr>s_chan := c1\<rparr>"
  have r: "s_authed ?st" "chan_ok (s_chan ?st)" "\<forall>v p b. os_fwrite_ok S v p b" "\<forall>v p. os_fclose_ok S v p"
    using assms(6) c1(3) by (simp_all add: ready_def)
  have p: "os_can_create S (s_world ?st) lp" "lp \<noteq> []" "chan_in (s_chan ?st) = frames fs @ ''D 0'' @ LF # rest"
    "g_maxout G > 0 \<longrightarrow> int (length (concat (map snd fs))) \<le> g_maxout G"
    using assms(7-10) c1(1) x(4) by simp_all
  from sess_put_frames [OF p(3) r(2) x(3) r(3,4) p(1,2,4)] obtain c where
    "sess_put B S G (Some lp) ?st = Continue (?st\<lparr>s_chan := c, s_world := w_put S (s_world st) lp d\<rparr>)"
    "chan_in c = rest" "chan_out c = chan_out (s_chan st) @ ''OK'' @ LF # (''OK '' @ ld (int (length d))) @ [LF]"
    unfolding x(4) c1(2) [symmetric] by auto
  with c1(4) session_line_word(1) [OF r(1) assms(9)] x(1) show ?thesis by (auto simp: fun_eq_iff)
qed

section \<open>Download\<close>

text \<open>The client is never the small-buffer build.\<close>

lemma frame_wf_client: "frame_wf B f \<Longrightarrow> \<not> GCDS_DOS Bc \<Longrightarrow> frame_wf Bc f"
  using FRAME_MAX_bounds(2) [of B] by (auto simp: frame_wf_def GCDSP_FRAME_MAX_def [of Bc])

lemma sess_get_frames:
  assumes "chan_ok (s_chan st)" and "p \<noteq> []" and "w_read S (s_world st) p = Some d"
  shows "\<exists>c fs. sess_get B S (Some p) st = Continue (st\<lparr>s_chan := c\<rparr>) \<and> chan_in c = chan_in (s_chan st)
    \<and> chan_out c = chan_out (s_chan st) @ ''OK'' @ LF # frames fs @ ''D 0'' @ [LF]
    \<and> (\<forall>f \<in> set fs. frame_wf B f \<and> fst f = CHR ''D'') \<and> concat (map snd fs) = d"
proof -
  obtain c1 where c1: "lio_put_line (s_chan st) ''OK'' = (LIO_OK, c1)" "chan_out c1 = chan_out (s_chan st) @ ''OK'' @ [LF]"
    "chan_ok c1" "chan_in c1 = chan_in (s_chan st)" by (rule put_line_ok [OF assms(1)])
  obtain c2 fs where c2: "get_loop B (nat (chan_chunk c1)) d c1 = (True, c2)"
    "chan_out c2 = chan_out c1 @ frames fs @ ''D 0'' @ [LF]" "\<forall>f \<in> set fs. frame_wf B f \<and> fst f = CHR ''D''"
    "concat (map snd fs) = d" "chan_in c2 = chan_in c1"
    using get_loop_frames [OF chan_chunk_bounds(1) [of c1] chan_chunk_bounds(2) [of c1 B] c1(3), of d] by blast
  have "do_get B S (s_world st) (s_chan st) (Some p) = (True, c2)"
    using c1(1) c2(1) assms(2,3) by (simp add: do_get_def)
  then have "sess_get B S (Some p) st = Continue (st\<lparr>s_chan := c2\<rparr>)" by (simp add: sess_get_def)
  with c1(2,4) c2(2-5) show ?thesis by (intro exI [of _ c2] exI [of _ fs]) simp
qed

lemma xfer_get_stores:
  assumes "sendable 4 p" and "chan_ok (ch rc)" and "chan_in (ch rc) = ''OK'' @ LF # frames fs @ ''D 0'' @ LF # x"
    and "\<forall>f \<in> set fs. frame_wf Bc f \<and> fst f = CHR ''D''"
    and "\<forall>v p b. os_fwrite_ok Sc v p b" and "\<forall>v p. os_fclose_ok Sc v p" and "os_can_create Sc wc lpath"
  shows "\<exists>rc'. xfer_get Bc Sc wc rc p lpath = (True, rc', w_put Sc wc lpath (concat (map snd fs)))
    \<and> chan_out (ch rc') = chan_out (ch rc) @ (''GET '' @ p) @ [LF] \<and> chan_in (ch rc') = x"
proof -
  have l: "strlcat (strlcat [] ''GET '' GCDSP_LINE_MAX) p GCDSP_LINE_MAX = ''GET '' @ p"
    using sendable_line [OF assms(1), of "''GET ''"] by simp
  obtain c1 where c1: "rc_cmd rc (''GET '' @ p) GCDSP_LINE_MAX = (Some ''OK'', rc\<lparr>ch := c1\<rparr>)"
    "chan_in c1 = frames fs @ ''D 0'' @ LF # x" "chan_out c1 = chan_out (ch rc) @ (''GET '' @ p) @ [LF]"
    by (rule rc_cmd_msg [OF assms(3) msg_OK(1) assms(2)])
  let ?w = "w_put Sc wc lpath []"
  from c1(2) have i: "chan_in (ch (rc\<lparr>ch := c1\<rparr>)) = frames fs @ ''D 0'' @ LF # x" by simp
  obtain rc' w' where g: "get_frames Bc Sc lpath [] (rc\<lparr>ch := c1\<rparr>) ?w = (True, rc', w')" "chan_in (ch rc') = x"
    "chan_out (ch rc') = chan_out (ch (rc\<lparr>ch := c1\<rparr>))" "w' = (if fs = [] then ?w else w_put Sc ?w lpath ([] @ concat (map snd fs)))"
    using get_frames_in [OF i assms(4-6), of ?w lpath "[]"] by auto
  have "w' = w_put Sc wc lpath (concat (map snd fs))" using g(4) by simp
  moreover have "xfer_get Bc Sc wc rc p lpath = (True, rc', w')"
    unfolding xfer_get_def l using c1(1) g(1) assms(7) by (simp add: w_fopen_wb_def)
  ultimately show ?thesis using c1(3) g(2,3) by simp
qed

text \<open>
  C7. A file downloaded with GET arrives unchanged: the session answers with OK and the file as data
  frames and goes on with its next command, and a client that receives this answer, after asking for the
  file, reports success and has stored exactly the remote file's bytes locally, whatever the text conversion;
  \<open>lp\<close> is the path in the daemon's encoding.
\<close>

theorem get_round_trip:
  assumes "ready S st" and "w_read S (s_world st) lp = Some d" and "sendable 4 p"
    and "chan_in (s_chan st) = (''GET '' @ p) @ LF # rest"
    and "sess_line_in T B (''GET '' @ p) = ''GET '' @ lp" and "lp \<noteq> []"
    and "\<not> GCDS_DOS Bc" and "\<forall>v p b. os_fwrite_ok Sc v p b" and "\<forall>v p. os_fclose_ok Sc v p" and "os_can_create Sc wc lpath"
  shows "\<exists>c answer. session_loop B S T G ls st = session_loop B S T G ls (st\<lparr>s_chan := c\<rparr>)
    \<and> chan_in c = rest \<and> chan_out c = chan_out (s_chan st) @ answer
    \<and> (\<forall>rc x. chan_ok (ch rc) \<and> chan_in (ch rc) = answer @ x \<longrightarrow>
         (\<exists>rc'. xfer_get Bc Sc wc rc p lpath = (True, rc', w_put Sc wc lpath d)
            \<and> chan_out (ch rc') = chan_out (ch rc) @ (''GET '' @ p) @ [LF] \<and> chan_in (ch rc') = x))"
proof -
  have m: "is_msg GCDSP_LINE_MAX (''GET '' @ p)" by (rule sendable_msg [OF assms(3)]) simp_all
  obtain c1 where c1: "chan_in c1 = rest" "chan_out c1 = chan_out (s_chan st)" "chan_ok c1 = chan_ok (s_chan st)"
    "session_loop B S T G ls st = (case session_line B S T G ls (''GET '' @ p) (st\<lparr>s_chan := c1\<rparr>) of
       Continue st' \<Rightarrow> session_loop B S T G ls st' | Return st' \<Rightarrow> Some st' | Blocked \<Rightarrow> None)"
    by (rule session_loop_line [OF assms(4) m])
  have r: "s_authed (st\<lparr>s_chan := c1\<rparr>)" "chan_ok (s_chan (st\<lparr>s_chan := c1\<rparr>))" "lp \<noteq> []"
    "w_read S (s_world (st\<lparr>s_chan := c1\<rparr>)) lp = Some d"
    using assms(1,2,6) c1(3) by (simp_all add: ready_def)
  obtain c fs where c: "sess_get B S (Some lp) (st\<lparr>s_chan := c1\<rparr>) = Continue (st\<lparr>s_chan := c\<rparr>)" "chan_in c = rest"
    "chan_out c = chan_out (s_chan st) @ ''OK'' @ LF # frames fs @ ''D 0'' @ [LF]"
    "\<forall>f \<in> set fs. frame_wf B f \<and> fst f = CHR ''D''" "concat (map snd fs) = d"
    using sess_get_frames [OF r(2-4), of B] c1(1,2) by auto
  have "session_loop B S T G ls st = session_loop B S T G ls (st\<lparr>s_chan := c\<rparr>)"
    using c1(4) session_line_word(2) [OF r(1) assms(5)] c(1) by simp
  moreover have wf: "\<forall>f \<in> set fs. frame_wf Bc f \<and> fst f = CHR ''D''" using c(4) frame_wf_client [OF _ assms(7)] by blast
  have "\<exists>rc'. xfer_get Bc Sc wc rc p lpath = (True, rc', w_put Sc wc lpath d)
      \<and> chan_out (ch rc') = chan_out (ch rc) @ (''GET '' @ p) @ [LF] \<and> chan_in (ch rc') = x"
    if "chan_ok (ch rc)" and "chan_in (ch rc) = (''OK'' @ LF # frames fs @ ''D 0'' @ [LF]) @ x" for rc x
    using xfer_get_stores [OF assms(3) that(1) _ wf assms(8-10), of x] that(2) c(5) by simp
  ultimately show ?thesis
    using c(2,3) by (intro exI [of _ c] exI [of _ "''OK'' @ LF # frames fs @ ''D 0'' @ [LF]"]) blast
qed

section \<open>An upload over the limit\<close>

lemma put_frames_two:
  assumes "chan_ok c" and "length a = 1024" and "q \<noteq> []" and "length q \<le> 1024"
  shows "\<exists>c'. put_frames 1024 (a @ q) c = (True, c') \<and> chan_out c' = chan_out c @ frames [(CHR ''D'', a), (CHR ''D'', q)]"
proof -
  have one: "\<exists>c'. put_frames 1024 (b @ r) e = put_frames 1024 r c' \<and> chan_out c' = chan_out e @ frame (CHR ''D'') b \<and> chan_ok c'"
    if h: "chan_ok e" "b \<noteq> []" "take 1024 (b @ r) = b" "drop 1024 (b @ r) = r" for b r e
  proof -
    obtain c1 where w1: "chan_write_all e (frame_hdr (CHR ''D'') (int (length b))) = (True, c1)"
      "chan_out c1 = chan_out e @ frame_hdr (CHR ''D'') (int (length b))" "chan_ok c1" by (rule chan_write_ok [OF h(1)])
    obtain c2 where w2: "chan_write_all c1 b = (True, c2)" "chan_out c2 = chan_out c1 @ b" "chan_ok c2"
      by (rule chan_write_ok [OF w1(3)])
    have "put_frames 1024 (b @ r) e = put_frames 1024 r c2"
      unfolding put_frames.simps [of 1024 "b @ r"] h(3,4) Let_def using h(2) w1(1) w2(1) by simp
    with w1(2) w2(2,3) show ?thesis by (auto simp: frame_def)
  qed
  obtain c1 where 1: "put_frames 1024 (a @ q) c = put_frames 1024 q c1" "chan_out c1 = chan_out c @ frame (CHR ''D'') a" "chan_ok c1"
    using one [OF assms(1), of a q] assms(2) by force
  obtain c2 where "put_frames 1024 q c1 = put_frames 1024 [] c2" "chan_out c2 = chan_out c1 @ frame (CHR ''D'') q"
    using one [OF 1(3), of q "[]"] assms(3,4) by auto
  with 1 show ?thesis by (intro exI [of _ c2]) (simp add: put_frames.simps [of 1024 "[]"])
qed

lemma sess_put_over:
  assumes "chan_in (s_chan st) = frame (CHR ''D'') a @ rest" and "frame_wf B (CHR ''D'', a)" and "chan_ok (s_chan st)"
    and "os_can_create S (s_world st) p" and "p \<noteq> []" and "0 < g_maxout G" and "g_maxout G < int (length a)"
  shows "\<exists>c w. sess_put B S G (Some p) st = Continue (st\<lparr>s_chan := c, s_world := w\<rparr>) \<and> chan_in c = rest \<and> chan_ok c"
proof -
  obtain c1 where c1: "lio_put_line (s_chan st) ''OK'' = (LIO_OK, c1)" "chan_ok c1" "chan_in c1 = chan_in (s_chan st)"
    by (rule put_line_ok [OF assms(3)])
  have "chan_in c1 = frame (CHR ''D'') a @ rest" using c1(3) assms(1) by simp
  then obtain c2 l where h: "lio_get_line c1 48 = (LIO_OK, l, c2)" "cstr l = l" "char_at l 0 = CHR ''D''"
    "char_at l 1 = CHR '' ''" "atol (drop 2 l) = int (length a)" "chan_in c2 = a @ rest" "chan_ok c2 = chan_ok c1"
    using assms(2) by (auto elim!: frame_hdr_read [where sz = 48])
  obtain c3 where r: "chan_read_n c2 (length a) = (Some a, c3)" "chan_in c3 = rest" "chan_ok c3 = chan_ok c2"
    by (rule chan_read_append [OF h(6)])
  have "chan_ok c3" using r(3) h(7) c1(2) by simp
  then obtain c4 where c4: "lio_put_line c3 ''ERR 413 too large'' = (LIO_OK, c4)" "chan_ok c4" "chan_in c4 = chan_in c3"
    by (rule put_line_ok)
  have n: "a \<noteq> []" "\<not> GCDSP_FRAME_MAX B < int (length a)" using assms(2) by (simp_all add: frame_wf_def)
  have "put_loop B S (g_maxout G) p [] c1 (w_put S (s_world st) p []) = (True, c4, w_unlink S (w_put S (s_world st) p []) p)"
    unfolding put_loop.simps [of B S "g_maxout G" p "[]" c1] h(1) prod.case Let_def h(2) h(5)
    using h(3,4) n assms(6,7) r(1) c4(1) by (simp add: say_def)
  then have "sess_put B S G (Some p) st
      = Continue (st\<lparr>s_chan := c4, s_world := w_unlink S (w_put S (s_world st) p []) p\<rparr>)"
    using c1(1) assms(4,5) by (simp add: sess_put_def do_put_def w_fopen_wb_def)
  with c4 r(2) show ?thesis by (intro exI [of _ c4] exI) simp
qed

lemma session_line_D:
  assumes "s_authed st" and "\<not> txt_active T" and "chan_ok (s_chan st)"
  obtains c where "session_line B S T G ls (''D '' @ n) st = Continue (st\<lparr>s_chan := c\<rparr>)" "chan_ok c" "chan_in c = chan_in (s_chan st)"
proof -
  have "session_line B S T G ls (''D '' @ n) st = reply st ''ERR 500 unknown command''"
    using assms(1,2) split_cmd_word [of "''D''" n] by (simp add: session_line_def sess_line_in_plain)
  with reply_ok [OF assms(3), of "''ERR 500 unknown command''" thesis] that show thesis by simp
qed

text \<open>
  C35. An upload over the size limit makes the daemon execute the file.  The client streams all of its
  file before it looks at the answer; the daemon answers \<^verbatim>\<open>ERR 413\<close> after the first data frame over the
  limit and goes back to reading commands, so that the remaining frames are read as command lines: for a
  file whose second kilobyte starts with a line \<^verbatim>\<open>RUNA cmd\<close>, the session schedules \<open>cmd\<close> as a job.
\<close>

theorem put_over_limit_runs_file:
  assumes "ready S st" and "os_can_create S (s_world st) p" and "sendable 4 p" and "sendable 5 cmd"
    and "length a = 1024" and "0 < g_maxout G" and "g_maxout G < 1024" and "chan_ok c" and "\<not> GCDS_DOS B"
    and "chan_in (s_chan st) = (''PUT '' @ p) @ LF #
      drop (length (chan_out c)) (chan_out (snd (put_frames 1024 (a @ ''RUNA '' @ cmd @ [LF]) c))) @ ''D 0'' @ [LF]" and "\<not> txt_active T"
  shows "\<exists>st'. session_loop B S T G ls st = Some st' \<and> pending (s_job st') \<and> jcmd (s_job st') = cmd"
proof -
  let ?q = "''RUNA '' @ cmd @ [LF]"
  let ?rest = "(''RUNA '' @ cmd) @ LF # ''D 0'' @ [LF]" and ?h = "''D '' @ ld (int (length ?q))"
  have q: "?q \<noteq> []" "length ?q \<le> 1024" using assms(4) by (auto simp: sendable_def)
  from put_frames_two [OF assms(8,5) q]
  have i: "chan_in (s_chan st) = (''PUT '' @ p) @ LF # frame (CHR ''D'') a @ ?h @ LF # ?rest"
    using assms(10) by (auto simp: frame_eq)
  have m: "is_msg GCDSP_LINE_MAX (''PUT '' @ p)" "is_msg GCDSP_LINE_MAX (''RUNA '' @ cmd)"
    by (rule sendable_msg [OF assms(3)] sendable_msg [OF assms(4)]; simp)+
  have mh: "is_msg GCDSP_LINE_MAX ?h" using is_msg_hdr [of "length ?q" GCDSP_LINE_MAX "CHR ''D''"] q(2) by simp
  obtain c1 where c1: "chan_in c1 = frame (CHR ''D'') a @ ?h @ LF # ?rest" "chan_ok c1 = chan_ok (s_chan st)"
    "session_loop B S T G ls st = (case session_line B S T G ls (''PUT '' @ p) (st\<lparr>s_chan := c1\<rparr>) of
       Continue st' \<Rightarrow> session_loop B S T G ls st' | Return st' \<Rightarrow> Some st' | Blocked \<Rightarrow> None)"
    by (rule session_loop_line [OF i m(1)])
  have r: "s_authed (st\<lparr>s_chan := x\<rparr>)" "\<not> txt_active T" "chan_ok (s_chan st)" for x using assms(1,11) by (simp_all add: ready_def)
  note plain = sess_line_in_plain [OF r(2), of B]
  have wf: "frame_wf B (CHR ''D'', a)" using assms(5,9) by (auto simp: frame_wf_def GCDSP_FRAME_MAX_def)
  obtain c2 w where p: "sess_put B S G (Some p) (st\<lparr>s_chan := c1\<rparr>) = Continue (st\<lparr>s_chan := c1, s_chan := c2, s_world := w\<rparr>)"
    "chan_in c2 = ?h @ LF # ?rest" "chan_ok c2"
    using sess_put_over [of "st\<lparr>s_chan := c1\<rparr>" a _ B S p G] c1(1,2) r(3) wf assms(2,3,5-7) by (auto simp: sendable_def)
  let ?st = "st\<lparr>s_chan := c2, s_world := w\<rparr>"
  have l1: "session_loop B S T G ls st = session_loop B S T G ls ?st" using c1(3) session_line_word(1) [OF r(1) plain] p(1) by simp
  obtain c3 where c3: "chan_in c3 = ?rest" "chan_ok c3 = chan_ok (s_chan ?st)"
    "session_loop B S T G ls ?st = (case session_line B S T G ls ?h (?st\<lparr>s_chan := c3\<rparr>) of
       Continue st' \<Rightarrow> session_loop B S T G ls st' | Return st' \<Rightarrow> Some st' | Blocked \<Rightarrow> None)"
    by (rule session_loop_line [OF _ mh, of ?st ?rest]) (use p(2) in auto)
  obtain c4 where c4: "session_line B S T G ls ?h (?st\<lparr>s_chan := c3\<rparr>) = Continue (?st\<lparr>s_chan := c3, s_chan := c4\<rparr>)"
    "chan_in c4 = chan_in c3"
    by (rule session_line_D [of "?st\<lparr>s_chan := c3\<rparr>" T B S G ls "ld (int (length ?q))"]) (use r c3(2) p(3) in auto)
  let ?st2 = "?st\<lparr>s_chan := c4\<rparr>"
  obtain c5 where c5: "session_loop B S T G ls ?st2 = (case session_line B S T G ls (''RUNA '' @ cmd) (?st2\<lparr>s_chan := c5\<rparr>) of
       Continue st' \<Rightarrow> session_loop B S T G ls st' | Return st' \<Rightarrow> Some st' | Blocked \<Rightarrow> None)"
    by (rule session_loop_line [OF _ m(2), of ?st2 "''D 0'' @ [LF]"]) (use c4(2) c3(1) in auto)
  have "session_line B S T G ls (''RUNA '' @ cmd) (?st2\<lparr>s_chan := c5\<rparr>) = sess_runa (Some cmd) (?st2\<lparr>s_chan := c5\<rparr>)"
    using r by (intro session_line_word(4) [OF _ plain]) simp
  moreover have "strlcpy cmd GCDSP_LINE_MAX = cmd" using assms(4) by (simp add: gcds_strlcpy_pos sendable_def)
  ultimately show ?thesis using l1 c3(3) c4(1) c5 by (simp add: sess_runa_def Let_def)
qed

section \<open>Examples\<close>

definition demo_rc :: "string \<Rightarrow> gcds_rc" where
  "demo_rc s = \<lparr>ch = chan_tcp (sess_dev s), is_open = True, cap_async = False, cap_ix = False, cap_live = False,
     ostag = [], rhost = []\<rparr>"

definition demo_files :: world where
  "demo_files = w_put demo_os demo_world ''a.c'' ''int x;''"

lemma demo_rc_chan:
  "s \<noteq> [] \<Longrightarrow> chan_in (ch (demo_rc s)) = s" "chan_ok (ch (demo_rc s))" "chan_out (ch (demo_rc s)) = []"
  by (simp_all add: demo_rc_def chan_in_def chan_out_def chan_ok_def chan_dev_def chan_tcp_def dev_in_def sess_dev_def
      dev_ok_def)

lemma demo_ready: "ready demo_os (demo_sess True s)" "sess_line_in txt_none B l = l" "\<not> txt_active txt_none"
  using demo_sess_chan(2) by (simp_all add: ready_def txt_none_def demo_os_def demo_sess_def sess_line_in_def)

lemma demo_sendable: "sendable 4 ''b.c''" "sendable 5 ''reboot''"
  by (simp_all add: sendable_def)

lemma demo_create: "os_can_create demo_os w p" "\<forall>v p b. os_fwrite_ok demo_os v p b" "\<forall>v p. os_fclose_ok demo_os v p"
  by (simp_all add: demo_os_def)

definition demo_put :: string where
  "demo_put = chan_out (ch (snd (xfer_put posix_build demo_os demo_files (demo_rc (''OK'' @ LF # ''OK 6'' @ [LF])) ''a.c'' ''b.c'')))"

theorem put_round_trip_witness:
  "fst (xfer_put posix_build demo_os demo_files (demo_rc (''OK'' @ LF # ''OK 6'' @ [LF])) ''a.c'' ''b.c'')
   \<and> (\<exists>c. session_loop posix_build demo_os txt_none token_cfg False (demo_sess True demo_put)
     = session_loop posix_build demo_os txt_none token_cfg False
        ((demo_sess True demo_put)\<lparr>s_chan := c, s_world := w_put demo_os demo_world ''b.c'' ''int x;''\<rparr>) \<and> chan_in c = [])"
proof -
  have r: "w_read demo_os demo_files ''a.c'' = Some ''int x;''" by (simp add: demo_files_def)
  have l: "length ''int x;'' < 10 ^ 18" "ld (int (length ''int x;'')) = ''6''" by (simp, code_simp)
  have i: "chan_in (ch (demo_rc (''OK'' @ LF # ''OK 6'' @ [LF]))) = ''OK'' @ LF # (''OK '' @ ld (int (length ''int x;''))) @ LF # []"
    unfolding l(2) by (subst demo_rc_chan(1)) simp_all
  have "demo_put \<noteq> []" by code_simp
  then have c: "chan_in (s_chan (demo_sess True demo_put)) = drop (length (chan_out (ch (demo_rc (''OK'' @ LF # ''OK 6'' @ [LF])))))
      (chan_out (ch (snd (xfer_put posix_build demo_os demo_files (demo_rc (''OK'' @ LF # ''OK 6'' @ [LF])) ''a.c'' ''b.c'')))) @ []"
    by (simp add: demo_sess_chan(1) demo_rc_chan(3) demo_put_def)
  have g: "g_maxout token_cfg > 0 \<longrightarrow> int (length ''int x;'') \<le> g_maxout token_cfg" by (simp add: token_cfg_def)
  have w: "s_world (demo_sess True demo_put) = demo_world" by (simp add: demo_sess_def)
  show ?thesis
    using put_round_trip [OF r demo_sendable(1) l(1) demo_rc_chan(2) i demo_ready(1) demo_create(1) g demo_ready(2) _ c, where B = posix_build and ls = False, unfolded w]
    by blast
qed

definition demo_get :: sess_state where
  "demo_get = (demo_sess True (''GET a.c'' @ [LF]))\<lparr>s_world := demo_files\<rparr>"

theorem get_round_trip_witness:
  "\<exists>c answer. session_loop posix_build demo_os txt_none token_cfg False demo_get
      = session_loop posix_build demo_os txt_none token_cfg False (demo_get\<lparr>s_chan := c\<rparr>)
    \<and> chan_out c = answer
    \<and> (answer \<noteq> [] \<longrightarrow> fst (xfer_get posix_build demo_os demo_world (demo_rc answer) ''a.c'' ''copy''))"
proof -
  have r: "ready demo_os demo_get" using demo_ready(1) by (simp add: ready_def demo_get_def)
  have w: "w_read demo_os (s_world demo_get) ''a.c'' = Some ''int x;''" by (simp add: demo_files_def demo_get_def)
  have i: "chan_in (s_chan demo_get) = (''GET '' @ ''a.c'') @ LF # []" by (simp add: demo_sess_chan(1) demo_get_def)
  have o: "chan_out (s_chan demo_get) = []" "sendable 4 ''a.c''" "\<not> GCDS_DOS posix_build"
    by (simp_all add: demo_sess_chan(3) demo_get_def sendable_def posix_build_def)
  from get_round_trip [OF r w o(2) i demo_ready(2) _ o(3) demo_create(2,3,1), where B = posix_build and G = token_cfg
      and ls = False and wc = demo_world and lpath = "''copy''"]
  obtain c answer where c: "session_loop posix_build demo_os txt_none token_cfg False demo_get
      = session_loop posix_build demo_os txt_none token_cfg False (demo_get\<lparr>s_chan := c\<rparr>)"
    "chan_out c = answer" and
    a: "\<forall>rc x. chan_ok (ch rc) \<and> chan_in (ch rc) = answer @ x \<longrightarrow>
         (\<exists>rc'. xfer_get posix_build demo_os demo_world rc ''a.c'' ''copy'' = (True, rc', w_put demo_os demo_world ''copy'' ''int x;'')
            \<and> chan_out (ch rc') = chan_out (ch rc) @ (''GET '' @ ''a.c'') @ [LF] \<and> chan_in (ch rc') = x)"
    unfolding o(1) by auto
  have "fst (xfer_get posix_build demo_os demo_world (demo_rc answer) ''a.c'' ''copy'')" if "answer \<noteq> []"
    using a [rule_format, of "demo_rc answer" "[]"] demo_rc_chan(1) [OF that] demo_rc_chan(2) [of answer] by auto
  with c show ?thesis by blast
qed

definition demo_over :: sess_state where
  "demo_over = demo_sess True ((''PUT '' @ ''b.c'') @ LF # frames [(CHR ''D'', replicate 1024 (CHR ''x'')),
     (CHR ''D'', ''RUNA '' @ ''reboot'' @ [LF])] @ ''D 0'' @ [LF])"

theorem put_over_limit_runs_file_witness:
  "\<exists>st'. session_loop posix_build demo_os txt_none (token_cfg\<lparr>g_maxout := 100\<rparr>) False demo_over = Some st'
     \<and> pending (s_job st') \<and> jcmd (s_job st') = ''reboot''"
proof -
  let ?c = "chan_tcp (sess_dev [])" and ?a = "replicate 1024 (CHR ''x'')"
  have k: "chan_ok ?c" "chan_out ?c = []" using demo_rc_chan(2,3) [of "[]"] by (simp_all add: demo_rc_def)
  obtain c' where t: "put_frames 1024 (?a @ ''RUNA '' @ ''reboot'' @ [LF]) ?c = (True, c')"
    "chan_out c' = chan_out ?c @ frames [(CHR ''D'', ?a), (CHR ''D'', ''RUNA '' @ ''reboot'' @ [LF])]"
    using put_frames_two [OF k(1), of ?a "''RUNA '' @ ''reboot'' @ [LF]"] by (auto simp del: frames_simps)
  have i: "chan_in (s_chan demo_over) = (''PUT '' @ ''b.c'') @ LF #
      drop (length (chan_out ?c)) (chan_out (snd (put_frames 1024 (?a @ ''RUNA '' @ ''reboot'' @ [LF]) ?c))) @ ''D 0'' @ [LF]"
    unfolding t(1) snd_conv t(2) k(2) demo_over_def by (subst demo_sess_chan(1)) (simp_all del: frames_simps)
  have w: "ready demo_os demo_over" "length ?a = 1024" "0 < g_maxout (token_cfg\<lparr>g_maxout := 100\<rparr>)"
    "g_maxout (token_cfg\<lparr>g_maxout := 100\<rparr>) < 1024" "\<not> GCDS_DOS posix_build"
    using demo_ready(1) by (simp_all add: demo_over_def posix_build_def)
  show ?thesis
    by (rule put_over_limit_runs_file [OF w(1) demo_create(1) demo_sendable w(2-4) k(1) w(5) i demo_ready(3)])
qed

end
