(* ===== verification/Textstream.thy ===== *)
theory Textstream
  imports Textcv
begin

text \<open>
  Correctness of the macOS text streams of \<open>Textcv\<close>: composing a buffer is composing its items, the
  cut chosen by \<open>safe_end\<close> never separates bytes that interact, and so the converted stream does not
  depend on how the reads cut the text.
\<close>

section \<open>Composing a buffer\<close>

lemma sat_simps [simp]:
  "sat P [] = False" "sat P (x # xs) = cp_sat P x"
  by (simp_all add: sat_def)

lemma is_L_bounds: "is_L c \<Longrightarrow> 2048 \<le> c \<and> c < 65536"
  by (simp add: is_L_def)

lemma jamo_disjoint:
  "is_L c \<Longrightarrow> \<not> is_V c" "is_L c \<Longrightarrow> \<not> is_T c" "is_V c \<Longrightarrow> \<not> is_T c"
  "is_LV c \<Longrightarrow> \<not> is_L c" "is_LV c \<Longrightarrow> \<not> is_V c" "is_LV c \<Longrightarrow> \<not> is_T c"
  by (auto simp: is_L_def is_V_def is_T_def is_LV_def is_S_def)

lemma not_code_Raw: "\<not> is_L (-1)" "\<not> is_V (-1)" "\<not> is_LV (-1)"
  by (simp_all add: is_L_def is_V_def is_LV_def is_S_def)

lemma items_Nil [simp]: "items [] = []"
  by (simp add: items.simps)

text \<open>What the lookahead of \<open>compose\<close> sees is the head of the items behind.\<close>

lemma items_dec:
  assumes "u8dec r = U8 c k" and "r \<noteq> []"
  shows "items r = Cp c # items (drop k r)"
  using assms by (simp add: items.simps [of r])

lemma compose_lv_items:
  assumes "compose_lv cp r1 = Some (sy, r')"
  shows "hcomp (Cp cp # items r1) = Cp sy # hcomp (items r')"
proof -
  from assms obtain cp2 k2 where d: "is_L cp" "r1 \<noteq> []" "u8dec r1 = U8 cp2 k2" "is_V cp2"
    by (auto simp: compose_lv_def Let_def split: if_splits u8.splits)
  let ?r2 = "drop k2 r1"
  have i1: "items r1 = Cp cp2 # items ?r2" using d items_dec by simp
  have s: "syl cp cp2 = S_BASE + (cp - L_BASE) * N_CNT + (cp2 - V_BASE) * T_CNT" by (simp add: syl_def)
  show ?thesis
  proof (cases "\<exists>cp3 k3. ?r2 \<noteq> [] \<and> u8dec ?r2 = U8 cp3 k3 \<and> is_T cp3")
    case True
    then obtain cp3 k3 where t: "?r2 \<noteq> []" "u8dec ?r2 = U8 cp3 k3" "is_T cp3" by blast
    then have "sy = syl cp cp2 + (cp3 - T_BASE)" "r' = drop k3 ?r2"
      using assms d s by (auto simp: compose_lv_def Let_def)
    with d t show ?thesis by (simp add: i1 items_dec [of ?r2 cp3 k3] hcomp.simps(2))
  next
    case False
    then have "sy = syl cp cp2" "r' = ?r2"
      using assms d s by (auto simp: compose_lv_def Let_def split: if_splits u8.splits)
    moreover have "\<not> sat is_T (items ?r2)"
      using False by (subst items.simps) (auto split: u8.splits)
    ultimately show ?thesis using d by (simp add: i1 hcomp.simps(2))
  qed
qed

lemma compose_st_items:
  assumes "compose_st cp r1 = Some (sy, r')"
  shows "hcomp (Cp cp # items r1) = Cp sy # hcomp (items r')"
proof -
  from assms obtain cp2 k2 where d: "is_LV cp" "r1 \<noteq> []" "u8dec r1 = U8 cp2 k2" "is_T cp2"
    "sy = cp + (cp2 - T_BASE)" "r' = drop k2 r1"
    by (auto simp: compose_st_def is_LV_def split: if_splits u8.splits)
  then have "items r1 = Cp cp2 # items r'" using items_dec by simp
  with d jamo_disjoint show ?thesis by (auto simp: hcomp.simps(2))
qed

lemma compose_none_items:
  assumes "compose_lv cp r1 = None" and "compose_st cp r1 = None"
  shows "hcomp (Cp cp # items r1) = Cp cp # hcomp (items r1)"
proof -
  have "\<not> (is_L cp \<and> sat is_V (items r1))"
    using assms(1) by (subst items.simps) (auto simp: compose_lv_def Let_def split: u8.splits if_splits)
  moreover have "\<not> (is_LV cp \<and> sat is_T (items r1))"
    using assms(2) by (subst items.simps) (auto simp: compose_st_def is_LV_def split: u8.splits if_splits)
  ultimately show ?thesis by (auto simp: hcomp.simps(2))
qed

lemma compose_lv_len:
  assumes "compose_lv cp (drop k r) = Some (sy, r')" and "u8dec r = U8 cp k" and "r \<noteq> []"
  shows "length (u8enc sy) = 3 \<and> length r' + 3 \<le> length r"
proof -
  from assms(1) obtain cp2 k2 where d: "is_L cp" "drop k r \<noteq> []" "u8dec (drop k r) = U8 cp2 k2" "is_V cp2"
    by (auto simp: compose_lv_def Let_def split: if_splits u8.splits)
  have "3 \<le> k" using u8enc_le [OF assms(2)] is_L_bounds [OF d(1)] by (simp add: u8enc_len)
  moreover have "length r' + k \<le> length r"
    using assms(1) d u8dec_used [OF assms(2)] assms(3)
    by (auto simp: compose_lv_def Let_def split: if_splits u8.splits)
  moreover have "2048 \<le> sy \<and> sy < 65536"
    using assms(1) d by (auto simp: compose_lv_def Let_def is_L_def is_V_def is_T_def split: if_splits u8.splits)
  ultimately show ?thesis by (simp add: u8enc_len)
qed

lemma compose_st_len:
  assumes "compose_st cp (drop k r) = Some (sy, r')" and "u8dec r = U8 cp k" and "r \<noteq> []"
  shows "length (u8enc sy) = 3 \<and> length r' + 3 \<le> length r"
proof -
  from assms(1) obtain cp2 k2 where d: "is_S cp" "(cp - S_BASE) mod T_CNT = 0" "is_T cp2"
    "sy = cp + (cp2 - T_BASE)" "r' = drop k2 (drop k r)"
    by (auto simp: compose_st_def split: if_splits u8.splits)
  have "3 \<le> k" using u8enc_le [OF assms(2)] d(1) by (simp add: u8enc_len is_S_def)
  moreover have "length r' + k \<le> length r"
    using d(5) u8dec_used [OF assms(2)] assms(3) by simp arith
  moreover have "2048 \<le> sy \<and> sy < 65536"
    using d by (auto simp: is_S_def is_T_def)
  ultimately show ?thesis by (simp add: u8enc_len)
qed

lemma compose_loop_render:
  "int (length out + length r) \<le> omax \<Longrightarrow> compose_loop r out omax = Some (out @ render r)
    \<and> length (render r) \<le> length r"
proof (induction "length r" arbitrary: r out rule: less_induct)
  case less
  show ?case
  proof (cases "r = []")
    case True
    then show ?thesis by (simp add: compose_loop.simps render_def)
  next
    case ne: False
    show ?thesis
    proof (cases "u8dec r")
      case U8short
      with ne show ?thesis by (simp add: compose_loop.simps [of r] render_def items.simps [of r])
    next
      case U8bad
      have "compose_loop (drop 1 r) (out @ [hd r]) omax = Some ((out @ [hd r]) @ render (drop 1 r))
        \<and> length (render (drop 1 r)) \<le> length (drop 1 r)"
        using ne less.prems by (intro less.hyps) (cases r; simp)+
      moreover have "int (length out) < omax" using ne less.prems by (cases r) simp_all
      ultimately show ?thesis
        using U8bad ne le_less_trans [OF _ diff_Suc_less [of "length r" 0]]
        by (simp add: Suc_le_eq compose_loop.simps [of r] render_def items.simps [of r] hcomp.simps(2))
    next
      case (U8 cp k)
      note used = u8dec_used [OF U8] and it = items_dec [OF U8 ne]
      show ?thesis
      proof (cases "compose_lv cp (drop k r)")
        case (Some z)
        then obtain sy r' where z: "compose_lv cp (drop k r) = Some (sy, r')" by (cases z) auto
        note len = compose_lv_len [OF z U8 ne] and hc = compose_lv_items [OF z]
        have "compose_loop r' (out @ u8enc sy) omax = Some ((out @ u8enc sy) @ render r')
          \<and> length (render r') \<le> length r'"
          using len less.prems by (intro less.hyps) simp_all
        then show ?thesis
          using z U8 ne len less.prems
          by (simp add: compose_loop.simps [of r] render_def it hc)
      next
        case lv: None
        show ?thesis
        proof (cases "compose_st cp (drop k r)")
          case (Some z)
          then obtain sy r' where z: "compose_st cp (drop k r) = Some (sy, r')" by (cases z) auto
          note len = compose_st_len [OF z U8 ne] and hc = compose_st_items [OF z]
          have "compose_loop r' (out @ u8enc sy) omax = Some ((out @ u8enc sy) @ render r')
          \<and> length (render r') \<le> length r'"
            using len less.prems by (intro less.hyps) simp_all
          then show ?thesis
            using lv z U8 ne len less.prems
            by (simp add: compose_loop.simps [of r] render_def it hc)
        next
          case None
          note hc = compose_none_items [OF lv None]
          have "compose_loop (drop k r) (out @ u8enc cp) omax = Some ((out @ u8enc cp) @ render (drop k r))
            \<and> length (render (drop k r)) \<le> length (drop k r)"
            using used ne u8enc_le [OF U8] less.prems by (intro less.hyps) auto
          then show ?thesis
            using lv None U8 ne used u8enc_le [OF U8] less.prems
            by - (elim conjE, simp add: compose_loop.simps [of r] render_def it hc)
        qed
      qed
    qed
  qed
qed

lemma compose_render: "int (length r) \<le> omax \<Longrightarrow> compose r omax = Some (render r)"
  by (simp add: compose_def compose_loop_render)

lemma render_le: "length (render r) \<le> length r"
  using compose_loop_render [of "[]" r "int (length r)"] by simp

section \<open>Cutting a buffer\<close>

text \<open>The incomplete bytes at the end of a buffer; a buffer without them is whole.\<close>

function irest :: "char list \<Rightarrow> char list" where
  "irest r =
     (if r = [] then []
      else (case u8dec r of
          U8short \<Rightarrow> r
        | U8bad \<Rightarrow> irest (drop 1 r)
        | U8 c k \<Rightarrow> irest (drop k r)))"
  by pat_completeness auto
termination
  by (relation "measure length") (auto dest: u8dec_used)

declare irest.simps [simp del]

lemma irest_Nil [simp]: "irest [] = []"
  by (simp add: irest.simps)

lemma items_append: "irest x = [] \<Longrightarrow> items (x @ z) = items x @ items z"
proof (induction x rule: irest.induct)
  case (1 x)
  show ?case
  proof (cases "x = []")
    case ne: False
    show ?thesis
    proof (cases "u8dec x")
      case U8short
      with "1.prems" ne show ?thesis by (simp add: irest.simps [of x])
    next
      case U8bad
      then have "u8dec (x @ z) = U8bad" "1 - length x = 0" using u8dec_append ne by (simp_all add: Suc_le_eq)
      with U8bad ne "1.IH" "1.prems" show ?thesis
        by (simp add: irest.simps [of x] items.simps [of x] items.simps [of "x @ z"] Suc_le_eq)
    next
      case (U8 c k)
      then have "u8dec (x @ z) = U8 c k" using u8dec_append ne by simp
      with U8 ne "1.IH" "1.prems" u8dec_used [OF U8] show ?thesis
        by (simp add: irest.simps [of x] items.simps [of x] items.simps [of "x @ z"])
    qed
  qed simp
qed

lemma irest_append: "irest x = [] \<Longrightarrow> irest (x @ z) = irest z"
proof (induction x rule: irest.induct)
  case (1 x)
  show ?case
  proof (cases "x = []")
    case ne: False
    show ?thesis
    proof (cases "u8dec x")
      case U8short
      with "1.prems" ne show ?thesis by (simp add: irest.simps [of x])
    next
      case U8bad
      then have "u8dec (x @ z) = U8bad" "1 - length x = 0" using u8dec_append ne by (simp_all add: Suc_le_eq)
      with U8bad ne "1.IH" "1.prems" show ?thesis
        by (simp add: irest.simps [of x] irest.simps [of "x @ z"] Suc_le_eq)
    next
      case (U8 c k)
      then have "u8dec (x @ z) = U8 c k" using u8dec_append ne by simp
      with U8 ne "1.IH" "1.prems" u8dec_used [OF U8] show ?thesis
        by (simp add: irest.simps [of x] irest.simps [of "x @ z"])
    qed
  qed simp
qed

text \<open>Composition distributes over a cut that no cluster crosses.\<close>

definition cut_ok :: "titem list \<Rightarrow> titem list \<Rightarrow> bool" where
  "cut_ok xs ys \<longleftrightarrow> xs = [] \<or>
     (sat is_V ys \<longrightarrow> \<not> is_L (cpcode (last xs))) \<and>
     (sat is_T ys \<longrightarrow> \<not> is_LV (cpcode (last xs)) \<and> \<not> is_V (cpcode (last xs)))"

lemma sat_append: "sat P (xs @ ys) = (if xs = [] then sat P ys else sat P xs)"
  by (cases xs) auto

lemma sat_code: "cp_sat P x \<Longrightarrow> P (cpcode x)"
  by (cases x) auto

lemma sat_hd: "sat P xs \<Longrightarrow> xs \<noteq> [] \<and> P (cpcode (hd xs))"
  by (auto simp: sat_def dest: sat_code)

lemma hcomp_append: "cut_ok xs ys \<Longrightarrow> hcomp (xs @ ys) = hcomp xs @ hcomp ys"
proof (induction xs rule: hcomp.induct)
  case 1
  then show ?case by simp
next
  case (2 x xs)
  have ok: "cut_ok (tl xs) ys" "cut_ok (tl (tl xs)) ys" "cut_ok xs ys"
    using "2.prems" by (cases xs; cases "tl xs"; simp add: cut_ok_def split: if_splits)+
  show ?case
  proof (cases xs)
    case Nil
    with "2.prems" jamo_disjoint show ?thesis
      by (auto simp: cut_ok_def hcomp.simps(2) dest: sat_code)
  next
    case (Cons y zs)
    then show ?thesis
    proof (cases "cp_sat is_L x \<and> sat is_V xs")
      case lv: True
      show ?thesis
      proof (cases zs)
        case Nil
        then have "\<not> sat is_T ys" using "2.prems" lv Cons sat_hd [of is_V xs] by (auto simp: cut_ok_def)
        with "2.IH"(2) lv Cons Nil ok(1) show ?thesis by (simp add: hcomp.simps(2) sat_append)
      next
        case (Cons t ws)
        then show ?thesis
          using "2.IH"(1,2) lv \<open>xs = y # zs\<close> ok by (auto simp: hcomp.simps(2) sat_append)
      qed
    next
      case False
      with "2.IH"(3,4) Cons ok show ?thesis by (auto simp: hcomp.simps(2) sat_append)
    qed
  qed
qed

section \<open>The cut of \<^verbatim>\<open>safe_end\<close>\<close>

text \<open>What the scan knows after the whole buffer \<open>a\<close>: where its last two items are.\<close>

definition one_item :: "char list \<Rightarrow> titem \<Rightarrow> bool" where
  "one_item w x \<longleftrightarrow> irest w = [] \<and> items w = [x] \<and> length w \<le> 4"

definition last_at :: "char list \<Rightarrow> int \<Rightarrow> int \<Rightarrow> bool" where
  "last_at a st cv \<longleftrightarrow> a = [] \<and> st = -1 \<or>
     (\<exists>a0 w0 x0. a = a0 @ w0 \<and> irest a0 = [] \<and> one_item w0 x0 \<and> st = int (length a0) \<and> cv = cpcode x0)"

definition scanned :: "char list \<Rightarrow> scan \<Rightarrow> bool" where
  "scanned a z \<longleftrightarrow> sc_complete z = int (length a) \<and> irest a = [] \<and>
     (a = [] \<and> sc_st1 z = -1 \<or>
      (\<exists>a1 w1 x1. a = a1 @ w1 \<and> irest a1 = [] \<and> one_item w1 x1 \<and> sc_st1 z = int (length a1)
         \<and> sc_cv1 z = cpcode x1 \<and> last_at a1 (sc_st0 z) (sc_cv0 z)))"

lemma scanned_last: "scanned a z \<Longrightarrow> last_at a (sc_st1 z) (sc_cv1 z)"
  unfolding scanned_def last_at_def by blast

lemma scanned_step:
  assumes "scanned a z" and "one_item w x" and "c = cpcode x" and "k = length w"
  shows "scanned (a @ w) (scan_step (int (length a)) c k z)"
proof -
  from assms(1) have wa: "irest a = []" by (simp add: scanned_def)
  have "irest (a @ w) = []" using wa assms(2) by (simp add: irest_append one_item_def)
  moreover have "\<exists>a1 w1 x1. a @ w = a1 @ w1 \<and> irest a1 = [] \<and> one_item w1 x1
      \<and> int (length a) = int (length a1) \<and> c = cpcode x1 \<and> last_at a1 (sc_st1 z) (sc_cv1 z)"
    using wa assms(2,3) scanned_last [OF assms(1)] by blast
  ultimately show ?thesis
    using assms(4) by (simp add: scanned_def scan_step_def)
qed

lemma one_item_dec:
  assumes "u8dec r = U8 c k" and "r \<noteq> []"
  shows "one_item (take k r) (Cp c)"
proof -
  have u: "0 < k" "k \<le> 4" "k \<le> length r" using u8dec_used [OF assms(1)] assms(2) by auto
  have "u8dec (take k r) = U8 c k" using assms by (rule u8dec_take [rotated])
  with u assms(2) show ?thesis
    by (simp add: one_item_def irest.simps [of "take k r"] items.simps [of "take k r"])
qed

lemma one_item_bad:
  assumes "u8dec r = U8bad" and "r \<noteq> []"
  shows "one_item (take 1 r) (Raw (hd r))"
proof -
  obtain b s where r: "r = b # s" using assms(2) by (cases r) auto
  have "u8dec [b] = U8bad" using assms(1) r by (auto simp: u8dec_def Let_def byte_def split: if_splits)
  with r show ?thesis by (simp add: one_item_def irest.simps [of "[b]"] items.simps [of "[b]"])
qed

lemma safe_scan_scanned:
  "scanned a z \<Longrightarrow> \<exists>w. r = w @ irest r \<and> scanned (a @ w) (safe_scan r (int (length a)) z)"
proof (induction "length r" arbitrary: r a z rule: less_induct)
  case less
  show ?case
  proof (cases "r = []")
    case True
    with less.prems show ?thesis by (simp add: safe_scan.simps)
  next
    case ne: False
    show ?thesis
    proof (cases "u8dec r")
      case U8short
      with ne less.prems show ?thesis by (simp add: safe_scan.simps [of r] irest.simps [of r])
    next
      case U8bad
      let ?z = "scan_step (int (length a)) (-1) 1 z"
      have "scanned (a @ take 1 r) ?z"
        using ne by (intro scanned_step [OF less.prems one_item_bad [OF U8bad ne]]) (auto simp: Suc_le_eq)
      from less.hyps [OF _ this, of "drop 1 r"] ne obtain w where
        w: "drop 1 r = w @ irest (drop 1 r)"
          "scanned ((a @ take 1 r) @ w) (safe_scan (drop 1 r) (int (length (a @ take 1 r))) ?z)"
        by auto
      have "r = (take 1 r @ w) @ irest r"
        using w(1) U8bad ne irest.simps [of r] append_take_drop_id [of 1 r] by simp
      moreover have "length (a @ take 1 r) = length a + 1" using ne by (cases r) simp_all
      then have "safe_scan r (int (length a)) z = safe_scan (drop 1 r) (int (length (a @ take 1 r))) ?z"
        using U8bad ne by (simp add: safe_scan.simps [of r] add.commute)
      ultimately show ?thesis using w(2) by (metis append.assoc)
    next
      case (U8 c k)
      let ?z = "scan_step (int (length a)) c k z"
      have u: "0 < k" "k \<le> length r" using u8dec_used [OF U8] ne by auto
      have "scanned (a @ take k r) ?z"
        using u by (intro scanned_step [OF less.prems one_item_dec [OF U8 ne]]) simp_all
      from less.hyps [OF _ this, of "drop k r"] u ne obtain w where
        w: "drop k r = w @ irest (drop k r)"
          "scanned ((a @ take k r) @ w) (safe_scan (drop k r) (int (length (a @ take k r))) ?z)"
        by auto
      have "r = (take k r @ w) @ irest r"
        using w(1) U8 ne irest.simps [of r] append_take_drop_id [of k r] by simp
      moreover have "safe_scan r (int (length a)) z = safe_scan (drop k r) (int (length (a @ take k r))) ?z"
        using U8 ne u by (simp add: safe_scan.simps [of r])
      ultimately show ?thesis using w(2) by (metis append.assoc)
    qed
  qed
qed

lemma irest_short: "length (irest r) \<le> 3"
proof (induction r rule: irest.induct)
  case (1 r)
  then show ?case
    by (auto simp: irest.simps [of r] split: u8.splits)
       (auto simp: u8dec_def Let_def split: if_splits)
qed

lemma safe_end_cut:
  obtains a b where "src = a @ b" and "safe_end src = int (length a)" and "irest a = []"
    and "length b \<le> 11" and "\<And>z. cut_ok (items a) (items (b @ z))"
proof -
  have "scanned [] scan_init" by (simp add: scanned_def scan_init_def)
  from safe_scan_scanned [OF this, of src] obtain w where
    src: "src = w @ irest src" and sc: "scanned w (safe_scan src 0 scan_init)" by auto
  define z where "z = safe_scan src 0 scan_init"
  note t = irest_short [of src]
  have cz: "sc_complete z = int (length w)" and ww: "irest w = []"
    using sc by (simp_all add: z_def scanned_def)
  show thesis
  proof (cases "w = []")
    case True
    then have "sc_st1 z = -1" using sc by (auto simp: z_def [symmetric] scanned_def one_item_def)
    then have "safe_end src = 0" using cz True by (simp add: safe_end_def z_def [symmetric] Let_def)
    with that [of "[]" src] src True t show thesis by (simp add: cut_ok_def)
  next
    case ne: False
    then obtain a1 w1 x1 where w: "w = a1 @ w1" and a1: "irest a1 = []" and w1: "one_item w1 x1"
      and s1: "sc_st1 z = int (length a1)" "sc_cv1 z = cpcode x1" and l: "last_at a1 (sc_st0 z) (sc_cv0 z)"
      using sc by (auto simp: z_def [symmetric] scanned_def)
    have it: "items (w1 @ y) = x1 # items y" for y using w1 by (simp add: one_item_def items_append)
    have l1: "length w1 \<le> 4" using w1 by (simp add: one_item_def)
    have "cut_ok (items w) ys" if "\<not> is_L (cpcode x1)" "\<not> is_V (cpcode x1)" "\<not> is_LV (cpcode x1)" for ys
      using that w a1 w1 by (simp add: cut_ok_def one_item_def items_append)
    note closed = this
    have se: "safe_end src = (if is_L (cpcode x1) then sc_st1 z
        else if is_V (cpcode x1) then (if sc_st0 z \<ge> 0 \<and> is_L (sc_cv0 z) then sc_st0 z else sc_st1 z)
        else if is_LV (cpcode x1) then sc_st1 z else sc_complete z)"
      using s1 by (simp add: safe_end_def z_def [symmetric] Let_def is_LV_def)
    have x1: "cp_sat P x1 \<Longrightarrow> P (cpcode x1)" for P by (rule sat_code)
    consider (lead) "is_L (cpcode x1) \<or> is_LV (cpcode x1)" | (vow0) "is_V (cpcode x1)" "sc_st0 z \<ge> 0" "is_L (sc_cv0 z)"
      | (vow1) "is_V (cpcode x1)" "\<not> (sc_st0 z \<ge> 0 \<and> is_L (sc_cv0 z))"
      | (clo) "\<not> is_L (cpcode x1)" "\<not> is_V (cpcode x1)" "\<not> is_LV (cpcode x1)"
      by blast
    then show thesis
    proof cases
      case lead
      then have "safe_end src = sc_st1 z" using se jamo_disjoint by auto
      moreover have "\<not> cp_sat is_V x1" "\<not> cp_sat is_T x1" using lead jamo_disjoint x1 by blast+
      ultimately show thesis
        using that [of a1 "w1 @ irest src"] src w a1 s1 l1 t it by (simp add: cut_ok_def)
    next
      case vow0
      then have e: "safe_end src = sc_st0 z" using se jamo_disjoint by auto
      from l vow0 obtain a0 w0 x0 where a: "a1 = a0 @ w0" "irest a0 = []" "one_item w0 x0"
        "sc_st0 z = int (length a0)" "sc_cv0 z = cpcode x0" by (auto simp: last_at_def)
      have "items (w0 @ y) = x0 # items y" for y using a(3) by (simp add: one_item_def items_append)
      moreover have "\<not> cp_sat is_V x0" "\<not> cp_sat is_T x0"
        using vow0(3) a(5) jamo_disjoint sat_code by metis+
      moreover have "length w0 \<le> 4" using a(3) by (simp add: one_item_def)
      ultimately show thesis
        using that [of a0 "w0 @ w1 @ irest src"] src w a e l1 t by (simp add: cut_ok_def)
    next
      case vow1
      then have e: "safe_end src = sc_st1 z" using se jamo_disjoint by auto
      have "items a1 = [] \<or> \<not> is_L (cpcode (last (items a1)))"
        using l vow1(2) by (auto simp: last_at_def one_item_def items_append)
      moreover have "\<not> cp_sat is_T x1" using vow1 jamo_disjoint x1 by blast
      ultimately show thesis
        using that [of a1 "w1 @ irest src"] src w a1 s1 l1 t it e by (simp add: cut_ok_def)
    next
      case clo
      then have "safe_end src = int (length w)" using se cz by simp
      then show thesis using that [of w "irest src"] src ww t closed clo by simp
    qed
  qed
qed

lemma safe_end_render:
  obtains a b where "src = a @ b" and "safe_end src = int (length a)" and "length b \<le> 11"
    and "\<And>z. render (src @ z) = render a @ render (b @ z)"
proof -
  obtain a b where c: "src = a @ b" "safe_end src = int (length a)" "irest a = []" "length b \<le> 11"
    "\<And>z. cut_ok (items a) (items (b @ z))" by (rule safe_end_cut) blast
  have "render (src @ z) = render a @ render (b @ z)" for z
    using c(1,3) c(5) [of z] by (simp add: render_def items_append hcomp_append)
  with c(1,2,4) that show thesis by blast
qed

section \<open>Streams\<close>

text \<open>A whole stream: convert every chunk, then flush, as \<^verbatim>\<open>send_file\<close> and \<^verbatim>\<open>pump\<close> do.\<close>

fun mac_run :: "txt_stream \<Rightarrow> char list list \<Rightarrow> int \<Rightarrow> char list option" where
  "mac_run s [] omax = fst (mac_txt_flush s omax)"
| "mac_run s (ch # chs) omax =
     (case mac_txt_out s ch omax of
        (None, s') \<Rightarrow> None
      | (Some out, s') \<Rightarrow> map_option ((@) out) (mac_run s' chs omax))"

lemma mac_txt_out_render:
  assumes "length (pend s) \<le> 11" and "int (length ch) + 16 \<le> omax" and "int (length ch) + 16 \<le> JOIN_MAX"
  obtains out s' where "mac_txt_out s ch omax = (Some out, s')" and "length (pend s') \<le> 11"
    and "\<And>z. render (pend s @ ch @ z) = out @ render (pend s' @ z)"
proof -
  let ?src = "pend s @ ch"
  have sp: "splice s ch JOIN_MAX = (?src, s\<lparr>pend := []\<rparr>)"
    using assms(1,3) by (cases s) (auto simp: splice_def Let_def)
  obtain a b where c: "?src = a @ b" "safe_end ?src = int (length a)" "length b \<le> 11"
    "\<And>z. render (?src @ z) = render a @ render (b @ z)" by (rule safe_end_render [of ?src]) blast
  have "length (pend s) + length ch = length a + length b" using c(1) by (metis length_append)
  then have "int (length a) \<le> omax" using assms(1,2) by linarith
  then have "mac_txt_out s ch omax = (Some (render a), hold (s\<lparr>pend := []\<rparr>) b)"
    using sp c(2) by (simp add: mac_txt_out_def Let_def compose_render c(1))
  moreover have "pend (hold (s\<lparr>pend := []\<rparr>) b) = b" using c(3) by (simp add: hold_def)
  ultimately show thesis using that c(3,4) by simp
qed

text \<open>The macOS build keeps the contract: what was emitted and the held bytes make up the conversion.\<close>

interpretation mac: text_stream posix_build "txt_mac None" render
  "\<lambda>cv a e. length (pend cv) \<le> 11 \<and> (\<forall>z. render (a @ z) = e @ render (pend cv @ z))"
proof (unfold_locales, goal_cases)
  case (2 cv a e buf)
  obtain d cv' where o: "mac_txt_out cv buf 8192 = (Some d, cv')" "length (pend cv') \<le> 11"
    "\<And>z. render (pend cv @ buf @ z) = d @ render (pend cv' @ z)"
    by (rule mac_txt_out_render [of cv buf 8192]) (use 2 in auto)
  have "length d \<le> length (pend cv @ buf)" using o(3) [of "[]"] render_le [of "pend cv @ buf"] by simp
  with o 2 show ?case
    by (intro exI [of _ d] exI [of _ cv']) (auto simp: tx_out_def txt_mac_def mac_txt_init_def posix_build_def GCDSP_FRAME_MAX_def)
next
  case (3 cv a e)
  have "fst (mac_txt_flush cv 8192) = Some (render (pend cv))"
    using 3 by (auto simp: mac_txt_flush_def compose_render render_def)
  moreover have "render a = e @ render (pend cv)" using 3 by (metis append_Nil2)
  ultimately show ?case using 3 render_le [of "pend cv"]
    by (auto simp: tx_tail_def txt_mac_def mac_txt_init_def posix_build_def GCDSP_FRAME_MAX_def)
qed (simp_all add: txt_stream_init_def render_def)

lemma mac_run_render:
  assumes "length (pend s) \<le> 11" and "\<forall>ch \<in> set chs. int (length ch) + 16 \<le> min omax JOIN_MAX" and "16 \<le> omax"
  shows "mac_run s chs omax = Some (render (pend s @ concat chs))"
  using assms(1,2)
proof (induction chs arbitrary: s)
  case Nil
  then show ?case using assms(3) by (simp add: mac_txt_flush_def compose_render render_def)
next
  case (Cons ch chs)
  then obtain out s' where o: "mac_txt_out s ch omax = (Some out, s')" "length (pend s') \<le> 11"
    "\<And>z. render (pend s @ ch @ z) = out @ render (pend s' @ z)"
    by (auto elim!: mac_txt_out_render [of s ch omax])
  with Cons.IH [of s'] Cons.prems show ?case by simp
qed

text \<open>
  C31. On macOS the converted text stream does not depend on how the reads cut it: for any bytes and
  any chunking within the buffer sizes, converting the chunks one after the other and flushing yields
  the conversion of the whole text at once.  In particular what is held back always fits its 16 bytes.
\<close>

theorem mac_text_chunk_invariant:
  assumes "\<forall>ch \<in> set chs. int (length ch) + 16 \<le> min omax JOIN_MAX" and "16 \<le> omax"
  shows "mac_run txt_stream_init chs omax = Some (render (concat chs))"
  using mac_run_render [of txt_stream_init chs omax] assms by (simp add: txt_stream_init_def)

theorem mac_text_chunk_invariant_witness:
  "mac_run txt_stream_init [[CHR 0xE1, CHR 0x84], [CHR 0x80, CHR 0xE1, CHR 0x85, CHR 0xA1]] 8192
     = mac_run txt_stream_init [[CHR 0xE1, CHR 0x84, CHR 0x80, CHR 0xE1, CHR 0x85, CHR 0xA1]] 8192"
  using mac_text_chunk_invariant [of "[[CHR 0xE1, CHR 0x84], [CHR 0x80, CHR 0xE1, CHR 0x85, CHR 0xA1]]" 8192]
    mac_text_chunk_invariant [of "[[CHR 0xE1, CHR 0x84, CHR 0x80, CHR 0xE1, CHR 0x85, CHR 0xA1]]" 8192]
  by simp

section \<open>Valid text\<close>

definition u8text :: "int list \<Rightarrow> char list" where
  "u8text cs = concat (map u8enc cs)"

text \<open>The decomposed form (NFD) of a cpcode point, Unicode 3.12.\<close>

definition hangul_nfd :: "int \<Rightarrow> int list" where
  "hangul_nfd c =
     (if is_S c
      then let si = c - S_BASE in
           [L_BASE + si div N_CNT, V_BASE + si mod N_CNT div T_CNT]
           @ (if si mod T_CNT = 0 then [] else [T_BASE + si mod T_CNT])
      else [c])"

definition plain_cp :: "int \<Rightarrow> bool" where
  "plain_cp c \<longleftrightarrow> 0 \<le> c \<and> c < 0x110000 \<and> \<not> is_L c \<and> \<not> is_V c \<and> \<not> is_T c"

lemma items_u8text:
  assumes "\<forall>c \<in> set cs. 0 \<le> c \<and> c < 2097152"
  shows "items (u8text cs) = map Cp cs"
  using assms
proof (induction cs)
  case Nil
  then show ?case by (simp add: u8text_def)
next
  case (Cons c cs)
  have "u8text (c # cs) = u8enc c @ u8text cs" by (simp add: u8text_def)
  with Cons u8dec_u8enc [of c "u8text cs"] u8enc_pos [of c] show ?case
    by (simp add: items.simps [of "u8enc c @ u8text cs"])
qed

lemma syllable_index:
  assumes "is_S c" and "si = c - S_BASE"
  shows "is_L (L_BASE + si div N_CNT)" and "is_V (V_BASE + si mod N_CNT div T_CNT)"
    and "si mod T_CNT \<noteq> 0 \<Longrightarrow> is_T (T_BASE + si mod T_CNT)"
    and "si div N_CNT * N_CNT + si mod N_CNT div T_CNT * T_CNT + si mod T_CNT = si"
proof -
  have r: "0 \<le> si" "si < S_CNT" using assms by (simp_all add: is_S_def)
  have q: "0 \<le> si div N_CNT" "si div N_CNT < L_CNT" using r by (simp_all add: div_int_pos_iff)
  have m: "0 \<le> si mod N_CNT" "si mod N_CNT < N_CNT" by simp_all
  then have v: "0 \<le> si mod N_CNT div T_CNT" "si mod N_CNT div T_CNT < V_CNT"
    by (simp_all add: div_int_pos_iff)
  have t: "0 \<le> si mod T_CNT" "si mod T_CNT < T_CNT" by simp_all
  show "is_L (L_BASE + si div N_CNT)" using q by (simp add: is_L_def)
  show "is_V (V_BASE + si mod N_CNT div T_CNT)" using v by (simp add: is_V_def)
  show "si mod T_CNT \<noteq> 0 \<Longrightarrow> is_T (T_BASE + si mod T_CNT)" using t by (simp add: is_T_def)
  have "si mod N_CNT mod T_CNT = si mod T_CNT" by (simp add: mod_mod_cancel)
  then show "si div N_CNT * N_CNT + si mod N_CNT div T_CNT * T_CNT + si mod T_CNT = si"
    using div_mult_mod_eq [of si N_CNT] div_mult_mod_eq [of "si mod N_CNT" T_CNT] by linarith
qed

lemma hcomp_nfd_step:
  assumes "plain_cp c" and "\<not> sat is_T ys" and "\<not> sat is_V ys"
  shows "hcomp (map Cp (hangul_nfd c) @ ys) = Cp c # hcomp ys"
proof (cases "is_S c")
  case False
  then have "\<not> is_LV c" by (simp add: is_LV_def)
  with False assms show ?thesis by (simp add: hangul_nfd_def plain_cp_def hcomp.simps(2))
next
  case True
  define si where "si = c - S_BASE"
  note x = syllable_index [OF True si_def]
  let ?l = "L_BASE + si div N_CNT" and ?v = "V_BASE + si mod N_CNT div T_CNT"
  have s: "syl ?l ?v + si mod T_CNT = c" using x(4) by (simp add: syl_def si_def)
  show ?thesis
  proof (cases "si mod T_CNT = 0")
    case z: True
    then have "hangul_nfd c = [?l, ?v]" using True by (simp add: hangul_nfd_def si_def Let_def)
    with x(1,2) assms(2) s z show ?thesis by (simp add: hcomp.simps(2))
  next
    case nz: False
    then have "hangul_nfd c = [?l, ?v, T_BASE + si mod T_CNT]"
      using True by (simp add: hangul_nfd_def si_def Let_def)
    with x(1,2) x(3) [OF nz] s show ?thesis by (simp add: hcomp.simps(2))
  qed
qed

lemma nfd_head:
  assumes "plain_cp c"
  shows "\<not> sat is_T (map Cp (hangul_nfd c) @ ys)" "\<not> sat is_V (map Cp (hangul_nfd c) @ ys)"
  using assms syllable_index(1) [of c "c - S_BASE"] jamo_disjoint
  by (auto simp: hangul_nfd_def Let_def plain_cp_def)

lemma hcomp_nfd:
  "\<forall>c \<in> set cs. plain_cp c \<Longrightarrow> hcomp (map Cp (concat (map hangul_nfd cs))) = map Cp cs"
proof (induction cs)
  case (Cons c cs)
  have "\<not> sat is_T (map Cp (concat (map hangul_nfd cs)))" "\<not> sat is_V (map Cp (concat (map hangul_nfd cs)))"
    using Cons.prems nfd_head by (cases cs; simp)+
  with Cons hcomp_nfd_step [of c "map Cp (concat (map hangul_nfd cs))"] show ?case by simp
qed simp

lemma nfd_valid:
  assumes "plain_cp c" and "x \<in> set (hangul_nfd c)"
  shows "0 \<le> x \<and> x < 2097152"
proof (cases "is_S c")
  case False
  with assms show ?thesis by (simp add: hangul_nfd_def plain_cp_def)
next
  case True
  then have "is_L x \<or> is_V x \<or> is_T x"
    using assms(2) syllable_index(1-3) [OF True refl] by (auto simp: hangul_nfd_def Let_def split: if_splits)
  then show ?thesis unfolding is_L_def is_V_def is_T_def by linarith
qed

text \<open>
  Decomposed Hangul comes out composed: the UTF-8 of the decomposed form of a text of syllables
  and other characters, cut into chunks anywhere, even inside a character, is converted to the
  UTF-8 of the text itself.
\<close>

lemma mac_text_composes:
  assumes "\<forall>c \<in> set cs. plain_cp c" and "concat chs = u8text (concat (map hangul_nfd cs))"
    and "\<forall>ch \<in> set chs. int (length ch) + 16 \<le> min omax JOIN_MAX" and "16 \<le> omax"
  shows "mac_run txt_stream_init chs omax = Some (u8text cs)"
proof -
  have "items (concat chs) = map Cp (concat (map hangul_nfd cs))"
    unfolding assms(2) using assms(1) nfd_valid by (intro items_u8text) auto
  then have "render (concat chs) = concat (map enc (map Cp cs))"
    by (simp add: render_def hcomp_nfd [OF assms(1)])
  also have "\<dots> = u8text cs" by (simp add: u8text_def comp_def)
  finally show ?thesis
    using mac_run_render [of txt_stream_init chs omax] assms(3,4) by (simp add: txt_stream_init_def)
qed

text \<open>
  A byte sequence that is not UTF-8 does not pass through unchanged: a lead byte followed by an
  ASCII letter, as any Latin-1 text has them, is decoded without looking at the continuation bit and
  re-encoded as another character; and at the end of the stream an incomplete sequence is dropped.
\<close>

lemma mac_text_not_transparent:
  "mac_run txt_stream_init [[CHR 0xC3, CHR ''A'']] 8192 = Some [CHR 0xC3, CHR 0x81]
   \<and> mac_run txt_stream_init [[CHR ''A'', CHR 0xE9]] 8192 = Some ''A''"
proof -
  have "mac_run txt_stream_init [x] 8192 = Some (render x)" if "length x = 2" for x
    using mac_run_render [of txt_stream_init "[x]" 8192] that by (simp add: txt_stream_init_def)
  then show ?thesis
    by (simp add: render_def items.simps u8dec_arith byte_def hcomp.simps(2) u8enc_arith char_of_def
        is_L_def is_LV_def is_S_def)
qed

end
