(* ===== verification/Liveprops.thy ===== *)
theory Liveprops
  imports Live Textstream
begin

text \<open>
  Properties of the POSIX supervisor of \<open>Live\<close>, for every schedule of ticks: what a RUN streams, that
  the loop ends, the range of its result and the discipline of its signals.
\<close>

section \<open>What a RUN streams\<close>

definition pipe_in :: "dev option \<Rightarrow> char list" where
  "pipe_in p = (case p of None \<Rightarrow> [] | Some d \<Rightarrow> dev_in d)"

lemma pipe_in_simps [simp]: "pipe_in None = []" "pipe_in (Some d) = dev_in d"
  by (simp_all add: pipe_in_def)

text \<open>\<open>carried B c fs s\<close>: the session channel has received the frames \<open>fs\<close> after what was on \<open>c\<close>.
  \<open>streamed B cvt c k s\<close>: these frames carry the conversion of the bytes taken from the child's two
  pipes, in order, up to what the conversion holds back.\<close>

definition carried :: "build \<Rightarrow> gcds_chan \<Rightarrow> (char \<times> char list) list \<Rightarrow> lstate \<Rightarrow> bool" where
  "carried B c fs s \<longleftrightarrow> (\<exists>c'. l_sess s = Some c' \<and> chan_ok c' \<and> chan_out c' = chan_out c @ frames fs)
     \<and> (\<forall>f \<in> set fs. frame_wf B f \<and> fst f \<in> {CHR ''O'', CHR ''E''})"

definition streamed :: "build \<Rightarrow> (txt_stream \<Rightarrow> char list \<Rightarrow> char list \<Rightarrow> bool) \<Rightarrow> gcds_chan \<Rightarrow> child \<Rightarrow> lstate \<Rightarrow> bool" where
  "streamed B cvt c k s \<longleftrightarrow> (\<exists>fs ao ae. carried B c fs s
     \<and> cvt (l_cvo s) ao (payload (CHR ''O'') fs) \<and> ao @ pipe_in (l_out s) = dev_in (c_out k)
     \<and> cvt (l_cve s) ae (payload (CHR ''E'') fs) \<and> ae @ pipe_in (l_err s) = dev_in (c_err k))"

text \<open>What \<open>streamed\<close> depends on.\<close>

definition same_io :: "lstate \<Rightarrow> lstate \<Rightarrow> bool" where
  "same_io s s' \<longleftrightarrow> l_out s' = l_out s \<and> l_err s' = l_err s \<and> l_cvo s' = l_cvo s \<and> l_cve s' = l_cve s
     \<and> map_option (\<lambda>c. (chan_out c, chan_ok c)) (l_sess s') = map_option (\<lambda>c. (chan_out c, chan_ok c)) (l_sess s)"

lemma carried_same: "carried B c fs s \<Longrightarrow> same_io s s' \<Longrightarrow> carried B c fs s'"
  by (auto simp: carried_def same_io_def)

lemma streamed_same: "streamed B cvt c k s \<Longrightarrow> same_io s s' \<Longrightarrow> streamed B cvt c k s'"
  unfolding streamed_def using carried_same by (fastforce simp: same_io_def)

lemma carried_snoc:
  assumes "carried B c fs s" and "l_sess s = Some c0" and "frame_wf B (tag, d)" and "tag \<in> {CHR ''O'', CHR ''E''}"
  obtains c1 where "lio_put_frame B c0 tag d = (LIO_OK, c1)"
    and "\<And>s'. l_sess s' = Some c1 \<Longrightarrow> carried B c (fs @ [(tag, d)]) s'"
proof -
  from assms(1,2) have "chan_ok c0" by (auto simp: carried_def)
  then obtain c1 where "lio_put_frame B c0 tag d = (LIO_OK, c1)" "chan_out c1 = chan_out c0 @ frame tag d" "chan_ok c1"
    using put_frame_ok [OF _ assms(3)] by metis
  with that assms show thesis by (auto simp: carried_def)
qed

lemma tick_ctl_other [simp]:
  "l_sess (tick_ctl B S G w ls busy t s) = l_sess s" "l_out (tick_ctl B S G w ls busy t s) = l_out s"
  "l_err (tick_ctl B S G w ls busy t s) = l_err s" "l_sigs (tick_ctl B S G w ls busy t s) = l_sigs s"
  "l_killed (tick_ctl B S G w ls busy t s) = l_killed s" "l_cvo (tick_ctl B S G w ls busy t s) = l_cvo s"
  "l_cve (tick_ctl B S G w ls busy t s) = l_cve s"
  by (auto simp: tick_ctl_def split: option.splits prod.splits)

lemma same_io_refl [simp]: "same_io s s" and same_io_trans: "same_io s t \<Longrightarrow> same_io t u \<Longrightarrow> same_io s u"
  by (simp_all add: same_io_def)

lemma kill_io [simp]: "same_io s (kill_child n s)" "same_io s (hardkill_child s)"
  by (simp_all add: same_io_def kill_child_def hardkill_child_def)

lemma runi_frame_io:
  assumes "runi_frame B n c line s = (b, s')" and "l_sess s = Some c"
  shows "same_io s s'"
proof -
  obtain r c' where rd: "chan_read_n c (nat (atol (drop 2 line))) = (r, c')" by (metis surj_pair)
  have "chan_out c' = chan_out c" "chan_ok c' = chan_ok c"
    using ch.rd_outp [of c "nat (atol (drop 2 line))"] ch.rd_ok [of c "nat (atol (drop 2 line))"] rd by simp_all
  then show ?thesis
    using assms rd by (auto simp: runi_frame_def Let_def same_io_def kill_child_def
        split: if_splits option.splits prod.splits)
qed

lemma tick_sess_io:
  assumes "tick_sess B mode t s = (b, s')"
  shows "same_io s s' \<and> (\<not> b \<longrightarrow> t_sess t)"
proof (cases "l_sess s")
  case (Some c)
  obtain r raw c' where g: "lio_get_line c GCDSP_LINE_MAX = (r, raw, c')" by (metis surj_pair)
  have 1: "same_io s (s\<lparr>l_sess := Some c'\<rparr>)" using Some lio_get_line_view [OF g] by (simp add: same_io_def)
  then show ?thesis
    using assms Some g runi_frame_io [of B "t_now t" c' "cstr raw" "s\<lparr>l_sess := Some c'\<rparr>" b s']
    by (auto simp: tick_sess_def Let_def split: if_splits intro: same_io_trans)
qed (use assms in \<open>simp add: tick_sess_def\<close>)

lemma tick_end_io:
  "mode \<noteq> LIVE_JOB \<Longrightarrow> tick_end G mode t s = Next s' \<Longrightarrow> same_io s s'"
  "mode \<noteq> LIVE_JOB \<Longrightarrow> tick_end G mode t s = Done s' \<Longrightarrow> same_io s s' \<and> l_out s' = None \<and> l_err s' = None"
  by (auto simp: tick_end_def Let_def tick_escalate_def tick_job_cap_def hardkill_child_def same_io_def
      split: if_splits)

context text_stream
begin

lemma streamed_init:
  "chan_ok c \<Longrightarrow> mode \<noteq> LIVE_JOB \<Longrightarrow> streamed B cvt c k (lstate_init mode (Some c) k)"
  unfolding streamed_def using cvt_init
  by (intro exI [of _ "[]"]) (auto simp: carried_def lstate_init_def)

text \<open>A piece read from a pipe becomes at most one frame of its tag.\<close>

lemma pump_send_step:
  assumes "carried B c fs s" and "tag \<in> {CHR ''O'', CHR ''E''}" and "length buf \<le> 1024" and "buf \<noteq> []"
    and "cvt (if tag = CHR ''O'' then l_cvo s else l_cve s) a (payload tag fs)"
  obtains s' d cv where "pump_send B T tag buf s = (0, s')" and "carried B c (fs @ d) s'"
    and "payload tag (fs @ d) = payload tag fs @ payload tag d" and "\<And>u. u \<noteq> tag \<Longrightarrow> payload u (fs @ d) = payload u fs"
    and "cvt cv (a @ buf) (payload tag (fs @ d))"
    and "l_cvo s' = (if tag = CHR ''O'' then cv else l_cvo s)" and "l_cve s' = (if tag = CHR ''O'' then l_cve s else cv)"
    and "l_out s' = l_out s" and "l_err s' = l_err s"
proof -
  let ?cv = "if tag = CHR ''O'' then l_cvo s else l_cve s"
  obtain c0 where c0: "l_sess s = Some c0" using assms(1) by (auto simp: carried_def)
  obtain d cv where d: "tx_out B T ?cv buf = (Some d, cv)" "cvt cv (a @ buf) (payload tag fs @ d)"
    "int (length d) \<le> GCDSP_FRAME_MAX B" using cvt_step [OF assms(5,3)] by blast
  define s1 where "s1 = (if tag = CHR ''O'' then s\<lparr>l_cvo := cv\<rparr> else s\<lparr>l_cve := cv\<rparr>)"
  have act: "txt_active T \<Longrightarrow> txt_out T ?cv buf (2 * GCDSP_FRAME_MAX B) = (Some d, cv)"
    and inact: "\<not> txt_active T \<Longrightarrow> d = buf \<and> cv = ?cv"
    using d(1) by (simp_all add: tx_out_def split: if_splits)
  have s1: "\<not> txt_active T \<Longrightarrow> s1 = s" using inact by (simp add: s1_def split: if_splits)
  show thesis
  proof (cases "d = []")
    case True
    then have "txt_active T" using inact assms(4) by blast
    then have "pump_send B T tag buf s = (0, s1)"
      using c0 act True by (simp add: pump_send_def s1_def)
    with True d(2) assms(1) that [of s1 "[]" cv] show thesis
      by (auto simp: s1_def carried_def)
  next
    case False
    then have wf: "frame_wf B (tag, d)" using d(3) by (simp add: frame_wf_def)
    obtain c1 where c1: "lio_put_frame B c0 tag d = (LIO_OK, c1)"
      "\<And>s'. l_sess s' = Some c1 \<Longrightarrow> carried B c (fs @ [(tag, d)]) s'"
      using carried_snoc [OF assms(1) c0 wf assms(2)] by blast
    have "pump_send B T tag buf s = (0, s1\<lparr>l_sess := Some c1\<rparr>)"
      using c0 act inact s1 c1(1) False by (cases "txt_active T") (simp_all add: pump_send_def s1_def)
    then show thesis
      using d(2) that [of "s1\<lparr>l_sess := Some c1\<rparr>" "[(tag, d)]" cv] c1(2) by (auto simp: s1_def)
  qed
qed

lemma tick_out_streamed:
  assumes "streamed B cvt c k s" and "0 < chunk" and "chunk \<le> 1024" and "tick_out B T chunk t s = (b, s')"
  shows "b \<and> streamed B cvt c k s'"
proof (cases "l_out s = None \<or> \<not> t_out t")
  case True
  with assms show ?thesis by (auto simp: tick_out_def split: option.splits)
next
  case False
  then obtain d where d: "l_out s = Some d" and t: "t_out t" by auto
  obtain fs ao ae where st: "carried B c fs s" "cvt (l_cvo s) ao (payload (CHR ''O'') fs)" "ao @ dev_in d = dev_in (c_out k)"
    "cvt (l_cve s) ae (payload (CHR ''E'') fs)" "ae @ pipe_in (l_err s) = dev_in (c_err k)"
    using assms(1) d by (auto simp: streamed_def)
  obtain buf d' where r: "dev_recv d chunk = (buf, d')" by (metis surj_pair)
  note v = dev_recv_view [OF assms(2), of d, unfolded r fst_conv snd_conv]
  let ?s = "s\<lparr>l_out := Some d', l_total := l_total s + int (length buf)\<rparr>"
  show ?thesis
  proof (cases "buf = []")
    case True
    then have "b" "s' = s\<lparr>l_out := None\<rparr>" using assms(4) d t r by (simp_all add: tick_out_def pump_out_def)
    moreover have "ao @ [] = dev_in (c_out k)" using True v(2) st(3) by simp
    ultimately show ?thesis using st by (auto simp: streamed_def carried_def)
  next
    case False
    have "length buf \<le> 1024" using dev_recv_le [of d chunk] r assms(3) by simp
    moreover have "carried B c fs ?s" using st(1) by (simp add: carried_def)
    ultimately obtain s1 e cv where p: "pump_send B T (CHR ''O'') buf ?s = (0, s1)" "carried B c (fs @ e) s1"
      "payload (CHR ''E'') (fs @ e) = payload (CHR ''E'') fs" "cvt cv (ao @ buf) (payload (CHR ''O'') (fs @ e))"
      "l_cvo s1 = cv" "l_cve s1 = l_cve s" "l_out s1 = Some d'" "l_err s1 = l_err s"
      by - (rule pump_send_step [of c fs ?s "CHR ''O''" buf ao]; use False st(2) in simp)
    have "b" "s' = s1" using assms(4) d t r False p(1) by (simp_all add: tick_out_def pump_out_def)
    moreover have "streamed B cvt c k s1"
      unfolding streamed_def using p st v(1) by (intro exI [of _ "fs @ e"] exI [of _ "ao @ buf"] exI [of _ ae]) simp
    ultimately show ?thesis by simp
  qed
qed

lemma tick_err_streamed:
  assumes "streamed B cvt c k s" and "0 < chunk" and "chunk \<le> 1024" and "tick_err B T chunk t s = (b, s')"
  shows "b \<and> streamed B cvt c k s'"
proof (cases "l_err s = None \<or> \<not> t_err t")
  case True
  with assms show ?thesis by (auto simp: tick_err_def split: option.splits)
next
  case False
  then obtain d where d: "l_err s = Some d" and t: "t_err t" by auto
  obtain fs ao ae where st: "carried B c fs s" "cvt (l_cve s) ae (payload (CHR ''E'') fs)" "ae @ dev_in d = dev_in (c_err k)"
    "cvt (l_cvo s) ao (payload (CHR ''O'') fs)" "ao @ pipe_in (l_out s) = dev_in (c_out k)"
    using assms(1) d by (auto simp: streamed_def)
  obtain buf d' where r: "dev_recv d chunk = (buf, d')" by (metis surj_pair)
  note v = dev_recv_view [OF assms(2), of d, unfolded r fst_conv snd_conv]
  let ?s = "s\<lparr>l_err := Some d', l_total := l_total s + int (length buf)\<rparr>"
  show ?thesis
  proof (cases "buf = []")
    case True
    then have "b" "s' = s\<lparr>l_err := None\<rparr>" using assms(4) d t r by (simp_all add: tick_err_def pump_err_def)
    moreover have "ae @ [] = dev_in (c_err k)" using True v(2) st(3) by simp
    ultimately show ?thesis using st by (auto simp: streamed_def carried_def)
  next
    case False
    have "length buf \<le> 1024" using dev_recv_le [of d chunk] r assms(3) by simp
    moreover have "carried B c fs ?s" using st(1) by (simp add: carried_def)
    ultimately obtain s1 e cv where p: "pump_send B T (CHR ''E'') buf ?s = (0, s1)" "carried B c (fs @ e) s1"
      "payload (CHR ''O'') (fs @ e) = payload (CHR ''O'') fs" "cvt cv (ae @ buf) (payload (CHR ''E'') (fs @ e))"
      "l_cve s1 = cv" "l_cvo s1 = l_cvo s" "l_err s1 = Some d'" "l_out s1 = l_out s"
      by - (rule pump_send_step [of c fs ?s "CHR ''E''" buf ae]; use False st(2) in simp)
    have "b" "s' = s1" using assms(4) d t r False p(1) by (simp_all add: tick_err_def pump_err_def)
    moreover have "streamed B cvt c k s1"
      unfolding streamed_def using p st v(1) by (intro exI [of _ "fs @ e"] exI [of _ ao] exI [of _ "ae @ buf"]) simp
    ultimately show ?thesis by simp
  qed
qed

lemma live_tick_streamed:
  assumes "streamed B cvt c k s" and "0 < chunk" and "chunk \<le> 1024" and "g_maxout G \<le> 0" and "mode \<noteq> LIVE_JOB"
  shows "live_tick B S T G w mode ls busy chunk t s = Next s' \<Longrightarrow> streamed B cvt c k s'"
    and "live_tick B S T G w mode ls busy chunk t s = Done s' \<Longrightarrow>
      streamed B cvt c k s' \<and> l_out s' = None \<and> l_err s' = None"
    and "live_tick B S T G w mode ls busy chunk t s = Lost s' \<Longrightarrow> t_sess t"
proof -
  define s0 where "s0 = tick_ctl B S G w ls busy t s"
  have z: "streamed B cvt c k s0"
    unfolding s0_def by (rule streamed_same [OF assms(1)]) (simp add: same_io_def)
  obtain b1 s1 where 1: "tick_out B T chunk t s0 = (b1, s1)" by (metis surj_pair)
  obtain b2 s2 where 2: "tick_err B T chunk t s1 = (b2, s2)" by (metis surj_pair)
  obtain b3 s3 where 3: "tick_sess B mode t s2 = (b3, s3)" by (metis surj_pair)
  have k1: "b1" "streamed B cvt c k s1" using tick_out_streamed [OF z assms(2,3) 1] by simp_all
  have k2: "b2" "streamed B cvt c k s2" using tick_err_streamed [OF k1(2) assms(2,3) 2] by simp_all
  have k3: "streamed B cvt c k s3" "\<not> b3 \<longrightarrow> t_sess t" using streamed_same [OF k2(2)] tick_sess_io [OF 3] by simp_all
  have cap: "tick_cap B G t s2 = s2" using assms(4) by (simp add: tick_cap_def)
  have eq: "live_tick B S T G w mode ls busy chunk t s = (if \<not> b3 then Lost s3 else tick_end G mode t s3)"
    using k1(1) k2(1) assms(5) unfolding live_tick_def Let_def s0_def [symmetric] 1 2 by (simp add: 2 cap 3)
  show "live_tick B S T G w mode ls busy chunk t s = Next s' \<Longrightarrow> streamed B cvt c k s'"
    "live_tick B S T G w mode ls busy chunk t s = Done s' \<Longrightarrow>
      streamed B cvt c k s' \<and> l_out s' = None \<and> l_err s' = None"
    "live_tick B S T G w mode ls busy chunk t s = Lost s' \<Longrightarrow> t_sess t"
    using tick_end_io [OF assms(5)] streamed_same [OF k3(1), of s'] k3(2) tick_end_keeps(3) unfolding eq
    by (auto split: if_splits)
qed

text \<open>At the end of file of both pipes the tails complete the conversion.\<close>

lemma cv_flush_one_step:
  assumes "carried B c fs s" and "l_sess s = Some c0" and "tag \<in> {CHR ''O'', CHR ''E''}" and "txt_active T"
    and "cvt cv a (payload tag fs)"
  obtains c1 d where "cv_flush_one B T tag cv c0 = (True, c1)" and "\<And>s'. l_sess s' = Some c1 \<Longrightarrow> carried B c (fs @ d) s'"
    and "payload tag (fs @ d) = wire a" and "\<And>u. u \<noteq> tag \<Longrightarrow> payload u (fs @ d) = payload u fs"
proof -
  obtain d where d: "tx_tail B T cv = Some d" "payload tag fs @ d = wire a" "int (length d) \<le> GCDSP_FRAME_MAX B"
    using cvt_end [OF assms(5)] by blast
  then have fl: "fst (txt_flush T cv (2 * GCDSP_FRAME_MAX B)) = Some d" using assms(4) by (simp add: tx_tail_def)
  show thesis
  proof (cases "d = []")
    case True
    with fl d assms that [of c0 "[]"] show thesis by (auto simp: cv_flush_one_def carried_def)
  next
    case False
    then have wf: "frame_wf B (tag, d)" using d(3) by (simp add: frame_wf_def)
    obtain c1 where "lio_put_frame B c0 tag d = (LIO_OK, c1)"
      "\<And>s'. l_sess s' = Some c1 \<Longrightarrow> carried B c (fs @ [(tag, d)]) s'"
      using carried_snoc [OF assms(1,2) wf assms(3)] by blast
    with fl d False that [of c1 "[(tag, d)]"] show thesis by (simp add: cv_flush_one_def)
  qed
qed

lemma tails_streamed:
  assumes "streamed B cvt c k s" and "l_out s = None" and "l_err s = None"
  obtains c0 c1 c2 fs where "l_sess s = Some c0"
    and "txt_active T \<Longrightarrow> cv_flush_one B T (CHR ''O'') (l_cvo s) c0 = (True, c1)"
    and "txt_active T \<Longrightarrow> cv_flush_one B T (CHR ''E'') (l_cve s) c1 = (True, c2)"
    and "carried B c fs (if txt_active T then s\<lparr>l_sess := Some c2\<rparr> else s)"
    and "payload (CHR ''O'') fs = wire (dev_in (c_out k))" and "payload (CHR ''E'') fs = wire (dev_in (c_err k))"
proof -
  obtain fs where st: "carried B c fs s" "cvt (l_cvo s) (dev_in (c_out k)) (payload (CHR ''O'') fs)"
    "cvt (l_cve s) (dev_in (c_err k)) (payload (CHR ''E'') fs)" using assms by (auto simp: streamed_def)
  obtain c0 where c0: "l_sess s = Some c0" using st(1) by (auto simp: carried_def)
  show thesis
  proof (cases "txt_active T")
    case False
    then have "tx_tail B T cv = Some []" for cv by (simp add: tx_tail_def)
    with cvt_end [OF st(2)] cvt_end [OF st(3)]
    have "payload (CHR ''O'') fs = wire (dev_in (c_out k))" "payload (CHR ''E'') fs = wire (dev_in (c_err k))" by auto
    with False st(1) c0 that [of c0 c0 c0 fs] show thesis by simp
  next
    case True
    obtain c1 d where o: "cv_flush_one B T (CHR ''O'') (l_cvo s) c0 = (True, c1)"
      "\<And>s'. l_sess s' = Some c1 \<Longrightarrow> carried B c (fs @ d) s'" "payload (CHR ''O'') (fs @ d) = wire (dev_in (c_out k))"
      "\<And>u. u \<noteq> CHR ''O'' \<Longrightarrow> payload u (fs @ d) = payload u fs"
      by (rule cv_flush_one_step [OF st(1) c0 _ True st(2)]) auto
    let ?s = "s\<lparr>l_sess := Some c1\<rparr>"
    have e: "cvt (l_cve s) (dev_in (c_err k)) (payload (CHR ''E'') (fs @ d))" using st(3) o(4) by simp
    obtain c2 d2 where f: "cv_flush_one B T (CHR ''E'') (l_cve s) c1 = (True, c2)"
      "\<And>s'. l_sess s' = Some c2 \<Longrightarrow> carried B c ((fs @ d) @ d2) s'"
      "payload (CHR ''E'') ((fs @ d) @ d2) = wire (dev_in (c_err k))"
      "\<And>u. u \<noteq> CHR ''E'' \<Longrightarrow> payload u ((fs @ d) @ d2) = payload u (fs @ d)"
      by (rule cv_flush_one_step [OF o(2) [of ?s] _ _ True e]) auto
    show thesis by (rule that [OF c0 o(1) f(1), of "(fs @ d) @ d2"]) (use f(2-4) o(3) True in auto)
  qed
qed

lemma cv_flush_all_streamed:
  assumes "streamed B cvt c k s" and "l_out s = None" and "l_err s = None"
  obtains fs where "carried B c fs (cv_flush_all B T s)"
    and "payload (CHR ''O'') fs = wire (dev_in (c_out k))" and "payload (CHR ''E'') fs = wire (dev_in (c_err k))"
proof (rule tails_streamed [OF assms], goal_cases)
  case (1 c0 c1 c2 fs)
  then have "cv_flush_all B T s = (if txt_active T then s\<lparr>l_sess := Some c2\<rparr> else s)" by (simp add: cv_flush_all_def)
  with 1 that [of fs] show ?case by simp
qed

lemma live_loop_streamed:
  assumes "live_loop B S T G w mode ls busy chunk status ts s = Some (code, s', ts')"
    and "streamed B cvt c k s" and "0 < chunk" and "chunk \<le> 1024" and "g_maxout G \<le> 0" and "mode \<noteq> LIVE_JOB"
  shows "code = -2 \<and> (\<exists>t \<in> set ts. t_sess t) \<or>
    code = status_code status \<and> (\<exists>fs. carried B c fs s' \<and> payload (CHR ''O'') fs = wire (dev_in (c_out k))
      \<and> payload (CHR ''E'') fs = wire (dev_in (c_err k)))"
  using assms(1,2)
proof (induction ts arbitrary: s)
  case (Cons t ts)
  note tk = live_tick_streamed [OF Cons.prems(2) assms(3-6), of S w ls busy t]
  show ?case
  proof (cases "live_tick B S T G w mode ls busy chunk t s")
    case (Next s1)
    with Cons tk(1) [OF Next] show ?thesis by auto
  next
    case (Lost s1)
    with Cons.prems(1) tk(3) [OF Lost] show ?thesis by auto
  next
    case (Done s1)
    obtain fs where fs: "carried B c fs (cv_flush_all B T s1)"
      "payload (CHR ''O'') fs = wire (dev_in (c_out k))" "payload (CHR ''E'') fs = wire (dev_in (c_err k))"
      using cv_flush_all_streamed tk(2) [OF Done] by metis
    have "code = status_code status" "s' = (cv_flush_all B T s1)\<lparr>l_inp := None\<rparr>" using Done Cons.prems(1) by auto
    with fs show ?thesis by (auto simp: carried_def)
  qed
qed simp

text \<open>The whole execution: the frames of a supervised command carry the conversion of its output.\<close>

lemma live_exec_streams:
  assumes "live_exec B S T G mode (Some c) ls cmd env outf errf jid w ts = Some (code, x, w', ts', sg)"
    and "mode \<noteq> LIVE_JOB" and "g_maxout G \<le> 0" and "chan_ok c"
    and "build_script SCRIPT_MAX cmd env = Some scr" and "os_fork S scr w = Some k"
  shows "code = -2 \<and> (\<exists>t \<in> set ts. t_sess t) \<or>
    code = status_code (c_status k) \<and> w' = c_after k \<and>
    (\<exists>c' fs. x = Some c' \<and> chan_ok c' \<and> chan_out c' = chan_out c @ frames fs
      \<and> (\<forall>f \<in> set fs. frame_wf B f \<and> fst f \<in> {CHR ''O'', CHR ''E''})
      \<and> payload (CHR ''O'') fs = wire (dev_in (c_out k)) \<and> payload (CHR ''E'') fs = wire (dev_in (c_err k)))"
proof -
  have ch: "0 < nat (chan_chunk c)" "nat (chan_chunk c) \<le> 1024" by (auto simp: chan_chunk_def)
  from assms(1,2,5,6) obtain s where l:
    "live_loop B S T G w mode ls 0 (nat (chan_chunk c)) (c_status k) ts (lstate_init mode (Some c) k) = Some (code, s, ts')"
    "x = l_sess s" "w' = c_after k"
    by (auto simp: live_exec_def split: option.splits prod.splits)
  from live_loop_streamed [OF l(1) streamed_init [OF assms(4,2)] ch assms(3,2)] l(2,3) show ?thesis
    by (auto simp: carried_def)
qed

end

section \<open>The loop ends\<close>

definition need :: "dev option \<Rightarrow> nat" where
  "need p = (case p of None \<Rightarrow> 0 | Some d \<Rightarrow> length (dev_in d) + 1)"

lemma dev_recv_need:
  assumes "0 < chunk" and "dev_recv d chunk = (buf, d')" and "buf \<noteq> []"
  shows "length (dev_in d') < length (dev_in d)"
  using dev_recv_view(1) [OF assms(1), of d] assms(2,3) by simp

lemma pump_send_pipes:
  "pump_send B T tag buf s = (r, s') \<Longrightarrow> l_out s' = l_out s \<and> l_err s' = l_err s"
  by (auto simp: pump_send_def Let_def split: option.splits if_splits prod.splits)

lemma tick_out_need:
  assumes "tick_out B T chunk t s = (b, s')" and "0 < chunk"
  shows "l_err s' = l_err s \<and> need (l_out s') \<le> need (l_out s) - (if t_out t then 1 else 0)"
  using assms dev_recv_need [OF assms(2)]
  by (fastforce simp: tick_out_def pump_out_def need_def split: option.splits if_splits prod.splits
      dest!: pump_send_pipes)

lemma tick_err_need:
  assumes "tick_err B T chunk t s = (b, s')" and "0 < chunk"
  shows "l_out s' = l_out s \<and> need (l_err s') \<le> need (l_err s) - (if t_err t then 1 else 0)"
  using assms dev_recv_need [OF assms(2)]
  by (fastforce simp: tick_err_def pump_err_def need_def split: option.splits if_splits prod.splits
      dest!: pump_send_pipes)

lemma tick_sess_pipes:
  "tick_sess B mode t s = (b, s') \<Longrightarrow> l_out s' = l_out s \<and> l_err s' = l_err s"
  by (auto simp: tick_sess_def runi_frame_def Let_def kill_child_def split: option.splits if_splits prod.splits)

lemma tick_cap_pipes [simp]: "l_out (tick_cap B G t s) = l_out s" "l_err (tick_cap B G t s) = l_err s"
  by (simp_all add: tick_cap_def)

lemma tick_end_pipes:
  "tick_end G mode t s = Next s' \<Longrightarrow> mode \<noteq> LIVE_JOB \<Longrightarrow>
     l_out s' = l_out s \<and> l_err s' = l_err s \<and> (l_out s' \<noteq> None \<or> l_err s' \<noteq> None)"
  by (auto simp: tick_end_def Let_def tick_escalate_def tick_job_cap_def split: if_splits)

lemma live_tick_need:
  assumes "live_tick B S T G w mode ls busy chunk t s = Next s'" and "mode \<noteq> LIVE_JOB" and "0 < chunk"
  shows "need (l_out s') \<le> need (l_out s) - (if t_out t then 1 else 0)
    \<and> need (l_err s') \<le> need (l_err s) - (if t_err t then 1 else 0) \<and> 0 < need (l_out s') + need (l_err s')"
proof -
  define s0 where "s0 = tick_ctl B S G w ls busy t s"
  obtain b1 s1 where 1: "tick_out B T chunk t s0 = (b1, s1)" by (metis surj_pair)
  obtain b2 s2 where 2: "tick_err B T chunk t s1 = (b2, s2)" by (metis surj_pair)
  obtain b3 s3 where 3: "tick_sess B mode t (tick_cap B G t s2) = (b3, s3)" by (metis surj_pair)
  have "tick_end G mode t s3 = Next s'"
    using assms(1,2) unfolding live_tick_def Let_def s0_def [symmetric] by (auto simp: 1 2 3 split: if_splits)
  then show ?thesis
    using tick_out_need [OF 1 assms(3)] tick_err_need [OF 2 assms(3)] tick_sess_pipes [OF 3]
      tick_end_pipes [of G mode t s3 s'] assms(2)
    by (auto simp: s0_def need_def split: option.splits)
qed

lemma live_loop_returns:
  assumes "mode \<noteq> LIVE_JOB" and "0 < chunk"
    and "need (l_out s) \<le> length (filter t_out ts)" and "need (l_err s) \<le> length (filter t_err ts)"
    and "0 < need (l_out s) + need (l_err s)"
  shows "\<exists>r. live_loop B S T G w mode ls busy chunk status ts s = Some r"
  using assms(3-5)
proof (induction ts arbitrary: s)
  case (Cons t ts)
  show ?case
  proof (cases "live_tick B S T G w mode ls busy chunk t s")
    case (Next s1)
    note n = live_tick_need [OF Next assms(1,2)]
    have "\<exists>r. live_loop B S T G w mode ls busy chunk status ts s1 = Some r"
      using n Cons.prems by (intro Cons.IH) (auto split: if_splits)
    with Next show ?thesis by simp
  qed simp_all
qed simp

lemma live_job_returns:
  "\<exists>t \<in> set ts. t_dead t \<Longrightarrow> \<exists>r. live_loop B S T G w LIVE_JOB ls busy chunk status ts s = Some r"
proof (induction ts arbitrary: s)
  case (Cons t ts)
  show ?case
  proof (cases "t_dead t")
    case True
    then show ?thesis by (simp add: live_tick_def tick_end_def Let_def)
  next
    case False
    with Cons show ?thesis by (auto split: round.splits)
  qed
qed simp

lemma chunk_pos: "0 < nat (chan_chunk c)"
  by (simp add: chan_chunk_def)

section \<open>Signals\<close>

text \<open>The child is asked to terminate once and killed only after that.\<close>

definition sig_inv :: "lstate \<Rightarrow> bool" where
  "sig_inv s \<longleftrightarrow> (if l_killed s = 0 then l_sigs s = [] else \<exists>n. l_sigs s = SIGTERM # replicate n SIGKILL)"

definition same_sig :: "lstate \<Rightarrow> lstate \<Rightarrow> bool" where
  "same_sig s s' \<longleftrightarrow> l_killed s' = l_killed s \<and> l_sigs s' = l_sigs s"

lemma sig_inv_same: "sig_inv s \<Longrightarrow> same_sig s s' \<Longrightarrow> sig_inv s'"
  by (simp add: sig_inv_def same_sig_def)

lemma sig_inv_kill: "sig_inv s \<Longrightarrow> sig_inv (kill_child n s)"
  by (auto simp: sig_inv_def kill_child_def intro: exI [of _ 0])

lemma sig_inv_hardkill: "sig_inv s \<Longrightarrow> l_killed s \<noteq> 0 \<Longrightarrow> sig_inv (hardkill_child s)"
  by (auto simp: sig_inv_def hardkill_child_def) (metis replicate_Suc replicate_append_same)

lemma sig_inv_both: "sig_inv s \<Longrightarrow> sig_inv (hardkill_child (kill_child n s))"
  by (rule sig_inv_hardkill) (simp_all add: sig_inv_kill, simp add: kill_child_def)

lemma pump_sigs:
  "pump_send B T tag buf s = (r, s') \<Longrightarrow> same_sig s s'"
  by (auto simp: pump_send_def Let_def same_sig_def split: option.splits if_splits prod.splits)

lemma tick_pump_sigs:
  "tick_out B T chunk t s = (b, s') \<Longrightarrow> same_sig s s'" "tick_err B T chunk t s = (b, s') \<Longrightarrow> same_sig s s'"
  by (fastforce simp: tick_out_def tick_err_def pump_out_def pump_err_def same_sig_def
      dest!: pump_sigs split: option.splits if_splits prod.splits)+

lemma tick_cap_sigs: "sig_inv s \<Longrightarrow> sig_inv (tick_cap B G t s)"
  using sig_inv_both [of "s\<lparr>l_capped := True, l_sess := x\<rparr>" for x] sig_inv_same
  by (auto simp: tick_cap_def same_sig_def)

lemma tick_sess_sigs: "tick_sess B mode t s = (b, s') \<Longrightarrow> sig_inv s \<Longrightarrow> sig_inv s'"
  by (auto simp: tick_sess_def runi_frame_def Let_def sig_inv_kill sig_inv_same same_sig_def
      split: option.splits if_splits prod.splits)

lemma tick_end_sigs:
  assumes "sig_inv s" and "tick_end G mode t s \<in> {Next s', Done s'}"
  shows "sig_inv s'"
proof -
  have "sig_inv (tick_job_cap G mode t s)"
    using sig_inv_both [of "s\<lparr>l_capped := True\<rparr>"] assms(1) sig_inv_same [OF assms(1), of "s\<lparr>l_capped := True\<rparr>"]
    by (auto simp: tick_job_cap_def same_sig_def)
  then have "sig_inv (tick_escalate t (tick_job_cap G mode t s))" (is "sig_inv ?e")
    using sig_inv_hardkill [of "tick_job_cap G mode t s"]
    by (auto simp: tick_escalate_def sig_inv_def hardkill_child_def)
  moreover have "same_sig ?e s'" using assms(2) by (auto simp: tick_end_def Let_def same_sig_def split: if_splits)
  ultimately show ?thesis by (rule sig_inv_same)
qed

lemma live_tick_sigs:
  assumes "sig_inv s" and "live_tick B S T G w mode ls busy chunk t s \<in> {Next s', Lost s', Done s'}"
  shows "sig_inv s'"
proof -
  define s0 where "s0 = tick_ctl B S G w ls busy t s"
  obtain b1 s1 where 1: "tick_out B T chunk t s0 = (b1, s1)" by (metis surj_pair)
  obtain b2 s2 where 2: "tick_err B T chunk t s1 = (b2, s2)" by (metis surj_pair)
  obtain b3 s3 where 3: "tick_sess B mode t (tick_cap B G t s2) = (b3, s3)" by (metis surj_pair)
  have k0: "sig_inv s0" using assms(1) by (simp add: s0_def sig_inv_def)
  have k1: "sig_inv s1" using sig_inv_same [OF k0 tick_pump_sigs(1) [OF 1]] .
  have k2: "sig_inv s2" using sig_inv_same [OF k1 tick_pump_sigs(2) [OF 2]] .
  have k3: "sig_inv s3" using tick_sess_sigs [OF 3 tick_cap_sigs [OF k2]] .
  have e: "tick_end G mode t x \<in> {Next s', Lost s', Done s'} \<Longrightarrow> sig_inv x \<Longrightarrow> sig_inv s'" for x
    using tick_end_sigs [of x G mode t s'] tick_end_keeps(3) by auto
  from assms(2) show ?thesis
    using k1 k2 k3 e [OF _ k0] e [OF _ k3] unfolding live_tick_def Let_def s0_def [symmetric]
    by (auto simp: 1 2 3 split: if_splits)
qed

lemma live_lost_sigs:
  assumes "sig_inv s"
  shows "\<exists>n. l_sigs (live_lost s) = SIGTERM # replicate (Suc n) SIGKILL"
proof -
  have "\<exists>n. l_sigs (kill_child 0 s) = SIGTERM # replicate n SIGKILL"
    using sig_inv_kill [OF assms, of 0] by (auto simp: sig_inv_def kill_child_def split: if_splits)
  then show ?thesis by (auto simp: live_lost_def hardkill_child_def replicate_append_same)
qed

lemma cv_flush_all_sigs [simp]: "l_sigs (cv_flush_all B T s) = l_sigs s" "l_killed (cv_flush_all B T s) = l_killed s"
  by (auto simp: cv_flush_all_def split: option.splits prod.splits)

lemma live_loop_sigs:
  assumes "live_loop B S T G w mode ls busy chunk status ts s = Some (code, s', ts')" and "sig_inv s"
  shows "code = -2 \<and> (\<exists>n. l_sigs s' = SIGTERM # replicate (Suc n) SIGKILL) \<or>
    code = status_code status \<and> (l_sigs s' = [] \<or> (\<exists>n. l_sigs s' = SIGTERM # replicate n SIGKILL))"
  using assms
proof (induction ts arbitrary: s)
  case (Cons t ts)
  show ?case
  proof (cases "live_tick B S T G w mode ls busy chunk t s")
    case (Next s1)
    with Cons live_tick_sigs [OF Cons.prems(2), of B S T G w mode ls busy chunk t s1] show ?thesis by simp
  next
    case (Lost s1)
    with Cons.prems live_tick_sigs [OF Cons.prems(2), of B S T G w mode ls busy chunk t s1] live_lost_sigs [of s1]
    show ?thesis by simp
  next
    case (Done s1)
    then have "sig_inv s1" using live_tick_sigs [OF Cons.prems(2), of B S T G w mode ls busy chunk t s1] by simp
    with Done Cons.prems(1) show ?thesis by (auto simp: sig_inv_def split: if_splits)
  qed
qed simp

section \<open>A RUN does not read the session's input\<close>

lemma tick_sess_run_keeps: "tick_sess B LIVE_RUN t s = (b, s') \<Longrightarrow> keeps s s'"
  by (auto simp: tick_sess_def split: option.splits if_splits)

lemma live_tick_keeps:
  assumes "live_tick B S T G w LIVE_RUN ls busy chunk t s \<in> {Next s', Lost s', Done s'}"
  shows "keeps s s'"
proof -
  define s0 where "s0 = tick_ctl B S G w ls busy t s"
  obtain b1 s1 where 1: "tick_out B T chunk t s0 = (b1, s1)" by (metis surj_pair)
  obtain b2 s2 where 2: "tick_err B T chunk t s1 = (b2, s2)" by (metis surj_pair)
  obtain b3 s3 where 3: "tick_sess B LIVE_RUN t (tick_cap B G t s2) = (b3, s3)" by (metis surj_pair)
  have k0: "keeps s s0" unfolding s0_def by (rule tick_ctl_keeps)
  have k1: "keeps s s1" using k0 tick_pump_keeps(1) [OF 1] by (rule keeps_trans)
  have k2: "keeps s s2" using k1 tick_pump_keeps(2) [OF 2] by (rule keeps_trans)
  have k3: "keeps s s3" using k2 keeps_trans [OF tick_cap_keeps tick_sess_run_keeps [OF 3]] by (rule keeps_trans)
  have e: "tick_end G LIVE_RUN t s3 \<in> {Next s', Lost s', Done s'} \<Longrightarrow> keeps s s'"
    using tick_end_keeps keeps_trans [OF k3] by auto
  from assms show ?thesis
    using k1 k2 k3 e unfolding live_tick_def Let_def s0_def [symmetric] by (auto simp: 1 2 3 split: if_splits)
qed

lemma live_loop_keeps:
  "live_loop B S T G w LIVE_RUN ls busy chunk status ts s = Some (code, s', ts') \<Longrightarrow> keeps s s'"
proof (induction ts arbitrary: s)
  case (Cons t ts)
  show ?case
  proof (cases "live_tick B S T G w LIVE_RUN ls busy chunk t s")
    case (Next s1)
    with Cons live_tick_keeps [of B S T G w ls busy chunk t s s1] keeps_trans show ?thesis by auto
  next
    case (Lost s1)
    with Cons.prems live_tick_keeps [of B S T G w ls busy chunk t s s1] keeps_trans [OF _ live_lost_keeps] show ?thesis by auto
  next
    case (Done s1)
    have "keeps s1 ((cv_flush_all B T s1)\<lparr>l_inp := None\<rparr>)" using cv_flush_all_keeps [of s1 B T] by (simp add: keeps_def)
    with Done Cons.prems live_tick_keeps [of B S T G w ls busy chunk t s s1] keeps_trans show ?thesis by auto
  qed
qed simp

lemma live_run_keeps:
  assumes "live_exec B S T G LIVE_RUN (Some c) ls cmd env outf errf jid w ts = Some (code, x, w', ts', sg)"
  obtains c' where "x = Some c'" "chan_in c' = chan_in c"
proof -
  have "keeps (lstate_init LIVE_RUN (Some c) k) s' \<Longrightarrow> \<exists>c'. l_sess s' = Some c' \<and> chan_in c' = chan_in c"
    for k s' by (auto simp: keeps_def lstate_init_def sess_in_def split: option.splits)
  with assms that show thesis
    by (fastforce simp: live_exec_def split: option.splits prod.splits dest: live_loop_keeps)
qed

section \<open>Properties\<close>

text \<open>A child that prints on both pipes, for the examples.\<close>

definition demo_dev :: "char list list \<Rightarrow> dev" where
  "demo_dev segs = \<lparr>rx = segs, tx = [], wlim = []\<rparr>"

definition demo_child :: child where
  "demo_child = \<lparr>c_out = demo_dev [''hi''], c_err = demo_dev [''warn''], c_in = demo_dev [], c_status = 256,
     c_after = demo_world\<rparr>"

definition live_os :: os where
  "live_os = demo_os\<lparr>os_fork := (\<lambda>s w. Some demo_child)\<rparr>"

definition demo_cfg :: sess_cfg where
  "demo_cfg = \<lparr>g_token = ''tok'', g_async = True, g_live = True, g_ix = True, g_allow = [], g_maxout = 0,
     g_outf = ''o'', g_errf = ''e'', g_rof = ''ro'', g_ref = ''re''\<rparr>"

definition demo_tick :: tick where
  "demo_tick = \<lparr>t_ctl = None, t_out = True, t_err = True, t_sess = False, t_size = 0, t_now = 0, t_dead = True\<rparr>"

text \<open>
  A supervised command streams exactly its output.  For every schedule of the system, when the
  execution of a RUN or RUNI command on a build without text conversion returns, either the session
  sent something or went away during the run, or the return value is the exit code of the child and the
  session received a sequence of well-formed O and E frames whose O payloads are, in order, the bytes
  the child wrote to its standard output and whose E payloads those of its standard error.
\<close>

lemma live_exec_streams_plain:
  assumes "live_exec B S txt_none G mode (Some c) ls cmd env outf errf jid w ts = Some (code, x, w', ts', sg)"
    and "mode \<noteq> LIVE_JOB" and "g_maxout G \<le> 0" and "chan_ok c"
    and "build_script SCRIPT_MAX cmd env = Some scr" and "os_fork S scr w = Some k"
  shows "code = -2 \<and> (\<exists>t \<in> set ts. t_sess t) \<or>
    code = status_code (c_status k) \<and> w' = c_after k \<and>
    (\<exists>c' fs. x = Some c' \<and> chan_ok c' \<and> chan_out c' = chan_out c @ frames fs
      \<and> (\<forall>f \<in> set fs. frame_wf B f \<and> fst f \<in> {CHR ''O'', CHR ''E''})
      \<and> payload (CHR ''O'') fs = dev_in (c_out k) \<and> payload (CHR ''E'') fs = dev_in (c_err k))"
  using assms by (rule plain.live_exec_streams)

definition demo_code :: "txt_ops \<Rightarrow> int option" where
  "demo_code T = map_option fst (live_exec posix_build live_os T demo_cfg LIVE_RUN (Some (chan_tcp (demo_dev []))) False
     ''cc'' [] [] [] 0 demo_world [demo_tick, demo_tick])"

lemma demo_codes: "demo_code txt_none = Some 1"
  by code_simp

lemma demo_run:
  assumes "demo_code T = Some 1"
  obtains x w' ts' sg where "live_exec posix_build live_os T demo_cfg LIVE_RUN (Some (chan_tcp (demo_dev []))) False
    ''cc'' [] [] [] 0 demo_world [demo_tick, demo_tick] = Some (1, x, w', ts', sg)"
  using assms that by (auto simp: demo_code_def)

lemma demo_script: "\<exists>scr. build_script SCRIPT_MAX ''cc'' [] = Some scr"
proof -
  have "build_script SCRIPT_MAX ''cc'' [] \<noteq> None" by code_simp
  then show ?thesis by auto
qed

lemma demo_facts:
  "chan_ok (chan_tcp (demo_dev []))" "chan_out (chan_tcp (demo_dev [])) = []" "g_maxout demo_cfg \<le> 0"
  "os_fork live_os scr w = Some demo_child" "dev_in (c_out demo_child) = ''hi''" "dev_in (c_err demo_child) = ''warn''"
  by (simp_all add: chan_ok_def chan_out_def chan_dev_def chan_tcp_def demo_dev_def dev_ok_def demo_cfg_def
      live_os_def demo_child_def dev_in_def)

text \<open>
  On macOS the frames of a supervised command carry the composed text: the O payloads together are
  the conversion of the whole standard output, whatever the reads, and the E payloads that of the
  standard error.
\<close>

lemma live_exec_streams_mac:
  assumes "live_exec posix_build S (txt_mac None) G mode (Some c) ls cmd env outf errf jid w ts = Some (code, x, w', ts', sg)"
    and "mode \<noteq> LIVE_JOB" and "g_maxout G \<le> 0" and "chan_ok c"
    and "build_script SCRIPT_MAX cmd env = Some scr" and "os_fork S scr w = Some k"
  shows "code = -2 \<and> (\<exists>t \<in> set ts. t_sess t) \<or>
    code = status_code (c_status k) \<and> w' = c_after k \<and>
    (\<exists>c' fs. x = Some c' \<and> chan_ok c' \<and> chan_out c' = chan_out c @ frames fs
      \<and> (\<forall>f \<in> set fs. frame_wf posix_build f \<and> fst f \<in> {CHR ''O'', CHR ''E''})
      \<and> payload (CHR ''O'') fs = render (dev_in (c_out k)) \<and> payload (CHR ''E'') fs = render (dev_in (c_err k)))"
  using assms by (rule mac.live_exec_streams)

lemma live_exec_ends:
  assumes "if mode = LIVE_JOB then \<exists>t \<in> set ts. t_dead t
     else \<forall>scr k. os_fork S scr w = Some k \<longrightarrow>
       length (dev_in (c_out k)) < length (filter t_out ts) \<and> length (dev_in (c_err k)) < length (filter t_err ts)"
  shows "live_exec B S T G mode (Some c) ls cmd env outf errf jid w ts \<noteq> None"
proof (cases "mode = LIVE_JOB")
  case True
  then have d: "\<exists>t \<in> set ts. t_dead t" using assms by simp
  have "\<exists>r. live_loop B S T G w1 LIVE_JOB ls busy chunk status ts s = Some r" for w1 busy chunk status s
    using live_job_returns [OF d] .
  then show ?thesis using True by (auto simp: live_exec_def split: option.splits prod.splits bool.splits) (metis option.distinct(1))
next
  case False
  have "\<exists>r. live_loop B S T G w mode ls busy (nat (chan_chunk c)) status ts (lstate_init mode (Some c) k) = Some r"
    if "os_fork S scr w = Some k" for scr k busy status
    using that assms False
    by (intro live_loop_returns [OF False chunk_pos]) (auto simp: lstate_init_def need_def Suc_le_eq)
  with False show ?thesis
    by (auto simp: live_exec_def split: option.splits prod.splits) (metis option.distinct(1))
qed



lemma live_exec_sigs:
  assumes "live_exec B S T G mode sess ls cmd env outf errf jid w ts = Some (code, x, w', ts', sg)"
  shows "code \<in> {-2..255} \<and> (sg = [] \<or> (\<exists>n. sg = SIGTERM # replicate n SIGKILL))
    \<and> (code = -2 \<longrightarrow> (\<exists>n. sg = SIGTERM # replicate (Suc n) SIGKILL))"
proof -
  have i: "sig_inv (lstate_init mode sess k)" for k by (simp add: sig_inv_def lstate_init_def)
  have r: "code \<in> {-2..255} \<and> (l_sigs s' = [] \<or> (\<exists>n. l_sigs s' = SIGTERM # replicate n SIGKILL))
    \<and> (code = -2 \<longrightarrow> (\<exists>n. l_sigs s' = SIGTERM # replicate (Suc n) SIGKILL))"
    if "live_loop B S T G w1 mode ls busy chunk status ts (lstate_init mode sess k) = Some (code, s', ts')"
    for w1 busy chunk status k s'
    using live_loop_sigs [OF that i] status_code_range [of status] by (auto simp del: replicate.simps)
  have "code = -1 \<and> sg = [] \<or> (\<exists>w1 busy chunk status k s'. sg = l_sigs s' \<and>
      live_loop B S T G w1 mode ls busy chunk status ts (lstate_init mode sess k) = Some (code, s', ts'))"
    using assms by (fastforce simp: live_exec_def split: option.splits prod.splits bool.splits)
  then show ?thesis
  proof (elim disjE exE conjE)
    fix w1 busy chunk status k s'
    assume "sg = l_sigs s'"
      and l: "live_loop B S T G w1 mode ls busy chunk status ts (lstate_init mode sess k) = Some (code, s', ts')"
    with r [OF l] show ?thesis by simp
  qed simp
qed

text \<open>
  C8. Signals and results of a supervised command, for every schedule: the return value is -2, -1 or in
  0..255; the child's process group gets no signal at all, or exactly one SIGTERM followed only by
  SIGKILLs; and when the session was lost (-2) the group has been sent SIGTERM and then SIGKILL.
\<close>

theorem live_exec_signals:
  assumes "live_exec B S T G mode sess ls cmd env outf errf jid w ts = Some (code, x, w', ts', sg)"
  shows "code \<in> {-2..255} \<and> (sg = [] \<or> (\<exists>n. sg = SIGTERM # replicate n SIGKILL))
    \<and> (code = -2 \<longrightarrow> (\<exists>n. sg = SIGTERM # replicate (Suc n) SIGKILL))"
  using assms by (rule live_exec_sigs)

theorem live_exec_signals_witness:
  "\<exists>x w' ts' sg. live_exec posix_build live_os txt_none demo_cfg LIVE_RUN (Some (chan_tcp (demo_dev []))) False
      ''cc'' [] [] [] 0 demo_world [demo_tick, demo_tick] = Some (1, x, w', ts', sg)
    \<and> (sg = [] \<or> (\<exists>n. sg = SIGTERM # replicate n SIGKILL))"
proof -
  obtain x w' ts' sg where run: "live_exec posix_build live_os txt_none demo_cfg LIVE_RUN
    (Some (chan_tcp (demo_dev []))) False ''cc'' [] [] [] 0 demo_world [demo_tick, demo_tick] = Some (1, x, w', ts', sg)"
    by (rule demo_run [OF demo_codes])
  from live_exec_signals [OF run] run show ?thesis by simp
qed

end
