(* ===== verification/Textw32.thy ===== *)
theory Textw32
  imports Textcv
begin

text \<open>
  The Win32 conversion of \<^verbatim>\<open>common/textcv.c\<close> as a text stream: pieces of a text in a double-byte code page are
  converted at character boundaries, so that the result does not depend on how the text was cut.

  The conversion routines are those of kernel32 (\<open>w32nls\<close>).  What the source relies on is the hypothesis \<open>nls_ok\<close>:
  they work character by character, on buffers that are large enough.
\<close>

section \<open>Characters of a double-byte code page\<close>

fun dbcs_chars :: "(char \<Rightarrow> bool) \<Rightarrow> char list \<Rightarrow> char list list" where
  "dbcs_chars lead [] = []"
| "dbcs_chars lead (c # r) =
     (if lead c then (case r of [] \<Rightarrow> [] | d # r' \<Rightarrow> [c, d] # dbcs_chars lead r')
      else [c] # dbcs_chars lead r)"

definition dbcs_rest :: "(char \<Rightarrow> bool) \<Rightarrow> char list \<Rightarrow> char list" where
  "dbcs_rest lead s = drop (dbcs_complete lead s) s"

text \<open>The three shapes of the front of a text, as an induction rule.\<close>

lemma dbcs_induct [case_names Nil Single Lone Double]:
  assumes "P []" and "\<And>c r. \<not> lead c \<Longrightarrow> P r \<Longrightarrow> P (c # r)" and "\<And>c. lead c \<Longrightarrow> P [c]"
    and "\<And>c d r. lead c \<Longrightarrow> P r \<Longrightarrow> P (c # d # r)"
  shows "P s"
proof (induction s rule: length_induct)
  case (1 s)
  show ?case
  proof (cases s)
    case (Cons c r)
    then show ?thesis using 1 assms by (cases "lead c"; cases r) auto
  qed (use assms(1) in simp)
qed

lemma dbcs_shapes:
  "\<not> lead c \<Longrightarrow> dbcs_chars lead (c # r) = [c] # dbcs_chars lead r" "lead c \<Longrightarrow> dbcs_chars lead [c] = []"
  "lead c \<Longrightarrow> dbcs_chars lead (c # d # r) = [c, d] # dbcs_chars lead r"
  "\<not> lead c \<Longrightarrow> dbcs_complete lead (c # r) = Suc (dbcs_complete lead r)" "lead c \<Longrightarrow> dbcs_complete lead [c] = 0"
  "lead c \<Longrightarrow> dbcs_complete lead (c # d # r) = Suc (Suc (dbcs_complete lead r))"
  "dbcs_rest lead [] = []" "\<not> lead c \<Longrightarrow> dbcs_rest lead (c # r) = dbcs_rest lead r" "lead c \<Longrightarrow> dbcs_rest lead [c] = [c]"
  "lead c \<Longrightarrow> dbcs_rest lead (c # d # r) = dbcs_rest lead r"
  by (simp_all add: dbcs_rest_def)

declare dbcs_chars.simps(2) [simp del] dbcs_complete.simps(2) [simp del]

lemma dbcs_split:
  "concat (dbcs_chars lead s) = take (dbcs_complete lead s) s" "dbcs_complete lead s \<le> length s" "length (dbcs_rest lead s) \<le> 1"
  by (induction s rule: dbcs_induct [of _ lead]) (simp_all add: dbcs_shapes)

lemma dbcs_append:
  "dbcs_chars lead (s @ z) = dbcs_chars lead s @ dbcs_chars lead (dbcs_rest lead s @ z)
   \<and> dbcs_rest lead (s @ z) = dbcs_rest lead (dbcs_rest lead s @ z)"
  by (induction s rule: dbcs_induct [of _ lead]) (simp_all add: dbcs_shapes)

lemma dbcs_take:
  "dbcs_chars lead (take (dbcs_complete lead s) s) = dbcs_chars lead s"
  "dbcs_complete lead (take (dbcs_complete lead s) s) = dbcs_complete lead s"
  by (induction s rule: dbcs_induct [of _ lead]) (simp_all add: dbcs_shapes)

lemma dbcs_chars_len: "[] \<notin> set (dbcs_chars lead s)" "length (dbcs_chars lead s) \<le> length s"
  by (induction s rule: dbcs_induct [of _ lead]) (simp_all add: dbcs_shapes)

lemma dbcs_none: "dbcs_complete lead s = 0 \<longleftrightarrow> dbcs_chars lead s = []"
  by (induction s rule: dbcs_induct [of _ lead]) (simp_all add: dbcs_shapes)

section \<open>What the source relies on\<close>

text \<open>\<open>wc\<close> is the wide character of a character of the code page, \<open>u8\<close> its UTF-8 encoding.\<close>

definition nls_ok :: "w32nls \<Rightarrow> int \<Rightarrow> (char list \<Rightarrow> int) \<Rightarrow> (int \<Rightarrow> char list) \<Rightarrow> bool" where
  "nls_ok N cp wc u8 \<longleftrightarrow>
     (\<forall>s m. s \<noteq> [] \<and> dbcs_complete (IsDBCSLeadByteEx N cp) s = length s \<and> int (length s) \<le> m \<longrightarrow>
        MultiByteToWideChar N cp s m = Some (map wc (dbcs_chars (IsDBCSLeadByteEx N cp) s)))
   \<and> (\<forall>c m w. MultiByteToWideChar N cp [c] m = Some w \<longrightarrow> length w \<le> 1)
   \<and> (\<forall>w m. 3 * int (length w) \<le> m \<longrightarrow> WideCharToMultiByte N CP_UTF8 w m = (if w = [] then None else Some (concat (map u8 w))))
   \<and> (\<forall>x. length (u8 x) \<le> 3)"

text \<open>The conversion of a whole text: of its characters, and of a lead byte left at its end.\<close>

definition cp_chars :: "w32nls \<Rightarrow> int \<Rightarrow> (char list \<Rightarrow> int) \<Rightarrow> (int \<Rightarrow> char list) \<Rightarrow> char list \<Rightarrow> char list" where
  "cp_chars N cp wc u8 s = concat (map (u8 \<circ> wc) (dbcs_chars (IsDBCSLeadByteEx N cp) s))"

definition cp_tail :: "w32nls \<Rightarrow> int \<Rightarrow> (int \<Rightarrow> char list) \<Rightarrow> char list \<Rightarrow> char list" where
  "cp_tail N cp u8 r =
     (if r = [] then [] else case MultiByteToWideChar N cp r WBUF_MAX of None \<Rightarrow> [] | Some w \<Rightarrow> concat (map u8 w))"

definition cp_wire :: "w32nls \<Rightarrow> int \<Rightarrow> (char list \<Rightarrow> int) \<Rightarrow> (int \<Rightarrow> char list) \<Rightarrow> char list \<Rightarrow> char list" where
  "cp_wire N cp wc u8 s = cp_chars N cp wc u8 s @ cp_tail N cp u8 (dbcs_rest (IsDBCSLeadByteEx N cp) s)"

lemma concat_len3: "\<forall>x. length (u8 x) \<le> 3 \<Longrightarrow> length (concat (map u8 xs)) \<le> 3 * length xs"
proof (induction xs)
  case (Cons x xs)
  then have "length (u8 x) \<le> 3" "length (concat (map u8 xs)) \<le> 3 * length xs" by simp_all
  then show ?case by simp
qed simp

section \<open>The conversion of a piece\<close>

lemma w32_txt_out_piece:
  assumes "nls_ok N cp wc u8" and "length (pend s) \<le> 1" and "length buf \<le> 1024" and "3075 \<le> m"
  obtains d s' where "w32_txt_out N cp s buf m = (Some d, s')" and "d = cp_chars N cp wc u8 (pend s @ buf)"
    and "pend s' = dbcs_rest (IsDBCSLeadByteEx N cp) (pend s @ buf)" and "length d \<le> 3075"
proof -
  let ?l = "IsDBCSLeadByteEx N cp" and ?s = "pend s @ buf"
  let ?n = "dbcs_complete ?l ?s" and ?cs = "dbcs_chars ?l (pend s @ buf)"
  have sp: "splice s buf JOIN_MAX = (?s, s\<lparr>pend := []\<rparr>)"
    using assms(2,3) by (cases s) (auto simp: splice_def Let_def)
  have "length (drop ?n ?s) \<le> 1" using dbcs_split(3) [of ?l ?s] by (simp add: dbcs_rest_def)
  then have h: "pend (hold (s\<lparr>pend := []\<rparr>) (drop ?n ?s)) = dbcs_rest ?l ?s"
    by (simp add: hold_def dbcs_rest_def)
  have len: "length ?cs \<le> 1025" using dbcs_chars_len(2) [of ?l ?s] assms(2,3) by simp
  have u3: "\<forall>x. length (u8 x) \<le> 3" using assms(1) by (simp add: nls_ok_def)
  have l3: "length (cp_chars N cp wc u8 ?s) \<le> 3075"
    using concat_len3 [of "u8 \<circ> wc" ?cs] u3 len by (simp add: cp_chars_def)
  show thesis
  proof (cases "?n = 0")
    case True
    then have "cp_chars N cp wc u8 ?s = []" using dbcs_none [of ?l ?s] by (simp add: cp_chars_def)
    then show thesis using that [OF _ _ h l3] sp True by (simp add: w32_txt_out_def)
  next
    case False
    then have t: "take ?n ?s \<noteq> []" "int (length (take ?n ?s)) \<le> WBUF_MAX" "length (take ?n ?s) = ?n"
      using dbcs_split(2) [of ?l ?s] assms(2,3) by auto
    have mb: "MultiByteToWideChar N cp (take ?n ?s) WBUF_MAX = Some (map wc ?cs)"
      using assms(1) t dbcs_take [of ?l ?s] by (simp add: nls_ok_def)
    have "map wc ?cs \<noteq> []" using False dbcs_none [of ?l ?s] by simp
    then have "WideCharToMultiByte N CP_UTF8 (map wc ?cs) m = Some (cp_chars N cp wc u8 ?s)"
      using assms(1,4) len by (auto simp: nls_ok_def cp_chars_def)
    then show thesis using that [OF _ refl h l3] sp False mb by (simp add: w32_txt_out_def Let_def)
  qed
qed

text \<open>The end of a text.\<close>

lemma w32_txt_flush_tail:
  assumes "nls_ok N cp wc u8" and "length (pend s) \<le> 1" and "3 \<le> m"
  shows "fst (w32_txt_flush N cp s m) = Some (cp_tail N cp u8 (pend s))" and "length (cp_tail N cp u8 (pend s)) \<le> 3"
proof -
  have u3: "\<forall>x. length (u8 x) \<le> 3" and w: "MultiByteToWideChar N cp [c] WBUF_MAX = Some w \<Longrightarrow> length w \<le> 1"
    and o: "3 * int (length w) \<le> m \<Longrightarrow> WideCharToMultiByte N CP_UTF8 w m = (if w = [] then None else Some (concat (map u8 w)))"
    for c w using assms(1) by (auto simp: nls_ok_def)
  have "fst (w32_txt_flush N cp s m) = Some (cp_tail N cp u8 (pend s)) \<and> length (cp_tail N cp u8 (pend s)) \<le> 3"
  proof (cases "pend s = [] \<or> MultiByteToWideChar N cp (pend s) WBUF_MAX = None")
    case True
    then show ?thesis by (auto simp: w32_txt_flush_def cp_tail_def)
  next
    case False
    then obtain c ws where c: "pend s = [c]" "MultiByteToWideChar N cp [c] WBUF_MAX = Some ws"
      using assms(2) by (cases "pend s") auto
    then show ?thesis using w [OF c(2)] o [of ws] assms(3) concat_len3 [OF u3, of ws]
      by (cases ws) (auto simp: w32_txt_flush_def cp_tail_def)
  qed
  then show "fst (w32_txt_flush N cp s m) = Some (cp_tail N cp u8 (pend s))" "length (cp_tail N cp u8 (pend s)) \<le> 3" by simp_all
qed

text \<open>The conversion keeps the contract of a text stream: what was emitted is the conversion of the complete
  characters so far, and what is held is the lead byte after them.\<close>

lemma w32_text_stream:
  assumes "nls_ok N cp wc u8" and "w32_txt_init N mode = (True, cp)" and "\<not> GCDS_DOS B"
  shows "text_stream B (txt_w32 N mode) (cp_wire N cp wc u8)
    (\<lambda>cv a e. pend cv = dbcs_rest (IsDBCSLeadByteEx N cp) a \<and> e = cp_chars N cp wc u8 a)"
proof (unfold_locales, goal_cases)
  case 1
  then show ?case by (simp add: txt_stream_init_def dbcs_shapes cp_chars_def)
next
  case (2 cv a e buf)
  let ?l = "IsDBCSLeadByteEx N cp"
  have "length (pend cv) \<le> 1" using 2 dbcs_split(3) by simp
  then obtain d cv' where o: "w32_txt_out N cp cv buf 8192 = (Some d, cv')" "d = cp_chars N cp wc u8 (pend cv @ buf)"
    "pend cv' = dbcs_rest ?l (pend cv @ buf)" "length d \<le> 3075"
    by (rule w32_txt_out_piece [OF assms(1) _ 2(2), of cv 8192]) auto
  moreover have "cp_chars N cp wc u8 (a @ buf) = cp_chars N cp wc u8 a @ d" "dbcs_rest ?l (a @ buf) = dbcs_rest ?l (pend cv @ buf)"
    using 2(1) o(2) dbcs_append [of ?l a buf] by (simp_all add: cp_chars_def)
  ultimately show ?case using 2(1) assms(2,3)
    by (intro exI [of _ d] exI [of _ cv']) (simp add: tx_out_def txt_w32_def GCDSP_FRAME_MAX_def)
next
  case (3 cv a e)
  have p: "length (pend cv) \<le> 1" using 3 dbcs_split(3) by simp
  from w32_txt_flush_tail [OF assms(1) p, of 8192] 3 assms(2,3) show ?case
    by (auto simp: tx_tail_def txt_w32_def GCDSP_FRAME_MAX_def cp_wire_def)
next
  case 4
  then show ?case by (simp add: cp_wire_def cp_chars_def cp_tail_def dbcs_shapes)
qed

end
