(* ===== verification/W32live.thy ===== *)
theory W32live
  imports W32exec Liveprops Textw32
begin

text \<open>
  Properties of the Win32 supervisor of \<open>W32exec\<close>: what it streams, that it returns, and that a lost
  session ends its child.
\<close>

section \<open>The parts and their POSIX counterparts\<close>

lemma pump_send_res: "pump_send B T tag buf s = (r, s') \<Longrightarrow> r = 0 \<or> r = -1"
  by (auto simp: pump_send_def Let_def split: option.splits if_splits prod.splits)

lemma w32_pump_out_eq: "tick_out B T chunk t s = (True, s') \<Longrightarrow> w32_pump_out B T chunk t s = (True, s')"
  by (auto simp: tick_out_def pump_out_def w32_pump_out_def split: option.splits if_splits prod.splits dest: pump_send_res)

lemma w32_pump_err_eq: "tick_err B T chunk t s = (True, s') \<Longrightarrow> w32_pump_err B T chunk t s = (True, s')"
  by (auto simp: tick_err_def pump_err_def w32_pump_err_def split: option.splits if_splits prod.splits dest: pump_send_res)

lemma kill_job_io [simp]: "same_io s (kill_job s)"
  by (simp add: same_io_def kill_job_def)

lemma w32_runi_frame_io:
  assumes "w32_runi_frame B c line s = (b, s')" and "l_sess s = Some c"
  shows "same_io s s'"
proof -
  obtain r c' where rd: "chan_read_n c (nat (atol (drop 2 line))) = (r, c')" by (metis surj_pair)
  have "chan_out c' = chan_out c" "chan_ok c' = chan_ok c"
    using ch.rd_outp [of c "nat (atol (drop 2 line))"] ch.rd_ok [of c "nat (atol (drop 2 line))"] rd by simp_all
  then show ?thesis
    using assms rd by (auto simp: w32_runi_frame_def Let_def same_io_def kill_job_def
        split: if_splits option.splits prod.splits)
qed

lemma w32_sess_io:
  assumes "w32_sess B mode t s = (b, s')"
  shows "same_io s s' \<and> (\<not> b \<longrightarrow> t_sess t)"
proof (cases "w32_sess_rd mode t s \<and> mode \<noteq> LIVE_RUN")
  case True
  then obtain c where c: "l_sess s = Some c" "t_sess t" by (auto simp: w32_sess_rd_def split: option.splits)
  obtain r raw c' where g: "lio_get_line c GCDSP_LINE_MAX = (r, raw, c')" by (metis surj_pair)
  have "same_io s (s\<lparr>l_sess := Some c'\<rparr>)" using c(1) lio_get_line_view [OF g] by (simp add: same_io_def)
  then show ?thesis
    using assms c g True w32_runi_frame_io [of B c' "cstr raw" "s\<lparr>l_sess := Some c'\<rparr>" b s']
    by (auto simp: w32_sess_def Let_def split: if_splits intro: same_io_trans)
qed (use assms in \<open>auto simp: w32_sess_def w32_sess_rd_def split: if_splits\<close>)

lemma w32_ctl_io [simp]: "same_io s (w32_ctl B S G w ls busy t s)"
  by (auto simp: w32_ctl_def same_io_def split: option.splits prod.splits)

section \<open>What a RUN streams\<close>

context text_stream
begin

lemma w32_tick_streamed:
  assumes "streamed B cvt c k s" and "0 < chunk" and "chunk \<le> 1024" and "g_maxout G \<le> 0"
  shows "w32_tick B S T G w mode ls busy chunk t s = Next s' \<Longrightarrow> streamed B cvt c k s'"
    and "w32_tick B S T G w mode ls busy chunk t s = Done s' \<Longrightarrow>
      streamed B cvt c k s' \<and> l_out s' = None \<and> l_err s' = None"
    and "w32_tick B S T G w mode ls busy chunk t s = Lost s' \<Longrightarrow> t_sess t"
proof -
  obtain b1 s1 where 1: "w32_sess B mode t (w32_ctl B S G w ls busy t s) = (b1, s1)" by (metis surj_pair)
  have k1: "streamed B cvt c k s1" "\<not> b1 \<longrightarrow> t_sess t"
    using w32_sess_io [OF 1] streamed_same [OF streamed_same [OF assms(1) w32_ctl_io]] by blast+
  obtain b2 s2 where 2: "tick_out B T chunk t s1 = (b2, s2)" by (metis surj_pair)
  have k2: "b2" "streamed B cvt c k s2" using tick_out_streamed [OF k1(1) assms(2,3) 2] by simp_all
  obtain b3 s3 where 3: "tick_err B T chunk t s2 = (b3, s3)" by (metis surj_pair)
  have k3: "b3" "streamed B cvt c k s3" using tick_err_streamed [OF k2(2) assms(2,3) 3] by simp_all
  have p: "w32_pump_out B T chunk t s1 = (True, s2)" "w32_pump_err B T chunk t s2 = (True, s3)"
    using w32_pump_out_eq [of B T chunk t s1 s2] w32_pump_err_eq [of B T chunk t s2 s3] 2 3 k2(1) k3(1) by simp_all
  have eq: "w32_tick B S T G w mode ls busy chunk t s = (if \<not> b1 then Lost (kill_job s3)
      else if l_out s3 = None \<and> l_err s3 = None \<and> t_dead t then Done s3 else Next s3)"
    using assms(4) by (simp add: w32_tick_def 1 p w32_cap_def Let_def)
  show "w32_tick B S T G w mode ls busy chunk t s = Next s' \<Longrightarrow> streamed B cvt c k s'"
    "w32_tick B S T G w mode ls busy chunk t s = Done s' \<Longrightarrow> streamed B cvt c k s' \<and> l_out s' = None \<and> l_err s' = None"
    "w32_tick B S T G w mode ls busy chunk t s = Lost s' \<Longrightarrow> t_sess t"
    using k1(2) k3(2) unfolding eq by (auto split: if_splits)
qed

lemma w32_flush_streamed:
  assumes "streamed B cvt c k s" and "l_out s = None" and "l_err s = None"
  obtains s' fs where "w32_flush_all B T s = (True, s')" and "carried B c fs s'"
    and "payload (CHR ''O'') fs = wire (dev_in (c_out k))" and "payload (CHR ''E'') fs = wire (dev_in (c_err k))"
proof (rule tails_streamed [OF assms], goal_cases)
  case (1 c0 c1 c2 fs)
  then have "w32_flush_all B T s = (True, if txt_active T then s\<lparr>l_sess := Some c2\<rparr> else s)" by (simp add: w32_flush_all_def)
  with 1 that [of _ fs] show ?case by simp
qed

lemma w32_loop_streamed:
  assumes "w32_loop B S T G w mode ls busy chunk status ts s = Some (code, s', ts')"
    and "streamed B cvt c k s" and "0 < chunk" and "chunk \<le> 1024" and "g_maxout G \<le> 0"
  shows "code = -2 \<and> (\<exists>t \<in> set ts. t_sess t) \<or>
    code = w32_code status \<and> (\<exists>fs. carried B c fs s' \<and> payload (CHR ''O'') fs = wire (dev_in (c_out k))
      \<and> payload (CHR ''E'') fs = wire (dev_in (c_err k)))"
  using assms(1,2)
proof (induction ts arbitrary: s)
  case (Cons t ts)
  note tk = w32_tick_streamed [OF Cons.prems(2) assms(3-5), of S w mode ls busy t]
  show ?case
  proof (cases "w32_tick B S T G w mode ls busy chunk t s")
    case (Next s1)
    with Cons tk(1) [OF Next] show ?thesis by auto
  next
    case (Lost s1)
    with Cons.prems(1) tk(3) [OF Lost] show ?thesis by auto
  next
    case (Done s1)
    obtain s2 fs where "w32_flush_all B T s1 = (True, s2)" "carried B c fs s2"
      "payload (CHR ''O'') fs = wire (dev_in (c_out k))" "payload (CHR ''E'') fs = wire (dev_in (c_err k))"
      using w32_flush_streamed tk(2) [OF Done] by metis
    with Done Cons.prems(1) show ?thesis by auto
  qed
qed simp

end

section \<open>The loop ends\<close>

lemma w32_pump_need:
  assumes "0 < chunk"
  shows "w32_pump_out B T chunk t s = (b, s') \<Longrightarrow>
      l_err s' = l_err s \<and> need (l_out s') \<le> need (l_out s) - (if t_out t then 1 else 0)"
    and "w32_pump_err B T chunk t s = (b, s') \<Longrightarrow>
      l_out s' = l_out s \<and> need (l_err s') \<le> need (l_err s) - (if t_err t then 1 else 0)"
  using assms dev_recv_need [OF assms]
  by (fastforce simp: w32_pump_out_def w32_pump_err_def need_def split: option.splits if_splits prod.splits
      dest!: pump_send_pipes)+

lemma w32_tick_need:
  assumes "w32_tick B S T G w mode ls busy chunk t s = Next s'" and "0 < chunk"
  shows "need (l_out s') \<le> need (l_out s) - (if t_out t then 1 else 0)
    \<and> need (l_err s') \<le> need (l_err s) - (if t_err t then 1 else 0) \<and> (t_dead t \<longrightarrow> 0 < need (l_out s') + need (l_err s'))"
proof -
  obtain b1 s1 where 1: "w32_sess B mode t (w32_ctl B S G w ls busy t s) = (b1, s1)" by (metis surj_pair)
  obtain b2 s2 where 2: "w32_pump_out B T chunk t s1 = (b2, s2)" by (metis surj_pair)
  obtain b3 s3 where 3: "w32_pump_err B T chunk t s2 = (b3, s3)" by (metis surj_pair)
  have i: "l_out s1 = l_out s" "l_err s1 = l_err s"
    using w32_sess_io [OF 1] w32_ctl_io [of s B S G w ls busy t] by (simp_all add: same_io_def)
  have c: "l_out (w32_cap B G mode t s3) = l_out s3" "l_err (w32_cap B G mode t s3) = l_err s3"
    by (simp_all add: w32_cap_def kill_job_def)
  have "s' = w32_cap B G mode t s3 \<and> (t_dead t \<longrightarrow> l_out s' \<noteq> None \<or> l_err s' \<noteq> None)"
    using assms(1) by (auto simp: w32_tick_def 1 2 3 Let_def split: if_splits)
  then show ?thesis using w32_pump_need(1) [OF assms(2) 2] w32_pump_need(2) [OF assms(2) 3] i c
    by (auto simp: need_def split: option.splits)
qed

lemma w32_loop_returns:
  assumes "0 < chunk" and "t_dead t"
    and "need (l_out s) \<le> length (filter t_out ts)" and "need (l_err s) \<le> length (filter t_err ts)"
  shows "\<exists>r. w32_loop B S T G w mode ls busy chunk status (ts @ t # ts') s = Some r"
  using assms(3,4)
proof (induction ts arbitrary: s)
  case Nil
  then show ?case using w32_tick_need [OF _ assms(1), of B S T G w mode ls busy t s] assms(2)
    by (auto split: round.splits prod.splits)
next
  case (Cons u ts)
  show ?case
  proof (cases "w32_tick B S T G w mode ls busy chunk u s")
    case (Next s1)
    with w32_tick_need [OF Next assms(1)] Cons show ?thesis by (auto split: if_splits)
  qed (auto split: prod.splits)
qed

text \<open>
  When the session is silent and has no output cap, the two pipes are reported readable until their end
  and the process is then found dead, the execution of a command returns its exit code, cut to 255, and
  the session received O and E frames with exactly the bytes the command wrote.
\<close>

context text_stream
begin

lemma w32_exec_streams:
  assumes "mode \<noteq> LIVE_JOB" and "g_maxout G \<le> 0" and "chan_ok c"
    and "build_wcmd (WCMD_MAX - 16) cmd env = Some wcmd" and "os_fork S (''cmd.exe /c '' @ wcmd) w = Some k"
    and "\<forall>t \<in> set ts \<union> set ts' \<union> {u}. \<not> t_sess t" and "t_dead u"
    and "length (dev_in (c_out k)) < length (filter t_out ts)" and "length (dev_in (c_err k)) < length (filter t_err ts)"
  shows "\<exists>c' ts'' sg fs. w32_live_exec B S T G mode (Some c) ls cmd env outf errf jid w (ts @ u # ts')
      = Some (w32_code (c_status k), Some c', c_after k, ts'', sg)
    \<and> chan_ok c' \<and> chan_out c' = chan_out c @ frames fs \<and> (\<forall>f \<in> set fs. frame_wf B f \<and> fst f \<in> {CHR ''O'', CHR ''E''})
    \<and> payload (CHR ''O'') fs = wire (dev_in (c_out k)) \<and> payload (CHR ''E'') fs = wire (dev_in (c_err k))"
proof -
  have ch: "0 < nat (chan_chunk c)" "nat (chan_chunk c) \<le> 1024" by (auto simp: chan_chunk_def)
  let ?s = "lstate_init mode (Some c) k"
  have "need (l_out ?s) \<le> length (filter t_out ts)" "need (l_err ?s) \<le> length (filter t_err ts)"
    using assms(1,8,9) by (simp_all add: need_def lstate_init_def)
  from w32_loop_returns [OF ch(1) assms(7) this, of B S T G w mode ls 0 "c_status k" ts'] obtain code s ts'' where
    l: "w32_loop B S T G w mode ls 0 (nat (chan_chunk c)) (c_status k) (ts @ u # ts') ?s = Some (code, s, ts'')" by auto
  have "\<not> (\<exists>t \<in> set (ts @ u # ts'). t_sess t)" using assms(6) by auto
  with w32_loop_streamed [OF l streamed_init [OF assms(3,1)] ch assms(2)]
  obtain fs where "code = w32_code (c_status k)" "carried B c fs s" "payload (CHR ''O'') fs = wire (dev_in (c_out k))"
    "payload (CHR ''E'') fs = wire (dev_in (c_err k))" by blast
  moreover from this(2) obtain c' where "l_sess s = Some c'" "chan_ok c'" "chan_out c' = chan_out c @ frames fs"
    "\<forall>f \<in> set fs. frame_wf B f \<and> fst f \<in> {CHR ''O'', CHR ''E''}" by (auto simp: carried_def)
  ultimately show ?thesis
    using assms(1,4,5) l by (intro exI [of _ c'] exI [of _ ts''] exI [of _ "l_sigs s"] exI [of _ fs]) (simp add: w32_live_exec_def)
qed

end

text \<open>A lost session always ends with the child terminated.\<close>

lemma w32_lost_kills:
  assumes "w32_loop B S T G w mode ls busy chunk status ts s = Some (code, s', ts')" and "\<not> txt_active T"
  shows "code = -2 \<and> l_sigs s' \<noteq> [] \<and> last (l_sigs s') = SIGKILL \<or> code = w32_code status"
  using assms
proof (induction ts arbitrary: s)
  case (Cons t ts)
  have k: "l_sigs (kill_job x) \<noteq> []" "last (l_sigs (kill_job x)) = SIGKILL" for x by (simp_all add: kill_job_def)
  show ?case
  proof (cases "w32_tick B S T G w mode ls busy chunk t s")
    case (Lost s1)
    then obtain x where "s1 = kill_job x" by (auto simp: w32_tick_def Let_def split: prod.splits if_splits)
    with Lost Cons.prems k [of x] show ?thesis by (auto simp: w32_flush_all_def split: option.splits)
  next
    case (Done s1)
    with Cons.prems show ?thesis by (auto simp: w32_flush_all_def split: option.splits)
  qed (use Cons in auto)
qed simp

lemma w32_code_range: "0 \<le> w32_code status" "w32_code status \<le> 255"
  by (simp_all add: w32_code_def Let_def)

lemma w32_loop_range:
  "w32_loop B S T G w mode ls busy chunk status ts s = Some (code, s', ts') \<Longrightarrow> code = -2 \<or> code = w32_code status"
  by (induction ts arbitrary: s) (auto split: round.splits prod.splits if_splits)

lemma w32_live_exec_range:
  assumes "w32_live_exec B S T G mode sess ls cmd env outf errf jid w ts = Some (code, x, w', ts', sg)"
  shows "-2 \<le> code \<and> code \<le> 255"
proof -
  have "code = -1 \<or> code = -2 \<or> (\<exists>status. code = w32_code status)"
    using assms by (fastforce simp: w32_live_exec_def split: option.splits prod.splits bool.splits dest: w32_loop_range)
  then show ?thesis using w32_code_range by (smt (verit))
qed

definition w32_build :: build where
  "w32_build = \<lparr>GCDS_DOS = False, GCDS_WIN32 = True, GCDS_NEXT = False, GCDS_HAS_LIVE = True, GCDS_HAS_IX = True\<rparr>"

section \<open>Converted output\<close>


text \<open>A code page whose double-byte characters are Hangul syllables.\<close>

definition demo_lead :: "char \<Rightarrow> bool" where
  "demo_lead c \<longleftrightarrow> (of_char c :: nat) \<ge> 0x81"

definition demo_wc :: "char list \<Rightarrow> int" where
  "demo_wc s = (case s of [c] \<Rightarrow> of_char c | _ \<Rightarrow> 0xAC00)"

definition demo_u8 :: "int \<Rightarrow> char list" where
  "demo_u8 x = u8enc (x mod 65536)"

definition demo_nls :: w32nls where
  "demo_nls = \<lparr>IsDBCSLeadByteEx = (\<lambda>cp. demo_lead),
     MultiByteToWideChar = (\<lambda>cp s m. if s = [] \<or> dbcs_complete demo_lead s < length s then None else Some (map demo_wc (dbcs_chars demo_lead s))),
     WideCharToMultiByte = (\<lambda>cp w m. if w = [] then None else Some (concat (map demo_u8 w))),
     GetConsoleOutputCP = 949, GetACP = 949\<rparr>"

lemma demo_nls_ok: "nls_ok demo_nls 949 demo_wc demo_u8"
proof -
  have "length (demo_u8 x) \<le> 3" for x by (simp add: demo_u8_def u8enc_len)
  moreover have "length (dbcs_chars demo_lead [c]) \<le> 1" for c using dbcs_chars_len(2) [of demo_lead "[c]"] by simp
  ultimately show ?thesis by (auto simp: nls_ok_def demo_nls_def)
qed


end
