(* ===== verification/Supprops.thy ===== *)
theory Supprops
  imports W32live Session
begin

text \<open>
  What the session gets from either supervisor.  The locale \<open>streaming_supervisor\<close> extends \<open>supervisor\<close> by the
  contract of a RUN: the text handed to the system's interpreter, when a schedule of the system is enough
  to serve the child, and what the session then receives.  Both implementations, and the one a build
  links, satisfy it; the answer of \<^verbatim>\<open>RUN\<close> is derived from the contract alone.
\<close>

lemma and_255_id: "0 \<le> code \<Longrightarrow> code \<le> 255 \<Longrightarrow> code AND 255 = (code :: int)"
  by (simp add: and_255)

lemma reply_exit_ok:
  assumes "chan_ok (s_chan st)" and "0 \<le> code" and "code \<le> 255"
  obtains c where "reply_exit st code = Continue (st\<lparr>s_chan := c\<rparr>)" "chan_out c = chan_out (s_chan st) @ ''X '' @ ld code @ [LF]"
    "chan_ok c" "chan_in c = chan_in (s_chan st)"
proof -
  obtain c where "lio_put_line (s_chan st) (''X '' @ ld code) = (LIO_OK, c)"
    "chan_out c = chan_out (s_chan st) @ (''X '' @ ld code) @ [LF]" "chan_ok c" "chan_in c = chan_in (s_chan st)"
    by (rule put_line_ok [OF assms(1)])
  with that [of c] and_255_id [OF assms(2,3)] show thesis by (simp add: reply_exit_def send_exit_def)
qed

section \<open>The contract\<close>

text \<open>The pipes of \<open>k\<close> are reported readable until their end, one byte at a time in the worst case; on a
  system that waits for the process separately (\<open>wait\<close>), it is found dead afterwards.\<close>

definition served :: "bool \<Rightarrow> child \<Rightarrow> tick list \<Rightarrow> bool" where
  "served wait k ts \<longleftrightarrow> (\<exists>ts1 ts2. ts = ts1 @ ts2 \<and> length (dev_in (c_out k)) < length (filter t_out ts1)
     \<and> length (dev_in (c_err k)) < length (filter t_err ts1) \<and> (wait \<longrightarrow> (\<exists>u \<in> set ts2. t_dead u)))"

locale streaming_supervisor = supervisor exec
  for exec :: "build \<Rightarrow> os \<Rightarrow> txt_ops \<Rightarrow> sess_cfg \<Rightarrow> live_mode \<Rightarrow> gcds_chan option \<Rightarrow> bool \<Rightarrow> string
    \<Rightarrow> gcds_env list \<Rightarrow> string \<Rightarrow> string \<Rightarrow> int \<Rightarrow> world \<Rightarrow> tick list
    \<Rightarrow> (int \<times> gcds_chan option \<times> world \<times> tick list \<times> signal list) option" +
  fixes launch :: "build \<Rightarrow> string \<Rightarrow> gcds_env list \<Rightarrow> string option"
    and exit_of :: "build \<Rightarrow> int \<Rightarrow> int"
    and waits :: "build \<Rightarrow> bool"
  assumes range: "exec B S T G mode sess ls cmd env outf errf jid w ts = Some (code, x, w', ts', sg) \<Longrightarrow>
      -2 \<le> code \<and> code \<le> 255"
    and exit_range: "exit_of B status \<le> 255"
    and runs: "text_stream B T wire cvt \<Longrightarrow> g_maxout G \<le> 0 \<Longrightarrow> chan_ok c \<Longrightarrow> launch B cmd env = Some scr \<Longrightarrow> os_fork S scr w = Some k \<Longrightarrow>
      \<forall>t \<in> set ts. \<not> t_sess t \<Longrightarrow> served (waits B) k ts \<Longrightarrow>
      \<exists>c' ts' sg fs. exec B S T G LIVE_RUN (Some c) ls cmd env outf errf jid w ts
          = Some (exit_of B (c_status k), Some c', c_after k, ts', sg)
        \<and> chan_ok c' \<and> chan_in c' = chan_in c \<and> chan_out c' = chan_out c @ frames fs
        \<and> (\<forall>f \<in> set fs. frame_wf B f \<and> fst f \<in> {CHR ''O'', CHR ''E''})
        \<and> payload (CHR ''O'') fs = wire (dev_in (c_out k)) \<and> payload (CHR ''E'') fs = wire (dev_in (c_err k))"
begin

text \<open>The answer of the session: the frames, then the exit code.\<close>

lemma run_reply:
  assumes "text_stream B T wire cvt" and "chan_ok (s_chan st)" and "g_maxout G \<le> 0" and "launch B cmd env = Some scr"
    and "os_fork S scr (s_world st) = Some k" and "\<forall>t \<in> set (s_ticks st). \<not> t_sess t"
    and "served (waits B) k (s_ticks st)" and "0 \<le> exit_of B (c_status k)"
  shows "\<exists>c ts fs. live_reply st (exec B S T G LIVE_RUN (Some (s_chan st)) ls cmd env outf errf jid (s_world st) (s_ticks st))
      = Continue (st\<lparr>s_chan := c, s_world := c_after k, s_ticks := ts\<rparr>)
    \<and> chan_in c = chan_in (s_chan st) \<and> chan_ok c
    \<and> chan_out c = chan_out (s_chan st) @ frames fs @ ''X '' @ ld (exit_of B (c_status k)) @ [LF]
    \<and> (\<forall>f \<in> set fs. frame_wf B f \<and> fst f \<in> {CHR ''O'', CHR ''E''})
    \<and> payload (CHR ''O'') fs = wire (dev_in (c_out k)) \<and> payload (CHR ''E'') fs = wire (dev_in (c_err k))"
proof -
  let ?code = "exit_of B (c_status k)"
  obtain c1 ts sg fs where l: "exec B S T G LIVE_RUN (Some (s_chan st)) ls cmd env outf errf jid (s_world st) (s_ticks st)
      = Some (?code, Some c1, c_after k, ts, sg)" "chan_ok c1" "chan_in c1 = chan_in (s_chan st)"
    "chan_out c1 = chan_out (s_chan st) @ frames fs" "\<forall>f \<in> set fs. frame_wf B f \<and> fst f \<in> {CHR ''O'', CHR ''E''}"
    "payload (CHR ''O'') fs = wire (dev_in (c_out k))" "payload (CHR ''E'') fs = wire (dev_in (c_err k))"
    using runs [OF assms(1,3,2,4-7), of ls outf errf jid] by blast
  let ?st = "st\<lparr>s_chan := c1, s_world := c_after k, s_ticks := ts\<rparr>"
  obtain c2 where c2: "reply_exit ?st ?code = Continue (?st\<lparr>s_chan := c2\<rparr>)"
    "chan_out c2 = chan_out c1 @ ''X '' @ ld ?code @ [LF]" "chan_ok c2" "chan_in c2 = chan_in c1"
    by (rule reply_exit_ok [of ?st ?code]) (use l(2) assms(8) exit_range in auto)
  have "live_reply st (exec B S T G LIVE_RUN (Some (s_chan st)) ls cmd env outf errf jid (s_world st) (s_ticks st))
      = reply_exit ?st ?code"
    using l(1) assms(8) by (simp add: live_reply_def)
  then show ?thesis using c2 l(3-7) by (intro exI [of _ c2] exI [of _ ts] exI [of _ fs]) simp
qed

end

section \<open>The two implementations\<close>

interpretation psx_run: streaming_supervisor live_exec "\<lambda>B. build_script SCRIPT_MAX" "\<lambda>B. status_code" "\<lambda>B. False"
proof unfold_locales
  fix B :: build and S :: os and T :: txt_ops and G :: sess_cfg and sess x :: "gcds_chan option" and env :: "gcds_env list"
    and w w' :: world and ts ts' :: "tick list" and mode ls cmd outf errf jid code sg
  assume "live_exec B S T G mode sess ls cmd env outf errf jid w ts = Some (code, x, w', ts', sg)"
  then show "-2 \<le> code \<and> code \<le> 255" using live_exec_sigs by fastforce
next
  fix G :: sess_cfg and c :: gcds_chan and S :: os and w :: world and k :: child and ts :: "tick list" and B :: build
    and T :: txt_ops and wire cvt and env :: "gcds_env list" and cmd scr ls outf errf jid
  assume T: "text_stream B T wire cvt" and a: "g_maxout G \<le> 0" "chan_ok c" "build_script SCRIPT_MAX cmd env = Some scr" "os_fork S scr w = Some k"
    "\<forall>t \<in> set ts. \<not> t_sess t" "served False k ts"
  let ?x = "live_exec B S T G LIVE_RUN (Some c) ls cmd env outf errf jid w ts"
  have "length (dev_in (c_out k)) < length (filter t_out ts) \<and> length (dev_in (c_err k)) < length (filter t_err ts)"
    using a(6) by (auto simp: served_def)
  then have "\<exists>r. live_loop B S T G w LIVE_RUN ls 0 (nat (chan_chunk c)) (c_status k) ts (lstate_init LIVE_RUN (Some c) k) = Some r"
    by (intro live_loop_returns [OF _ chunk_pos]) (auto simp: lstate_init_def need_def Suc_le_eq)
  then obtain code x w' ts' sg where e: "?x = Some (code, x, w', ts', sg)" using a(3,4) by (auto simp: live_exec_def)
  moreover obtain c' where "x = Some c'" "chan_in c' = chan_in c" by (rule live_run_keeps [OF e])
  ultimately show "\<exists>c' ts' sg fs. ?x = Some (status_code (c_status k), Some c', c_after k, ts', sg)
      \<and> chan_ok c' \<and> chan_in c' = chan_in c \<and> chan_out c' = chan_out c @ frames fs
      \<and> (\<forall>f \<in> set fs. frame_wf B f \<and> fst f \<in> {CHR ''O'', CHR ''E''})
      \<and> payload (CHR ''O'') fs = wire (dev_in (c_out k)) \<and> payload (CHR ''E'') fs = wire (dev_in (c_err k))"
    using text_stream.live_exec_streams [OF T e _ a(1-4)] a(5) by auto
qed (rule status_code_range)

definition w32_launch :: "string \<Rightarrow> gcds_env list \<Rightarrow> string option" where
  "w32_launch cmd env = map_option ((@) ''cmd.exe /c '') (build_wcmd (WCMD_MAX - 16) cmd env)"

interpretation w32_run: streaming_supervisor w32_live_exec "\<lambda>B. w32_launch" "\<lambda>B. w32_code" "\<lambda>B. True"
proof unfold_locales
  fix G :: sess_cfg and c :: gcds_chan and S :: os and w :: world and k :: child and ts :: "tick list" and B :: build
    and T :: txt_ops and wire cvt and env :: "gcds_env list" and cmd scr ls outf errf jid
  assume T: "text_stream B T wire cvt" and a: "g_maxout G \<le> 0" "chan_ok c" "w32_launch cmd env = Some scr" "os_fork S scr w = Some k"
    "\<forall>t \<in> set ts. \<not> t_sess t" "served True k ts"
  let ?x = "w32_live_exec B S T G LIVE_RUN (Some c) ls cmd env outf errf jid w ts"
  obtain wcmd where wc: "build_wcmd (WCMD_MAX - 16) cmd env = Some wcmd" "scr = ''cmd.exe /c '' @ wcmd"
    using a(3) by (auto simp: w32_launch_def)
  obtain ts1 ts3 u ts2 where t: "ts = (ts1 @ ts3) @ u # ts2" "t_dead u"
    "length (dev_in (c_out k)) < length (filter t_out (ts1 @ ts3))" "length (dev_in (c_err k)) < length (filter t_err (ts1 @ ts3))"
    using a(6) unfolding served_def by (fastforce dest!: split_list)
  have "\<forall>t \<in> set (ts1 @ ts3) \<union> set ts2 \<union> {u}. \<not> t_sess t" using a(5) t(1) by auto
  from text_stream.w32_exec_streams [OF T _ a(1,2) wc(1) a(4) [unfolded wc(2)] this t(2-4), of LIVE_RUN ls outf errf jid]
  obtain c' ts'' sg fs where e: "?x = Some (w32_code (c_status k), Some c', c_after k, ts'', sg)"
    "chan_ok c'" "chan_out c' = chan_out c @ frames fs" "\<forall>f \<in> set fs. frame_wf B f \<and> fst f \<in> {CHR ''O'', CHR ''E''}"
    "payload (CHR ''O'') fs = wire (dev_in (c_out k))" "payload (CHR ''E'') fs = wire (dev_in (c_err k))"
    unfolding t(1) by auto
  moreover have "chan_in c' = chan_in c" using w32_live_exec_reads [OF e(1)] by simp
  ultimately show "\<exists>c' ts' sg fs. ?x = Some (w32_code (c_status k), Some c', c_after k, ts', sg)
      \<and> chan_ok c' \<and> chan_in c' = chan_in c \<and> chan_out c' = chan_out c @ frames fs
      \<and> (\<forall>f \<in> set fs. frame_wf B f \<and> fst f \<in> {CHR ''O'', CHR ''E''})
      \<and> payload (CHR ''O'') fs = wire (dev_in (c_out k)) \<and> payload (CHR ''E'') fs = wire (dev_in (c_err k))" by blast
qed (erule w32_live_exec_range, rule w32_code_range(2))

section \<open>The implementation of a build\<close>

definition live_launch :: "build \<Rightarrow> string \<Rightarrow> gcds_env list \<Rightarrow> string option" where
  "live_launch B = (if GCDS_WIN32 B then w32_launch else build_script SCRIPT_MAX)"

definition live_code :: "build \<Rightarrow> int \<Rightarrow> int" where
  "live_code B = (if GCDS_WIN32 B then w32_code else status_code)"

interpretation run: streaming_supervisor sess_exec live_launch live_code GCDS_WIN32
proof unfold_locales
  fix B :: build and S :: os and T :: txt_ops and G :: sess_cfg and sess x :: "gcds_chan option" and env :: "gcds_env list"
    and w w' :: world and ts ts' :: "tick list" and mode ls cmd outf errf jid code sg
  assume "sess_exec B S T G mode sess ls cmd env outf errf jid w ts = Some (code, x, w', ts', sg)"
  then show "-2 \<le> code \<and> code \<le> 255"
    using psx_run.range w32_run.range by (auto simp: sess_exec_def split: if_splits)
next
  fix B :: build and status show "live_code B status \<le> 255" using psx_run.exit_range w32_run.exit_range by (simp add: live_code_def)
next
  fix G :: sess_cfg and c :: gcds_chan and S :: os and w :: world and k :: child and ts :: "tick list" and B :: build
    and T :: txt_ops and wire cvt and env :: "gcds_env list" and cmd scr ls outf errf jid
  assume T: "text_stream B T wire cvt" and a: "g_maxout G \<le> 0" "chan_ok c" "live_launch B cmd env = Some scr" "os_fork S scr w = Some k"
    "\<forall>t \<in> set ts. \<not> t_sess t" "served (GCDS_WIN32 B) k ts"
  show "\<exists>c' ts' sg fs. sess_exec B S T G LIVE_RUN (Some c) ls cmd env outf errf jid w ts
        = Some (live_code B (c_status k), Some c', c_after k, ts', sg)
      \<and> chan_ok c' \<and> chan_in c' = chan_in c \<and> chan_out c' = chan_out c @ frames fs
      \<and> (\<forall>f \<in> set fs. frame_wf B f \<and> fst f \<in> {CHR ''O'', CHR ''E''})
      \<and> payload (CHR ''O'') fs = wire (dev_in (c_out k)) \<and> payload (CHR ''E'') fs = wire (dev_in (c_err k))"
  proof (cases "GCDS_WIN32 B")
    case True
    then show ?thesis using w32_run.runs [OF T a(1,2), of cmd env scr S w k ts ls outf errf jid] a(3-6)
      by (simp add: sess_exec_def live_launch_def live_code_def)
  next
    case False
    then show ?thesis using psx_run.runs [OF T a(1,2), of cmd env scr S w k ts ls outf errf jid] a(3-6)
      by (simp add: sess_exec_def live_launch_def live_code_def)
  qed
qed

text \<open>
  C10. A supervised command streams exactly its output, on both systems.  When the session is silent and
  has no output cap and the schedule serves the child, the execution of a RUN on the system's supervisor
  returns the exit code of the command, has left the input of the session untouched, and the session
  received well-formed O and E frames whose payloads are the bytes the command wrote to its standard output
  and its standard error, each converted as a whole by the build's text conversion, wherever the reads cut it.
\<close>

theorem supervised_run_streams:
  assumes "text_stream B T wire cvt" and "g_maxout G \<le> 0" and "chan_ok c" and "live_launch B cmd env = Some scr" and "os_fork S scr w = Some k"
    and "\<forall>t \<in> set ts. \<not> t_sess t" and "served (GCDS_WIN32 B) k ts"
  shows "\<exists>c' ts' sg fs. sess_exec B S T G LIVE_RUN (Some c) ls cmd env outf errf jid w ts
        = Some (live_code B (c_status k), Some c', c_after k, ts', sg)
      \<and> chan_ok c' \<and> chan_in c' = chan_in c \<and> chan_out c' = chan_out c @ frames fs
      \<and> (\<forall>f \<in> set fs. frame_wf B f \<and> fst f \<in> {CHR ''O'', CHR ''E''})
      \<and> payload (CHR ''O'') fs = wire (dev_in (c_out k)) \<and> payload (CHR ''E'') fs = wire (dev_in (c_err k))"
  using assms by (rule run.runs)

lemma demo_served: "served b demo_child (replicate 6 demo_tick @ [demo_tick])"
  unfolding served_def
  by (rule exI [of _ "replicate 6 demo_tick"], rule exI [of _ "[demo_tick]"]) (simp add: demo_facts, simp add: demo_tick_def)

lemma demo_w32_launch: "\<exists>scr. live_launch w32_build ''cl'' [] = Some scr"
proof -
  have "build_wcmd (WCMD_MAX - 16) ''cl'' [] \<noteq> None" by code_simp
  then show ?thesis by (auto simp: live_launch_def w32_launch_def w32_build_def)
qed

theorem supervised_run_streams_witness:
  "\<exists>c' ts' sg fs. sess_exec w32_build live_os txt_none demo_cfg LIVE_RUN (Some (chan_tcp (demo_dev []))) False
      ''cl'' [] [] [] 0 demo_world (replicate 6 demo_tick @ [demo_tick]) = Some (255, Some c', demo_world, ts', sg)
    \<and> chan_out c' = frames fs \<and> payload (CHR ''O'') fs = ''hi'' \<and> payload (CHR ''E'') fs = ''warn''"
proof -
  obtain scr where scr: "live_launch w32_build ''cl'' [] = Some scr" using demo_w32_launch by blast
  have t: "\<forall>t \<in> set (replicate 6 demo_tick @ [demo_tick]). \<not> t_sess t" by (simp add: demo_tick_def)
  have k: "live_code w32_build (c_status demo_child) = 255" "c_after demo_child = demo_world"
    by (simp_all add: live_code_def w32_build_def w32_code_def demo_child_def)
  from supervised_run_streams [OF plain.text_stream_axioms demo_facts(3,1) scr demo_facts(4) t demo_served, of False "[]" "[]" 0 demo_world]
  show ?thesis unfolding k demo_facts by auto
qed

end
