(* ===== verification/Daemon.thy ===== *)
theory Daemon
  imports Session Conf
begin

text \<open>
  \<^verbatim>\<open>daemon/main.c\<close>: the iterative server.  The static job and result and what outlives a session are
  kept in the \<open>sess_state\<close> of \<open>Session\<close>.  The connections \<^verbatim>\<open>accept\<close> returns are a list, so that a
  statement about every list is one about every history of the server; \<open>None\<close> in the results is a
  command that never ends.
\<close>

section \<open>Deferred jobs\<close>

text \<open>The result of a job, from its exit code.\<close>

definition store_result :: "int \<Rightarrow> sess_state \<Rightarrow> sess_state" where
  "store_result code st =
     (if code < 0 then st\<lparr>s_res := (s_res st)\<lparr>valid := False\<rparr>\<rparr>
      else st\<lparr>s_res := (s_res st)\<lparr>valid := True, rjobid := jobid (s_job st), rcode := code\<rparr>\<rparr>)"

definition run_pending :: "build \<Rightarrow> os \<Rightarrow> txt_ops \<Rightarrow> sess_cfg \<Rightarrow> bool \<Rightarrow> sess_state \<Rightarrow> sess_state option" where
  "run_pending B S T G ls st0 =
     (if \<not> pending (s_job st0) then Some st0
      else let j = s_job st0; st = st0\<lparr>s_job := j\<lparr>pending := False\<rparr>\<rparr> in
        if GCDS_HAS_LIVE B then
          (case sess_exec B S T G LIVE_JOB None ls (jcmd j) (jenv j) (g_rof G) (g_ref G) (jobid j)
                  (s_world st) (s_ticks st) of
             None \<Rightarrow> None
           | Some (code, _, w, ts, _) \<Rightarrow> Some (store_result code (st\<lparr>s_world := w, s_ticks := ts\<rparr>)))
        else
          (case run_command B S (jcmd j) (jenv j) (g_rof G) (g_ref G) (s_world st) of (code, w) \<Rightarrow>
             Some (store_result code (st\<lparr>s_world := w\<rparr>))))"

section \<open>Serving\<close>

text \<open>One connection of \<^verbatim>\<open>serve_tcp\<close>: \<open>None\<close> when \<^verbatim>\<open>accept\<close> failed, else the peer and its socket; the
  second result is the closed socket.\<close>

definition serve_conn :: "build \<Rightarrow> os \<Rightarrow> txt_ops \<Rightarrow> sess_cfg \<Rightarrow> (string \<times> dev) option \<Rightarrow> sess_state
    \<Rightarrow> (sess_state \<times> dev option) option" where
  "serve_conn B S T G conn st =
     (case conn of
        None \<Rightarrow> Some (st, None)
      | Some (ip, d) \<Rightarrow>
          if \<not> session_peer_ok G ip then Some (st, Some d)
          else (case session_run B S T G True (st\<lparr>s_chan := chan_tcp d\<rparr>) of
              None \<Rightarrow> None
            | Some st1 \<Rightarrow>
                (case chan_close (s_chan st1) of (c, closed) \<Rightarrow>
                   (case run_pending B S T G True (st1\<lparr>s_chan := c\<rparr>) of
                      None \<Rightarrow> None
                    | Some st2 \<Rightarrow> Some (st2, closed)))))"

fun serve_loop :: "build \<Rightarrow> os \<Rightarrow> txt_ops \<Rightarrow> sess_cfg \<Rightarrow> (string \<times> dev) option list \<Rightarrow> sess_state
    \<Rightarrow> (sess_state \<times> dev option list) option" where
  "serve_loop B S T G [] st = Some (st, [])"
| "serve_loop B S T G (conn # conns) st =
     (case serve_conn B S T G conn st of
        None \<Rightarrow> None
      | Some (st1, d) \<Rightarrow>
          (case serve_loop B S T G conns st1 of None \<Rightarrow> None | Some (st2, ds) \<Rightarrow> Some (st2, d # ds)))"

definition serve_tcp :: "build \<Rightarrow> os \<Rightarrow> txt_ops \<Rightarrow> sess_cfg \<Rightarrow> (string \<times> dev) option list \<Rightarrow> sess_state
    \<Rightarrow> (sess_state \<times> dev option list) option" where
  "serve_tcp B S T G conns st =
     serve_loop B S T G conns (st\<lparr>s_res := (s_res st)\<lparr>valid := False\<rparr>, s_job := (s_job st)\<lparr>pending := False\<rparr>\<rparr>)"

text \<open>The serial server: the return value of \<^verbatim>\<open>serve_serial\<close> after the port was lost, with the state.
  Every round consumes a line.\<close>

lemma run_pending_chan: "run_pending B S T G ls st = Some st' \<Longrightarrow> s_chan st' = s_chan st"
  by (auto simp: run_pending_def store_result_def Let_def split: if_splits option.splits prod.splits)

function serial_loop :: "build \<Rightarrow> os \<Rightarrow> txt_ops \<Rightarrow> sess_cfg \<Rightarrow> sess_state \<Rightarrow> (int \<times> sess_state) option" where
  "serial_loop B S T G st =
     (case lio_get_line (s_chan st) GCDSP_LINE_MAX of (r, raw, c) \<Rightarrow>
        let st1 = st\<lparr>s_chan := c\<rparr> in
        if r = LIO_EIO then Some (1, st1)
        else if r = LIO_ELONG \<or> cstr raw \<noteq> ''HELLO'' then serial_loop B S T G st1
        else (case session_run B S T G False st1 of
            None \<Rightarrow> None
          | Some st2 \<Rightarrow>
              (case run_pending B S T G False st2 of
                 None \<Rightarrow> None
               | Some st3 \<Rightarrow> serial_loop B S T G st3)))"
  by pat_completeness auto
termination
  by (relation "measure (\<lambda>(B, S, T, G, st). length (chan_in (s_chan st)))")
    (auto dest!: sym [of _ "lio_get_line _ _"] lio_get_line_shrinks session_run_le run_pending_chan)

declare serial_loop.simps [simp del]

definition serve_serial :: "build \<Rightarrow> os \<Rightarrow> txt_ops \<Rightarrow> sess_cfg \<Rightarrow> dev option \<Rightarrow> sess_state \<Rightarrow> (int \<times> sess_state) option" where
  "serve_serial B S T G port st =
     (case port of
        None \<Rightarrow> Some (1, st)
      | Some f \<Rightarrow> serial_loop B S T G
          (st\<lparr>s_chan := chan_ser f, s_res := (s_res st)\<lparr>valid := False\<rparr>, s_job := (s_job st)\<lparr>pending := False\<rparr>\<rparr>))"

section \<open>Start\<close>

text \<open>What \<^verbatim>\<open>main\<close> decides from its arguments and its configuration file: to exit, or to serve.\<close>

datatype start = Exit int | Serial string int | Tcp int

record startup =
  su_start :: start
  su_cfg :: sess_cfg
  su_codepage :: string

definition main_conf :: "build \<Rightarrow> (string \<Rightarrow> char list option) \<Rightarrow> string list \<Rightarrow> gcds_kv list option" where
  "main_conf B file argv =
     (case argv of
        [_, a, cfile] \<Rightarrow> if a = ''-c'' then conf_load (file cfile) (CONF_ENT_MAX B) else None
      | [_] \<Rightarrow>
          (case conf_load (file ''gcdsd.cnf'') (CONF_ENT_MAX B) of
             None \<Rightarrow> if GCDS_DOS B then None else conf_load (file ''gcdsd.conf'') (CONF_ENT_MAX B)
           | Some kv \<Rightarrow> Some kv)
      | _ \<Rightarrow> None)"

definition daemon_main :: "build \<Rightarrow> (string \<Rightarrow> char list option) \<Rightarrow> bool \<Rightarrow> string list \<Rightarrow> sess_cfg \<Rightarrow> startup" where
  "daemon_main B file net_ok argv G0 =
     (case main_conf B file argv of
        None \<Rightarrow> \<lparr>su_start = Exit 2, su_cfg = G0, su_codepage = []\<rparr>
      | Some kv \<Rightarrow>
          (case conf_get kv ''token'' of
             None \<Rightarrow> \<lparr>su_start = Exit 2, su_cfg = G0, su_codepage = []\<rparr>
           | Some token \<Rightarrow>
               if token = [] then \<lparr>su_start = Exit 2, su_cfg = G0, su_codepage = []\<rparr>
               else
                 let port = atol (conf_gets kv ''port'' ''9910'');
                     tmpdir = conf_gets kv ''tmpdir'' (if GCDS_WIN32 B \<or> GCDS_DOS B then ''.'' else ''/tmp'');
                     adv_async = (char_at (conf_gets kv ''async'' ''0'') 0 = CHR ''1'');
                     is_serial = (case conf_get kv ''serial'' of None \<Rightarrow> False | Some s \<Rightarrow> s \<noteq> []);
                     live_ok = (GCDS_HAS_LIVE B \<and> \<not> is_serial);
                     ix_ok = (GCDS_HAS_IX B \<and> (\<not> GCDS_WIN32 B \<or> \<not> is_serial));
                     G = session_set_maxout (session_set_acl (session_init B G0 tmpdir token adv_async live_ok ix_ok)
                           (conf_get kv ''allow'')) (atol (conf_gets kv ''maxout'' ''0''));
                     cp = conf_gets kv ''codepage'' ''auto'' in
                 \<lparr>su_start =
                    (if \<not> net_ok then Exit 2
                     else if is_serial then
                       (let dev0 = strlcpy (case conf_get kv ''serial'' of None \<Rightarrow> [] | Some s \<Rightarrow> s) CONF_VAL_MAX in
                        case rcut (CHR '':'') dev0 of
                          None \<Rightarrow> Serial dev0 9600
                        | Some (d, b) \<Rightarrow> Serial d (atol b))
                     else Tcp (port mod 65536)),
                  su_cfg = G, su_codepage = cp\<rparr>))"

end
