(* ===== verification/Jobs.thy ===== *)
theory Jobs
  imports Filexfer Supprops Daemon
begin

text \<open>
  Remote execution end to end: what the daemon runs and answers, and what the client prints and
  returns for it; deferred jobs across sessions; and what histories of connections do to the daemon.
\<close>

section \<open>Captured output on the wire\<close>

definition content :: "os \<Rightarrow> world \<Rightarrow> string \<Rightarrow> char list" where
  "content S w p = (case w_read S w p of None \<Rightarrow> [] | Some d \<Rightarrow> d)"

lemma payload_tag:
  assumes "\<forall>f \<in> set fs. fst f = t"
  shows "payload t fs = concat (map snd fs)" and "u \<noteq> t \<Longrightarrow> payload u fs = []"
  using assms by (induction fs) (auto simp: payload_def)

text \<open>The loop of \<^verbatim>\<open>send_file\<close>: the frames carry what the conversion of the whole file adds to what was emitted
  before, as long as the output cap leaves room for it.\<close>

context text_stream
begin

lemma send_loop_streams:
  assumes "0 < chunk" and "chunk \<le> 1024"
  shows "cvt cv a e \<Longrightarrow> chan_ok c \<Longrightarrow> cap > 0 \<longrightarrow> sent + int (length (wire (a @ rest))) \<le> cap + int (length e) \<Longrightarrow>
    \<exists>c' fs. send_loop B T cap chunk tag rest cv sent c = (True, c', sent + int (length (concat (map snd fs))))
    \<and> chan_out c' = chan_out c @ frames fs \<and> (\<forall>f \<in> set fs. frame_wf B f \<and> fst f = tag)
    \<and> e @ concat (map snd fs) = wire (a @ rest) \<and> chan_ok c' \<and> chan_in c' = chan_in c"
proof (induction "length rest" arbitrary: rest cv a e sent c rule: less_induct)
  case less
  show ?case
  proof (cases "rest = []")
    case True
    obtain d where d: "tx_tail B T cv = Some d" "e @ d = wire a" "int (length d) \<le> GCDSP_FRAME_MAX B"
      using cvt_end [OF less.prems(1)] by blast
    show ?thesis
    proof (cases "d = []")
      case True
      with d(1) have "send_loop B T cap chunk tag [] cv sent c = (True, c, sent)"
        by (auto simp: send_loop.simps [of B T cap chunk tag "[]"] tx_tail_def split: if_splits prod.splits)
      with True d(2) \<open>rest = []\<close> less.prems(2) show ?thesis by (intro exI [of _ c] exI [of _ "[]"]) simp
    next
      case False
      then have wf: "frame_wf B (tag, d)" using d(3) by (cases d) (auto simp: frame_wf_def)
      obtain c1 where c1: "lio_put_frame B c tag d = (LIO_OK, c1)" "chan_out c1 = chan_out c @ frame tag d"
        "chan_ok c1" "chan_in c1 = chan_in c" by (rule put_frame_ok [OF less.prems(2) wf])
      with d(1) False have "send_loop B T cap chunk tag [] cv sent c = (True, c1, sent + int (length d))"
        by (auto simp: send_loop.simps [of B T cap chunk tag "[]"] tx_tail_def split: if_splits prod.splits)
      with d(2) wf c1 \<open>rest = []\<close> show ?thesis by (intro exI [of _ c1] exI [of _ "[(tag, d)]"]) simp
    qed
  next
    case ne: False
    let ?b = "take chunk rest" and ?r = "drop chunk rest"
    have br: "?b @ ?r = rest" and lt: "length ?r < length rest" using ne assms(1) by simp_all
    obtain d cv' where d: "tx_out B T cv ?b = (Some d, cv')" "cvt cv' (a @ ?b) (e @ d)" "int (length d) \<le> GCDSP_FRAME_MAX B"
      using cvt_step [OF less.prems(1), of ?b] assms(2) by (metis length_take min.coboundedI2)
    obtain z where "wire ((a @ ?b) @ ?r) = (e @ d) @ z" using cvt_prefix [OF d(2)] by blast
    then have z: "wire (a @ rest) = (e @ d) @ z" using br by simp
    have room: "\<not> (cap > 0 \<and> sent + int (length d) > cap)" using less.prems(3) z by auto
    have act: "txt_active T \<Longrightarrow> txt_out T cv ?b (2 * GCDSP_FRAME_MAX B) = (Some d, cv')"
      and inact: "\<not> txt_active T \<Longrightarrow> d = ?b \<and> cv' = cv" using d(1) by (auto simp: tx_out_def split: if_splits)
    have hyp: "\<exists>c' fs. send_loop B T cap chunk tag ?r cv' (sent + int (length d)) c0
        = (True, c', sent + int (length d) + int (length (concat (map snd fs))))
      \<and> chan_out c' = chan_out c0 @ frames fs \<and> (\<forall>f \<in> set fs. frame_wf B f \<and> fst f = tag)
      \<and> (e @ d) @ concat (map snd fs) = wire (a @ rest) \<and> chan_ok c' \<and> chan_in c' = chan_in c0" if "chan_ok c0" for c0
      using less.hyps [OF lt d(2) that, of "sent + int (length d)"] less.prems(3) br by auto
    show ?thesis
    proof (cases "d = []")
      case True
      then have "txt_active T" using inact ne assms(1) by auto
      then have "send_loop B T cap chunk tag rest cv sent c = send_loop B T cap chunk tag ?r cv' sent c"
        using ne assms(1) act True by (simp add: send_loop.simps [of B T cap chunk tag rest])
      with hyp [OF less.prems(2)] True show ?thesis by simp
    next
      case False
      then have wf: "frame_wf B (tag, d)" using d(3) by (cases d) (auto simp: frame_wf_def)
      obtain c1 where c1: "lio_put_frame B c tag d = (LIO_OK, c1)" "chan_out c1 = chan_out c @ frame tag d"
        "chan_ok c1" "chan_in c1 = chan_in c" by (rule put_frame_ok [OF less.prems(2) wf])
      have "send_loop B T cap chunk tag rest cv sent c = send_loop B T cap chunk tag ?r cv' (sent + int (length d)) c1"
        using ne assms(1) act inact False room c1(1)
        by (cases "txt_active T") (auto simp: send_loop.simps [of B T cap chunk tag rest] Let_def)
      moreover obtain c' fs where "send_loop B T cap chunk tag ?r cv' (sent + int (length d)) c1
          = (True, c', sent + int (length d) + int (length (concat (map snd fs))))" "chan_out c' = chan_out c1 @ frames fs"
        "\<forall>f \<in> set fs. frame_wf B f \<and> fst f = tag" "(e @ d) @ concat (map snd fs) = wire (a @ rest)" "chan_ok c'"
        "chan_in c' = chan_in c1" using hyp [OF c1(3)] by blast
      ultimately show ?thesis using c1(2,4) wf by (intro exI [of _ c'] exI [of _ "(tag, d) # fs"]) simp
    qed
  qed
qed

lemma send_file_frames:
  assumes "chan_ok c" and "g_maxout G > 0 \<longrightarrow> sent + int (length (wire (content S w p))) \<le> g_maxout G"
  shows "\<exists>c' fs. send_file B S T G w c tag p sent = (True, c', sent + int (length (wire (content S w p))))
    \<and> chan_out c' = chan_out c @ frames fs \<and> (\<forall>f \<in> set fs. frame_wf B f \<and> fst f = tag)
    \<and> concat (map snd fs) = wire (content S w p) \<and> chan_ok c' \<and> chan_in c' = chan_in c"
proof (cases "w_read S w p")
  case None
  with assms show ?thesis by (intro exI [of _ c] exI [of _ "[]"]) (simp add: send_file_def content_def wire_Nil)
next
  case (Some d)
  have ch: "0 < nat (chan_chunk c)" "nat (chan_chunk c) \<le> 1024" by (auto simp: chan_chunk_def)
  have "g_maxout G > 0 \<longrightarrow> sent + int (length (wire ([] @ d))) \<le> g_maxout G + int (length ([] :: char list))"
    using assms(2) Some by (simp add: content_def)
  from send_loop_streams [OF ch cvt_init assms(1) this, of tag] Some show ?thesis by (auto simp: send_file_def content_def)
qed

lemma send_captured_frames:
  assumes "chan_ok c"
    and "g_maxout G > 0 \<longrightarrow> int (length (wire (content S w outf)) + length (wire (content S w errf))) \<le> g_maxout G"
  shows "\<exists>c' fs. send_captured B S T G w outf errf c = (True, c') \<and> chan_out c' = chan_out c @ frames fs
    \<and> (\<forall>f \<in> set fs. frame_wf B f \<and> fst f \<in> {CHR ''O'', CHR ''E''})
    \<and> payload (CHR ''O'') fs = wire (content S w outf) \<and> payload (CHR ''E'') fs = wire (content S w errf)
    \<and> chan_ok c' \<and> chan_in c' = chan_in c"
proof -
  let ?o = "int (length (wire (content S w outf)))"
  have 1: "g_maxout G > 0 \<longrightarrow> 0 + ?o \<le> g_maxout G" using assms(2) by auto
  obtain c1 fs where c1: "send_file B S T G w c (CHR ''O'') outf 0 = (True, c1, 0 + ?o)"
    "chan_out c1 = chan_out c @ frames fs" "\<forall>f \<in> set fs. frame_wf B f \<and> fst f = CHR ''O''"
    "concat (map snd fs) = wire (content S w outf)" "chan_ok c1" "chan_in c1 = chan_in c"
    using send_file_frames [OF assms(1) 1] by blast
  have 2: "g_maxout G > 0 \<longrightarrow> 0 + ?o + int (length (wire (content S w errf))) \<le> g_maxout G"
    using assms(2) by auto
  obtain c2 gs where c2: "send_file B S T G w c1 (CHR ''E'') errf (0 + ?o)
      = (True, c2, 0 + ?o + int (length (wire (content S w errf))))"
    "chan_out c2 = chan_out c1 @ frames gs" "\<forall>f \<in> set gs. frame_wf B f \<and> fst f = CHR ''E''"
    "concat (map snd gs) = wire (content S w errf)" "chan_ok c2" "chan_in c2 = chan_in c1"
    using send_file_frames [OF c1(5) 2, of "CHR ''E''"] by auto
  have "send_captured B S T G w outf errf c = (True, c2)" using c1(1) c2(1) by (simp add: send_captured_def)
  then show ?thesis
    using c1(2-6) c2(2-6) payload_tag [of fs "CHR ''O''"] payload_tag [of gs "CHR ''E''"]
    by (intro exI [of _ c2] exI [of _ "fs @ gs"]) auto
qed

end

section \<open>What the client makes of an answer\<close>

text \<open>\<open>prints B answer code out err\<close>: a client that receives \<open>answer\<close> prints \<open>out\<close> and \<open>err\<close> and returns
  \<open>code\<close>, leaving the rest of its input.\<close>

definition prints :: "build \<Rightarrow> char list \<Rightarrow> int \<Rightarrow> char list \<Rightarrow> char list \<Rightarrow> bool" where
  "prints B answer code out err \<longleftrightarrow> (\<forall>rc io x. chan_in (ch rc) = answer @ x \<and> mb_conf io = None
      \<and> dev_ok (out1 io) \<and> dev_ok (out2 io) \<longrightarrow>
     (\<exists>rc' io'. rc_stream B rc io = (code, rc', io') \<and> chan_in (ch rc') = x
       \<and> tx (out1 io') = tx (out1 io) @ out \<and> tx (out2 io') = tx (out2 io) @ err))"

lemma frames_print:
  assumes "\<forall>f \<in> set fs. frame_wf B f \<and> fst f \<in> {CHR ''O'', CHR ''E''}" and "0 \<le> code" and "code \<le> 255"
    and "\<not> GCDS_DOS Bc"
  shows "prints Bc (frames fs @ ''X '' @ ld code @ [LF]) code (payload (CHR ''O'') fs) (payload (CHR ''E'') fs)"
proof -
  have wf: "\<forall>f \<in> set fs. frame_wf Bc f \<and> fst f \<in> {CHR ''O'', CHR ''E''}" using assms(1) frame_wf_client [OF _ assms(4)] by blast
  have "\<exists>rc' io'. rc_stream Bc rc io = (code, rc', io') \<and> chan_in (ch rc') = x
      \<and> tx (out1 io') = tx (out1 io) @ payload (CHR ''O'') fs \<and> tx (out2 io') = tx (out2 io) @ payload (CHR ''E'') fs"
    if "chan_in (ch rc) = (frames fs @ ''X '' @ ld code @ [LF]) @ x" "mb_conf io = None" "dev_ok (out1 io)" "dev_ok (out2 io)"
    for rc io x
    using rc_stream_frames [OF _ wf assms(2,3) that(2-4), of rc x] that(1) by auto
  then show ?thesis unfolding prints_def by blast
qed

section \<open>RUN\<close>

lemma sess_run_live:
  assumes "text_stream B T wire cvt" and "GCDS_HAS_LIVE B" and "chan_ok (s_chan st)" and "g_maxout G \<le> 0"
    and "live_launch B cmd (s_env st) = Some scr" and "os_fork S scr (s_world st) = Some k"
    and "\<forall>t \<in> set (s_ticks st). \<not> t_sess t" and "served (GCDS_WIN32 B) k (s_ticks st)"
    and "0 \<le> live_code B (c_status k)"
  shows "\<exists>c ts fs. sess_run B S T G ls (Some cmd) st =
      Continue (st\<lparr>s_res := (s_res st)\<lparr>valid := False\<rparr>, s_chan := c, s_world := c_after k, s_ticks := ts\<rparr>)
    \<and> chan_in c = chan_in (s_chan st) \<and> chan_ok c
    \<and> chan_out c = chan_out (s_chan st) @ frames fs @ ''X '' @ ld (live_code B (c_status k)) @ [LF]
    \<and> (\<forall>f \<in> set fs. frame_wf B f \<and> fst f \<in> {CHR ''O'', CHR ''E''})
    \<and> payload (CHR ''O'') fs = wire (dev_in (c_out k)) \<and> payload (CHR ''E'') fs = wire (dev_in (c_err k))"
  using run.run_reply [OF assms(1), of "st\<lparr>s_res := (s_res st)\<lparr>valid := False\<rparr>\<rparr>" G cmd "s_env st" scr S k ls "[]" "[]" 0] assms(2-)
  by (simp add: sess_run_def)

text \<open>
  \<^verbatim>\<open>gcds host command\<close> mirrors the remote command.  On a supervised build, for every schedule in which
  the session stays silent and the child's pipes are reported ready until their end, the daemon runs the
  command, answers with its output and exit code and goes on with the next command of the session; and a
  client that receives this answer writes exactly the child's converted standard output to its own, the
  child's converted standard error to its own, and returns the child's exit code.
\<close>

lemma run_end_to_end:
  assumes "text_stream B T wire cvt" and "s_authed st \<and> chan_ok (s_chan st)" and "GCDS_HAS_LIVE B" and "g_maxout G \<le> 0"
    and "is_msg GCDSP_LINE_MAX line" and "sess_line_in T B line = ''RUN '' @ cmd"
    and "live_launch B cmd (s_env st) = Some scr" and "os_fork S scr (s_world st) = Some k"
    and "\<forall>t \<in> set (s_ticks st). \<not> t_sess t" and "served (GCDS_WIN32 B) k (s_ticks st)"
    and "0 \<le> live_code B (c_status k)" and "\<not> GCDS_DOS Bc"
    and "chan_in (s_chan st) = line @ LF # rest"
  shows "\<exists>c ts answer. session_loop B S T G ls st = session_loop B S T G ls
      (st\<lparr>s_res := (s_res st)\<lparr>valid := False\<rparr>, s_chan := c, s_world := c_after k, s_ticks := ts\<rparr>)
    \<and> chan_in c = rest \<and> chan_ok c \<and> chan_out c = chan_out (s_chan st) @ answer
    \<and> prints Bc answer (live_code B (c_status k)) (wire (dev_in (c_out k))) (wire (dev_in (c_err k)))"
proof -
  obtain c1 where c1: "chan_in c1 = rest" "chan_out c1 = chan_out (s_chan st)" "chan_ok c1 = chan_ok (s_chan st)"
    "session_loop B S T G ls st = (case session_line B S T G ls line (st\<lparr>s_chan := c1\<rparr>) of
       Continue st' \<Rightarrow> session_loop B S T G ls st' | Return st' \<Rightarrow> Some st' | Blocked \<Rightarrow> None)"
    by (rule session_loop_line [OF assms(13,5)])
  let ?st = "st\<lparr>s_chan := c1\<rparr>"
  have r: "s_authed ?st" "chan_ok (s_chan ?st)" using assms(2) c1(3) by simp_all
  obtain c ts fs where c: "sess_run B S T G ls (Some cmd) ?st =
      Continue (?st\<lparr>s_res := (s_res st)\<lparr>valid := False\<rparr>, s_chan := c, s_world := c_after k, s_ticks := ts\<rparr>)"
    "chan_in c = rest" "chan_out c = chan_out (s_chan st) @ frames fs @ ''X '' @ ld (live_code B (c_status k)) @ [LF]"
    "\<forall>f \<in> set fs. frame_wf B f \<and> fst f \<in> {CHR ''O'', CHR ''E''}"
    "payload (CHR ''O'') fs = wire (dev_in (c_out k))" "payload (CHR ''E'') fs = wire (dev_in (c_err k))" "chan_ok c"
    using sess_run_live [OF assms(1,3) r(2) assms(4), of cmd scr S k ls] assms(7-11) c1(1,2) by auto
  have "session_loop B S T G ls st = session_loop B S T G ls
      (st\<lparr>s_res := (s_res st)\<lparr>valid := False\<rparr>, s_chan := c, s_world := c_after k, s_ticks := ts\<rparr>)"
    using c1(4) session_line_word(3) [OF r(1) assms(6)] c(1) by simp
  with c(2,3,7) frames_print [OF c(4) assms(11) run.exit_range assms(12)] show ?thesis
    unfolding c(5,6) by (intro exI [of _ c] exI [of _ ts] exI) simp
qed

section \<open>Deferred jobs\<close>

lemma sess_result_frames:
  assumes "chan_ok (s_chan st)" and "text_stream B T wire cvt" and "valid (s_res st)" and "res_wf (s_res st)"
    and "g_maxout G > 0 \<longrightarrow>
      int (length (wire (content S (s_world st) (g_rof G))) + length (wire (content S (s_world st) (g_ref G)))) \<le> g_maxout G"
  shows "\<exists>c fs. sess_result B S T G (Some (ld (rjobid (s_res st)))) st = Continue (st\<lparr>s_chan := c\<rparr>)
    \<and> chan_in c = chan_in (s_chan st) \<and> chan_ok c
    \<and> chan_out c = chan_out (s_chan st) @ frames fs @ ''X '' @ ld (rcode (s_res st)) @ [LF]
    \<and> (\<forall>f \<in> set fs. frame_wf B f \<and> fst f \<in> {CHR ''O'', CHR ''E''})
    \<and> payload (CHR ''O'') fs = wire (content S (s_world st) (g_rof G)) \<and> payload (CHR ''E'') fs = wire (content S (s_world st) (g_ref G))"
proof -
  have w: "1 \<le> rjobid (s_res st)" "rjobid (s_res st) \<le> GCDSP_JOB_MAX" "0 \<le> rcode (s_res st)" "rcode (s_res st) \<le> 255"
    using assms(3,4) by (simp_all add: res_wf_def)
  then have a: "atol (ld (rjobid (s_res st))) = rjobid (s_res st)" by (intro atol_ld_nonneg) simp_all
  obtain c1 fs where c1: "send_captured B S T G (s_world st) (g_rof G) (g_ref G) (s_chan st) = (True, c1)"
    "chan_out c1 = chan_out (s_chan st) @ frames fs" "\<forall>f \<in> set fs. frame_wf B f \<and> fst f \<in> {CHR ''O'', CHR ''E''}"
    "payload (CHR ''O'') fs = wire (content S (s_world st) (g_rof G))" "payload (CHR ''E'') fs = wire (content S (s_world st) (g_ref G))"
    "chan_ok c1" "chan_in c1 = chan_in (s_chan st)"
    using text_stream.send_captured_frames [OF assms(2,1,5)] by blast
  obtain c2 where c2: "reply_exit (st\<lparr>s_chan := c1\<rparr>) (rcode (s_res st)) = Continue (st\<lparr>s_chan := c1, s_chan := c2\<rparr>)"
    "chan_out c2 = chan_out c1 @ ''X '' @ ld (rcode (s_res st)) @ [LF]" "chan_ok c2" "chan_in c2 = chan_in c1"
    by (rule reply_exit_ok [of "st\<lparr>s_chan := c1\<rparr>" "rcode (s_res st)"]) (use c1(6) w(3,4) in auto)
  have "sess_result B S T G (Some (ld (rjobid (s_res st)))) st = Continue (st\<lparr>s_chan := c2\<rparr>)"
    using assms(3) c1(1) c2(1) by (simp add: sess_result_def a)
  with c1 c2 show ?thesis by (intro exI [of _ c2] exI [of _ fs]) simp
qed

lemma job_line:
  assumes "1 \<le> j" and "j \<le> GCDSP_JOB_MAX" and "length w \<le> 100" and "set w \<inter> {CR, LF, NUL} = {}" and "w \<noteq> []"
  shows "is_msg GCDSP_LINE_MAX (w @ ld j)"
proof -
  have "length (dec (nat j)) \<le> 6" using assms(1,2) by (intro dec_length) simp_all
  with assms show ?thesis by (auto simp: is_msg_def ld_def)
qed

text \<open>A session that holds a result answers \<^verbatim>\<open>RESULT\<close> with it.\<close>

lemma session_loop_result:
  assumes "text_stream B T wire cvt" and "s_authed st" and "chan_ok (s_chan st)"
    and "valid (s_res st)" and "res_wf (s_res st)"
    and "g_maxout G > 0 \<longrightarrow>
      int (length (wire (content S (s_world st) (g_rof G))) + length (wire (content S (s_world st) (g_ref G)))) \<le> g_maxout G"
    and "sess_line_in T B (''RESULT '' @ ld (rjobid (s_res st))) = ''RESULT '' @ ld (rjobid (s_res st))"
    and "chan_in (s_chan st) = (''RESULT '' @ ld (rjobid (s_res st))) @ LF # rest" and "\<not> GCDS_DOS Bc"
  shows "\<exists>c answer. session_loop B S T G ls st = session_loop B S T G ls (st\<lparr>s_chan := c\<rparr>)
    \<and> chan_in c = rest \<and> chan_out c = chan_out (s_chan st) @ answer
    \<and> prints Bc answer (rcode (s_res st)) (wire (content S (s_world st) (g_rof G))) (wire (content S (s_world st) (g_ref G)))"
proof -
  have n: "1 \<le> rjobid (s_res st)" "rjobid (s_res st) \<le> GCDSP_JOB_MAX" and
    code: "0 \<le> rcode (s_res st)" "rcode (s_res st) \<le> 255" using assms(4,5) by (simp_all add: res_wf_def)
  let ?line = "''RESULT '' @ ld (rjobid (s_res st))"
  have m: "is_msg GCDSP_LINE_MAX ?line" by (rule job_line [OF n]) simp_all
  obtain c1 where c1: "chan_in c1 = rest" "chan_out c1 = chan_out (s_chan st)" "chan_ok c1 = chan_ok (s_chan st)"
    "session_loop B S T G ls st = (case session_line B S T G ls ?line (st\<lparr>s_chan := c1\<rparr>) of
       Continue st' \<Rightarrow> session_loop B S T G ls st' | Return st' \<Rightarrow> Some st' | Blocked \<Rightarrow> None)"
    by (rule session_loop_line [OF assms(8) m])
  let ?st = "st\<lparr>s_chan := c1\<rparr>"
  obtain c fs where c: "sess_result B S T G (Some (ld (rjobid (s_res st)))) ?st = Continue (st\<lparr>s_chan := c\<rparr>)" "chan_in c = rest"
    "chan_out c = chan_out (s_chan st) @ frames fs @ ''X '' @ ld (rcode (s_res st)) @ [LF]"
    "\<forall>f \<in> set fs. frame_wf B f \<and> fst f \<in> {CHR ''O'', CHR ''E''}"
    "payload (CHR ''O'') fs = wire (content S (s_world st) (g_rof G))" "payload (CHR ''E'') fs = wire (content S (s_world st) (g_ref G))"
    using sess_result_frames [OF _ assms(1), of ?st G S] c1(3) assms(3-6) c1(1,2) by auto
  have "session_line B S T G ls ?line ?st = sess_result B S T G (Some (ld (rjobid (s_res st)))) ?st"
    using assms(2,7) by (intro session_line_word(5)) simp_all
  then have "session_loop B S T G ls st = session_loop B S T G ls (st\<lparr>s_chan := c\<rparr>)" using c1(4) c(1) by simp
  with c(2,3) frames_print [OF c(4) code assms(9)] show ?thesis
    unfolding c(5,6) by (intro exI [of _ c] exI) simp
qed

text \<open>What running a deferred job leaves behind.\<close>

lemma run_pending_result:
  assumes "run_pending B S T G ls st = Some st'" and "pending (s_job st)" and "sess_inv B st"
  shows "\<not> pending (s_job st') \<and> res_wf (s_res st') \<and> (valid (s_res st') \<longrightarrow> rjobid (s_res st') = jobid (s_job st))
    \<and> s_jctr st' = s_jctr st \<and> s_env st' = s_env st"
proof -
  let ?j = "s_job st"
  have j: "1 \<le> jobid ?j" "jobid ?j \<le> GCDSP_JOB_MAX" using assms(2,3) by (simp_all add: sess_inv_def job_wf_def)
  have "\<exists>code w ts. code \<le> 255 \<and> st' = store_result code (st\<lparr>s_job := ?j\<lparr>pending := False\<rparr>, s_world := w, s_ticks := ts\<rparr>)"
  proof (cases "GCDS_HAS_LIVE B")
    case True
    with assms(1,2) obtain code x w ts sg where
      "sess_exec B S T G LIVE_JOB None ls (jcmd ?j) (jenv ?j) (g_rof G) (g_ref G) (jobid ?j) (s_world st) (s_ticks st)
        = Some (code, x, w, ts, sg)"
      "st' = store_result code (st\<lparr>s_job := ?j\<lparr>pending := False\<rparr>, s_world := w, s_ticks := ts\<rparr>)"
      by (auto simp: run_pending_def Let_def split: option.splits)
    with run.range [of B S T G] show ?thesis by fastforce
  next
    case False
    obtain code w where c: "run_command B S (jcmd ?j) (jenv ?j) (g_rof G) (g_ref G) (s_world st) = (code, w)" by (metis surj_pair)
    then have "code \<le> 255" using run_command_range [of B S "jcmd ?j" "jenv ?j" "g_rof G" "g_ref G" "s_world st"] by simp
    moreover have "st' = store_result code (st\<lparr>s_job := ?j\<lparr>pending := False\<rparr>, s_world := w, s_ticks := s_ticks st\<rparr>)"
      using assms(1,2) False c by (simp add: run_pending_def)
    ultimately show ?thesis by blast
  qed
  then obtain code w ts where "code \<le> 255"
    "st' = store_result code (st\<lparr>s_job := ?j\<lparr>pending := False\<rparr>, s_world := w, s_ticks := ts\<rparr>)" by blast
  then show ?thesis using j by (cases "code < 0") (simp_all add: store_result_def res_wf_def)
qed

section \<open>Histories of connections\<close>

text \<open>A connection that is not admitted: \<^verbatim>\<open>accept\<close> failed, the peer is not in the allow list, or its
  first line does not authenticate.\<close>

definition refused :: "build \<Rightarrow> txt_ops \<Rightarrow> sess_cfg \<Rightarrow> (string \<times> dev) option \<Rightarrow> bool" where
  "refused B T G conn \<longleftrightarrow> (case conn of None \<Rightarrow> True
     | Some (ip, d) \<Rightarrow> \<not> session_peer_ok G ip \<or> \<not> opens B T G (dev_in d))"

definition same_daemon :: "sess_state \<Rightarrow> sess_state \<Rightarrow> bool" where
  "same_daemon st st' \<longleftrightarrow> s_world st' = s_world st \<and> s_res st' = s_res st \<and> s_jctr st' = s_jctr st
     \<and> s_ticks st' = s_ticks st \<and> \<not> pending (s_job st')"

lemma chan_tcp_in [simp]: "chan_in (chan_tcp d) = dev_in d"
  by (simp add: chan_in_def chan_dev_def chan_tcp_def)

lemma serve_conn_refused:
  assumes "refused B T G conn" and "\<not> pending (s_job st)"
  shows "\<exists>st' d. serve_conn B S T G conn st = Some (st', d) \<and> same_daemon st st'"
proof (cases "\<exists>ip d. conn = Some (ip, d) \<and> session_peer_ok G ip")
  case False
  with assms(2) show ?thesis by (auto simp: serve_conn_def same_daemon_def split: option.splits)
next
  case True
  then obtain ip d where c: "conn = Some (ip, d)" "session_peer_ok G ip" by blast
  then have "\<not> opens B T G (chan_in (s_chan (st\<lparr>s_chan := chan_tcp d\<rparr>)))" using assms(1) by (simp add: refused_def)
  from session_unauth [OF this, of S True] obtain st1 where
    "session_run B S T G True (st\<lparr>s_chan := chan_tcp d\<rparr>) = Some st1" "same_daemon st st1" by (auto simp: same_daemon_def)
  with c show ?thesis by (auto simp: serve_conn_def run_pending_def same_daemon_def split: prod.splits)
qed

text \<open>
  C5. Peers that are not admitted cannot affect the daemon.  Through any history of connections each of
  which fails, comes from an address outside the allow list or does not authenticate with its first line,
  the server keeps serving, and afterwards its files, working directory, environment, job counter and
  pending executions are what they were at the start, no result is stored and no job is scheduled.
\<close>

theorem serve_tcp_guarded:
  assumes "\<forall>conn \<in> set conns. refused B T G conn"
  shows "\<exists>st' ds. serve_tcp B S T G conns st = Some (st', ds) \<and> length ds = length conns
    \<and> s_world st' = s_world st \<and> s_jctr st' = s_jctr st \<and> s_ticks st' = s_ticks st
    \<and> \<not> valid (s_res st') \<and> \<not> pending (s_job st')"
proof -
  have "\<exists>st' ds. serve_loop B S T G conns st0 = Some (st', ds) \<and> length ds = length conns \<and> same_daemon st0 st'"
    if "\<not> pending (s_job st0)" for st0
    using assms that
  proof (induction conns arbitrary: st0)
    case Nil
    then show ?case by (simp add: same_daemon_def)
  next
    case (Cons conn conns)
    then obtain st1 d where 1: "serve_conn B S T G conn st0 = Some (st1, d)" "same_daemon st0 st1"
      using serve_conn_refused [of B T G conn st0 S] by auto
    with Cons.IH [of st1] Cons.prems obtain st2 ds where "serve_loop B S T G conns st1 = Some (st2, ds)"
      "length ds = length conns" "same_daemon st1 st2" by (auto simp: same_daemon_def)
    with 1 show ?case by (auto simp: same_daemon_def)
  qed
  from this [of "st\<lparr>s_res := (s_res st)\<lparr>valid := False\<rparr>, s_job := (s_job st)\<lparr>pending := False\<rparr>\<rparr>"] show ?thesis
    by (auto simp: serve_tcp_def same_daemon_def)
qed

definition daemon_ok :: "sess_state \<Rightarrow> bool" where
  "daemon_ok st \<longleftrightarrow> 0 \<le> s_jctr st \<and> s_jctr st \<le> GCDSP_JOB_MAX \<and> res_wf (s_res st) \<and> \<not> pending (s_job st)"

lemma run_pending_ok:
  assumes "run_pending B S T G ls st = Some st'" and "sess_inv B st"
  shows "daemon_ok st'"
proof (cases "pending (s_job st)")
  case True
  from run_pending_result [OF assms(1) True assms(2)] assms(2) show ?thesis by (simp add: daemon_ok_def sess_inv_def)
next
  case False
  with assms(1) have "st' = st" by (simp add: run_pending_def)
  with False assms(2) show ?thesis by (simp add: daemon_ok_def sess_inv_def)
qed

lemma serve_conn_ok:
  assumes "serve_conn B S T G conn st = Some (st', d)" and "daemon_ok st"
  shows "daemon_ok st'"
proof (cases "\<exists>ip dv. conn = Some (ip, dv) \<and> session_peer_ok G ip")
  case False
  with assms show ?thesis by (auto simp: serve_conn_def split: option.splits if_splits)
next
  case True
  with assms(1) obtain dv st1 where st1: "session_run B S T G True (st\<lparr>s_chan := chan_tcp dv\<rparr>) = Some st1"
    "run_pending B S T G True (st1\<lparr>s_chan := fst (chan_close (s_chan st1))\<rparr>) = Some st'"
    by (auto simp: serve_conn_def split: option.splits prod.splits)
  have "sess_inv B st1" using session_run_inv [OF st1(1)] assms(2) by (simp add: daemon_ok_def)
  then have "sess_inv B (st1\<lparr>s_chan := fst (chan_close (s_chan st1))\<rparr>)" by (simp add: sess_inv_def)
  with st1(2) show ?thesis by (rule run_pending_ok)
qed

text \<open>
  C13. Whatever the peers send through any history of connections, whenever the server waits for the next
  connection its job counter is within its range, no job is left unexecuted, and a stored result has a
  job number in 1..\<^verbatim>\<open>GCDSP_JOB_MAX\<close> and an exit code in 0..255.
\<close>

theorem serve_tcp_invariant:
  assumes "serve_tcp B S T G conns st = Some (st', ds)" and "0 \<le> s_jctr st" and "s_jctr st \<le> GCDSP_JOB_MAX"
  shows "daemon_ok st'"
proof -
  have "serve_loop B S T G conns st0 = Some (st', ds) \<Longrightarrow> daemon_ok st0 \<Longrightarrow> daemon_ok st'" for st0
  proof (induction conns arbitrary: st0 ds)
    case (Cons conn conns)
    then obtain st1 d ds1 where 1: "serve_conn B S T G conn st0 = Some (st1, d)" "serve_loop B S T G conns st1 = Some (st', ds1)"
      by (auto split: option.splits)
    from Cons.IH [OF 1(2) serve_conn_ok [OF 1(1) Cons.prems(2)]] show ?case .
  qed simp
  from this [OF assms(1) [unfolded serve_tcp_def]] assms(2,3) show ?thesis by (simp add: daemon_ok_def res_wf_def)
qed

section \<open>A serial line\<close>

lemma serial_skip:
  assumes "chan_in (s_chan st) = l @ LF # rest" and "LF \<notin> set l" and "cstr (filter (\<lambda>x. x \<noteq> CR) l) \<noteq> ''HELLO''"
    and "length l < 1024"
  shows "\<exists>c. serial_loop B S T G st = serial_loop B S T G (st\<lparr>s_chan := c\<rparr>) \<and> chan_in c = rest
    \<and> chan_out c = chan_out (s_chan st) \<and> chan_ok c = chan_ok (s_chan st) \<and> kind c = kind (s_chan st)"
proof -
  obtain r b c where g: "lio_get_line (s_chan st) GCDSP_LINE_MAX = (r, b, c)" by (metis surj_pair)
  have "length (filter (\<lambda>x. x \<noteq> CR) l) < 1024" using length_filter_le [of "\<lambda>x. x \<noteq> CR" l] assms(4) by linarith
  then have "line_ref (chan_in (s_chan st)) [] GCDSP_LINE_MAX = (LIO_OK, filter (\<lambda>x. x \<noteq> CR) l, rest)"
    using line_ref_ok [of l "[]" GCDSP_LINE_MAX rest] assms(1,2) by simp
  then have "r = LIO_OK" "b = filter (\<lambda>x. x \<noteq> CR) l" "chan_in c = rest" "chan_out c = chan_out (s_chan st)"
    "chan_ok c = chan_ok (s_chan st)" "kind c = kind (s_chan st)"
    using lio_get_line_view [OF g] lio_get_line_kind [OF g] by auto
  with g assms(3) show ?thesis by (intro exI [of _ c]) (simp add: serial_loop.simps [of B S T G st] Let_def)
qed


section \<open>Examples\<close>

theorem serve_tcp_guarded_witness:
  "\<exists>st' ds. serve_tcp posix_build demo_os txt_none token_cfg
      [Some (''10.0.0.1'', sess_dev (''RUN rm -r /'' @ [LF])), None] (demo_sess False []) = Some (st', ds)
    \<and> s_world st' = demo_world"
proof -
  have "refused posix_build txt_none token_cfg (Some (''10.0.0.1'', sess_dev (''RUN rm -r /'' @ [LF])))"
    "refused posix_build txt_none token_cfg None" by code_simp+
  then show ?thesis
    using serve_tcp_guarded [of "[Some (''10.0.0.1'', sess_dev (''RUN rm -r /'' @ [LF])), None]" posix_build txt_none token_cfg
        demo_os "demo_sess False []"]
    by (simp only: list.set ball_simps simp_thms) (auto simp: demo_sess_def)
qed

definition demo_served :: "(sess_state \<times> dev option list) option" where
  "demo_served = serve_tcp dos_build demo_os txt_none token_cfg
     [Some (''10.0.0.1'', sess_dev (''AUTH tok'' @ [LF] @ ''RUNA make'' @ [LF]))] (demo_sess False [])"

lemma demo_served_Some: "map_option (\<lambda>(st, ds). (s_jctr st, valid (s_res st))) demo_served = Some (1, True)"
  by code_simp

theorem serve_tcp_invariant_witness:
  "\<exists>st' ds. demo_served = Some (st', ds) \<and> valid (s_res st') \<and> daemon_ok st'"
proof -
  obtain st' ds where s: "serve_tcp dos_build demo_os txt_none token_cfg
     [Some (''10.0.0.1'', sess_dev (''AUTH tok'' @ [LF] @ ''RUNA make'' @ [LF]))] (demo_sess False []) = Some (st', ds)"
    "valid (s_res st')" using demo_served_Some by (auto simp: demo_served_def)
  have "0 \<le> s_jctr (demo_sess False [])" "s_jctr (demo_sess False []) \<le> GCDSP_JOB_MAX" by (simp_all add: demo_sess_def)
  from serve_tcp_invariant [OF s(1) this] s show ?thesis by (auto simp: demo_served_def)
qed


end
