(* ===== verification/Clientprops.thy ===== *)
theory Clientprops
  imports Client Jobs
begin

text \<open>
  The client program as a whole.  What the daemon announces in its greeting is what the client learns
  from it; \<^verbatim>\<open>gcds host command\<close> against a session of the daemon ends with the exit code and the output of
  the command, converted by the daemon's text conversion, at once or by way of a deferred job; and what a
  line feed in the command and a broken fetch of a result do.
\<close>

section \<open>The greeting\<close>

definition is_word :: "string \<Rightarrow> bool" where
  "is_word s \<longleftrightarrow> s \<noteq> [] \<and> set s \<inter> {CHR '' '', CR, LF, NUL} = {}"

definition caps :: "build \<Rightarrow> sess_cfg \<Rightarrow> string list" where
  "caps B G = (if g_async G then [''ASYNC''] else []) @ (if g_live G then [''LIVE''] else [])
     @ (if g_ix G then [''INTERACTIVE''] else []) @ (if TXT_WIRE_UTF8 B then [''UTF8''] else [])"

definition spaced :: "string list \<Rightarrow> string" where
  "spaced ws = concat (map (\<lambda>w. CHR '' '' # w) ws)"

lemma spaced_simps [simp]: "spaced [] = []" "spaced (w # ws) = CHR '' '' # w @ spaced ws"
  "spaced (us @ ws) = spaced us @ spaced ws"
  by (simp_all add: spaced_def)

lemma strtok_run: "CHR '' '' \<notin> set w \<Longrightarrow> strtok_words cur (w @ s) = strtok_words (cur @ w) s"
  by (induction w arbitrary: cur) auto

lemma strtok_spaced: "\<forall>w \<in> set ws. is_word w \<Longrightarrow> cur \<noteq> [] \<Longrightarrow> strtok_words cur (spaced ws) = cur # ws"
proof (induction ws arbitrary: cur)
  case (Cons w ws)
  then have "CHR '' '' \<notin> set w" "w \<noteq> []" by (auto simp: is_word_def)
  with Cons show ?case by (simp add: strtok_run)
qed simp

lemma caps_words: "w \<in> set (caps B G) \<Longrightarrow> is_word w"
  by (auto simp: caps_def is_word_def split: if_splits)

lemma caps_length: "length (spaced (caps B G)) \<le> 28"
  by (simp add: caps_def)

text \<open>The greeting is a line of words.\<close>

lemma greeting_words:
  assumes "length (os_tag B S) + length (os_hostname B S w 64) < 900"
  shows "greeting B S G w = ''GCDS'' @ spaced (''1'' # os_tag B S # os_hostname B S w 64 # caps B G)"
  using assms by (simp add: greeting_def Let_def gcds_strlcat_fits caps_def)

lemma greeting_msg:
  assumes "is_word (os_tag B S)" and "is_word (os_hostname B S w 64)"
    and "length (os_tag B S) + length (os_hostname B S w 64) < 900"
  shows "is_msg GCDSP_LINE_MAX (greeting B S G w)"
proof -
  have c: "set (spaced (caps B G)) \<inter> {CR, LF, NUL} = {}" by (auto simp: caps_def)
  show ?thesis
    using assms(1,2) c caps_length [of B G] assms(3) unfolding greeting_words [OF assms(3)]
    by (auto simp: is_msg_def is_word_def)
qed

lemma parse_greeting:
  assumes "is_word (os_tag B S)" and "is_word (os_hostname B S w 64)"
    and "length (os_tag B S) + length (os_hostname B S w 64) < 900"
  shows "parse_greet rc (greeting B S G w) = Some (rc\<lparr>ostag := strlcpy (os_tag B S) 32,
      rhost := strlcpy (os_hostname B S w 64) 64, cap_async := g_async G, cap_ix := g_ix G, cap_live := g_live G\<rparr>)"
proof -
  have w: "\<forall>v \<in> set (''1'' # os_tag B S # os_hostname B S w 64 # caps B G). is_word v"
    using assms(1,2) caps_words by (auto simp: is_word_def)
  have t: "strtok_words [] (greeting B S G w) = ''GCDS'' # ''1'' # os_tag B S # os_hostname B S w 64 # caps B G"
    unfolding greeting_words [OF assms(3)]
    using strtok_run [of "''GCDS''" "[]"] strtok_spaced [OF w, of "''GCDS''"] by simp
  have a: "atol ''1'' = 1" by code_simp
  have "(''ASYNC'' \<in> set (caps B G)) = g_async G" "(''INTERACTIVE'' \<in> set (caps B G)) = g_ix G"
    "(''LIVE'' \<in> set (caps B G)) = g_live G" by (simp_all add: caps_def)
  then show ?thesis by (simp add: parse_greet_def t a)
qed

section \<open>An opened session\<close>

lemma rc_open_greeted:
  assumes "rc_connect so nc kv al = Some c" and "chan_in c = greeting B S G w @ LF # rest"
    and "is_word (os_tag B S)" and "is_word (os_hostname B S w 64)"
    and "length (os_tag B S) + length (os_hostname B S w 64) < 900"
  obtains rc where "rc_open so nc rc0 kv al = (True, rc)" "chan_in (ch rc) = rest" "chan_out (ch rc) = chan_out c"
    "chan_ok (ch rc) = chan_ok c" "is_open rc" "cap_async rc = g_async G"
proof -
  obtain c1 where c1: "lio_get_line c GCDSP_LINE_MAX = (LIO_OK, greeting B S G w, c1)" "chan_in c1 = rest"
    "chan_out c1 = chan_out c" "chan_ok c1 = chan_ok c" by (rule lio_get_line_msg [OF assms(2) greeting_msg [OF assms(3-5)]])
  have "gcds_starts (greeting B S G w) ''GCDS ''" by (simp add: greeting_words [OF assms(5)])
  then have "greet_loop c = (Some (greeting B S G w), c1)"
    using c1(1) is_msg_cstr [OF greeting_msg [OF assms(3-5)]] by (simp add: greet_loop.simps [of c])
  with that assms(1) c1(2-4) show thesis by (simp add: rc_open_def Let_def parse_greeting [OF assms(3-5)])
qed

lemma rc_auth_ok:
  assumes "conf_get kv (rc_key CONF_KEY_MAX al ''token'') = Some tok" and "sendable 5 tok"
    and "chan_in (ch rc) = ''OK'' @ LF # rest" and "chan_ok (ch rc)"
  obtains c where "rc_auth rc kv al = (True, rc\<lparr>ch := c\<rparr>)" "chan_in c = rest"
    "chan_out c = chan_out (ch rc) @ (''AUTH '' @ tok) @ [LF]" "chan_ok c"
proof -
  obtain c where "rc_cmd rc (''AUTH '' @ tok) GCDSP_LINE_MAX = (Some ''OK'', rc\<lparr>ch := c\<rparr>)" "chan_in c = rest"
    "chan_out c = chan_out (ch rc) @ (''AUTH '' @ tok) @ [LF]" "chan_ok c" by (rule rc_cmd_msg [OF assms(3) msg_OK(1) assms(4)])
  with that [of c] assms(1) sendable_line [OF assms(2), of "''AUTH ''"] show thesis by (simp add: rc_auth_def)
qed

text \<open>Receiving the answer changes nothing of the connection but its input.\<close>

lemma chan_read_out: "chan_read_n c n = (x, c') \<Longrightarrow> chan_out c' = chan_out c"
  using ch.rd_outp [of c n] by simp

lemma rc_stream_rc: "rc_stream B rc io = (code, rc', io') \<Longrightarrow> \<exists>c. rc' = rc\<lparr>ch := c\<rparr> \<and> chan_out c = chan_out (ch rc)"
proof (induction B rc io rule: rc_stream.induct)
  case (1 B rc io)
  obtain r raw c where g: "lio_get_line (ch rc) GCDSP_LINE_MAX = (r, raw, c)" by (metis surj_pair)
  obtain x rc1 io1 where f: "rc_out_frame B (rc\<lparr>ch := c\<rparr>) (cstr raw) io = (x, rc1, io1)" by (metis surj_pair)
  have co: "chan_out c = chan_out (ch rc)" using lio_get_line_view [OF g] by simp
  have "\<exists>c1. rc1 = rc\<lparr>ch := c1\<rparr> \<and> chan_out c1 = chan_out c" using f
    by (auto simp: rc_out_frame_def Let_def split: if_splits option.splits prod.splits dest!: chan_read_out)
  then obtain c1 where "rc1 = rc\<lparr>ch := c1\<rparr>" "chan_out c1 = chan_out c" by blast
  then show ?case
    using "1.IH" [OF g [symmetric] refl] "1.prems" f co
    by (auto simp: rc_stream.simps [of B rc io] g split: if_splits option.splits)
qed

lemma rc_close_out:
  assumes "is_open rc" and "chan_out (ch rc) \<noteq> []"
  obtains d where "snd (rc_close rc) = Some d" "tx d = chan_out (ch rc)"
  using assms that by (auto simp: rc_close_def chan_close_def chan_out_def chan_dev_def split: option.splits if_splits)

section \<open>The daemon's side of a connection\<close>

lemma session_run_authed:
  assumes "chan_in (s_chan st) = (''AUTH '' @ g_token G) @ LF # rest" and "sendable 5 (g_token G)"
    and "sess_line_in T B (''AUTH '' @ g_token G) = ''AUTH '' @ g_token G"
    and "chan_ok (s_chan st)"
  obtains c where "session_run B S T G ls st = session_loop B S T G ls
      (st\<lparr>s_job := (s_job st)\<lparr>pending := False\<rparr>, s_env := [], s_chan := c, s_authed := True\<rparr>)" "chan_in c = rest"
    "chan_out c = chan_out (s_chan st) @ (greeting B S G (s_world st) @ [LF]) @ ''OK'' @ [LF]" "chan_ok c"
proof -
  let ?st = "st\<lparr>s_job := (s_job st)\<lparr>pending := False\<rparr>, s_env := [], s_authed := False\<rparr>"
  have m: "is_msg GCDSP_LINE_MAX (''AUTH '' @ g_token G)" by (rule sendable_msg [OF assms(2)]) simp_all
  obtain c1 where c1: "put_greeting B S G (s_world st) (s_chan st) = (LIO_OK, c1)"
    "chan_out c1 = chan_out (s_chan st) @ greeting B S G (s_world st) @ [LF]" "chan_ok c1" "chan_in c1 = chan_in (s_chan st)"
    unfolding put_greeting_def by (rule put_line_ok [OF assms(4)])
  have "chan_in (s_chan (?st\<lparr>s_chan := c1\<rparr>)) = (''AUTH '' @ g_token G) @ LF # rest" using assms(1) c1(4) by simp
  then obtain c2 where c2: "chan_in c2 = rest" "chan_out c2 = chan_out c1" "chan_ok c2 = chan_ok c1"
    "session_loop B S T G ls (?st\<lparr>s_chan := c1\<rparr>) = (case session_line B S T G ls (''AUTH '' @ g_token G) (?st\<lparr>s_chan := c2\<rparr>) of
       Continue st' \<Rightarrow> session_loop B S T G ls st' | Return st' \<Rightarrow> Some st' | Blocked \<Rightarrow> None)"
    by (rule session_loop_line [OF _ m, where B = B and S = S and T = T and G = G and ls = ls]) simp
  obtain c where c: "lio_put_line c2 ''OK'' = (LIO_OK, c)" "chan_out c = chan_out c2 @ ''OK'' @ [LF]" "chan_ok c"
    "chan_in c = chan_in c2" using put_line_ok [of c2 "''OK''"] c1(3) c2(3) by metis
  have "session_line B S T G ls (''AUTH '' @ g_token G) (?st\<lparr>s_chan := c2\<rparr>) = Continue (?st\<lparr>s_chan := c, s_authed := True\<rparr>)"
    using split_cmd_word [of "''AUTH''" "g_token G"] c(1)
    by (simp add: session_line_def assms(3) [simplified] handle_auth_def)
  with that [of c] c1 c2 c show thesis by (simp add: session_run_def Let_def)
qed

lemma session_loop_eof:
  assumes "chan_in (s_chan st) = []"
  shows "\<exists>c. session_loop B S T G ls st = Some (st\<lparr>s_chan := c\<rparr>) \<and> chan_out c = chan_out (s_chan st)"
proof -
  obtain r raw c where g: "lio_get_line (s_chan st) GCDSP_LINE_MAX = (r, raw, c)" by (metis surj_pair)
  with lio_get_line_view [OF g] assms show ?thesis
    by (auto simp: session_loop.simps [of B S T G ls st])
qed

lemma session_loop_runa:
  fixes st :: sess_state
  defines "j \<equiv> next_jobid (s_jctr st)"
  assumes "chan_in (s_chan st) = line @ LF # rest" and "is_msg GCDSP_LINE_MAX line" and "s_authed st"
    and "sess_line_in T B line = ''RUNA '' @ cmd" and "chan_ok (s_chan st)"
  shows "\<exists>c. session_loop B S T G ls st = Some (st\<lparr>s_res := (s_res st)\<lparr>valid := False\<rparr>, s_jctr := j,
      s_job := \<lparr>pending = True, jobid = j, jcmd = strlcpy cmd GCDSP_LINE_MAX, jenv = s_env st\<rparr>, s_chan := c\<rparr>)
    \<and> chan_out c = chan_out (s_chan st) @ (''OK '' @ ld j) @ [LF]"
proof -
  obtain c where c: "chan_out c = chan_out (s_chan st)" "chan_ok c = chan_ok (s_chan st)"
    "session_loop B S T G ls st = (case session_line B S T G ls line (st\<lparr>s_chan := c\<rparr>) of
       Continue st' \<Rightarrow> session_loop B S T G ls st' | Return st' \<Rightarrow> Some st' | Blocked \<Rightarrow> None)"
    by (rule session_loop_line [OF assms(2,3)])
  obtain c1 where c1: "lio_put_line c (''OK '' @ ld j) = (LIO_OK, c1)" "chan_out c1 = chan_out c @ (''OK '' @ ld j) @ [LF]"
    using put_line_ok [of c] c(2) assms(6) by metis
  have "session_line B S T G ls line (st\<lparr>s_chan := c\<rparr>) = sess_runa (Some cmd) (st\<lparr>s_chan := c\<rparr>)"
    using assms(4,5) by (intro session_line_word(4)) simp_all
  with c c1 show ?thesis by (auto simp: sess_runa_def Let_def j_def)
qed

lemma session_loop_stat:
  assumes "chan_in (s_chan st) = ''STAT'' @ LF # rest" and "s_authed st" and "sess_line_in T B ''STAT'' = ''STAT''"
    and "chan_ok (s_chan st)" and "valid (s_res st)"
  shows "\<exists>c. session_loop B S T G ls st = session_loop B S T G ls (st\<lparr>s_chan := c\<rparr>) \<and> chan_in c = rest \<and> chan_ok c
    \<and> chan_out c = chan_out (s_chan st) @ (''OK result '' @ ld (rjobid (s_res st))) @ [LF]"
proof -
  let ?r = "''OK result '' @ ld (rjobid (s_res st))"
  have m: "is_msg GCDSP_LINE_MAX ''STAT''" by (simp add: is_msg_def)
  have cmd: "split_cmd ''STAT'' = (''STAT'', None)" by code_simp
  obtain c where c: "chan_in c = rest" "chan_out c = chan_out (s_chan st)" "chan_ok c = chan_ok (s_chan st)"
    "session_loop B S T G ls st = (case session_line B S T G ls ''STAT'' (st\<lparr>s_chan := c\<rparr>) of
       Continue st' \<Rightarrow> session_loop B S T G ls st' | Return st' \<Rightarrow> Some st' | Blocked \<Rightarrow> None)"
    by (rule session_loop_line [OF assms(1) m])
  obtain c1 where c1: "lio_put_line c ?r = (LIO_OK, c1)" "chan_out c1 = chan_out c @ ?r @ [LF]" "chan_ok c1" "chan_in c1 = chan_in c"
    using put_line_ok [of c] c(3) assms(4) by metis
  have "session_line B S T G ls ''STAT'' (st\<lparr>s_chan := c\<rparr>) = Continue (st\<lparr>s_chan := c1\<rparr>)"
    using assms(2,3,5) c1(1) cmd by (simp add: session_line_def sess_stat_def reply_def say_def)
  with c c1 show ?thesis by auto
qed

section \<open>gcds host command\<close>

text \<open>The invocation \<open>argv\<close> of the client asks for the command \<open>cmd\<close> on the connection \<open>c\<close>: it has no options,
  the configuration names the host with the token \<open>tok\<close>, no directory of the host is mapped, and
  connecting to it gives \<open>c\<close>.\<close>

definition asks :: "build \<Rightarrow> cl_env \<Rightarrow> string list \<Rightarrow> string \<Rightarrow> string \<Rightarrow> gcds_chan \<Rightarrow> bool" where
  "asks Bc E argv tok cmd c \<longleftrightarrow>
     (case argv of
        al # args \<Rightarrow> char_at al 0 \<noteq> CHR ''-'' \<and> args \<noteq> [] \<and> ce_net_ok E \<and>
          (case load_conf Bc E of
             None \<Rightarrow> False
           | Some kv \<Rightarrow> client_cmd kv al args = Some cmd \<and> pm_cwd kv al (ce_cwd E) CONF_VAL_MAX = PM_NONE
               \<and> conf_get kv (rc_key CONF_KEY_MAX al ''token'') = Some tok
               \<and> rc_connect (a_ser (ce_first E)) (a_net (ce_first E)) kv al = Some c)
      | [] \<Rightarrow> False)"

lemma asksE:
  assumes "asks Bc E argv tok cmd c"
  obtains kv al args where "client_opts copts0 argv = Some (copts0, al # args)" "args \<noteq> []" "load_conf Bc E = Some kv"
    "ce_net_ok E" "client_cmd kv al args = Some cmd" "pm_cwd kv al (ce_cwd E) CONF_VAL_MAX = PM_NONE"
    "conf_get kv (rc_key CONF_KEY_MAX al ''token'') = Some tok"
    "rc_connect (a_ser (ce_first E)) (a_net (ce_first E)) kv al = Some c" "argv = al # args"
proof -
  obtain al args where v: "argv = al # args" using assms by (cases argv) (auto simp: asks_def)
  obtain kv where "load_conf Bc E = Some kv" using assms v by (auto simp: asks_def split: option.splits)
  with v assms that show thesis by (simp add: asks_def)
qed

text \<open>The names in the greeting are single words that fit the line.\<close>

definition greets :: "build \<Rightarrow> os \<Rightarrow> world \<Rightarrow> bool" where
  "greets B S w \<longleftrightarrow> is_word (os_tag B S) \<and> is_word (os_hostname B S w 64)
     \<and> length (os_tag B S) + length (os_hostname B S w 64) < 900"

text \<open>The client up to the session: it is authenticated and about to ask for the command.\<close>

lemma client_main_authed:
  assumes "asks Bc E argv tok cmd c" and "sendable 5 tok" and "chan_ok c"
    and "chan_in c = greeting B S G v @ LF # ''OK'' @ LF # answer" and "greets B S v"
  obtains kv al args rc where "argv = al # args" "load_conf Bc E = Some kv" "pm_cwd kv al (ce_cwd E) CONF_VAL_MAX = PM_NONE"
    "client_main Bc E argv rc0 io w = client_session Bc E copts0 kv al args cmd rc io w" "chan_in (ch rc) = answer"
    "chan_out (ch rc) = chan_out c @ (''AUTH '' @ tok) @ [LF]" "chan_ok (ch rc)" "is_open rc" "cap_async rc = g_async G"
proof -
  obtain kv al args where k: "client_opts copts0 argv = Some (copts0, al # args)" "args \<noteq> []" "load_conf Bc E = Some kv"
    "ce_net_ok E" "client_cmd kv al args = Some cmd" "pm_cwd kv al (ce_cwd E) CONF_VAL_MAX = PM_NONE"
    "conf_get kv (rc_key CONF_KEY_MAX al ''token'') = Some tok"
    "rc_connect (a_ser (ce_first E)) (a_net (ce_first E)) kv al = Some c" "argv = al # args" using asksE [OF assms(1)] by blast
  have g: "is_word (os_tag B S)" "is_word (os_hostname B S v 64)" "length (os_tag B S) + length (os_hostname B S v 64) < 900"
    using assms(5) by (simp_all add: greets_def)
  obtain rc1 where r1: "rc_open (a_ser (ce_first E)) (a_net (ce_first E)) rc0 kv al = (True, rc1)"
    "chan_in (ch rc1) = ''OK'' @ LF # answer" "chan_out (ch rc1) = chan_out c" "chan_ok (ch rc1) = chan_ok c" "is_open rc1"
    "cap_async rc1 = g_async G" by (rule rc_open_greeted [OF k(8) assms(4) g])
  have ok1: "chan_ok (ch rc1)" using r1(4) assms(3) by simp
  obtain c2 where c2: "rc_auth rc1 kv al = (True, rc1\<lparr>ch := c2\<rparr>)" "chan_in c2 = answer"
    "chan_out c2 = chan_out (ch rc1) @ (''AUTH '' @ tok) @ [LF]" "chan_ok c2" by (rule rc_auth_ok [OF k(7) assms(2) r1(2) ok1])
  have "client_main Bc E argv rc0 io w = client_session Bc E copts0 kv al args cmd (rc1\<lparr>ch := c2\<rparr>) io w"
    using k(1-5) r1(1) c2(1) by (simp add: client_main_def) (simp add: copts0_def)
  from that [OF k(9,3,6) this] c2(2-4) r1(3,5,6) show thesis by simp
qed

text \<open>The client up to the answer of a RUN.\<close>

lemma client_main_run:
  assumes "asks Bc E argv tok cmd c" and "sendable 5 tok" and "length cmd + 4 < 1024" and "chan_ok c"
    and "chan_in c = greeting B S G v @ LF # ''OK'' @ LF # answer @ x" and "greets B S v"
    and "\<not> g_async G" and "prints Bc answer code out err" and "0 \<le> code"
    and "mb_conf io = None" and "dev_ok (out1 io)" and "dev_ok (out2 io)"
  shows "\<exists>d io'. client_main Bc E argv rc0 io w = Some (code, Some d, io', w)
    \<and> tx d = chan_out c @ (''AUTH '' @ tok @ [LF]) @ ''RUN '' @ cmd @ [LF]
    \<and> tx (out1 io') = tx (out1 io) @ out \<and> tx (out2 io') = tx (out2 io) @ err"
proof -
  obtain kv al args rc where k: "pm_cwd kv al (ce_cwd E) CONF_VAL_MAX = PM_NONE"
    "client_main Bc E argv rc0 io w = client_session Bc E copts0 kv al args cmd rc io w" "chan_in (ch rc) = answer @ x"
    "chan_out (ch rc) = chan_out c @ (''AUTH '' @ tok) @ [LF]" "chan_ok (ch rc)" "is_open rc" "cap_async rc = g_async G"
    by (rule client_main_authed [OF assms(1,2,4-6)])
  have line: "strlcat (strlcat [] ''RUN '' GCDSP_LINE_MAX) cmd GCDSP_LINE_MAX = ''RUN '' @ cmd"
    using assms(3) by (simp add: gcds_strlcat_take)
  obtain c3 where c3: "lio_put_line (ch rc) (''RUN '' @ cmd) = (LIO_OK, c3)"
    "chan_out c3 = chan_out (ch rc) @ (''RUN '' @ cmd) @ [LF]" "chan_in c3 = chan_in (ch rc)" by (rule put_line_ok [OF k(5)])
  obtain rc4 io' where s: "rc_stream Bc (rc\<lparr>ch := c3\<rparr>) io = (code, rc4, io')"
    "tx (out1 io') = tx (out1 io) @ out" "tx (out2 io') = tx (out2 io) @ err"
    using assms(8) [unfolded prints_def, rule_format, of "rc\<lparr>ch := c3\<rparr>" x io] assms(10-12) c3(3) k(3) by auto
  then obtain c4 where c4: "rc4 = rc\<lparr>ch := c4\<rparr>" "chan_out c4 = chan_out c3" using rc_stream_rc by fastforce
  obtain d where d: "snd (rc_close rc4) = Some d" "tx d = chan_out c4"
    by (rule rc_close_out [of rc4]) (use c4 k(6) c3(2) in auto)
  have "client_session Bc E copts0 kv al args cmd rc io w = Some (code, Some d, io', w)"
    using k(1,7) assms(7,9) line c3(1) s(1) d(1)
    by (simp add: client_session_def client_cwd_def client_run_def copts0_def cl_end_def cl_code_def)
  then show ?thesis using k(2,4) s(2,3) d(2) c4(2) c3(2) by auto
qed

text \<open>The client with a daemon that defers jobs: the command is submitted, then its result polled.\<close>

lemma client_main_async:
  assumes "asks Bc E (al # args) tok cmd c" and "load_conf Bc E = Some kv" and "sendable 5 tok" and "length cmd + 5 < 1024"
    and "chan_ok c" and "chan_in c = greeting B S G v @ LF # ''OK'' @ LF # (''OK '' @ ld j) @ LF # x" and "greets B S v"
    and "g_async G" and "1 \<le> j" and "j \<le> GCDSP_JOB_MAX" and "0 \<le> code"
    and "\<And>rc. \<exists>d io'. poll_result Bc kv al j (ce_polls E) rc io = Some (code, Some d, io') \<and> Q d io'"
  shows "\<exists>d io'. client_main Bc E (al # args) rc0 io w = Some (code, Some d, io', w) \<and> Q d io'"
proof -
  obtain kv' al' args' rc where "al # args = al' # args'" "load_conf Bc E = Some kv'" and
    k: "pm_cwd kv' al' (ce_cwd E) CONF_VAL_MAX = PM_NONE"
    "client_main Bc E (al # args) rc0 io w = client_session Bc E copts0 kv' al' args' cmd rc io w"
    "chan_in (ch rc) = (''OK '' @ ld j) @ LF # x" "chan_ok (ch rc)" "cap_async rc = g_async G"
    by (rule client_main_authed [OF assms(1,3,5-7)])
  then have e: "kv' = kv" "al' = al" "args' = args" using assms(2) by auto
  have line: "strlcat (strlcat [] ''RUNA '' GCDSP_LINE_MAX) cmd GCDSP_LINE_MAX = ''RUNA '' @ cmd"
    using assms(4) by (simp add: gcds_strlcat_take)
  have m: "is_msg GCDSP_LINE_MAX (''OK '' @ ld j)" by (rule job_line [OF assms(9,10)]) simp_all
  obtain c1 where c1: "rc_cmd rc (''RUNA '' @ cmd) GCDSP_LINE_MAX = (Some (''OK '' @ ld j), rc\<lparr>ch := c1\<rparr>)"
    by (rule rc_cmd_msg [OF k(3) m k(4)])
  have "atol (ld j) = j" using assms(9,10) by (intro atol_ld_nonneg) simp_all
  moreover obtain d io' where "poll_result Bc kv al j (ce_polls E) (fst (rc_close (rc\<lparr>ch := c1\<rparr>))) io = Some (code, Some d, io')" "Q d io'"
    using assms(12) by blast
  ultimately have "client_session Bc E copts0 kv al args cmd rc io w = Some (code, Some d, io', w)"
    using k(1,5) assms(8,11) line c1
    by (simp add: client_session_def client_cwd_def client_async_def copts0_def cl_code_def e)
  then show ?thesis using k(2) \<open>Q d io'\<close> by (auto simp: e)
qed

text \<open>
  The daemon's side: the session of a supervised daemon receives the token and a line that asks for a command.
  It runs the command, answers, and goes on with the rest of its input.
\<close>

lemma session_runs_command:
  assumes "text_stream B T wire cvt" and "sess_line_in T B (''AUTH '' @ g_token G) = ''AUTH '' @ g_token G"
    and "sess_line_in T B (''RUN '' @ cmd) = ''RUN '' @ lcmd"
    and "\<not> GCDS_DOS Bc" and "sendable 5 (g_token G)" and "sendable 4 cmd"
    and "chan_ok (s_chan st)" and "chan_out (s_chan st) = []"
    and "GCDS_HAS_LIVE B" and "g_maxout G \<le> 0"
    and "live_launch B lcmd [] = Some scr" and "os_fork S scr (s_world st) = Some k"
    and "\<forall>t \<in> set (s_ticks st). \<not> t_sess t" and "served (GCDS_WIN32 B) k (s_ticks st)"
    and "0 \<le> live_code B (c_status k)"
    and "chan_in (s_chan st) = (''AUTH '' @ g_token G) @ LF # (''RUN '' @ cmd) @ LF # rest"
  shows "\<exists>st2 answer. session_run B S T G ls st = session_loop B S T G ls st2 \<and> s_world st2 = c_after k \<and> s_authed st2
    \<and> chan_in (s_chan st2) = rest \<and> chan_ok (s_chan st2)
    \<and> chan_out (s_chan st2) = greeting B S G (s_world st) @ LF # ''OK'' @ LF # answer
    \<and> prints Bc answer (live_code B (c_status k)) (wire (dev_in (c_out k))) (wire (dev_in (c_err k)))"
proof -
  obtain c1 where c1: "session_run B S T G ls st = session_loop B S T G ls
      (st\<lparr>s_job := (s_job st)\<lparr>pending := False\<rparr>, s_env := [], s_chan := c1, s_authed := True\<rparr>)"
    "chan_in c1 = (''RUN '' @ cmd) @ LF # rest"
    "chan_out c1 = chan_out (s_chan st) @ (greeting B S G (s_world st) @ [LF]) @ ''OK'' @ [LF]" "chan_ok c1"
    by (rule session_run_authed [OF assms(16,5,2,7)])
  let ?st1 = "st\<lparr>s_job := (s_job st)\<lparr>pending := False\<rparr>, s_env := [], s_chan := c1, s_authed := True\<rparr>"
  have i1: "chan_in (s_chan ?st1) = (''RUN '' @ cmd) @ LF # rest" using c1(2) by simp
  have m: "is_msg GCDSP_LINE_MAX (''RUN '' @ cmd)" by (rule sendable_msg [OF assms(6)]) simp_all
  have "s_authed ?st1 \<and> chan_ok (s_chan ?st1)" using c1(4) by simp
  from run_end_to_end [OF assms(1) this assms(9,10) m assms(3) _ _ _ _ assms(15,4) i1, where scr = scr and S = S and ls = ls] assms(11-14)
  obtain c2 ts answer where
    c2: "session_loop B S T G ls ?st1 = session_loop B S T G ls
      (?st1\<lparr>s_res := (s_res ?st1)\<lparr>valid := False\<rparr>, s_chan := c2, s_world := c_after k, s_ticks := ts\<rparr>)"
    "chan_in c2 = rest" "chan_ok c2" "chan_out c2 = chan_out c1 @ answer"
    "prints Bc answer (live_code B (c_status k)) (wire (dev_in (c_out k))) (wire (dev_in (c_err k)))" by auto
  with c1(1,3) assms(8) show ?thesis
    by (intro exI [of _ "?st1\<lparr>s_res := (s_res ?st1)\<lparr>valid := False\<rparr>, s_chan := c2, s_world := c_after k, s_ticks := ts\<rparr>"]
        exI [of _ answer]) simp
qed

text \<open>
  C1. \<^verbatim>\<open>gcds host command\<close> against the daemon.  The client was started without options for a configured host
  and is connected to a session of a supervised daemon, POSIX or Win32, that does not defer jobs; the schedule
  serves the child (\<open>served\<close>) and the session stays silent.  The daemon's build may convert text: \<open>wire\<close> is its
  conversion of a whole text to the wire (the identity without a conversion), and \<open>lcmd\<close> the command in the
  daemon's encoding.  When the daemon receives the lines \<^verbatim>\<open>AUTH\<close> and \<^verbatim>\<open>RUN\<close>, its session runs the command and
  ends; and when the client receives what this session wrote, it sends exactly these lines, prints exactly the
  conversion of the command's standard output and standard error on its own, and exits with the command's
  exit code.
\<close>

theorem gcds_mirrors_command:
  assumes "text_stream B T wire cvt" and "sess_line_in T B (''AUTH '' @ g_token G) = ''AUTH '' @ g_token G"
    and "sess_line_in T B (''RUN '' @ cmd) = ''RUN '' @ lcmd"
    and "asks Bc E argv (g_token G) cmd c" and "chan_ok c" and "\<not> GCDS_DOS Bc"
    and "mb_conf io = None" and "dev_ok (out1 io)" and "dev_ok (out2 io)"
    and "sendable 5 (g_token G)" and "sendable 4 cmd"
    and "chan_ok (s_chan st)" and "chan_out (s_chan st) = []" and "greets B S (s_world st)"
    and "GCDS_HAS_LIVE B" and "\<not> g_async G" and "g_maxout G \<le> 0"
    and "live_launch B lcmd [] = Some scr" and "os_fork S scr (s_world st) = Some k"
    and "\<forall>t \<in> set (s_ticks st). \<not> t_sess t" and "served (GCDS_WIN32 B) k (s_ticks st)"
    and "0 \<le> live_code B (c_status k)"
    and "chan_in (s_chan st) = (''AUTH '' @ g_token G) @ LF # (''RUN '' @ cmd) @ LF # []"
  shows "\<exists>st'. session_run B S T G ls st = Some st' \<and> s_world st' = c_after k \<and>
    (chan_in c = chan_out (s_chan st') \<longrightarrow>
     (\<exists>d io'. client_main Bc E argv rc0 io w = Some (live_code B (c_status k), Some d, io', w)
       \<and> tx d = chan_out c @ chan_in (s_chan st)
       \<and> tx (out1 io') = tx (out1 io) @ wire (dev_in (c_out k)) \<and> tx (out2 io') = tx (out2 io) @ wire (dev_in (c_err k))))"
proof -
  obtain st2 answer where s2: "session_run B S T G ls st = session_loop B S T G ls st2" "s_world st2 = c_after k"
    "chan_in (s_chan st2) = []" "chan_out (s_chan st2) = greeting B S G (s_world st) @ LF # ''OK'' @ LF # answer"
    "prints Bc answer (live_code B (c_status k)) (wire (dev_in (c_out k))) (wire (dev_in (c_err k)))"
    using session_runs_command [OF assms(1-3,6,10-13,15,17-23), of ls] by blast
  obtain c3 where c3: "session_loop B S T G ls st2 = Some (st2\<lparr>s_chan := c3\<rparr>)" "chan_out c3 = chan_out (s_chan st2)"
    using session_loop_eof [OF s2(3)] by blast
  have l: "length cmd + 4 < 1024" using assms(11) by (simp add: sendable_def)
  from client_main_run [OF assms(4,10) l assms(5) _ assms(14,16) s2(5) assms(22,7-9)] s2(1,2,4) c3 show ?thesis
    by (intro exI [of _ "st2\<lparr>s_chan := c3\<rparr>"]) (auto simp: assms(23))
qed


section \<open>Polling for a deferred result\<close>

text \<open>The attempt \<open>e\<close> reaches a session that accepts the token and answers \<^verbatim>\<open>STAT\<close> with \<open>line\<close>; \<open>rest\<close> follows.\<close>

definition answers :: "gcds_kv list \<Rightarrow> string \<Rightarrow> attempt \<Rightarrow> string \<Rightarrow> char list \<Rightarrow> bool" where
  "answers kv al e line rest \<longleftrightarrow> is_msg GCDSP_LINE_MAX line \<and>
     (\<exists>c B S G v tok. rc_connect (a_ser e) (a_net e) kv al = Some c \<and> chan_ok c \<and> greets B S v
       \<and> conf_get kv (rc_key CONF_KEY_MAX al ''token'') = Some tok \<and> sendable 5 tok
       \<and> chan_in c = greeting B S G v @ LF # ''OK'' @ LF # line @ LF # rest)"

lemma poll_session:
  assumes "answers kv al e line rest"
  obtains rc1 rc2 rc3 where "rc_open (a_ser e) (a_net e) rc kv al = (True, rc1)" "rc_auth rc1 kv al = (True, rc2)"
    "rc_cmd rc2 ''STAT'' GCDSP_LINE_MAX = (Some line, rc3)" "chan_in (ch rc3) = rest" "chan_ok (ch rc3)" "is_open rc3"
    "\<exists>c tok. rc_connect (a_ser e) (a_net e) kv al = Some c \<and> conf_get kv (rc_key CONF_KEY_MAX al ''token'') = Some tok
      \<and> chan_out (ch rc3) = chan_out c @ (''AUTH '' @ tok) @ LF # ''STAT'' @ [LF]"
proof -
  obtain c B S G v tok where a: "rc_connect (a_ser e) (a_net e) kv al = Some c" "chan_ok c" "greets B S v"
    "conf_get kv (rc_key CONF_KEY_MAX al ''token'') = Some tok" "sendable 5 tok"
    "chan_in c = greeting B S G v @ LF # ''OK'' @ LF # line @ LF # rest" "is_msg GCDSP_LINE_MAX line"
    using assms unfolding answers_def by blast
  have g: "is_word (os_tag B S)" "is_word (os_hostname B S v 64)" "length (os_tag B S) + length (os_hostname B S v 64) < 900"
    using a(3) by (simp_all add: greets_def)
  obtain rc1 where r1: "rc_open (a_ser e) (a_net e) rc kv al = (True, rc1)" "chan_in (ch rc1) = ''OK'' @ LF # line @ LF # rest"
    "chan_ok (ch rc1) = chan_ok c" "is_open rc1" "chan_out (ch rc1) = chan_out c" by (rule rc_open_greeted [OF a(1,6) g])
  obtain c2 where c2: "rc_auth rc1 kv al = (True, rc1\<lparr>ch := c2\<rparr>)" "chan_in c2 = line @ LF # rest" "chan_ok c2"
    "chan_out c2 = chan_out (ch rc1) @ (''AUTH '' @ tok) @ [LF]"
    by (rule rc_auth_ok [OF a(4,5) r1(2)]) (use r1(3) a(2) in auto)
  obtain c3 where c3: "rc_cmd (rc1\<lparr>ch := c2\<rparr>) ''STAT'' GCDSP_LINE_MAX = (Some line, rc1\<lparr>ch := c2, ch := c3\<rparr>)" "chan_in c3 = rest"
    "chan_out c3 = chan_out (ch (rc1\<lparr>ch := c2\<rparr>)) @ ''STAT'' @ [LF]" "chan_ok c3"
    by (rule rc_cmd_msg [OF _ a(7), of "rc1\<lparr>ch := c2\<rparr>" rest, where cmd = "''STAT''"]) (use c2(2,3) in auto)
  show thesis by (rule that [OF r1(1) c2(1) c3(1)]) (use c3(2-4) r1(4,5) c2(4) a(1,4) in auto)
qed

text \<open>A daemon that is still at work: it cannot be reached, or it answers that it is busy.\<close>

definition at_work :: "gcds_kv list \<Rightarrow> string \<Rightarrow> attempt \<Rightarrow> bool" where
  "at_work kv al e \<longleftrightarrow> rc_connect (a_ser e) (a_net e) kv al = None \<or> (\<exists>n rest. answers kv al e (''OK busy '' @ n) rest)"

lemma poll_waits:
  assumes "\<forall>e \<in> set ws. at_work kv al e"
  shows "\<exists>rc'. poll_loop B kv al j (''OK result '' @ n) (ws @ es) rc io = poll_loop B kv al j (''OK result '' @ n) es rc' io"
  using assms
proof (induction ws arbitrary: rc)
  case (Cons e ws)
  have "\<exists>rc1. poll_loop B kv al j (''OK result '' @ n) (e # ws @ es) rc io = poll_loop B kv al j (''OK result '' @ n) (ws @ es) rc1 io"
  proof (cases "rc_connect (a_ser e) (a_net e) kv al")
    case None
    then have "poll_loop B kv al j (''OK result '' @ n) (e # ws @ es) rc io
        = poll_loop B kv al j (''OK result '' @ n) (ws @ es) (rc\<lparr>is_open := False\<rparr>) io"
      by (simp add: poll_loop.simps(2) rc_open_def)
    then show ?thesis by blast
  next
    case (Some c)
    with Cons.prems obtain k rest where "answers kv al e (''OK busy '' @ k) rest" by (auto simp: at_work_def)
    then obtain rc1 rc2 rc3 where "rc_open (a_ser e) (a_net e) rc kv al = (True, rc1)" "rc_auth rc1 kv al = (True, rc2)"
      "rc_cmd rc2 ''STAT'' GCDSP_LINE_MAX = (Some (''OK busy '' @ k), rc3)" by (rule poll_session)
    then show ?thesis by (auto simp: poll_loop.simps(2))
  qed
  with Cons show ?case by fastforce
qed auto

text \<open>
  Waiting for a deferred job: as long as the daemon cannot be reached or says that it is busy the client
  keeps polling, and at the first session that has the result it asks for it, prints the answer and
  returns the job's exit code.
\<close>

lemma poll_result_collects:
  assumes "\<forall>e \<in> set ws. at_work kv al e" and "answers kv al e (''OK result '' @ ld j) answer"
    and "rc_connect (a_ser e) (a_net e) kv al = Some c0" and "conf_get kv (rc_key CONF_KEY_MAX al ''token'') = Some tok"
    and "prints B answer code out err" and "0 \<le> code"
    and "mb_conf io = None" and "dev_ok (out1 io)" and "dev_ok (out2 io)"
  shows "\<exists>d io'. poll_result B kv al j (ws @ e # es) rc io = Some (code, Some d, io')
    \<and> tx d = chan_out c0 @ (''AUTH '' @ tok) @ LF # ''STAT'' @ LF # (''RESULT '' @ ld j) @ [LF]
    \<and> tx (out1 io') = tx (out1 io) @ out \<and> tx (out2 io') = tx (out2 io) @ err"
proof -
  obtain rc' where w: "poll_result B kv al j (ws @ e # es) rc io
      = poll_loop B kv al j (''OK result '' @ ld j) (e # es) rc' io"
    unfolding poll_result_def using poll_waits [OF assms(1)] by blast
  obtain rc1 rc2 rc3 where r: "rc_open (a_ser e) (a_net e) rc' kv al = (True, rc1)" "rc_auth rc1 kv al = (True, rc2)"
    "rc_cmd rc2 ''STAT'' GCDSP_LINE_MAX = (Some (''OK result '' @ ld j), rc3)" "chan_in (ch rc3) = answer" "chan_ok (ch rc3)"
    "is_open rc3" "chan_out (ch rc3) = chan_out c0 @ (''AUTH '' @ tok) @ LF # ''STAT'' @ [LF]"
    by (rule poll_session [OF assms(2), of rc']) (use assms(3,4) in auto)
  obtain c where c: "lio_put_line (ch rc3) (''RESULT '' @ ld j) = (LIO_OK, c)"
    "chan_out c = chan_out (ch rc3) @ (''RESULT '' @ ld j) @ [LF]" "chan_in c = chan_in (ch rc3)" by (rule put_line_ok [OF r(5)])
  obtain rc4 io' where s: "rc_stream B (rc3\<lparr>ch := c\<rparr>) io = (code, rc4, io')"
    "tx (out1 io') = tx (out1 io) @ out" "tx (out2 io') = tx (out2 io) @ err"
    using assms(5) [unfolded prints_def, rule_format, of "rc3\<lparr>ch := c\<rparr>" "[]" io] assms(7-9) c(3) r(4) by auto
  then obtain c4 where c4: "rc4 = rc3\<lparr>ch := c4\<rparr>" "chan_out c4 = chan_out c" using rc_stream_rc by fastforce
  obtain d where d: "snd (rc_close rc4) = Some d" "tx d = chan_out c4"
    by (rule rc_close_out [of rc4]) (use c4 r(6) c(2) in auto)
  show ?thesis using w r(1-3,7) c(1,2) s d c4(2) assms(6) by (auto simp: poll_loop.simps(2))
qed

section \<open>gcds host command with a daemon that defers jobs\<close>

lemma chan_close_out:
  assumes "chan_out c \<noteq> []"
  obtains c0 d where "chan_close c = (c0, Some d)" "tx d = chan_out c"
  using assms that by (auto simp: chan_close_def chan_out_def chan_dev_def split: option.splits if_splits)

text \<open>A socket that is open and on which nothing was written.\<close>

definition fresh :: "dev \<Rightarrow> bool" where
  "fresh d \<longleftrightarrow> dev_ok d \<and> tx d = []"

lemma fresh_chan: "fresh d \<Longrightarrow> chan_ok (chan_tcp d) \<and> chan_out (chan_tcp d) = []"
  by (simp add: fresh_def chan_ok_def chan_out_def chan_dev_def chan_tcp_def)

text \<open>The connection that submits the job: the daemon answers with the job's number, closes and runs it.\<close>

lemma serve_submits:
  fixes st :: sess_state
  defines "j \<equiv> next_jobid (s_jctr st)"
  assumes "session_peer_ok G ip" and "fresh d" and "sendable 5 (g_token G)" and "sendable 5 cmd"
    and "sess_line_in T B (''AUTH '' @ g_token G) = ''AUTH '' @ g_token G"
    and "sess_line_in T B (''RUNA '' @ cmd) = ''RUNA '' @ lcmd" and "length lcmd < 1024"
    and "dev_in d = (''AUTH '' @ g_token G) @ LF # (''RUNA '' @ cmd) @ LF # []"
    and "daemon_ok st" and "serve_conn B S T G (Some (ip, d)) st = Some (st1, o1)"
  shows "1 \<le> j \<and> j \<le> GCDSP_JOB_MAX \<and> daemon_ok st1 \<and> (valid (s_res st1) \<longrightarrow> rjobid (s_res st1) = j)
    \<and> (\<exists>d1. o1 = Some d1 \<and> tx d1 = greeting B S G (s_world st) @ LF # ''OK'' @ LF # (''OK '' @ ld j) @ [LF])"
proof -
  let ?st = "st\<lparr>s_chan := chan_tcp d\<rparr>"
  have j: "1 \<le> j" "j \<le> GCDSP_JOB_MAX" using assms(10) by (auto simp: j_def next_jobid_def daemon_ok_def)
  have f: "chan_ok (s_chan ?st)" "chan_out (s_chan ?st) = []" "chan_in (s_chan ?st) = (''AUTH '' @ g_token G) @ LF # (''RUNA '' @ cmd) @ LF # []"
    using fresh_chan [OF assms(3)] assms(9) by simp_all
  obtain c1 where c1: "session_run B S T G True ?st = session_loop B S T G True
      (?st\<lparr>s_job := (s_job ?st)\<lparr>pending := False\<rparr>, s_env := [], s_chan := c1, s_authed := True\<rparr>)"
    "chan_in c1 = (''RUNA '' @ cmd) @ LF # []"
    "chan_out c1 = chan_out (s_chan ?st) @ (greeting B S G (s_world ?st) @ [LF]) @ ''OK'' @ [LF]" "chan_ok c1"
    by (rule session_run_authed [OF f(3) assms(4,6) f(1)])
  let ?st1 = "?st\<lparr>s_job := (s_job ?st)\<lparr>pending := False\<rparr>, s_env := [], s_chan := c1, s_authed := True\<rparr>"
  have m: "is_msg GCDSP_LINE_MAX (''RUNA '' @ cmd)" by (rule sendable_msg [OF assms(5)]) simp_all
  have sl: "strlcpy lcmd GCDSP_LINE_MAX = lcmd" using assms(8) by (simp add: gcds_strlcpy_pos)
  obtain c2 where c2: "session_run B S T G True ?st = Some (?st1\<lparr>s_res := (s_res ?st1)\<lparr>valid := False\<rparr>, s_jctr := j,
      s_job := \<lparr>pending = True, jobid = j, jcmd = lcmd, jenv = []\<rparr>, s_chan := c2\<rparr>)" "chan_out c2 = chan_out c1 @ (''OK '' @ ld j) @ [LF]"
    using session_loop_runa [of ?st1, OF _ m _ assms(7), of "[]" S G True, unfolded sl] c1(1,2,4) by (auto simp: j_def)
  obtain c3 d1 where c3: "chan_close c2 = (c3, Some d1)" "tx d1 = chan_out c2" by (rule chan_close_out [of c2]) (use c2(2) in auto)
  let ?st2 = "?st1\<lparr>s_res := (s_res ?st1)\<lparr>valid := False\<rparr>, s_jctr := j,
      s_job := \<lparr>pending = True, jobid = j, jcmd = lcmd, jenv = []\<rparr>, s_chan := c3\<rparr>"
  have r: "run_pending B S T G True ?st2 = Some st1" "o1 = Some d1"
    using assms(2,11) c2(1) c3(1) by (auto simp: serve_conn_def split: option.splits)
  have i: "sess_inv B ?st2" using j assms(8) by (simp add: sess_inv_def job_wf_def res_wf_def env_wf_def GCDSP_ENV_MAX_def)
  have "valid (s_res st1) \<longrightarrow> rjobid (s_res st1) = j" using run_pending_result [OF r(1) _ i] by simp
  with run_pending_ok [OF r(1) i] j r(2) c3(2) c2(2) c1(3) f(2) show ?thesis by simp
qed

text \<open>The connection that collects the result.\<close>

lemma serve_collects:
  assumes "text_stream B T wire cvt" and "session_peer_ok G ip" and "fresh d" and "sendable 5 (g_token G)"
    and "\<forall>l \<in> {''AUTH '' @ g_token G, ''STAT'', ''RESULT '' @ ld (rjobid (s_res st))}. sess_line_in T B l = l"
    and "dev_in d = (''AUTH '' @ g_token G) @ LF # ''STAT'' @ LF # (''RESULT '' @ ld (rjobid (s_res st))) @ LF # []"
    and "daemon_ok st" and "valid (s_res st)" and "\<not> GCDS_DOS Bc"
    and "g_maxout G > 0 \<longrightarrow>
      int (length (wire (content S (s_world st) (g_rof G))) + length (wire (content S (s_world st) (g_ref G)))) \<le> g_maxout G"
  shows "\<exists>st2 o2 answer. serve_conn B S T G (Some (ip, d)) st = Some (st2, Some o2) \<and> s_world st2 = s_world st \<and> s_res st2 = s_res st
    \<and> tx o2 = greeting B S G (s_world st) @ LF # ''OK'' @ LF # (''OK result '' @ ld (rjobid (s_res st))) @ LF # answer
    \<and> prints Bc answer (rcode (s_res st)) (wire (content S (s_world st) (g_rof G))) (wire (content S (s_world st) (g_ref G)))"
proof -
  let ?st = "st\<lparr>s_chan := chan_tcp d\<rparr>" and ?res = "''RESULT '' @ ld (rjobid (s_res st))"
  have f: "chan_ok (s_chan ?st)" "chan_out (s_chan ?st) = []"
    "chan_in (s_chan ?st) = (''AUTH '' @ g_token G) @ LF # ''STAT'' @ LF # ?res @ LF # []"
    using fresh_chan [OF assms(3)] assms(6) by simp_all
  have l: "sess_line_in T B (''AUTH '' @ g_token G) = ''AUTH '' @ g_token G" "sess_line_in T B ''STAT'' = ''STAT''"
    "sess_line_in T B ?res = ?res" using assms(5) by blast+
  obtain c1 where c1: "session_run B S T G True ?st = session_loop B S T G True
      (?st\<lparr>s_job := (s_job ?st)\<lparr>pending := False\<rparr>, s_env := [], s_chan := c1, s_authed := True\<rparr>)"
    "chan_in c1 = ''STAT'' @ LF # ?res @ LF # []"
    "chan_out c1 = chan_out (s_chan ?st) @ (greeting B S G (s_world ?st) @ [LF]) @ ''OK'' @ [LF]" "chan_ok c1"
    by (rule session_run_authed [OF f(3) assms(4) l(1) f(1)])
  let ?st1 = "?st\<lparr>s_job := (s_job ?st)\<lparr>pending := False\<rparr>, s_env := [], s_chan := c1, s_authed := True\<rparr>"
  obtain c2 where c2: "session_loop B S T G True ?st1 = session_loop B S T G True (?st1\<lparr>s_chan := c2\<rparr>)"
    "chan_in c2 = ?res @ LF # []" "chan_ok c2" "chan_out c2 = chan_out c1 @ (''OK result '' @ ld (rjobid (s_res st))) @ [LF]"
    using session_loop_stat [of ?st1, OF _ _ l(2), where S = S and G = G and ls = True] c1(2,4) assms(8) by auto
  let ?st2 = "?st1\<lparr>s_chan := c2\<rparr>"
  have rw: "res_wf (s_res st)" using assms(7) by (simp add: daemon_ok_def)
  obtain c3 answer where c3: "session_loop B S T G True ?st2 = session_loop B S T G True (?st2\<lparr>s_chan := c3\<rparr>)"
    "chan_in c3 = []" "chan_out c3 = chan_out c2 @ answer"
    "prints Bc answer (rcode (s_res st)) (wire (content S (s_world st) (g_rof G))) (wire (content S (s_world st) (g_ref G)))"
    using session_loop_result [OF assms(1), of ?st2 G S "[]" Bc True] c2(2,3) rw l(3) assms(8-10) by auto
  obtain c4 where c4: "session_loop B S T G True (?st2\<lparr>s_chan := c3\<rparr>) = Some (?st2\<lparr>s_chan := c4\<rparr>)" "chan_out c4 = chan_out c3"
    using session_loop_eof [of "?st2\<lparr>s_chan := c3\<rparr>" B S T G True] c3(2) by auto
  obtain c5 o2 where c5: "chan_close c4 = (c5, Some o2)" "tx o2 = chan_out c4"
    by (rule chan_close_out [of c4]) (use c4(2) c3(3) c2(4) in auto)
  have "session_run B S T G True ?st = Some (?st2\<lparr>s_chan := c4\<rparr>)" using c1(1) c2(1) c3(1) c4(1) by simp
  then have "serve_conn B S T G (Some (ip, d)) st = Some (?st2\<lparr>s_chan := c5\<rparr>, Some o2)"
    using assms(2) c5(1) by (simp add: serve_conn_def run_pending_def)
  then show ?thesis using c5(2) c4(2) c3(3,4) c2(4) c1(3) f(2)
    by (intro exI [of _ "?st2\<lparr>s_chan := c5\<rparr>"] exI [of _ o2] exI [of _ answer]) simp
qed


section \<open>A fetch that breaks\<close>

text \<open>
  C38. A broken fetch ends the wait, against the comment that it may be repeated: when the connection breaks
  after the first request for the result, the next session that offers the same result makes the client
  give up with an error, because the expected status was overwritten by the request.
\<close>

theorem poll_broken_fetch_gives_up:
  assumes "answers kv al e (''OK result '' @ ld j) []" and "answers kv al e' (''OK result '' @ ld j) answer"
  shows "\<exists>d. poll_result B kv al j (e # e' # es) rc io = Some (-1, d, io)"
proof -
  let ?l = "''OK result '' @ ld j" and ?q = "''RESULT '' @ ld j"
  obtain rc1 rc2 rc3 where r: "rc_open (a_ser e) (a_net e) rc kv al = (True, rc1)" "rc_auth rc1 kv al = (True, rc2)"
    "rc_cmd rc2 ''STAT'' GCDSP_LINE_MAX = (Some ?l, rc3)" "chan_in (ch rc3) = []" "chan_ok (ch rc3)"
    by (rule poll_session [OF assms(1)])
  obtain c where c: "lio_put_line (ch rc3) ?q = (LIO_OK, c)" "chan_in c = chan_in (ch rc3)" by (rule put_line_ok [OF r(5)])
  obtain x raw c' where g: "lio_get_line c GCDSP_LINE_MAX = (x, raw, c')" by (metis surj_pair)
  have "rc_stream B (rc3\<lparr>ch := c\<rparr>) io = (-1, rc3\<lparr>ch := c'\<rparr>, io)"
    using lio_get_line_view [OF g] c(2) r(4) g by (auto simp: rc_stream.simps [of B "rc3\<lparr>ch := c\<rparr>"])
  then have "poll_result B kv al j (e # e' # es) rc io
      = poll_loop B kv al j ?q (e' # es) (fst (rc_close (rc3\<lparr>ch := c'\<rparr>))) io"
    unfolding poll_result_def using r(1-3) c(1) by (subst poll_loop.simps(2)) simp
  then obtain rc' where 1: "poll_result B kv al j (e # e' # es) rc io = poll_loop B kv al j ?q (e' # es) rc' io" by blast
  obtain rc4 rc5 rc6 where "rc_open (a_ser e') (a_net e') rc' kv al = (True, rc4)" "rc_auth rc4 kv al = (True, rc5)"
    "rc_cmd rc5 ''STAT'' GCDSP_LINE_MAX = (Some ?l, rc6)" by (rule poll_session [OF assms(2)])
  then have "poll_loop B kv al j ?q (e' # es) rc' io = Some (-1, snd (rc_close rc6), io)" by (simp add: poll_loop.simps(2))
  with 1 show ?thesis by simp
qed

section \<open>Examples\<close>

definition run_cfg :: sess_cfg where
  "run_cfg = token_cfg\<lparr>g_async := False\<rparr>"

definition demo_run_conn :: sess_state where
  "demo_run_conn = (demo_sess False (''AUTH tok'' @ LF # ''RUN cc'' @ [LF]))\<lparr>s_ticks := replicate 6 demo_tick\<rparr>"

definition demo_hello :: string where
  "demo_hello = ''GCDS 1 posix host LIVE INTERACTIVE UTF8'' @ LF # ''OK'' @ [LF]"

definition demo_answer :: string where
  "demo_answer = ''O 2'' @ LF # ''hiE 4'' @ LF # ''warnX 1'' @ [LF]"

definition demo_conf :: string where
  "demo_conf = ''host.box.addr = 10.0.0.2'' @ LF # ''host.box.token = tok'' @ [LF]"

definition demo_attempt :: "string option \<Rightarrow> attempt" where
  "demo_attempt s = \<lparr>a_ser = (\<lambda>f b. None), a_net = (\<lambda>h p. map_option sess_dev s)\<rparr>"

definition demo_client :: cl_env where
  "demo_client = \<lparr>ce_file = (\<lambda>p. if p = ''gcds.cnf'' then Some demo_conf else None), ce_getenv = (\<lambda>v. None), ce_net_ok = True,
     ce_first = demo_attempt (Some (demo_hello @ demo_answer)), ce_polls = [], ce_cwd = Some ''/home/me'', ce_ticks = [],
     ce_os = demo_os\<rparr>"

definition demo_kv :: "gcds_kv list" where
  "demo_kv = (case conf_load (Some demo_conf) 16 of None \<Rightarrow> [] | Some kv \<Rightarrow> kv)"

definition demo_io :: cio where
  "demo_io = \<lparr>out1 = sess_dev [], out2 = sess_dev [], mb_conf = None, acc1 = [], acc2 = []\<rparr>"

definition demo_rc :: gcds_rc where
  "demo_rc = \<lparr>ch = chan_tcp (sess_dev []), is_open = False, cap_async = False, cap_ix = False, cap_live = False, ostag = [], rhost = []\<rparr>"

lemma demo_asks: "asks posix_build demo_client [''box'', ''cc''] ''tok'' ''cc'' (chan_tcp (sess_dev (demo_hello @ demo_answer)))"
  by code_simp

lemma demo_greets: "greets posix_build live_os demo_world"
  by code_simp

lemma demo_run_out:
  "map_option (\<lambda>st. chan_out (s_chan st)) (session_run posix_build live_os (txt_mac None) run_cfg False demo_run_conn)
    = Some (demo_hello @ demo_answer)"
  by code_simp

lemma demo_mac:
  "sess_line_in (txt_mac None) posix_build (''AUTH '' @ ''tok'') = ''AUTH '' @ ''tok''"
  "sess_line_in (txt_mac None) posix_build (''RUN '' @ ''cc'') = ''RUN '' @ ''cc''"
  "render ''hi'' = ''hi''" "render ''warn'' = ''warn''"
  by code_simp+

lemma demo_io_ok: "mb_conf demo_io = None" "dev_ok (out1 demo_io)" "dev_ok (out2 demo_io)"
  "tx (out1 demo_io) = []" "tx (out2 demo_io) = []"
  by (simp_all add: demo_io_def sess_dev_def dev_ok_def)

lemma sess_dev_chan: "s \<noteq> [] \<Longrightarrow> chan_in (chan_tcp (sess_dev s)) = s" "chan_ok (chan_tcp (sess_dev s))" "chan_out (chan_tcp (sess_dev s)) = []"
  by (simp_all add: chan_in_def chan_out_def chan_ok_def chan_dev_def chan_tcp_def dev_in_def sess_dev_def dev_ok_def)

theorem gcds_mirrors_command_witness:
  "\<exists>st'. session_run posix_build live_os (txt_mac None) run_cfg False demo_run_conn = Some st' \<and> s_world st' = demo_world \<and>
    (\<exists>d io'. client_main posix_build demo_client [''box'', ''cc''] demo_rc demo_io demo_world = Some (1, Some d, io', demo_world)
       \<and> tx d = ''AUTH tok'' @ LF # ''RUN cc'' @ [LF] \<and> tx (out1 io') = ''hi'' \<and> tx (out2 io') = ''warn'')"
proof -
  have b: "GCDS_HAS_LIVE posix_build" "\<not> GCDS_DOS posix_build" "\<not> g_async run_cfg" "g_maxout run_cfg \<le> 0"
    and s: "sendable 5 (g_token run_cfg)" "sendable 4 ''cc''" and tok: "g_token run_cfg = ''tok''"
    by (simp_all add: posix_build_def run_cfg_def token_cfg_def sendable_def)
  let ?msg = "''AUTH tok'' @ LF # ''RUN cc'' @ [LF]"
  have c: "chan_in (s_chan demo_run_conn) = ?msg" "chan_ok (s_chan demo_run_conn)" "chan_out (s_chan demo_run_conn) = []"
    using demo_sess_chan [where a = False and s = ?msg] by (simp_all add: demo_run_conn_def)
  have w: "s_world demo_run_conn = demo_world" "s_ticks demo_run_conn = replicate 6 demo_tick"
    by (simp_all add: demo_run_conn_def demo_sess_def)
  have i: "chan_in (s_chan demo_run_conn) = (''AUTH '' @ g_token run_cfg) @ LF # (''RUN '' @ ''cc'') @ LF # []" using c(1) tok by simp
  have a: "asks posix_build demo_client [''box'', ''cc''] (g_token run_cfg) ''cc'' (chan_tcp (sess_dev (demo_hello @ demo_answer)))"
    unfolding tok by (rule demo_asks)
  have g: "greets posix_build live_os (s_world demo_run_conn)" unfolding w(1) by (rule demo_greets)
  have pb: "\<not> GCDS_WIN32 posix_build" by (simp add: posix_build_def)
  obtain scr where scr: "live_launch posix_build ''cc'' [] = Some scr" using demo_script pb by (auto simp: live_launch_def)
  have f: "os_fork live_os scr (s_world demo_run_conn) = Some demo_child" by (simp add: live_os_def)
  have t: "\<forall>t \<in> set (s_ticks demo_run_conn). \<not> t_sess t" by (simp add: w(2) demo_tick_def)
  have l: "served (GCDS_WIN32 posix_build) demo_child (s_ticks demo_run_conn)"
    unfolding served_def w(2) by (rule exI [of _ "replicate 6 demo_tick"]) (simp add: demo_facts, simp add: demo_tick_def pb)
  have "status_code 256 = 1" by code_simp
  then have k: "live_code posix_build (c_status demo_child) = 1" "c_after demo_child = demo_world"
    by (simp_all add: demo_child_def live_code_def pb)
  then have z: "0 \<le> live_code posix_build (c_status demo_child)" by simp
  obtain st' where st': "session_run posix_build live_os (txt_mac None) run_cfg False demo_run_conn = Some st'"
    "chan_out (s_chan st') = demo_hello @ demo_answer" using demo_run_out by auto
  have n: "demo_hello @ demo_answer \<noteq> []" by (simp add: demo_hello_def)
  from gcds_mirrors_command [OF mac.text_stream_axioms demo_mac(1) [folded tok] demo_mac(2) a sess_dev_chan(2) b(2) demo_io_ok(1-3) s c(2,3) g b(1,3,4) scr f t l z i, of False demo_rc demo_world]
  show ?thesis using st' sess_dev_chan(1) [OF n] sess_dev_chan(3) c(1) k demo_io_ok(4,5) demo_facts demo_mac(3,4) by auto
qed

definition demo_split_conn :: sess_state where
  "demo_split_conn = (demo_sess False (''AUTH tok'' @ LF # ''RUN cc'' @ LF # ''RUNA rm'' @ [LF]))\<lparr>s_ticks := replicate 6 demo_tick\<rparr>"

definition demo_split_answer :: string where
  "demo_split_answer = demo_hello @ demo_answer @ ''OK 1'' @ [LF]"

definition demo_split_client :: cl_env where
  "demo_split_client = demo_client\<lparr>ce_first := demo_attempt (Some demo_split_answer)\<rparr>"

lemma demo_split_out:
  "map_option (\<lambda>st. chan_out (s_chan st)) (session_run posix_build live_os (txt_mac None) run_cfg False demo_split_conn)
    = Some demo_split_answer"
  by code_simp

lemma demo_split_asks:
  "asks posix_build demo_split_client [''box'', ''cc'' @ LF # ''RUNA'', ''rm''] ''tok'' (''cc'' @ LF # ''RUNA '' @ ''rm'')
    (chan_tcp (sess_dev demo_split_answer))"
  by code_simp


lemma demo_answers:
  assumes "is_msg GCDSP_LINE_MAX line"
  shows "answers demo_kv ''box'' (demo_attempt (Some (demo_hello @ line @ LF # rest))) line rest"
proof -
  let ?s = "demo_hello @ line @ LF # rest"
  have kv: "conf_get demo_kv (rc_key CONF_KEY_MAX ''box'' ''token'') = Some ''tok''"
    "conf_get demo_kv (rc_key CONF_KEY_MAX ''box'' ''serial'') = None"
    "conf_get demo_kv (rc_key CONF_KEY_MAX ''box'' ''addr'') = Some ''10.0.0.2''" by code_simp+
  have g: "greeting posix_build live_os run_cfg demo_world @ LF # ''OK'' @ [LF] = demo_hello" by code_simp
  have "rc_connect (a_ser (demo_attempt (Some ?s))) (a_net (demo_attempt (Some ?s))) demo_kv ''box'' = Some (chan_tcp (sess_dev ?s))"
    using kv(2,3) by (simp add: rc_connect_def demo_attempt_def)
  moreover have "chan_in (chan_tcp (sess_dev ?s)) = greeting posix_build live_os run_cfg demo_world @ LF # ''OK'' @ LF # line @ LF # rest"
    by (subst sess_dev_chan(1)) (simp_all add: g [symmetric])
  moreover have "sendable 5 ''tok''" by (simp add: sendable_def)
  ultimately show ?thesis
    unfolding answers_def using assms kv(1) demo_greets sess_dev_chan(2) by blast
qed

lemma demo_prints: "prints posix_build demo_answer 1 ''hi'' ''warn''"
proof -
  have e: "demo_answer = frames [(CHR ''O'', ''hi''), (CHR ''E'', ''warn'')] @ ''X '' @ ld 1 @ [LF]" by code_simp
  have "prints posix_build (frames [(CHR ''O'', ''hi''), (CHR ''E'', ''warn'')] @ ''X '' @ ld 1 @ [LF]) 1
      (payload (CHR ''O'') [(CHR ''O'', ''hi''), (CHR ''E'', ''warn'')]) (payload (CHR ''E'') [(CHR ''O'', ''hi''), (CHR ''E'', ''warn'')])"
    by (rule frames_print [of _ posix_build]) (simp_all add: frame_wf_def GCDSP_FRAME_MAX_def posix_build_def)
  then show ?thesis unfolding e by simp
qed

lemma demo_line: "ld 1 = ''1''"
  by code_simp

text \<open>An MS-DOS daemon whose command writes a file and ends with 3.\<close>

definition demo_make_os :: os where
  "demo_make_os = demo_os\<lparr>os_system := (\<lambda>c w. (3, w_put demo_os w ''ro'' ''built'')),
     os_spawn := (\<lambda>a x e w. (3, w_put demo_os w ''ro'' ''built''))\<rparr>"

definition demo_submit :: "(sess_state \<times> dev option) option" where
  "demo_submit = serve_conn dos_build demo_make_os txt_none token_cfg
     (Some (''10.0.0.1'', sess_dev (''AUTH tok'' @ LF # ''RUNA make'' @ [LF]))) (demo_sess False [])"

definition demo_dos_hello :: string where
  "demo_dos_hello = ''GCDS 1 dos dospc ASYNC LIVE INTERACTIVE'' @ LF # ''OK'' @ [LF]"

definition demo_dos_result :: string where
  "demo_dos_result = demo_dos_hello @ ''OK result 1'' @ LF # ''O 5'' @ LF # ''builtX 3'' @ [LF]"

definition demo_dos_client :: cl_env where
  "demo_dos_client = demo_client\<lparr>ce_first := demo_attempt (Some (demo_dos_hello @ ''OK 1'' @ [LF])),
     ce_polls := [demo_attempt None] @ demo_attempt (Some demo_dos_result) # []\<rparr>"

lemma demo_dos_asks:
  "asks posix_build demo_dos_client (''box'' # [''make'']) ''tok'' ''make'' (chan_tcp (sess_dev (demo_dos_hello @ ''OK 1'' @ [LF])))"
  by code_simp

lemma demo_submit_facts:
  "map_option (\<lambda>(st, o1). (map_option tx o1, valid (s_res st), rcode (s_res st), content demo_make_os (s_world st) ''ro'',
      content demo_make_os (s_world st) ''re'', greets dos_build demo_make_os (s_world st))) demo_submit
    = Some (Some (demo_dos_hello @ ''OK 1'' @ [LF]), True, 3, ''built'', [], True)"
  by code_simp

lemma demo_collect_facts:
  "map_option (\<lambda>(st, o1). map_option (\<lambda>(st, o2). map_option tx o2) (serve_conn dos_build demo_make_os txt_none token_cfg
      (Some (''10.0.0.1'', sess_dev (''AUTH tok'' @ LF # ''STAT'' @ LF # ''RESULT 1'' @ [LF]))) st)) demo_submit
    = Some (Some (Some demo_dos_result))"
  by code_simp

lemma demo_fresh: "fresh (sess_dev s)" "s \<noteq> [] \<Longrightarrow> dev_in (sess_dev s) = s"
  by (simp_all add: fresh_def sess_dev_def dev_ok_def dev_in_def)

lemma demo_polls:
  "load_conf posix_build demo_dos_client = Some demo_kv"
  "rc_connect (a_ser (demo_attempt None)) (a_net (demo_attempt None)) demo_kv ''box'' = None"
  "rc_connect (a_ser (demo_attempt (Some s))) (a_net (demo_attempt (Some s))) demo_kv ''box'' = Some (chan_tcp (sess_dev s))"
proof -
  show "load_conf posix_build demo_dos_client = Some demo_kv" by code_simp
  have "conf_get demo_kv (rc_key CONF_KEY_MAX ''box'' ''serial'') = None"
    "conf_get demo_kv (rc_key CONF_KEY_MAX ''box'' ''addr'') = Some ''10.0.0.2''" by code_simp+
  then show "rc_connect (a_ser (demo_attempt None)) (a_net (demo_attempt None)) demo_kv ''box'' = None"
    "rc_connect (a_ser (demo_attempt (Some s))) (a_net (demo_attempt (Some s))) demo_kv ''box'' = Some (chan_tcp (sess_dev s))"
    by (simp_all add: rc_connect_def demo_attempt_def)
qed


theorem poll_broken_fetch_gives_up_witness:
  "\<exists>d. poll_result posix_build demo_kv ''box'' 1
      [demo_attempt (Some (demo_hello @ ''OK result 1'' @ [LF])),
       demo_attempt (Some (demo_hello @ ''OK result 1'' @ LF # demo_answer))] demo_rc demo_io = Some (-1, d, demo_io)"
proof -
  have m: "is_msg GCDSP_LINE_MAX (''OK result '' @ ld 1)" by (simp add: is_msg_def demo_line)
  from poll_broken_fetch_gives_up [OF demo_answers [OF m] demo_answers [OF m], where B = posix_build and es = "[]" and rc = demo_rc and io = demo_io]
  show ?thesis by (simp add: demo_line)
qed

end
