(* ===== verification/Wiretype.thy ===== *)
theory Wiretype
  imports Sessprops
begin

text \<open>
  The language of the daemon: what a session writes is typed by the protocol, whatever its peer sends, the
  command does and the text conversion returns.  The statement covers every command of the dispatcher
  and both supervisors.
\<close>

section \<open>Messages\<close>

datatype wire_item = WLine string | WFrame char "char list"

definition wire_bytes :: "wire_item \<Rightarrow> char list" where
  "wire_bytes i = (case i of WLine s \<Rightarrow> s @ [LF] | WFrame t d \<Rightarrow> frame t d)"

text \<open>A line is one of the answers of the protocol, in one line; a frame carries between one byte and the
  maximum.\<close>

definition status_line :: "string \<Rightarrow> bool" where
  "status_line s \<longleftrightarrow> LF \<notin> set s \<and> NUL \<notin> set s \<and>
     (s = ''OK'' \<or> (\<exists>r. s = ''OK '' @ r) \<or> (\<exists>a b c r. s = ''ERR '' @ [a, b, c, CHR '' ''] @ r \<and> is_digit a \<and> is_digit b \<and> is_digit c)
      \<or> (\<exists>n \<in> {0..255}. s = ''X '' @ ld n) \<or> s = ''D 0'')"

definition wire_ok :: "build \<Rightarrow> wire_item \<Rightarrow> bool" where
  "wire_ok B i \<longleftrightarrow> (case i of WLine s \<Rightarrow> status_line s
     | WFrame t d \<Rightarrow> t \<in> {CHR ''O'', CHR ''E'', CHR ''D''} \<and> frame_wf B (t, d))"

definition talks :: "build \<Rightarrow> gcds_chan \<Rightarrow> gcds_chan \<Rightarrow> bool" where
  "talks B c c' \<longleftrightarrow> (chan_ok c \<longrightarrow> chan_ok c' \<and>
     (\<exists>its. chan_out c' = chan_out c @ concat (map wire_bytes its) \<and> (\<forall>i \<in> set its. wire_ok B i)))"

lemma talks_trans: "talks B a b \<Longrightarrow> talks B b c \<Longrightarrow> talks B a c"
proof -
  assume a: "talks B a b" "talks B b c"
  show "talks B a c" unfolding talks_def
  proof (intro impI conjI)
    assume "chan_ok a"
    with a obtain its js where "chan_ok c" "chan_out b = chan_out a @ concat (map wire_bytes its)" "\<forall>i \<in> set its. wire_ok B i"
      "chan_out c = chan_out b @ concat (map wire_bytes js)" "\<forall>i \<in> set js. wire_ok B i" by (auto simp: talks_def)
    then show "chan_ok c" "\<exists>its. chan_out c = chan_out a @ concat (map wire_bytes its) \<and> (\<forall>i \<in> set its. wire_ok B i)"
      by (simp, intro exI [of _ "its @ js"]) auto
  qed
qed

lemma talks_same: "chan_out c' = chan_out c \<Longrightarrow> chan_ok c' = chan_ok c \<Longrightarrow> talks B c c'"
  unfolding talks_def by (intro impI conjI exI [of _ "[]"]) simp_all

lemma talks_refl [simp]: "talks B c c"
  by (rule talks_same) simp_all

lemma talks_line: "status_line l \<Longrightarrow> lio_put_line c l = (r, c') \<Longrightarrow> talks B c c'"
  using lio_put_line_ok [of c l] unfolding talks_def
  by (intro impI conjI exI [of _ "[WLine l]"]) (auto simp: wire_bytes_def wire_ok_def)

lemma talks_frame:
  assumes "tag \<in> {CHR ''O'', CHR ''E'', CHR ''D''}" and "lio_put_frame B c tag d = (r, c')"
  shows "talks B c c'"
proof (cases "d = [] \<or> int (length d) > GCDSP_FRAME_MAX B")
  case True
  then have "c' = c" using assms(2) by (auto simp: lio_put_frame_def Let_def split: if_splits)
  then show ?thesis by simp
next
  case False
  then show ?thesis using lio_put_frame_ok [of c d B tag] assms unfolding talks_def
    by (intro impI conjI exI [of _ "[WFrame tag d]"]) (auto simp: wire_bytes_def wire_ok_def frame_wf_def)
qed

lemma talks_get: "lio_get_line c n = (r, raw, c') \<Longrightarrow> talks B c c'"
  using lio_get_line_view [of c n r raw c'] by (intro talks_same) simp_all

lemma talks_read: "chan_read_n c n = (r, c') \<Longrightarrow> talks B c c'"
  using ch.rd_outp [of c n] ch.rd_ok [of c n] by (intro talks_same) simp_all

text \<open>The answers of the code.\<close>

lemma ld_clean [simp]: "LF \<notin> set (ld n)" "NUL \<notin> set (ld n)"
  by (simp_all add: ld_def is_digit_def)

lemma status_literals [simp]:
  "status_line ''OK''" "status_line ''D 0''" "status_line ''OK idle''"
  "status_line ''ERR 400 missing command''" "status_line ''ERR 400 missing path''" "status_line ''ERR 400 bad env''"
  "status_line ''ERR 400 expected data frame''" "status_line ''ERR 400 bad frame length''" "status_line ''ERR 400 protocol violation''"
  "status_line ''ERR 401 auth failed''" "status_line ''ERR 404 no such directory''" "status_line ''ERR 404 no such result''"
  "status_line ''ERR 404 no such file''" "status_line ''ERR 404 cannot create''" "status_line ''ERR 413 too large''"
  "status_line ''ERR 431 env too long''" "status_line ''ERR 431 too many env''" "status_line ''ERR 500 write failed''"
  "status_line ''ERR 500 exec failed''" "status_line ''ERR 500 unknown command''" "status_line ''ERR 501 not supported''"
  by (simp_all add: status_line_def is_digit_def)

lemma status_numbers [simp]:
  "LF \<notin> set s \<Longrightarrow> NUL \<notin> set s \<Longrightarrow> status_line (CHR ''O'' # CHR ''K'' # CHR '' '' # s)"
  "status_line (CHR ''X'' # CHR '' '' # ld (n AND 255))"
  by (auto simp: status_line_def and_255)

section \<open>Answers and capture files\<close>

lemma say_talks: "status_line l \<Longrightarrow> say c l = (b, c') \<Longrightarrow> talks B c c'"
  by (auto simp: say_def split: prod.splits dest: talks_line)

lemma say_talksD: "say c l = (b, c') \<Longrightarrow> status_line l \<Longrightarrow> talks B c c'"
  by (rule say_talks)

lemma send_exit_talks: "send_exit c code = (r, c') \<Longrightarrow> talks B c c'"
  using talks_line [of "''X '' @ ld (code AND 255)" c r c' B] by (simp add: send_exit_def)

text \<open>A line whose result is dropped.\<close>

lemma talks_line_snd [simp]: "status_line l \<Longrightarrow> talks B c (snd (lio_put_line c l))"
  by (rule talks_line [OF _ surjective_pairing])

lemma talks_frame_snd: "tag \<in> {CHR ''O'', CHR ''E'', CHR ''D''} \<Longrightarrow> talks B c (snd (lio_put_frame B c tag d))"
  by (rule talks_frame [OF _ surjective_pairing])

lemma handle_auth_talks: "handle_auth G c cmd arg = (b, c') \<Longrightarrow> talks B c c'"
  by (auto simp: handle_auth_def split: prod.splits if_splits) (metis talks_line status_literals(1))+

lemma send_loop_talks:
  "tag \<in> {CHR ''O'', CHR ''E''} \<Longrightarrow> send_loop B T cap chunk tag rest cv sent c = (b, c', n) \<Longrightarrow> talks B c c'"
proof (induction B T cap chunk tag rest cv sent c rule: send_loop.induct)
  case (1 B T cap chunk tag rest cv sent c)
  have t: "tag \<in> {CHR ''O'', CHR ''E'', CHR ''D''}" using "1.prems"(1) by blast
  note f = talks_frame [OF t] and fe = talks_frame_snd [of "CHR ''E''" B _ cap_notice]
  note eq = send_loop.simps [of B T cap chunk tag rest cv sent c]
  show ?case
  proof (cases "rest = [] \<or> chunk = 0")
    case True
    then show ?thesis using "1.prems"(2) f by (auto simp: eq split: if_splits option.splits prod.splits)
  next
    case False
    let ?x = "if txt_active T then txt_out T cv (take chunk rest) (2 * GCDSP_FRAME_MAX B) else (Some (take chunk rest), cv)"
    obtain o0 cv' where x: "?x = (o0, cv')" by (metis surj_pair)
    show ?thesis
    proof (cases o0)
      case None
      then show ?thesis using "1.prems"(2) False x by (auto simp: eq Let_def)
    next
      case (Some o1)
      note ih = "1.IH" [OF False refl refl x [symmetric, unfolded Some] refl]
      have eq1: "send_loop B T cap chunk tag rest cv sent c =
        (if txt_active T \<and> o1 = [] then send_loop B T cap chunk tag (drop chunk rest) cv' sent c
         else if cap > 0 \<and> sent + int (length o1) > cap then
           (case (if cap - sent > 0 then lio_put_frame B c tag (take (nat (cap - sent)) o1) else (LIO_OK, c)) of (r, c1) \<Rightarrow>
             if r \<noteq> LIO_OK then (False, c1, sent)
             else (True, snd (lio_put_frame B c1 (CHR ''E'') cap_notice), sent + (cap - sent)))
         else (case lio_put_frame B c tag o1 of (r, c1) \<Rightarrow>
           if r \<noteq> LIO_OK then (False, c1, sent)
           else send_loop B T cap chunk tag (drop chunk rest) cv' (sent + int (length o1)) c1))"
        unfolding eq Let_def x Some using False by simp
      show ?thesis
        using "1.prems" ih f talks_trans [OF _ fe] talks_trans [OF f] unfolding eq1 by (fastforce split: if_splits prod.splits)
    qed
  qed
qed

lemma send_file_talks:
  "tag \<in> {CHR ''O'', CHR ''E''} \<Longrightarrow> send_file B S T G w c tag p sent = (b, c', n) \<Longrightarrow> talks B c c'"
  by (auto simp: send_file_def split: option.splits dest: send_loop_talks [rotated])

lemma send_captured_talks:
  assumes "send_captured B S T G w outf errf c = (b, c')"
  shows "talks B c c'"
proof -
  obtain b1 c1 n1 where 1: "send_file B S T G w c (CHR ''O'') outf 0 = (b1, c1, n1)" by (metis prod_cases3)
  obtain b2 c2 n2 where 2: "send_file B S T G w c1 (CHR ''E'') errf n1 = (b2, c2, n2)" by (metis prod_cases3)
  have "talks B c c1" "talks B c1 c2" using send_file_talks [OF _ 1] send_file_talks [OF _ 2] by simp_all
  with assms talks_trans show ?thesis by (auto simp: send_captured_def 1 2 split: if_splits)
qed

section \<open>File transfer\<close>

lemma put_loop_talks: "put_loop B S cap path acc c w = (b, c', w') \<Longrightarrow> talks B c c'"
proof (induction B S cap path acc c w rule: put_loop.induct)
  case (1 B S cap path acc c w)
  obtain r raw c1 where g: "lio_get_line c 48 = (r, raw, c1)" by (metis prod_cases3)
  note k1 = talks_get [OF g, of B] and eq = put_loop.simps [of B S cap path acc c w, unfolded g prod.case Let_def]
  let ?len = "atol (drop 2 (cstr raw))"
  show ?case
  proof (cases "r \<noteq> LIO_OK \<or> char_at (cstr raw) 0 \<noteq> CHR ''D'' \<or> char_at (cstr raw) 1 \<noteq> CHR '' '' \<or> ?len = 0 \<or> ?len < 0
      \<or> ?len > GCDSP_FRAME_MAX B")
    case True
    then show ?thesis using "1.prems" k1 talks_trans [OF k1 talks_line_snd] unfolding eq
      by (auto split: if_splits prod.splits dest: talks_trans [OF k1 say_talksD])
  next
    case False
    obtain x c2 where rd: "chan_read_n c1 (nat ?len) = (x, c2)" by (metis surj_pair)
    have k2: "talks B c c2" using talks_trans [OF k1 talks_read [OF rd]] .
    show ?thesis
    proof (cases x)
      case None
      then show ?thesis using "1.prems" k2 False rd unfolding eq by simp
    next
      case (Some buf)
      have "put_loop B S cap path (acc @ buf) c2 (w_put S w path (acc @ buf)) = (b, c', w') \<Longrightarrow>
          \<not> (cap > 0 \<and> int (length acc) + ?len > cap) \<Longrightarrow> os_fwrite_ok S w path buf \<Longrightarrow> talks B c2 c'"
        using "1.IH" [OF g [symmetric] refl] False rd Some by simp
      then show ?thesis using "1.prems" k2 talks_trans [OF k2] False rd Some unfolding eq
        by (auto split: if_splits prod.splits dest: talks_trans [OF k2 say_talksD])
    qed
  qed
qed

lemma do_put_talks:
  assumes "do_put B S G c path w = (b, c', w')"
  shows "talks B c c'"
proof -
  obtain r c1 where p: "lio_put_line c ''OK'' = (r, c1)" by (metis surj_pair)
  have k: "talks B c c1" by (rule talks_line [OF _ p]) simp
  show ?thesis using assms k talks_trans [OF k put_loop_talks]
    by (auto simp: do_put_def p split: option.splits if_splits prod.splits dest: say_talksD [where B = B])
qed

lemma get_loop_talks: "get_loop B chunk rest c = (b, c') \<Longrightarrow> talks B c c'"
proof (induction B chunk rest c rule: get_loop.induct)
  case (1 B chunk rest c)
  obtain r c1 where p: "lio_put_frame B c (CHR ''D'') (take chunk rest) = (r, c1)" by (metis surj_pair)
  have k: "talks B c c1" by (rule talks_frame [OF _ p]) simp
  show ?case using "1.prems" "1.IH" [OF _ p [symmetric]] k talks_trans [OF k] say_talks [of "''D 0''" c]
    by (subst (asm) get_loop.simps) (auto simp: p split: if_splits)
qed

lemma do_get_talks:
  assumes "do_get B S w c path = (b, c')"
  shows "talks B c c'"
proof -
  obtain r c1 where p: "lio_put_line c ''OK'' = (r, c1)" by (metis surj_pair)
  have k: "talks B c c1" by (rule talks_line [OF _ p]) simp
  show ?thesis using assms k talks_trans [OF k get_loop_talks]
    by (auto simp: do_get_def p split: option.splits if_splits prod.splits dest: say_talksD [where B = B])
qed

section \<open>The supervisors\<close>

definition talks_o :: "build \<Rightarrow> gcds_chan option \<Rightarrow> gcds_chan option \<Rightarrow> bool" where
  "talks_o B x y \<longleftrightarrow> (case x of None \<Rightarrow> y = None | Some c \<Rightarrow> (\<exists>c'. y = Some c' \<and> talks B c c'))"

lemma talks_o_simps [simp]: "talks_o B None y = (y = None)" "talks_o B (Some c) (Some c') = talks B c c'" "talks_o B x x"
  by (simp_all add: talks_o_def split: option.splits)

lemma talks_o_trans: "talks_o B x y \<Longrightarrow> talks_o B y z \<Longrightarrow> talks_o B x z"
  by (auto simp: talks_o_def split: option.splits dest: talks_trans)

lemma pump_send_talks:
  assumes "pump_send B T tag buf s = (r, s')" and "tag \<in> {CHR ''O'', CHR ''E''}"
  shows "talks_o B (l_sess s) (l_sess s')"
proof (cases "l_sess s")
  case None
  with assms show ?thesis by (simp add: pump_send_def)
next
  case (Some c)
  have t: "tag \<in> {CHR ''O'', CHR ''E'', CHR ''D''}" using assms(2) by blast
  obtain o1 cv where o1: "txt_out T (if tag = CHR ''O'' then l_cvo s else l_cve s) buf (2 * GCDSP_FRAME_MAX B) = (o1, cv)"
    by (metis surj_pair)
  show ?thesis using assms(1) Some o1 talks_frame [OF t]
    by (auto simp: pump_send_def Let_def split: if_splits option.splits prod.splits)
qed

lemma pumps_talk:
  "tick_out B T chunk t s = (b, s') \<Longrightarrow> talks_o B (l_sess s) (l_sess s')"
  "tick_err B T chunk t s = (b, s') \<Longrightarrow> talks_o B (l_sess s) (l_sess s')"
  "w32_pump_out B T chunk t s = (b, s') \<Longrightarrow> talks_o B (l_sess s) (l_sess s')"
  "w32_pump_err B T chunk t s = (b, s') \<Longrightarrow> talks_o B (l_sess s) (l_sess s')"
  by (auto simp: tick_out_def tick_err_def pump_out_def pump_err_def w32_pump_out_def w32_pump_err_def
      split: option.splits if_splits prod.splits dest!: pump_send_talks)

lemma caps_talk: "talks_o B (l_sess s) (l_sess (tick_cap B G t s))" "talks_o B (l_sess s) (l_sess (w32_cap B G mode t s))"
  using talks_frame_snd [of "CHR ''E''" B _ cap_notice]
  by (auto simp: tick_cap_def w32_cap_def kill_child_def hardkill_child_def kill_job_def talks_o_def split: option.splits)

lemma runi_frames_talk:
  "runi_frame B n c line s = (b, s') \<Longrightarrow> l_sess s = Some c \<Longrightarrow> talks_o B (l_sess s) (l_sess s')"
  "w32_runi_frame B c line s = (b, s') \<Longrightarrow> l_sess s = Some c \<Longrightarrow> talks_o B (l_sess s) (l_sess s')"
  by (auto simp: runi_frame_def w32_runi_frame_def Let_def kill_child_def kill_job_def
      split: if_splits option.splits prod.splits dest: talks_read)

lemma input_talks:
  "tick_sess B mode t s = (b, s') \<Longrightarrow> talks_o B (l_sess s) (l_sess s')"
  "w32_sess B mode t s = (b, s') \<Longrightarrow> talks_o B (l_sess s) (l_sess s')"
proof -
  have "talks_o B (l_sess s) (l_sess s')"
    if c: "l_sess s = Some c" and g: "lio_get_line c GCDSP_LINE_MAX = (r, raw, c1)"
      and x: "s' = s\<lparr>l_sess := Some c1\<rparr> \<or> runi_frame B n c1 l (s\<lparr>l_sess := Some c1\<rparr>) = (b, s')
        \<or> w32_runi_frame B c1 l (s\<lparr>l_sess := Some c1\<rparr>) = (b, s')"
    for c r raw c1 n l
  proof -
    have "talks_o B (Some c1) (l_sess s')"
      using x runi_frames_talk(1) [of B n c1 l "s\<lparr>l_sess := Some c1\<rparr>" b s'] runi_frames_talk(2) [of B c1 l "s\<lparr>l_sess := Some c1\<rparr>" b s']
      by auto
    then show ?thesis using talks_get [OF g, of B] talks_o_trans [of B "Some c" "Some c1"] c by simp
  qed
  then show "tick_sess B mode t s = (b, s') \<Longrightarrow> talks_o B (l_sess s) (l_sess s')"
    "w32_sess B mode t s = (b, s') \<Longrightarrow> talks_o B (l_sess s) (l_sess s')"
    by (fastforce simp: tick_sess_def w32_sess_def w32_sess_rd_def Let_def split: option.splits if_splits prod.splits)+
qed

lemma tick_end_sess: "tick_end G mode t s \<in> {Next s', Lost s', Done s'} \<Longrightarrow> l_sess s' = l_sess s"
  by (auto simp: tick_end_def Let_def tick_escalate_def tick_job_cap_def hardkill_child_def kill_child_def split: if_splits)

lemma live_tick_talks:
  assumes "live_tick B S T G w mode ls busy chunk t s \<in> {Next s', Lost s', Done s'}"
  shows "talks_o B (l_sess s) (l_sess s')"
proof -
  define s0 where "s0 = tick_ctl B S G w ls busy t s"
  have z: "l_sess s0 = l_sess s" by (auto simp: s0_def tick_ctl_def split: option.splits prod.splits)
  obtain b1 s1 where 1: "tick_out B T chunk t s0 = (b1, s1)" by (metis surj_pair)
  obtain b2 s2 where 2: "tick_err B T chunk t s1 = (b2, s2)" by (metis surj_pair)
  obtain b3 s3 where 3: "tick_sess B mode t (tick_cap B G t s2) = (b3, s3)" by (metis surj_pair)
  have k1: "talks_o B (l_sess s) (l_sess s1)" using pumps_talk(1) [OF 1] z by simp
  have k2: "talks_o B (l_sess s) (l_sess s2)" using talks_o_trans [OF k1 pumps_talk(2) [OF 2]] .
  have k3: "talks_o B (l_sess s) (l_sess s3)" using talks_o_trans [OF talks_o_trans [OF k2 caps_talk(1)] input_talks(1) [OF 3]] .
  from assms show ?thesis
    using k1 k2 k3 z tick_end_sess [of G mode t s0 s'] tick_end_sess [of G mode t s3 s']
    unfolding live_tick_def Let_def s0_def [symmetric] by (auto simp: 1 2 3 split: if_splits)
qed

lemma w32_tick_talks:
  assumes "w32_tick B S T G w mode ls busy chunk t s \<in> {Next s', Lost s', Done s'}"
  shows "talks_o B (l_sess s) (l_sess s')"
proof -
  define s0 where "s0 = w32_ctl B S G w ls busy t s"
  have z: "l_sess s0 = l_sess s" by (auto simp: s0_def w32_ctl_def split: option.splits prod.splits)
  obtain b1 s1 where 1: "w32_sess B mode t s0 = (b1, s1)" by (metis surj_pair)
  obtain b2 s2 where 2: "w32_pump_out B T chunk t s1 = (b2, s2)" by (metis surj_pair)
  obtain b3 s3 where 3: "w32_pump_err B T chunk t s2 = (b3, s3)" by (metis surj_pair)
  have "talks_o B (l_sess s) (l_sess s3)"
    using talks_o_trans [OF talks_o_trans [OF input_talks(2) [OF 1] pumps_talk(3) [OF 2]] pumps_talk(4) [OF 3]] z by simp
  then have "talks_o B (l_sess s) (l_sess (w32_cap B G mode t s3))" by (rule talks_o_trans [OF _ caps_talk(2)])
  moreover have "s' = w32_cap B G mode t s3 \<or> s' = kill_job (w32_cap B G mode t s3)"
    using assms unfolding w32_tick_def s0_def [symmetric] by (auto simp: 1 2 3 Let_def split: if_splits)
  ultimately show ?thesis by (auto simp: kill_job_def)
qed

lemma flush_talks:
  "talks_o B (l_sess s) (l_sess (cv_flush_all B T s))"
  "w32_flush_all B T s = (b, s') \<Longrightarrow> talks_o B (l_sess s) (l_sess s')"
proof -
  have f: "talks B c c'" if "cv_flush_one B T tag cv c = (b, c')" "tag \<in> {CHR ''O'', CHR ''E''}" for tag cv c b c'
    using that by (auto simp: cv_flush_one_def split: option.splits prod.splits if_splits dest: talks_frame [rotated])
  show "talks_o B (l_sess s) (l_sess (cv_flush_all B T s))"
  proof (cases "l_sess s")
    case (Some c)
    obtain b1 c1 where 1: "cv_flush_one B T (CHR ''O'') (l_cvo s) c = (b1, c1)" by (metis surj_pair)
    obtain b2 c2 where 2: "cv_flush_one B T (CHR ''E'') (l_cve s) c1 = (b2, c2)" by (metis surj_pair)
    show ?thesis using f [OF 1] talks_trans [OF f [OF 1] f [OF 2]] Some by (simp add: cv_flush_all_def 1 2)
  qed (simp add: cv_flush_all_def)
  show "talks_o B (l_sess s) (l_sess s')" if "w32_flush_all B T s = (b, s')"
  proof (cases "l_sess s")
    case (Some c)
    obtain b1 c1 where 1: "cv_flush_one B T (CHR ''O'') (l_cvo s) c = (b1, c1)" by (metis surj_pair)
    obtain b2 c2 where 2: "cv_flush_one B T (CHR ''E'') (l_cve s) c1 = (b2, c2)" by (metis surj_pair)
    show ?thesis using that f [OF 1] talks_trans [OF f [OF 1] f [OF 2]] Some by (auto simp: w32_flush_all_def 1 2 split: if_splits)
  qed (use that in \<open>simp add: w32_flush_all_def\<close>)
qed

lemma live_loop_talks:
  "live_loop B S T G w mode ls busy chunk status ts s = Some (code, s', ts') \<Longrightarrow> talks_o B (l_sess s) (l_sess s')"
proof (induction ts arbitrary: s)
  case (Cons t ts)
  note tk = live_tick_talks [of B S T G w mode ls busy chunk t s]
  show ?case
  proof (cases "live_tick B S T G w mode ls busy chunk t s")
    case (Next s1)
    then show ?thesis using Cons.prems Cons.IH [of s1] tk [of s1] talks_o_trans by auto
  next
    case (Lost s1)
    then show ?thesis using Cons.prems tk [of s1] by (auto simp: live_lost_def hardkill_child_def kill_child_def)
  next
    case (Done s1)
    then show ?thesis using Cons.prems tk [of s1] talks_o_trans [OF _ flush_talks(1)] by auto
  qed
qed simp

lemma w32_loop_talks:
  "w32_loop B S T G w mode ls busy chunk status ts s = Some (code, s', ts') \<Longrightarrow> talks_o B (l_sess s) (l_sess s')"
proof (induction ts arbitrary: s)
  case (Cons t ts)
  note tk = w32_tick_talks [of B S T G w mode ls busy chunk t s]
  show ?case
  proof (cases "w32_tick B S T G w mode ls busy chunk t s")
    case (Next s1)
    then show ?thesis using Cons.prems Cons.IH [of s1] tk [of s1] talks_o_trans by auto
  next
    case (Lost s1)
    obtain b s2 where "w32_flush_all B T s1 = (b, s2)" by (metis surj_pair)
    then show ?thesis using Lost Cons.prems tk [of s1] talks_o_trans [OF _ flush_talks(2)] by auto
  next
    case (Done s1)
    obtain b s2 where "w32_flush_all B T s1 = (b, s2)" by (metis surj_pair)
    then show ?thesis using Done Cons.prems tk [of s1] talks_o_trans [OF _ flush_talks(2)] by auto
  qed
qed simp

lemma sess_exec_talks:
  assumes "sess_exec B S T G mode sess ls cmd env outf errf jid w ts = Some (code, x, w', ts', sg)"
  shows "talks_o B sess x"
proof -
  have i: "l_sess (lstate_init mode sess k) = sess" for k by (simp add: lstate_init_def)
  show ?thesis
    using assms live_loop_talks [of B S T G _ mode ls _ _ _ ts "lstate_init mode sess _", unfolded i]
      w32_loop_talks [of B S T G _ mode ls _ _ _ ts "lstate_init mode sess _", unfolded i]
    by (auto simp: sess_exec_def live_exec_def w32_live_exec_def split: if_splits option.splits prod.splits bool.splits)
qed

section \<open>The dispatcher\<close>

text \<open>A step of the session, from the channel it was given.\<close>

definition step_talks :: "build \<Rightarrow> gcds_chan \<Rightarrow> step \<Rightarrow> bool" where
  "step_talks B c x \<longleftrightarrow> (case x of Continue st \<Rightarrow> talks B c (s_chan st) | Return st \<Rightarrow> talks B c (s_chan st) | Blocked \<Rightarrow> True)"

lemma step_talks_simps [simp]:
  "step_talks B c (Continue st) = talks B c (s_chan st)" "step_talks B c (Return st) = talks B c (s_chan st)" "step_talks B c Blocked"
  by (simp_all add: step_talks_def)

lemma replies_talk:
  "talks B c (s_chan st) \<Longrightarrow> status_line l \<Longrightarrow> step_talks B c (reply st l)"
  "talks B c (s_chan st) \<Longrightarrow> step_talks B c (reply_exit st code)"
  by (auto simp: reply_def reply_exit_def split: prod.splits dest: say_talksD send_exit_talks intro: talks_trans)

lemma live_reply_talks:
  assumes "x = sess_exec B S T G mode (Some (s_chan st)) ls cmd env outf errf jid w ts"
  shows "step_talks B (s_chan st) (live_reply st x)"
proof (cases x)
  case (Some y)
  obtain code c w' ts' sg where y: "y = (code, c, w', ts', sg)" by (metis prod_cases5)
  then have "talks_o B (Some (s_chan st)) c" using sess_exec_talks assms Some by metis
  then obtain c' where "c = Some c'" "talks B (s_chan st) c'" by (auto simp: talks_o_def)
  then show ?thesis using Some y by (auto simp: live_reply_def Let_def intro!: replies_talk)
qed (simp add: live_reply_def)

lemma sess_run_talks: "step_talks B (s_chan st) (sess_run B S T G ls arg st)"
proof (cases "arg = None \<or> GCDS_HAS_LIVE B")
  case True
  let ?st = "st\<lparr>s_res := (s_res st)\<lparr>valid := False\<rparr>\<rparr>"
  show ?thesis using True live_reply_talks [OF refl, of B ?st] by (auto simp: sess_run_def Let_def intro: replies_talk split: option.splits)
next
  case False
  then obtain cmd where arg: "arg = Some cmd" "\<not> GCDS_HAS_LIVE B" by auto
  obtain code w1 where r: "run_command B S cmd (s_env st) (g_outf G) (g_errf G) (s_world st) = (code, w1)" by (metis surj_pair)
  obtain b c where s: "send_captured B S T G w1 (g_outf G) (g_errf G) (s_chan st) = (b, c)" by (metis surj_pair)
  show ?thesis using arg r s send_captured_talks [OF s] by (auto simp: sess_run_def Let_def intro!: replies_talk)
qed

lemma commands_talk:
  "step_talks B (s_chan st) (sess_stat st)" "step_talks B (s_chan st) (sess_cwd S arg st)" "step_talks B (s_chan st) (sess_env B arg st)"
  "step_talks B (s_chan st) (sess_runa arg st)" "step_talks B (s_chan st) (sess_runi B S T G ls arg st)"
  "step_talks B (s_chan st) (sess_put B S G arg st)" "step_talks B (s_chan st) (sess_get B S arg st)"
proof -
  show "step_talks B (s_chan st) (sess_stat st)" "step_talks B (s_chan st) (sess_cwd S arg st)" "step_talks B (s_chan st) (sess_env B arg st)"
    "step_talks B (s_chan st) (sess_runa arg st)"
    by (auto simp: sess_stat_def sess_cwd_def sess_env_def sess_runa_def Let_def intro!: replies_talk split: option.splits prod.splits)
  show "step_talks B (s_chan st) (sess_runi B S T G ls arg st)"
    using live_reply_talks [OF refl, of B "st\<lparr>s_res := (s_res st)\<lparr>valid := False\<rparr>\<rparr>"]
    by (auto simp: sess_runi_def Let_def intro!: replies_talk split: option.splits)
  show "step_talks B (s_chan st) (sess_put B S G arg st)" "step_talks B (s_chan st) (sess_get B S arg st)"
    by (auto simp: sess_put_def sess_get_def Let_def split: prod.splits dest: do_put_talks do_get_talks)
qed

lemma sess_result_talks: "step_talks B (s_chan st) (sess_result B S T G arg st)"
  by (auto simp: sess_result_def Let_def split: prod.splits dest!: send_captured_talks intro!: replies_talk)

lemma session_line_talks: "step_talks B (s_chan st) (session_line B S T G ls line st)"
proof -
  obtain l arg where sc: "split_cmd (sess_line_in T B line) = (l, arg)" by (metis surj_pair)
  obtain b c where a: "handle_auth G (s_chan st) l arg = (b, c)" by (metis surj_pair)
  show ?thesis using handle_auth_talks [OF a, of B]
    by (simp add: session_line_def sc a Let_def commands_talk sess_run_talks sess_result_talks replies_talk)
qed

lemma session_loop_talks: "session_loop B S T G ls st = Some st' \<Longrightarrow> talks B (s_chan st) (s_chan st')"
proof (induction B S T G ls st rule: session_loop.induct)
  case (1 B S T G ls st)
  obtain r raw c1 where g: "lio_get_line (s_chan st) GCDSP_LINE_MAX = (r, raw, c1)" by (metis prod_cases3)
  note eq = session_loop.simps [of B S T G ls st, unfolded g prod.case] and k = talks_get [OF g, of B]
  have l: "step_talks B c1 (session_line B S T G ls (cstr raw) (st\<lparr>s_chan := c1\<rparr>))"
    using session_line_talks [of B "st\<lparr>s_chan := c1\<rparr>"] by simp
  show ?case
  proof (cases "r = LIO_OK")
    case False
    with "1.prems" k talks_trans [OF k talks_line_snd] show ?thesis unfolding eq by (auto split: if_splits)
  next
    case True
    show ?thesis
    proof (cases "session_line B S T G ls (cstr raw) (st\<lparr>s_chan := c1\<rparr>)")
      case (Continue st1)
      have "talks B (s_chan st1) (s_chan st')"
        using "1.IH" [OF g [symmetric] refl _ _ Continue] "1.prems" True Continue unfolding eq by simp
      moreover have "talks B (s_chan st) (s_chan st1)" using talks_trans [OF k] l Continue by simp
      ultimately show ?thesis by (rule talks_trans [rotated])
    next
      case (Return st1)
      with True "1.prems" l talks_trans [OF k] show ?thesis unfolding eq by simp
    next
      case Blocked
      with True "1.prems" show ?thesis unfolding eq by simp
    qed
  qed
qed

section \<open>Messages are read back uniquely\<close>

definition wire_head :: "wire_item \<Rightarrow> string" where
  "wire_head i = (case i of WLine s \<Rightarrow> s | WFrame t d \<Rightarrow> t # CHR '' '' # ld (int (length d)))"

definition wire_body :: "wire_item \<Rightarrow> char list" where
  "wire_body i = (case i of WLine s \<Rightarrow> [] | WFrame t d \<Rightarrow> d)"

lemma wire_bytes_split: "wire_bytes i = wire_head i @ LF # wire_body i"
  by (simp add: wire_bytes_def wire_head_def wire_body_def frame_eq split: wire_item.splits)

lemma wire_head_line: "wire_ok B i \<Longrightarrow> LF \<notin> set (wire_head i)"
  by (auto simp: wire_ok_def wire_head_def status_line_def split: wire_item.splits)

text \<open>No answer is the header of a frame, and the header gives the length of the frame.\<close>

lemma status_no_header:
  assumes "status_line (t # CHR '' '' # ld n)" and "0 < n" and "n < 2 ^ 63"
  shows "t = CHR ''X''"
proof -
  have "atol ''0'' = 0" by code_simp
  then have "ld n \<noteq> ''0''" using assms(2,3) atol_ld_nonneg [of n] by auto
  with assms(1) show ?thesis by (auto simp: status_line_def)
qed

lemma wire_head_inj:
  assumes "wire_ok B i" and "wire_ok B j" and "wire_head i = wire_head j"
  shows "length (wire_body i) = length (wire_body j)" and "wire_body i = wire_body j \<Longrightarrow> i = j"
proof -
  have n: "t \<in> {CHR ''O'', CHR ''E'', CHR ''D''} \<and> 0 < length d \<and> int (length d) < 2 ^ 63" if "wire_ok B (WFrame t d)" for t d
  proof -
    have "int (length d) \<le> 4096" "t \<in> {CHR ''O'', CHR ''E'', CHR ''D''}" "d \<noteq> []"
      using that FRAME_MAX_bounds(2) [of B] by (simp_all add: wire_ok_def frame_wf_def)
    then show ?thesis by simp
  qed
  have "length d = length e" if "wire_ok B (WFrame t d)" "wire_ok B (WFrame u e)" "ld (int (length d)) = ld (int (length e))" for t u d e
    using n [OF that(1)] n [OF that(2)] that(3) by (metis atol_ld_nonneg of_nat_0_le_iff of_nat_eq_iff)
  moreover have "\<not> wire_ok B (WLine (t # CHR '' '' # ld (int (length d))))" if "wire_ok B (WFrame t d)" for t d
    using status_no_header [of t "int (length d)"] n [OF that] by (auto simp: wire_ok_def)
  moreover have "\<not> wire_ok B (WFrame t [])" for t by (simp add: wire_ok_def frame_wf_def)
  ultimately show "length (wire_body i) = length (wire_body j)" "wire_body i = wire_body j \<Longrightarrow> i = j"
    using assms by (cases i; cases j; fastforce simp: wire_head_def wire_body_def)+
qed

lemma line_cut: "s @ LF # x = s' @ LF # y \<Longrightarrow> LF \<notin> set s \<Longrightarrow> LF \<notin> set s' \<Longrightarrow> s = s' \<and> x = y"
  by (induction s arbitrary: s') (auto simp: Cons_eq_append_conv)

lemma wire_unique:
  "concat (map wire_bytes its) = concat (map wire_bytes js) \<Longrightarrow> \<forall>i \<in> set its. wire_ok B i \<Longrightarrow> \<forall>j \<in> set js. wire_ok B j \<Longrightarrow> its = js"
proof (induction its arbitrary: js)
  case Nil
  then show ?case by (cases js) (auto simp: wire_bytes_split)
next
  case (Cons i its)
  then obtain j js' where js: "js = j # js'" by (cases js) (auto simp: wire_bytes_split)
  have ok: "wire_ok B i" "wire_ok B j" using Cons.prems js by simp_all
  have "wire_head i @ LF # (wire_body i @ concat (map wire_bytes its)) = wire_head j @ LF # (wire_body j @ concat (map wire_bytes js'))"
    using Cons.prems(1) js by (simp add: wire_bytes_split [of i] wire_bytes_split [of j])
  from line_cut [OF this] wire_head_line ok have h: "wire_head i = wire_head j"
    "wire_body i @ concat (map wire_bytes its) = wire_body j @ concat (map wire_bytes js')" by blast+
  then have "wire_body i = wire_body j" "concat (map wire_bytes its) = concat (map wire_bytes js')"
    using wire_head_inj(1) [OF ok h(1)] by simp_all
  then show ?case using wire_head_inj(2) [OF ok h(1)] Cons.IH [of js'] Cons.prems(2,3) js by simp
qed

text \<open>
  C15. The output of a session is typed by the protocol.  On a channel whose writes succeed, whatever the peer
  sends, the commands do and write, the text conversion returns and the system schedules, everything the
  session writes after its greeting is a sequence of protocol messages: one-line answers (OK with or
  without data, ERR with a three-digit code, X with an exit code of 0 to 255, D 0) and O, E and D frames
  of one byte up to the maximum; and the bytes determine the messages.
\<close>

theorem session_output_typed:
  assumes "session_run B S T G ls st = Some st'" and "chan_ok (s_chan st)"
  shows "\<exists>!its. chan_out (s_chan st') = chan_out (s_chan st) @ greeting B S G (s_world st) @ [LF] @ concat (map wire_bytes its)
    \<and> (\<forall>i \<in> set its. wire_ok B i)"
proof -
  let ?st = "st\<lparr>s_job := (s_job st)\<lparr>pending := False\<rparr>, s_env := [], s_authed := False\<rparr>"
  obtain r c where p: "lio_put_line (s_chan st) (greeting B S G (s_world st)) = (r, c)" by (metis surj_pair)
  note o = lio_put_line_ok [OF assms(2), of "greeting B S G (s_world st)", unfolded p fst_conv snd_conv]
  have "session_loop B S T G ls (?st\<lparr>s_chan := c\<rparr>) = Some st'"
    using assms(1) o(1) by (simp add: session_run_def put_greeting_def p)
  from session_loop_talks [OF this] o(2,3) obtain its where
    "chan_out (s_chan st') = chan_out (s_chan st) @ greeting B S G (s_world st) @ [LF] @ concat (map wire_bytes its)"
    "\<forall>i \<in> set its. wire_ok B i" by (auto simp: talks_def)
  then show ?thesis using wire_unique [of _ its] by (intro ex1I [of _ its]) auto
qed

theorem session_output_typed_witness:
  "\<exists>st' its. session_run posix_build demo_os txt_none token_cfg False (demo_sess False (''AUTH tok'' @ [LF] @ ''RUNA make'' @ [LF])) = Some st'
    \<and> chan_out (s_chan st') = greeting posix_build demo_os token_cfg demo_world @ [LF] @ concat (map wire_bytes its)
    \<and> (\<forall>i \<in> set its. wire_ok posix_build i)"
proof -
  obtain st' where st: "demo_final = Some st'" using demo_final_Some by auto
  from session_output_typed [OF st [unfolded demo_final_def] demo_sess_chan(2)] show ?thesis
    using st unfolding demo_final_def demo_sess_chan(3) by (auto simp: demo_sess_def)
qed

end
