(* ===== verification/Net.thy ===== *)
theory Net
  imports Gcdsp Acl
begin

text \<open>
  \<^verbatim>\<open>common/net.c\<close>: opening TCP connections, the POSIX and the Win32 version (their transfer calls are in
  \<open>Chan\<close>) and the stub \<^verbatim>\<open>common/net_null.c\<close>.

  The socket calls and the resolver are the operating system's: they are the argument \<open>sockapi\<close> of the
  model, on a state \<open>'s\<close> of the system.  Addresses are kept in host order, so the conversions of the
  sources do not appear.  What the sources rely on is the hypothesis \<open>sockets_ok\<close>: which descriptors are
  open after each call.
\<close>

unbundle bit_operations_syntax

section \<open>The socket interface\<close>

text \<open>A host entry: whether its addresses are of the family \<^verbatim>\<open>AF_INET\<close>, and their list (\<^verbatim>\<open>NULL\<close> is
  \<open>None\<close>).\<close>

record hostent =
  h_inet :: bool
  h_addr_list :: "32 word list option"

record 's sockapi =
  so_startup :: "'s \<Rightarrow> int \<times> 's"
  so_cleanup :: "'s \<Rightarrow> 's"
  so_socket :: "'s \<Rightarrow> int \<times> 's"
  so_dgram :: "'s \<Rightarrow> int \<times> 's"
  so_reuse :: "int \<Rightarrow> 's \<Rightarrow> 's"
  so_rcvbuf :: "bool \<Rightarrow> int \<Rightarrow> int \<Rightarrow> 's \<Rightarrow> int \<times> 's"
  so_bind :: "int \<Rightarrow> 32 word \<Rightarrow> 16 word \<Rightarrow> 's \<Rightarrow> int \<times> 's"
  so_listen :: "int \<Rightarrow> int \<Rightarrow> 's \<Rightarrow> int \<times> 's"
  so_accept :: "int \<Rightarrow> 's \<Rightarrow> int \<times> 32 word \<times> 's"
  so_connect :: "int \<Rightarrow> 32 word \<Rightarrow> 16 word \<Rightarrow> 's \<Rightarrow> int \<times> 's"
  so_close :: "int \<Rightarrow> 's \<Rightarrow> 's"
  so_inet_addr :: "string \<Rightarrow> 32 word"
  so_gethostbyname :: "string \<Rightarrow> hostent option"

abbreviation GCDS_BADSOCK :: int where "GCDS_BADSOCK \<equiv> -1"

definition INADDR_ANY :: "32 word" where
  "INADDR_ANY = 0"

definition INADDR_NONE :: "32 word" where
  "INADDR_NONE = 0xFFFFFFFF"

section \<open>Operations\<close>

text \<open>\<^verbatim>\<open>net_init\<close> starts the stack of Winsock, or on MS-DOS of Watt-32; elsewhere there is nothing to do.\<close>

definition w32_net_init :: "'s sockapi \<Rightarrow> 's \<Rightarrow> int \<times> 's" where
  "w32_net_init N s = (case so_startup N s of (r, s1) \<Rightarrow> (if r \<noteq> 0 then -1 else 0, s1))"

definition w32_net_cleanup :: "'s sockapi \<Rightarrow> 's \<Rightarrow> 's" where
  "w32_net_cleanup N s = so_cleanup N s"

definition net_init :: "build \<Rightarrow> 's sockapi \<Rightarrow> 's \<Rightarrow> int \<times> 's" where
  "net_init B N s =
     (if GCDS_DOS B then (case so_startup N s of (r, s1) \<Rightarrow> if r \<noteq> 0 then (-1, s1) else (0, s1)) else (0, s))"

definition net_cleanup :: "build \<Rightarrow> 's sockapi \<Rightarrow> 's \<Rightarrow> 's" where
  "net_cleanup B N s = (if GCDS_DOS B then so_cleanup N s else s)"

definition net_close :: "'s sockapi \<Rightarrow> int \<Rightarrow> 's \<Rightarrow> 's" where
  "net_close N fd s = so_close N fd s"

definition w32_net_close :: "'s sockapi \<Rightarrow> int \<Rightarrow> 's \<Rightarrow> 's" where
  "w32_net_close N fd s = so_close N fd s"

definition net_listen :: "'s sockapi \<Rightarrow> 16 word \<Rightarrow> 's \<Rightarrow> int \<times> 's" where
  "net_listen N port s0 =
     (case so_socket N s0 of (fd, s1) \<Rightarrow>
        if fd = GCDS_BADSOCK then (GCDS_BADSOCK, s1)
        else (case so_bind N fd INADDR_ANY port (so_reuse N fd s1) of (r, s2) \<Rightarrow>
          if r < 0 then (GCDS_BADSOCK, net_close N fd s2)
          else (case so_listen N fd 4 s2 of (r', s3) \<Rightarrow>
            if r' < 0 then (GCDS_BADSOCK, net_close N fd s3) else (fd, s3))))"

text \<open>The accepted descriptor and the text stored in \<^verbatim>\<open>peer_ip\<close> when it is asked for.\<close>

definition inet_ntoa :: "32 word \<Rightarrow> string" where
  "inet_ntoa a = show_ip a"

definition net_accept :: "'s sockapi \<Rightarrow> int \<Rightarrow> 's \<Rightarrow> int \<times> string \<times> 's" where
  "net_accept N ls s0 =
     (case so_accept N ls s0 of (fd, a, s1) \<Rightarrow>
        if fd = GCDS_BADSOCK then (GCDS_BADSOCK, [], s1) else (fd, strlcpy (inet_ntoa a) 16, s1))"

text \<open>The Win32 versions compare with \<^verbatim>\<open>SOCKET_ERROR\<close>; a \<^verbatim>\<open>SOCKET\<close> is kept as the number \<^verbatim>\<open>gcds_sock_t\<close> it is cast to.\<close>

abbreviation SOCKET_ERROR :: int where "SOCKET_ERROR \<equiv> -1"

definition w32_net_listen :: "'s sockapi \<Rightarrow> 16 word \<Rightarrow> 's \<Rightarrow> int \<times> 's" where
  "w32_net_listen N port s0 =
     (case so_socket N s0 of (fd, s1) \<Rightarrow>
        if fd = GCDS_BADSOCK then (GCDS_BADSOCK, s1)
        else (case so_bind N fd INADDR_ANY port (so_reuse N fd s1) of (r, s2) \<Rightarrow>
          if r = SOCKET_ERROR then (GCDS_BADSOCK, w32_net_close N fd s2)
          else (case so_listen N fd 4 s2 of (r', s3) \<Rightarrow>
            if r' = SOCKET_ERROR then (GCDS_BADSOCK, w32_net_close N fd s3) else (fd, s3))))"

definition w32_net_accept :: "'s sockapi \<Rightarrow> int \<Rightarrow> 's \<Rightarrow> int \<times> string \<times> 's" where
  "w32_net_accept N ls s0 =
     (case so_accept N ls s0 of (fd, a, s1) \<Rightarrow>
        if fd = GCDS_BADSOCK then (GCDS_BADSOCK, [], s1) else (fd, strlcpy (inet_ntoa a) 16, s1))"

text \<open>The lookup of a name: \<open>None\<close> when the entry is not usable.\<close>

definition net_resolve :: "'s sockapi \<Rightarrow> string \<Rightarrow> 32 word option" where
  "net_resolve N host =
     (case so_gethostbyname N host of
        None \<Rightarrow> None
      | Some he \<Rightarrow>
          if \<not> h_inet he then None
          else (case h_addr_list he of None \<Rightarrow> None | Some [] \<Rightarrow> None | Some (a # _) \<Rightarrow> Some a))"

text \<open>The socket and the connection.\<close>

definition net_dial :: "'s sockapi \<Rightarrow> 32 word \<Rightarrow> 16 word \<Rightarrow> 's \<Rightarrow> int \<times> 's" where
  "net_dial N a port s0 =
     (case so_socket N s0 of (fd, s1) \<Rightarrow>
        if fd = GCDS_BADSOCK then (GCDS_BADSOCK, s1)
        else (case so_connect N fd a port s1 of (r, s2) \<Rightarrow>
          if r < 0 then (GCDS_BADSOCK, so_close N fd s2) else (fd, s2)))"

text \<open>The POSIX version.  \<open>addr\<close> is an \<^verbatim>\<open>unsigned long\<close> of \<open>lbits\<close> bits, which receives the unsigned 32-bit
  result of \<^verbatim>\<open>inet_addr\<close> and is compared with \<^verbatim>\<open>(unsigned long)-1\<close>; a DOS build does not resolve names.\<close>

definition net_connect :: "build \<Rightarrow> nat \<Rightarrow> 's sockapi \<Rightarrow> string \<Rightarrow> 16 word \<Rightarrow> 's \<Rightarrow> int \<times> 's" where
  "net_connect B lbits N host port s0 =
     (let addr = uint (so_inet_addr N host) mod 2 ^ lbits in
      if addr \<noteq> (-1) mod 2 ^ lbits then net_dial N (word_of_int addr) port s0
      else if GCDS_DOS B then (GCDS_BADSOCK, s0)
      else (case net_resolve N host of None \<Rightarrow> (GCDS_BADSOCK, s0) | Some a \<Rightarrow> net_dial N a port s0))"

text \<open>The Win32 version compares with \<^verbatim>\<open>INADDR_NONE\<close>.\<close>

definition w32_net_connect :: "'s sockapi \<Rightarrow> string \<Rightarrow> 16 word \<Rightarrow> 's \<Rightarrow> int \<times> 's" where
  "w32_net_connect N host port s0 =
     (let addr = so_inet_addr N host in
      if addr \<noteq> INADDR_NONE then net_dial N addr port s0
      else (case net_resolve N host of None \<Rightarrow> (GCDS_BADSOCK, s0) | Some a \<Rightarrow> net_dial N a port s0))"

text \<open>The stub of a build without network.\<close>

definition null_net_listen :: "16 word \<Rightarrow> int" where
  "null_net_listen port = GCDS_BADSOCK"

definition null_net_accept :: "int \<Rightarrow> int" where
  "null_net_accept ls = GCDS_BADSOCK"

definition null_net_connect :: "string \<Rightarrow> 16 word \<Rightarrow> int" where
  "null_net_connect host port = GCDS_BADSOCK"

text \<open>The datagram sockets of gnfsd (\<^verbatim>\<open>nfsd/main.c\<close>): a receive queue of 4 MB is asked for first with
  \<^verbatim>\<open>SO_RCVBUFFORCE\<close> (the flag of \<open>so_rcvbuf\<close>) and, when that fails, with \<^verbatim>\<open>SO_RCVBUF\<close>, whose result is ignored.\<close>

definition bind_udp :: "'s sockapi \<Rightarrow> int \<Rightarrow> 's \<Rightarrow> int \<times> 's" where
  "bind_udp N port s0 =
     (case so_dgram N s0 of (fd, s1) \<Rightarrow>
        if fd < 0 then (-1, s1)
        else (case so_rcvbuf N True fd (4 * 1024 * 1024) s1 of (done, s2) \<Rightarrow>
          let s3 = (if done < 0 then snd (so_rcvbuf N False fd (4 * 1024 * 1024) s2) else s2) in
          case so_bind N fd INADDR_ANY (word_of_int port) s3 of (r, s4) \<Rightarrow>
            if r < 0 then (-1, so_close N fd s4) else (fd, s4)))"

section \<open>Descriptors\<close>

text \<open>What the sources rely on: \<open>fds\<close> are the open descriptors; only \<^verbatim>\<open>socket\<close>, for streams or datagrams, and \<^verbatim>\<open>accept\<close> add one, unused
  so far, and only closing removes one.\<close>

definition sockets_ok :: "'s sockapi \<Rightarrow> ('s \<Rightarrow> int set) \<Rightarrow> bool" where
  "sockets_ok N fds \<longleftrightarrow>
     (\<forall>s fd s'. so_socket N s = (fd, s') \<longrightarrow>
        (if fd = GCDS_BADSOCK then fds s' = fds s else fd \<notin> fds s \<and> fds s' = insert fd (fds s)))
     \<and> (\<forall>s fd s'. so_dgram N s = (fd, s') \<longrightarrow>
        (if fd < 0 then fd = GCDS_BADSOCK \<and> fds s' = fds s else fd \<notin> fds s \<and> fds s' = insert fd (fds s)))
     \<and> (\<forall>b fd n s. fds (snd (so_rcvbuf N b fd n s)) = fds s)
     \<and> (\<forall>s ls fd a s'. so_accept N ls s = (fd, a, s') \<longrightarrow>
        (if fd = GCDS_BADSOCK then fds s' = fds s else fd \<notin> fds s \<and> fds s' = insert fd (fds s)))
     \<and> (\<forall>s fd. fds (so_reuse N fd s) = fds s) \<and> (\<forall>s fd. fds (so_close N fd s) = fds s - {fd})
     \<and> (\<forall>s fd a p. fds (snd (so_bind N fd a p s)) = fds s) \<and> (\<forall>s fd n. fds (snd (so_listen N fd n s)) = fds s)
     \<and> (\<forall>s fd a p. fds (snd (so_connect N fd a p s)) = fds s)"

text \<open>The outcome of opening: nothing is left open on a failure, and just the result otherwise.\<close>

definition opened :: "('s \<Rightarrow> int set) \<Rightarrow> 's \<Rightarrow> int \<times> 's \<Rightarrow> bool" where
  "opened fds s x \<longleftrightarrow> (case x of (fd, s') \<Rightarrow>
     if fd = GCDS_BADSOCK then fds s' = fds s else fd \<notin> fds s \<and> fds s' = insert fd (fds s))"

lemma opened_bad: "opened fds s (GCDS_BADSOCK, s)"
  by (simp add: opened_def)

lemma net_dial_opened:
  assumes "sockets_ok N fds"
  shows "opened fds s (net_dial N a port s)"
proof -
  obtain fd s1 where s: "so_socket N s = (fd, s1)" by (metis surj_pair)
  obtain r s2 where c: "so_connect N fd a port s1 = (r, s2)" by (metis surj_pair)
  have "fds s2 = fds s1" "fds (so_close N fd s2) = fds s2 - {fd}"
    "if fd = GCDS_BADSOCK then fds s1 = fds s else fd \<notin> fds s \<and> fds s1 = insert fd (fds s)"
    using assms s c unfolding sockets_ok_def by (metis snd_conv)+
  then show ?thesis by (auto simp: net_dial_def s c opened_def split: if_splits)
qed

lemma net_listen_opened:
  assumes "sockets_ok N fds"
  shows "opened fds s (net_listen N port s)" and "opened fds s (w32_net_listen N port s)"
proof -
  obtain fd s1 where s: "so_socket N s = (fd, s1)" by (metis surj_pair)
  obtain r s2 where b: "so_bind N fd INADDR_ANY port (so_reuse N fd s1) = (r, s2)" by (metis surj_pair)
  obtain r' s3 where l: "so_listen N fd 4 s2 = (r', s3)" by (metis surj_pair)
  have "fds s2 = fds s1" "fds s3 = fds s2" "\<And>x. fds (so_close N fd x) = fds x - {fd}"
    "if fd = GCDS_BADSOCK then fds s1 = fds s else fd \<notin> fds s \<and> fds s1 = insert fd (fds s)"
    using assms s b l unfolding sockets_ok_def by (metis snd_conv)+
  then show "opened fds s (net_listen N port s)" "opened fds s (w32_net_listen N port s)"
    by (auto simp: net_listen_def w32_net_listen_def net_close_def w32_net_close_def s b l opened_def split: if_splits)
qed

lemma net_connect_opened:
  assumes "sockets_ok N fds"
  shows "opened fds s (net_connect B lbits N host port s)" and "opened fds s (w32_net_connect N host port s)"
  using net_dial_opened [OF assms, of s] opened_bad [of fds s]
  by (simp_all add: net_connect_def w32_net_connect_def Let_def split: option.splits)

lemma bind_udp_opened:
  assumes "sockets_ok N fds"
  shows "opened fds s (bind_udp N port s)"
proof -
  obtain fd s1 where s: "so_dgram N s = (fd, s1)" by (metis surj_pair)
  obtain d s2 where f: "so_rcvbuf N True fd (4 * 1024 * 1024) s1 = (d, s2)" by (metis surj_pair)
  define s3 where "s3 = (if d < 0 then snd (so_rcvbuf N False fd (4 * 1024 * 1024) s2) else s2)"
  obtain r s4 where b: "so_bind N fd INADDR_ANY (word_of_int port) s3 = (r, s4)" by (metis surj_pair)
  have rb: "fds (snd (so_rcvbuf N x fd n y)) = fds y" for x n y using assms by (simp add: sockets_ok_def)
  have "fds s4 = fds s3" "\<And>x. fds (so_close N fd x) = fds x - {fd}"
    "if fd < 0 then fd = GCDS_BADSOCK \<and> fds s1 = fds s else fd \<notin> fds s \<and> fds s1 = insert fd (fds s)"
    using assms s b unfolding sockets_ok_def by (metis snd_conv)+
  moreover have "fds s3 = fds s1"
    using rb [of True "4 * 1024 * 1024" s1] rb [of False "4 * 1024 * 1024" s2] f by (simp add: s3_def)
  moreover have "bind_udp N port s = (if fd < 0 then (-1, s1) else if r < 0 then (-1, so_close N fd s4) else (fd, s4))"
    unfolding bind_udp_def Let_def s f prod.case s3_def [symmetric] b ..
  ultimately show ?thesis by (auto simp: opened_def split: if_splits)
qed

section \<open>The peer of a connection\<close>

lemma w32_net_accept_same: "w32_net_accept = net_accept"
  by (intro ext) (simp add: w32_net_accept_def net_accept_def)

text \<open>The text of the peer's address is the whole address, and the allow list reads back just it.\<close>

lemma net_accept_peer:
  assumes "so_accept N ls s = (fd, a, s')" and "fd \<noteq> GCDS_BADSOCK"
  shows "net_accept N ls s = (fd, show_ip a, s')" and "parse_ip (show_ip a) = Some (a, [])"
proof -
  have "strlcpy (inet_ntoa a) 16 = show_ip a"
    using show_ip_len(2) [of a] by (simp add: inet_ntoa_def gcds_strlcpy_fits)
  with assms show "net_accept N ls s = (fd, show_ip a, s')" by (simp add: net_accept_def)
  show "parse_ip (show_ip a) = Some (a, [])" using parse_ip_show [of "[]" a] by simp
qed

section \<open>Host names\<close>

lemma minus_one_mod: "(-1 :: int) mod 2 ^ n = 2 ^ n - 1"
  by (metis mask_eq_exp_minus_1 take_bit_eq_mod take_bit_minus_one_eq_mask)

lemma uint_32_less: "uint (a :: 32 word) < 2 ^ 32"
  using uint_lt2p [of a] by simp

text \<open>
  C39. The client does not resolve host names on a 64-bit POSIX system.  A name that is no dotted quad makes
  \<^verbatim>\<open>inet_addr\<close> return \<^verbatim>\<open>INADDR_NONE\<close>; where \<^verbatim>\<open>long\<close> has 32 bits the name is then looked up, as on Win32, but
  where it has 64 bits the comparison with \<^verbatim>\<open>(unsigned long)-1\<close> never holds and the client connects to
  255.255.255.255, whatever the resolver knows.
\<close>

theorem net_connect_names:
  assumes "so_inet_addr N host = INADDR_NONE" and "\<not> GCDS_DOS B"
  shows "net_connect B 64 N host port s = net_dial N 0xFFFFFFFF port s
    \<and> net_connect B 32 N host port s = w32_net_connect N host port s
    \<and> (\<forall>a. net_resolve N host = Some a \<longrightarrow> net_connect B 32 N host port s = net_dial N a port s)"
proof -
  have u: "uint (so_inet_addr N host) = 2 ^ 32 - 1" by (simp add: assms(1) INADDR_NONE_def)
  have "net_connect B 64 N host port s = net_dial N 0xFFFFFFFF port s"
    by (simp add: net_connect_def Let_def u minus_one_mod)
  moreover have "net_connect B 32 N host port s = w32_net_connect N host port s"
    unfolding net_connect_def w32_net_connect_def Let_def u minus_one_mod using assms by simp
  moreover have "net_resolve N host = Some a \<Longrightarrow> w32_net_connect N host port s = net_dial N a port s" for a
    using assms(1) by (simp add: w32_net_connect_def)
  ultimately show ?thesis by simp
qed

text \<open>A system whose state is the list of open descriptors and the addresses connected to.\<close>

definition demo_api :: "(int list \<times> 32 word list) sockapi" where
  "demo_api = \<lparr>so_startup = (\<lambda>s. (0, s)), so_cleanup = id, so_socket = (\<lambda>(fs, as). (int (length fs) + 3, (int (length fs) + 3) # fs, as)),
     so_dgram = (\<lambda>s. (-1, s)), so_reuse = (\<lambda>f s. s), so_rcvbuf = (\<lambda>b f n s. (0, s)), so_bind = (\<lambda>f a p s. (0, s)), so_listen = (\<lambda>f n s. (0, s)), so_accept = (\<lambda>f s. (-1, 0, s)),
     so_connect = (\<lambda>f a p (fs, as). (0, fs, a # as)), so_close = (\<lambda>f (fs, as). (removeAll f fs, as)),
     so_inet_addr = (\<lambda>h. INADDR_NONE), so_gethostbyname = (\<lambda>h. Some \<lparr>h_inet = True, h_addr_list = Some [0x0A000002]\<rparr>)\<rparr>"

theorem net_connect_names_witness:
  "net_connect posix_build 64 demo_api ''box.lan'' 9910 ([], []) = (3, [3], [0xFFFFFFFF]) \<and>
   net_connect posix_build 32 demo_api ''box.lan'' 9910 ([], []) = (3, [3], [0x0A000002])"
proof -
  have h: "so_inet_addr demo_api ''box.lan'' = INADDR_NONE" "\<not> GCDS_DOS posix_build"
    by (simp_all add: demo_api_def posix_build_def)
  have r: "net_resolve demo_api ''box.lan'' = Some 0x0A000002" by (simp add: net_resolve_def demo_api_def)
  have d: "net_dial demo_api a 9910 ([], []) = (3, [3], [a])" for a by (simp add: net_dial_def demo_api_def)
  have "net_connect posix_build 64 demo_api ''box.lan'' 9910 ([], []) = net_dial demo_api 0xFFFFFFFF 9910 ([], [])"
    "net_connect posix_build 32 demo_api ''box.lan'' 9910 ([], []) = net_dial demo_api 0x0A000002 9910 ([], [])"
    using net_connect_names [OF h, of 9910 "([], [])"] r by blast+
  then show ?thesis by (simp add: d)
qed

end
