(* ===== verification/Termios.thy ===== *)
theory Termios
  imports Chan "HOL-Library.Word"
begin

text \<open>
  Serial lines and what the terminal driver makes of their bytes.

  The POSIX general terminal interface as \<^verbatim>\<open>common/ser_psx.c\<close> and \<^verbatim>\<open>tools/gcdslog.c\<close> use it: the settings
  \<^verbatim>\<open>struct termios\<close> with the flag words as sets of flags, and the input, output and echo processing of a
  port whose input is not canonical.  Bytes are received without parity or framing errors.
\<close>

section \<open>Bytes through a driver\<close>

text \<open>What the reads of a program see of the segments arriving on a line: the driver turns each byte into a
  list of bytes, and a segment of which nothing is left does not wake the reader.\<close>

fun line_rx :: "(char \<Rightarrow> char list) \<Rightarrow> char list list \<Rightarrow> char list list" where
  "line_rx f [] = []"
| "line_rx f (seg # segs) =
     (if seg = [] then [[]]
      else if concat (map f seg) = [] then line_rx f segs
      else concat (map f seg) # line_rx f segs)"

text \<open>The device of the channel layer on a line, and what of its output the line carries.\<close>

definition line_dev :: "(char \<Rightarrow> char list) \<Rightarrow> dev \<Rightarrow> dev" where
  "line_dev f d = d\<lparr>rx := line_rx f (rx d), tx := []\<rparr>"

definition line_tx :: "(char \<Rightarrow> char list) \<Rightarrow> char list \<Rightarrow> char list" where
  "line_tx g bs = concat (map g bs)"

lemma concat_map_self: "\<forall>c. f c = [c] \<Longrightarrow> concat (map f xs) = xs"
  by (induction xs) simp_all

lemma line_rx_in: "concat (takeWhile (\<lambda>seg. seg \<noteq> []) (line_rx f segs)) = concat (map f (concat (takeWhile (\<lambda>seg. seg \<noteq> []) segs)))"
  by (induction f segs rule: line_rx.induct) auto

text \<open>The program receives the processed line, whatever the deliveries.\<close>

lemma line_dev_in: "dev_in (line_dev f d) = concat (map f (dev_in d))"
  by (simp add: dev_in_def line_dev_def line_rx_in)

lemma line_dev_simps [simp]: "dev_ok (line_dev f d) = dev_ok d" "tx (line_dev f d) = []"
  by (simp_all add: dev_ok_def line_dev_def)

section \<open>Settings\<close>

datatype iflag = IGNBRK | BRKINT | IGNPAR | PARMRK | INPCK | ISTRIP | INLCR | IGNCR | ICRNL | IXON | IXANY | IXOFF
datatype oflag = OPOST | ONLCR | OCRNL
datatype lflag = ISIG | ICANON | ECHO | ECHOE | ECHOK | ECHONL | NOFLSH | TOSTOP | IEXTEN
datatype cflag = CSTOPB | CREAD | PARENB | PARODD | HUPCL | CLOCAL | CRTSCTS
datatype csize = CS5 | CS6 | CS7 | CS8
datatype speed = B1200 | B2400 | B4800 | B9600 | B19200 | B38400 | B57600 | B115200 | B230400

record termios =
  c_iflag :: "iflag set"
  c_oflag :: "oflag set"
  c_lflag :: "lflag set"
  c_cflag :: "cflag set"
  c_size :: csize
  c_ispeed :: speed
  c_ospeed :: speed
  c_vmin :: nat
  c_vtime :: nat
  c_sig :: "char list"
  c_flow :: "char list"

text \<open>\<open>c_sig\<close> are the characters VINTR, VQUIT and VSUSP, \<open>c_flow\<close> VSTART and VSTOP; a character set to 0 is disabled.
  The bits a character has on the line, and the input processing in the order of the standard.\<close>

definition data_bits :: "csize \<Rightarrow> nat" where
  "data_bits z = (case z of CS5 \<Rightarrow> 5 | CS6 \<Rightarrow> 6 | CS7 \<Rightarrow> 7 | CS8 \<Rightarrow> 8)"

definition low_bits :: "nat \<Rightarrow> char \<Rightarrow> char" where
  "low_bits n c = char_of (of_char c mod (2 ^ n :: nat))"

definition tty_in :: "termios \<Rightarrow> char \<Rightarrow> char list" where
  "tty_in t c0 =
     (let c = low_bits (if ISTRIP \<in> c_iflag t then min 7 (data_bits (c_size t)) else data_bits (c_size t)) c0 in
      if ISIG \<in> c_lflag t \<and> c \<noteq> NUL \<and> c \<in> set (c_sig t) then []
      else if IXON \<in> c_iflag t \<and> c \<noteq> NUL \<and> c \<in> set (c_flow t) then []
      else if c = CR then (if IGNCR \<in> c_iflag t then [] else if ICRNL \<in> c_iflag t then [LF] else [CR])
      else if c = LF \<and> INLCR \<in> c_iflag t then [CR]
      else if c = CHR 0xFF \<and> PARMRK \<in> c_iflag t \<and> ISTRIP \<notin> c_iflag t then [c, c]
      else [c])"

definition tty_out :: "termios \<Rightarrow> char \<Rightarrow> char list" where
  "tty_out t c =
     map (low_bits (data_bits (c_size t)))
       (if OPOST \<notin> c_oflag t then [c]
        else if c = LF \<and> ONLCR \<in> c_oflag t then [CR, LF]
        else if c = CR \<and> OCRNL \<in> c_oflag t then [LF]
        else [c])"

definition tty_echo :: "termios \<Rightarrow> char \<Rightarrow> char list" where
  "tty_echo t c =
     (if ECHO \<in> c_lflag t then tty_out t c
      else if ECHONL \<in> c_lflag t \<and> ICANON \<in> c_lflag t \<and> c = LF then tty_out t c
      else [])"

lemma low_bits_8 [simp]: "low_bits 8 c = c"
  by (simp add: low_bits_def)

text \<open>A serial port: its settings, the line, and whether \<^verbatim>\<open>tcgetattr\<close> and \<^verbatim>\<open>tcsetattr\<close> fail on it.\<close>

record tty =
  t_tio :: termios
  t_line :: dev
  t_noget :: bool
  t_noset :: bool

lemma tty_in_raw:
  assumes "c_iflag t \<inter> {ISTRIP, IXON, IGNCR, ICRNL, INLCR, PARMRK} = {}" and "ISIG \<notin> c_lflag t" and "c_size t = CS8"
  shows "tty_in t c = [c]"
  using assms by (auto simp: tty_in_def data_bits_def)

lemma tty_out_raw: "OPOST \<notin> c_oflag t \<Longrightarrow> c_size t = CS8 \<Longrightarrow> tty_out t c = [c]"
  by (simp add: tty_out_def data_bits_def)

end
