(* ===== verification/Gcdslog.thy ===== *)
theory Gcdslog
  imports Termios
begin

text \<open>
  \<^verbatim>\<open>tools/gcdslog.c\<close>: the logger of a target's serial console.  What the port delivers is data of the
  model: one \<open>lport\<close> for each attempt to open the port, one \<open>ltick\<close> for each round of its \<^verbatim>\<open>select\<close>; a
  result \<open>None\<close> means that the logger is still waiting at the end of these lists.  The wall clock is the
  argument \<open>clock\<close>, the stamp of the n-th line.  The port is the \<open>tty\<close> of \<open>Termios\<close>, set by \<^verbatim>\<open>open_serial\<close>.
  Diagnostics on standard error are not modelled.
\<close>

section \<open>State\<close>

record lopts =
  lo_baud :: int
  lo_log :: "string option"
  lo_dev :: "string option"
  lo_all :: bool
  lo_once :: bool

definition lopts0 :: lopts where
  "lopts0 = \<lparr>lo_baud = 115200, lo_log = None, lo_dev = None, lo_all = False, lo_once = False\<rparr>"

text \<open>The buffer \<^verbatim>\<open>line\<close>, the messages emitted so far with their number, and what standard output and the
  log file received.\<close>

record logstate =
  lg_line :: "char list"
  lg_msgs :: "string list"
  lg_out :: "char list"
  lg_file :: "char list option"

abbreviation LOG_LINE :: nat where "LOG_LINE \<equiv> 4096"

section \<open>Options\<close>

definition baud_const :: "int \<Rightarrow> speed option" where
  "baud_const baud =
     (if baud = 1200 then Some B1200 else if baud = 2400 then Some B2400 else if baud = 4800 then Some B4800
      else if baud = 9600 then Some B9600 else if baud = 19200 then Some B19200 else if baud = 38400 then Some B38400
      else if baud = 57600 then Some B57600 else if baud = 115200 then Some B115200 else if baud = 230400 then Some B230400
      else None)"

text \<open>\<^verbatim>\<open>cfmakeraw\<close> of the C library, and the port with its settings: a port that cannot be configured is used as
  it is.\<close>

definition cfmakeraw :: "termios \<Rightarrow> termios" where
  "cfmakeraw t = t\<lparr>
     c_iflag := c_iflag t - {IGNBRK, BRKINT, PARMRK, ISTRIP, INLCR, IGNCR, ICRNL, IXON},
     c_oflag := c_oflag t - {OPOST},
     c_lflag := c_lflag t - {ECHO, ECHONL, ICANON, ISIG, IEXTEN},
     c_cflag := c_cflag t - {PARENB},
     c_size := CS8\<rparr>"

definition open_serial :: "(string \<Rightarrow> tty option) \<Rightarrow> string \<Rightarrow> speed \<Rightarrow> tty option" where
  "open_serial opn dev spd =
     (case opn dev of
        None \<Rightarrow> None
      | Some p \<Rightarrow>
          if t_noget p then Some p
          else let t0 = cfmakeraw (t_tio p);
                   t = t0\<lparr>c_cflag := (c_cflag t0 \<union> {CLOCAL, CREAD}) - {CRTSCTS}, c_iflag := c_iflag t0 - {IXON, IXOFF, IXANY},
                          c_ispeed := spd, c_ospeed := spd, c_vmin := 0, c_vtime := 0\<rparr> in
            Some (if t_noset p then p else p\<lparr>t_tio := t\<rparr>))"

text \<open>\<open>None\<close> prints the usage.\<close>

fun log_args :: "lopts \<Rightarrow> string list \<Rightarrow> lopts option" where
  "log_args p [] = Some p"
| "log_args p [a] =
     (if a = ''-a'' then Some (p\<lparr>lo_all := True\<rparr>)
      else if a = ''-r'' then Some (p\<lparr>lo_once := True\<rparr>)
      else if char_at a 0 = CHR ''-'' then None
      else Some (p\<lparr>lo_dev := Some a\<rparr>))"
| "log_args p (a # b # as) =
     (if a = ''-b'' then log_args (p\<lparr>lo_baud := atol b\<rparr>) as
      else if a = ''-o'' then log_args (p\<lparr>lo_log := Some b\<rparr>) as
      else if a = ''-a'' then log_args (p\<lparr>lo_all := True\<rparr>) (b # as)
      else if a = ''-r'' then log_args (p\<lparr>lo_once := True\<rparr>) (b # as)
      else if char_at a 0 = CHR ''-'' then None
      else log_args (p\<lparr>lo_dev := Some a\<rparr>) (b # as))"

section \<open>Lines\<close>

definition log_text :: "string \<Rightarrow> string \<Rightarrow> char list" where
  "log_text ts msg = ''['' @ ts @ ''] '' @ msg @ [LF]"

text \<open>\<^verbatim>\<open>printf("%s")\<close> ends at the first NUL of the buffer.\<close>

definition emit :: "(nat \<Rightarrow> string) \<Rightarrow> char list \<Rightarrow> logstate \<Rightarrow> logstate" where
  "emit clock line st =
     (let t = log_text (clock (length (lg_msgs st))) (cstr line) in
      st\<lparr>lg_msgs := lg_msgs st @ [cstr line], lg_out := lg_out st @ t, lg_file := map_option (\<lambda>f. f @ t) (lg_file st)\<rparr>)"

text \<open>Emitting the buffer and emptying it.\<close>

definition emit_line :: "(nat \<Rightarrow> string) \<Rightarrow> logstate \<Rightarrow> logstate" where
  "emit_line clock st = (emit clock (lg_line st) st)\<lparr>lg_line := []\<rparr>"

definition log_byte :: "(nat \<Rightarrow> string) \<Rightarrow> char \<Rightarrow> logstate \<Rightarrow> logstate" where
  "log_byte clock c st =
     (if c = CR then st
      else if c = LF then emit_line clock st
      else if length (lg_line st) < LOG_LINE - 1 then st\<lparr>lg_line := lg_line st @ [c]\<rparr>
      else (emit_line clock st)\<lparr>lg_line := [c]\<rparr>)"

definition log_bytes :: "(nat \<Rightarrow> string) \<Rightarrow> char list \<Rightarrow> logstate \<Rightarrow> logstate" where
  "log_bytes clock bs st = fold (log_byte clock) bs st"

section \<open>The loops\<close>

text \<open>What \<^verbatim>\<open>select\<close> and \<^verbatim>\<open>read\<close> find: an error (interrupted or not), nothing for a second, or bytes (none at
  the end of file).\<close>

datatype lsel = SelErr bool | Idle | Got "char list"

record ltick =
  lt_stop :: bool
  lt_sel :: lsel

record lport =
  lp_stop :: bool
  lp_open :: bool
  lp_ticks :: "ltick list"

text \<open>The inner loop.\<close>

fun log_port :: "lopts \<Rightarrow> (nat \<Rightarrow> string) \<Rightarrow> ltick list \<Rightarrow> logstate \<Rightarrow> logstate option" where
  "log_port p clock [] st = None"
| "log_port p clock (t # ts) st =
     (if lt_stop t then Some st
      else (case lt_sel t of
          SelErr intr \<Rightarrow> if intr then log_port p clock ts st else Some st
        | Idle \<Rightarrow> log_port p clock ts (if lo_all p \<and> lg_line st \<noteq> [] then emit_line clock st else st)
        | Got bs \<Rightarrow> if bs = [] then Some st else log_port p clock ts (log_bytes clock (take 1024 bs) st)))"

definition log_closed :: "(nat \<Rightarrow> string) \<Rightarrow> logstate \<Rightarrow> logstate" where
  "log_closed clock st =
     emit clock ''gcdslog: port closed'' (if lg_line st \<noteq> [] then emit_line clock st else st)"

text \<open>The outer loop.\<close>

fun log_loop :: "lopts \<Rightarrow> (nat \<Rightarrow> string) \<Rightarrow> lport list \<Rightarrow> logstate \<Rightarrow> logstate option" where
  "log_loop p clock [] st = None"
| "log_loop p clock (q # qs) st =
     (if lp_stop q then Some st
      else if \<not> lp_open q then (if lo_once p then Some st else log_loop p clock qs st)
      else (case log_port p clock (lp_ticks q) (emit clock ''gcdslog: connected'' st) of
          None \<Rightarrow> None
        | Some st1 \<Rightarrow>
            let st2 = log_closed clock st1 in
            if lo_once p then Some st2 else log_loop p clock qs st2))"

text \<open>The exit code and the final state; \<open>fopen_a\<close> is the present content of a log file that can be opened
  for appending.\<close>

definition log_main :: "(nat \<Rightarrow> string) \<Rightarrow> (string \<Rightarrow> char list option) \<Rightarrow> string list \<Rightarrow> lport list \<Rightarrow> (int \<times> logstate) option" where
  "log_main clock fopen_a argv qs =
     (let st0 = \<lparr>lg_line = [], lg_msgs = [], lg_out = [], lg_file = None\<rparr> in
      case log_args lopts0 argv of
        None \<Rightarrow> Some (2, st0)
      | Some p \<Rightarrow>
          if lo_dev p = None then Some (2, st0)
          else if baud_const (lo_baud p) = None then Some (2, st0)
          else (case (case lo_log p of None \<Rightarrow> Some None | Some f \<Rightarrow> map_option Some (fopen_a f)) of
              None \<Rightarrow> Some (1, st0)
            | Some lf \<Rightarrow>
                (case log_loop p clock qs (emit clock ''gcdslog: start'' (st0\<lparr>lg_file := lf\<rparr>)) of
                   None \<Rightarrow> None
                 | Some st \<Rightarrow> Some (0, emit clock ''gcdslog: stop'' st))))"

section \<open>Reference: the lines of a text\<close>

text \<open>The complete lines of a text after the bytes \<open>cur\<close> of an open one, and the open line at its end.
  CRs are dropped and a line is broken after 4095 characters.\<close>

fun lines_ref :: "char list \<Rightarrow> char list \<Rightarrow> char list list \<times> char list" where
  "lines_ref cur [] = ([], cur)"
| "lines_ref cur (c # s) =
     (if c = CR then lines_ref cur s
      else if c = LF then apfst ((#) cur) (lines_ref [] s)
      else if length cur < LOG_LINE - 1 then lines_ref (cur @ [c]) s
      else apfst ((#) cur) (lines_ref [c] s))"

text \<open>The text of a list of messages from the \<open>n\<close>-th on.\<close>

fun log_texts :: "(nat \<Rightarrow> string) \<Rightarrow> nat \<Rightarrow> string list \<Rightarrow> char list" where
  "log_texts clock n [] = []"
| "log_texts clock n (m # ms) = log_text (clock n) m @ log_texts clock (Suc n) ms"

text \<open>The state after more messages.\<close>

definition with_msgs :: "(nat \<Rightarrow> string) \<Rightarrow> string list \<Rightarrow> logstate \<Rightarrow> logstate" where
  "with_msgs clock ms st =
     (let t = log_texts clock (length (lg_msgs st)) ms in
      st\<lparr>lg_msgs := lg_msgs st @ ms, lg_out := lg_out st @ t, lg_file := map_option (\<lambda>f. f @ t) (lg_file st)\<rparr>)"

lemma with_msgs_Nil [simp]: "with_msgs clock [] st = st"
  by (simp add: with_msgs_def option.map_ident)

lemma log_texts_append: "log_texts clock n (ms @ ns) = log_texts clock n ms @ log_texts clock (n + length ms) ns"
  by (induction ms arbitrary: n) simp_all

lemma with_msgs_append: "with_msgs clock ns (with_msgs clock ms st) = with_msgs clock (ms @ ns) st"
  by (simp add: with_msgs_def Let_def log_texts_append option.map_comp comp_def)

lemma emit_msgs: "emit clock line st = with_msgs clock [cstr line] st"
  by (simp add: emit_def with_msgs_def)

lemma with_msgs_line [simp]:
  "with_msgs clock ms (st\<lparr>lg_line := l\<rparr>) = (with_msgs clock ms st)\<lparr>lg_line := l\<rparr>" "lg_line (with_msgs clock ms st) = lg_line st"
  by (simp_all add: with_msgs_def Let_def)

lemma no_line: "lg_line st = [] \<Longrightarrow> st\<lparr>lg_line := []\<rparr> = st"
  by (cases st) simp

lemma log_bytes_ref:
  "log_bytes clock bs st = (with_msgs clock (map cstr (fst (lines_ref (lg_line st) bs))) st)\<lparr>lg_line := snd (lines_ref (lg_line st) bs)\<rparr>"
proof (induction bs arbitrary: st)
  case Nil
  then show ?case by (simp add: log_bytes_def)
next
  case (Cons c bs)
  have "log_bytes clock (c # bs) st = log_bytes clock bs (log_byte clock c st)" by (simp add: log_bytes_def)
  with Cons [of "log_byte clock c st"] show ?case
    by (auto simp: log_byte_def emit_line_def emit_msgs with_msgs_append)
qed

lemma log_bytes_append: "log_bytes clock (a @ b) st = log_bytes clock b (log_bytes clock a st)"
  by (simp add: log_bytes_def)

text \<open>Reading in pieces.\<close>

lemma log_port_reads:
  assumes "\<forall>bs \<in> set reads. bs \<noteq> [] \<and> length bs \<le> 1024"
  shows "log_port p clock (map (\<lambda>bs. \<lparr>lt_stop = False, lt_sel = Got bs\<rparr>) reads @ \<lparr>lt_stop = False, lt_sel = Got []\<rparr> # ts) st
    = Some (log_bytes clock (concat reads) st)"
  using assms by (induction reads arbitrary: st) (simp_all add: log_bytes_append, simp add: log_bytes_def)

text \<open>No byte is lost or reordered: the lines of the reference, joined, are the text without its line ends.\<close>

lemma lines_ref_concat:
  "concat (fst (lines_ref cur s)) @ snd (lines_ref cur s) = cur @ filter (\<lambda>c. c \<noteq> CR \<and> c \<noteq> LF) s"
  by (induction s arbitrary: cur) simp_all

lemma lines_ref_length:
  "length cur < LOG_LINE \<Longrightarrow> (\<forall>l \<in> set (fst (lines_ref cur s)). length l < LOG_LINE) \<and> length (snd (lines_ref cur s)) < LOG_LINE"
  by (induction cur s rule: lines_ref.induct) auto

lemma lines_ref_cstr:
  assumes "NUL \<notin> set s"
  shows "map cstr (fst (lines_ref [] s)) = fst (lines_ref [] s)" and "cstr (snd (lines_ref [] s)) = snd (lines_ref [] s)"
proof -
  have "NUL \<notin> set (concat (fst (lines_ref [] s)) @ snd (lines_ref [] s))" using assms by (simp add: lines_ref_concat)
  then show "map cstr (fst (lines_ref [] s)) = fst (lines_ref [] s)" "cstr (snd (lines_ref [] s)) = snd (lines_ref [] s)"
    by (auto simp: is_cstr_def intro!: map_idI)
qed

section \<open>A capture\<close>

text \<open>One opening of the port that delivers \<open>reads\<close> and is then closed.\<close>

definition capture :: "char list list \<Rightarrow> lport" where
  "capture reads = \<lparr>lp_stop = False, lp_open = True,
     lp_ticks = map (\<lambda>bs. \<lparr>lt_stop = False, lt_sel = Got bs\<rparr>) reads @ [\<lparr>lt_stop = False, lt_sel = Got []\<rparr>]\<rparr>"

definition kept :: "char list list \<times> char list \<Rightarrow> char list list" where
  "kept x = fst x @ (if snd x = [] then [] else [snd x])"

lemma log_loop_capture:
  assumes "\<forall>bs \<in> set reads. bs \<noteq> [] \<and> length bs \<le> 1024" and "NUL \<notin> set (concat reads)" and "lo_once p" and "lg_line st = []"
  shows "log_loop p clock (capture reads # qs) st
    = Some (with_msgs clock (''gcdslog: connected'' # kept (lines_ref [] (concat reads)) @ [''gcdslog: port closed'']) st)"
proof -
  let ?r = "lines_ref [] (concat reads)" and ?st = "emit clock ''gcdslog: connected'' st"
  have c: "cstr ''gcdslog: connected'' = ''gcdslog: connected''" "cstr ''gcdslog: port closed'' = ''gcdslog: port closed''"
    by (simp_all add: cstr_def)
  have p: "log_port p clock (lp_ticks (capture reads)) ?st = Some (log_bytes clock (concat reads) ?st)"
    using log_port_reads [OF assms(1), of p clock "[]"] by (simp add: capture_def)
  have b: "log_bytes clock (concat reads) ?st = (with_msgs clock (''gcdslog: connected'' # fst ?r) st)\<lparr>lg_line := snd ?r\<rparr>"
    using lines_ref_cstr(1) [OF assms(2)] by (simp add: log_bytes_ref assms(4) emit_msgs c with_msgs_append)
  have "log_closed clock (log_bytes clock (concat reads) ?st)
      = with_msgs clock (''gcdslog: connected'' # kept ?r @ [''gcdslog: port closed'']) st"
    unfolding b log_closed_def using lines_ref_cstr(2) [OF assms(2)] no_line [OF assms(4)]
    by (simp add: emit_line_def emit_msgs with_msgs_append kept_def c flip: with_msgs_line(1))
  then show ?thesis using p assms(3) by (simp add: capture_def Let_def)
qed

text \<open>A port that could be configured passes its line on unchanged, whatever its settings were: what
  arrives on it is what the logger reads.\<close>

lemma open_serial_raw:
  assumes "open_serial opn dev spd = Some q" and "opn dev = Some p" and "\<not> t_noget p" and "\<not> t_noset p"
  shows "c_ispeed (t_tio q) = spd \<and> dev_in (line_dev (tty_in (t_tio q)) (t_line q)) = dev_in (t_line p)"
proof -
  have "tty_in (t_tio q) c = [c]" for c
    using assms by (intro tty_in_raw) (auto simp: open_serial_def Let_def cfmakeraw_def)
  then show ?thesis using assms by (auto simp: line_dev_in concat_map_self open_serial_def Let_def)
qed


text \<open>A line is cut at a NUL byte: the rest of it is lost.\<close>

lemma gcdslog_drops_after_nul:
  assumes "LF \<notin> set b" and "length a + length b < 4000" and "set (a @ b) \<inter> {CR, LF} = {}" and "NUL \<notin> set a" and "lg_line st = []"
  shows "log_bytes clock (a @ NUL # b @ [LF]) st = with_msgs clock [a] st"
proof -
  have run: "length cur + length s < 4095 \<Longrightarrow> set s \<inter> {CR, LF} = {} \<Longrightarrow> lines_ref cur (s @ [LF]) = ([cur @ s], [])" for cur s
    by (induction s arbitrary: cur) auto
  have "lines_ref [] ((a @ NUL # b) @ [LF]) = ([a @ NUL # b], [])" using assms(2,3) by (intro run [of "[]", simplified]) auto
  moreover have "cstr (a @ NUL # b) = a" using assms(4) by (auto simp: cstr_def takeWhile_append)
  ultimately show ?thesis using assms(5) by (simp add: log_bytes_ref no_line flip: with_msgs_line(1))
qed


end
