(* ===== verification/W32job.thy ===== *)
theory W32job
  imports Prelude
begin

text \<open>
  The Job Object part of \<^verbatim>\<open>daemon/live_w32.c\<close>: how the supervisor groups a command with all its descendants, and
  what \<^verbatim>\<open>kill_job\<close> ends.

  The functions of \<^verbatim>\<open>kernel32\<close> are not part of the program: they are the argument \<open>jobops\<close>, on a state \<open>'s\<close> of the
  system, together with the start of a new process by a running one.  What the source relies on is the
  hypothesis \<open>jobs_ok\<close>: the children of a member of a job are members, and terminating a job ends its
  members.
\<close>

section \<open>The interface\<close>

record 's jobops =
  GetModuleHandle :: bool
  GetProcAddress :: "string \<Rightarrow> bool"
  CreateJobObject :: "'s \<Rightarrow> nat option \<times> 's"
  AssignProcessToJobObject :: "nat \<Rightarrow> nat \<Rightarrow> 's \<Rightarrow> bool \<times> 's"
  CloseHandle :: "nat \<Rightarrow> 's \<Rightarrow> 's"
  TerminateJobObject :: "nat \<Rightarrow> 's \<Rightarrow> 's"
  TerminateProcess :: "nat \<Rightarrow> 's \<Rightarrow> 's"
  spawn :: "nat \<Rightarrow> 's \<Rightarrow> nat \<times> 's"

text \<open>The static variables: the function pointers are known or null.\<close>

record jobstatic =
  g_job_loaded :: bool
  p_CreateJobObject :: bool
  p_AssignProcessToJobObject :: bool
  p_TerminateJobObject :: bool

definition jobstatic0 :: jobstatic where
  "jobstatic0 = \<lparr>g_job_loaded = False, p_CreateJobObject = False, p_AssignProcessToJobObject = False, p_TerminateJobObject = False\<rparr>"

section \<open>Operations\<close>

definition load_job_api :: "'s jobops \<Rightarrow> jobstatic \<Rightarrow> jobstatic" where
  "load_job_api J g =
     (if g_job_loaded g then g
      else let g1 = g\<lparr>g_job_loaded := True\<rparr> in
        if \<not> GetModuleHandle J then g1
        else g1\<lparr>p_CreateJobObject := GetProcAddress J ''CreateJobObjectA'',
                p_AssignProcessToJobObject := GetProcAddress J ''AssignProcessToJobObject'',
                p_TerminateJobObject := GetProcAddress J ''TerminateJobObject''\<rparr>)"

definition make_job :: "'s jobops \<Rightarrow> nat \<Rightarrow> jobstatic \<Rightarrow> 's \<Rightarrow> nat option \<times> jobstatic \<times> 's" where
  "make_job J proc g0 s =
     (let g = load_job_api J g0 in
      if \<not> p_CreateJobObject g \<or> \<not> p_AssignProcessToJobObject g then (None, g, s)
      else (case CreateJobObject J s of
          (None, s1) \<Rightarrow> (None, g, s1)
        | (Some job, s1) \<Rightarrow>
            (case AssignProcessToJobObject J job proc s1 of
               (b, s2) \<Rightarrow> if \<not> b then (None, g, CloseHandle J job s2) else (Some job, g, s2))))"

definition w32_kill_job :: "'s jobops \<Rightarrow> jobstatic \<Rightarrow> nat option \<Rightarrow> nat \<Rightarrow> 's \<Rightarrow> 's" where
  "w32_kill_job J g job proc s =
     (case job of
        Some j \<Rightarrow> if p_TerminateJobObject g then TerminateJobObject J j s else TerminateProcess J proc s
      | None \<Rightarrow> TerminateProcess J proc s)"

section \<open>What the source relies on\<close>

text \<open>\<open>al\<close> are the running processes and \<open>mb\<close> the members of each job, ended ones included.\<close>

definition jobs_ok :: "'s jobops \<Rightarrow> ('s \<Rightarrow> nat set) \<Rightarrow> ('s \<Rightarrow> nat \<Rightarrow> nat set) \<Rightarrow> bool" where
  "jobs_ok J al mb \<longleftrightarrow>
     (\<forall>s x s'. CreateJobObject J s = (x, s') \<longrightarrow> al s' = al s)
   \<and> (\<forall>j p s b s'. AssignProcessToJobObject J j p s = (b, s') \<longrightarrow> al s' = al s \<and> (b \<longrightarrow> p \<in> mb s' j))
   \<and> (\<forall>j s. al (CloseHandle J j s) = al s)
   \<and> (\<forall>j s. al (TerminateJobObject J j s) = al s - mb s j)
   \<and> (\<forall>p s. al (TerminateProcess J p s) = al s - {p})
   \<and> (\<forall>p s c s'. spawn J p s = (c, s') \<longrightarrow> al s' = insert c (al s) \<and> c \<notin> al s
        \<and> (\<forall>j. mb s j \<subseteq> mb s' j \<and> (p \<in> mb s j \<longrightarrow> c \<in> mb s' j)))"

lemma jobs_okD:
  assumes "jobs_ok J al mb"
  shows "\<And>j p s s'. AssignProcessToJobObject J j p s = (True, s') \<Longrightarrow> p \<in> mb s' j"
    and "\<And>j s. al (TerminateJobObject J j s) = al s - mb s j"
    and "\<And>p s. al (TerminateProcess J p s) = al s - {p}"
    and "\<And>p s c s' j. spawn J p s = (c, s') \<Longrightarrow> mb s j \<subseteq> mb s' j \<and> (p \<in> mb s j \<longrightarrow> c \<in> mb s' j)"
  using assms by (simp_all add: jobs_ok_def)

text \<open>What the command does while it runs: its processes, from the first on, start further ones.  The list
  holds the starting processes; \<open>tree\<close> collects the descendants.\<close>

fun run_tree :: "'s jobops \<Rightarrow> nat list \<Rightarrow> nat set \<Rightarrow> 's \<Rightarrow> nat set \<times> 's" where
  "run_tree J [] tree s = (tree, s)"
| "run_tree J (p # ps) tree s =
     (if p \<in> tree then (case spawn J p s of (c, s') \<Rightarrow> run_tree J ps (insert c tree) s') else run_tree J ps tree s)"

lemma run_tree_members:
  assumes "jobs_ok J al mb" and "tree \<subseteq> mb s j" and "run_tree J ps tree s = (tree', s')"
  shows "tree' \<subseteq> mb s' j"
  using assms(2,3)
proof (induction ps arbitrary: tree s)
  case (Cons p ps)
  obtain c s1 where sp: "spawn J p s = (c, s1)" by (metis surj_pair)
  have "mb s j \<subseteq> mb s1 j" "p \<in> mb s j \<longrightarrow> c \<in> mb s1 j" using jobs_okD(4) [OF assms(1) sp] by blast+
  with Cons.IH [of "insert c tree" s1] Cons.IH [of tree s] Cons.prems sp show ?case by (cases "p \<in> tree") auto
qed simp

lemma make_job_member:
  assumes "jobs_ok J al mb" and "make_job J proc g s = (Some j, g', s')"
  shows "proc \<in> mb s' j"
proof -
  obtain s1 where "AssignProcessToJobObject J j proc s1 = (True, s')"
    using assms(2) by (auto simp: make_job_def Let_def split: if_splits option.splits prod.splits)
  then show ?thesis by (rule jobs_okD(1) [OF assms(1)])
qed

text \<open>
  C11. Killing a supervised command on Win32 ends all of it.  The process is put into a job before it runs;
  whatever processes it and its descendants start afterwards, killing the job leaves none of them running
  and touches no process outside the job.  Where the system has no job objects or the process could not
  be assigned, only the process itself is ended.
\<close>

theorem w32_kill_ends_tree:
  assumes "jobs_ok J al mb" and "make_job J proc g0 s0 = (job, g, s1)" and "run_tree J ps {proc} s1 = (tree, s2)"
  shows "(job \<noteq> None \<and> p_TerminateJobObject g \<longrightarrow>
      al (w32_kill_job J g job proc s2) \<inter> tree = {} \<and> al (w32_kill_job J g job proc s2) = al s2 - mb s2 (the job))
    \<and> (job = None \<longrightarrow> al (w32_kill_job J g job proc s2) = al s2 - {proc})"
proof (cases job)
  case None
  then show ?thesis using jobs_okD(3) [OF assms(1)] by (simp add: w32_kill_job_def)
next
  case (Some j)
  then have "tree \<subseteq> mb s2 j"
    using run_tree_members [OF assms(1) _ assms(3), of j] make_job_member [OF assms(1)] assms(2) by auto
  moreover note jobs_okD(2) [OF assms(1), of j s2]
  ultimately show ?thesis using Some by (auto simp: w32_kill_job_def)
qed

text \<open>The functions are looked up once.\<close>

lemma load_job_api_once: "load_job_api J (load_job_api J g) = load_job_api J g"
  by (simp add: load_job_api_def Let_def)

text \<open>A system with one job, whose state is the running processes and the members.\<close>

definition demo_jobs :: "(nat list \<times> nat list) jobops" where
  "demo_jobs = \<lparr>GetModuleHandle = True, GetProcAddress = (\<lambda>n. True), CreateJobObject = (\<lambda>(a, m). (Some 0, a, m)),
     AssignProcessToJobObject = (\<lambda>j p (a, m). (True, a, p # m)), CloseHandle = (\<lambda>j s. s),
     TerminateJobObject = (\<lambda>j (a, m). (filter (\<lambda>p. p \<notin> set m) a, m)), TerminateProcess = (\<lambda>p (a, m). (removeAll p a, m)),
     spawn = (\<lambda>p (a, m). let c = Suc (sum_list a) in (c, c # a, if p \<in> set m then c # m else m))\<rparr>"

lemma demo_jobs_ok: "jobs_ok demo_jobs (\<lambda>(a, m). set a) (\<lambda>(a, m) j. set m)"
proof -
  have "Suc (sum_list a) \<notin> set a" for a :: "nat list" using member_le_sum_list [of "Suc (sum_list a)" a] by auto
  then show ?thesis by (auto simp: jobs_ok_def demo_jobs_def Let_def)
qed

theorem w32_kill_ends_tree_witness:
  "\<exists>job g s1 tree s2. make_job demo_jobs 7 jobstatic0 ([7, 4], []) = (job, g, s1) \<and> run_tree demo_jobs [7, 12] {7} s1 = (tree, s2)
    \<and> tree = {7, 12, 24} \<and> set (fst (w32_kill_job demo_jobs g job 7 s2)) \<inter> tree = {} \<and> 4 \<in> set (fst (w32_kill_job demo_jobs g job 7 s2))"
proof -
  let ?g = "\<lparr>g_job_loaded = True, p_CreateJobObject = True, p_AssignProcessToJobObject = True, p_TerminateJobObject = True\<rparr>"
  have m: "make_job demo_jobs 7 jobstatic0 ([7, 4], []) = (Some 0, ?g, ([7, 4], [7]))"
    by (simp add: make_job_def load_job_api_def demo_jobs_def jobstatic0_def)
  have r: "run_tree demo_jobs [7, 12] {7} ([7, 4], [7]) = ({7, 12, 24}, ([24, 12, 7, 4], [24, 12, 7]))"
    by (auto simp: demo_jobs_def Let_def)
  let ?s = "([24, 12, 7, 4], [24, 12, 7])"
  have "(\<lambda>(a, m). set a) (w32_kill_job demo_jobs ?g (Some 0) 7 ?s) \<inter> {7, 12, 24} = {}"
    using w32_kill_ends_tree [OF demo_jobs_ok m r] by (simp add: jobstatic.simps del: disjoint_insert)
  moreover have "w32_kill_job demo_jobs ?g (Some 0) 7 ?s = ([4], [24, 12, 7])" by (simp add: w32_kill_job_def demo_jobs_def)
  ultimately show ?thesis using m r by (metis fst_conv case_prod_conv list.set_intros(1))
qed

end
