(* ===== verification/Serdos.thy ===== *)
theory Serdos
  imports Chan "HOL-Library.Word"
begin

text \<open>
  \<^verbatim>\<open>common/ser_dos.c\<close>: the serial port of MS-DOS through interrupt 14h, with a FOSSIL driver or the plain
  BIOS behind it.

  The two interrupts are not part of the program: they are the argument \<open>dosirq\<close>, on a state \<open>'s\<close> of the
  machine.  What the source relies on, the register layout in the comment at the head of the file and a
  driver that loses nothing, is the hypothesis \<open>uart_ok\<close>.  The polling loop of a read may spin forever on a
  silent line, so a read returns an option.  The layers above use the device of \<open>Chan\<close>: every sequence of
  reads and writes on the port is one on such a device.
\<close>

unbundle bit_operations_syntax

section \<open>The interface\<close>

record 's dosirq =
  int14 :: "16 word \<Rightarrow> 16 word \<Rightarrow> 's \<Rightarrow> 16 word \<times> 's"
  int28 :: "'s \<Rightarrow> 's"

text \<open>The machine and the static variable \<^verbatim>\<open>g_fossil\<close>.\<close>

record 's dosser =
  mach :: 's
  g_fossil :: bool

definition FOSSIL_SIG :: "16 word" where
  "FOSSIL_SIG = 0x1954"

text \<open>\<open>s_int14\<close> is the interrupt with AX and DX loaded, \<open>s_idle\<close> the idle hint.\<close>

definition s_int14 :: "'s dosirq \<Rightarrow> 16 word \<Rightarrow> 16 word \<Rightarrow> 's \<Rightarrow> 16 word \<times> 's" where
  "s_int14 I ax port m = int14 I ax port m"

definition s_idle :: "'s dosirq \<Rightarrow> 's \<Rightarrow> 's" where
  "s_idle I m = int28 I m"

section \<open>Operations\<close>

text \<open>The names COM1 to COM4, in any case, are the ports 0 to 3; \<open>None\<close> is \<^verbatim>\<open>GCDS_BADSER\<close>.\<close>

definition com_port :: "string \<Rightarrow> 16 word option" where
  "com_port dev =
     (if (char_at dev 0 \<noteq> CHR ''C'' \<and> char_at dev 0 \<noteq> CHR ''c'')
         \<or> (char_at dev 1 \<noteq> CHR ''O'' \<and> char_at dev 1 \<noteq> CHR ''o'')
         \<or> (char_at dev 2 \<noteq> CHR ''M'' \<and> char_at dev 2 \<noteq> CHR ''m'')
         \<or> (of_char (char_at dev 3) :: nat) < of_char (CHR ''1'') \<or> (of_char (char_at dev 3) :: nat) > of_char (CHR ''4'')
         \<or> char_at dev 4 \<noteq> CHR 0x00
      then None
      else Some (of_nat (of_char (char_at dev 3) - of_char (CHR ''1''))))"

definition dos_ser_open :: "'s dosirq \<Rightarrow> string \<Rightarrow> int \<Rightarrow> 's dosser \<Rightarrow> 16 word option \<times> 's dosser" where
  "dos_ser_open I dev baud D =
     (case com_port dev of
        None \<Rightarrow> (None, D)
      | Some port \<Rightarrow>
          if baud \<noteq> 9600 then (None, D)
          else (case s_int14 I 0x0400 port (mach D) of (ax, m1) \<Rightarrow>
            let D1 = (if ax = FOSSIL_SIG then D\<lparr>g_fossil := True\<rparr> else D) in
            case s_int14 I 0x00E3 port m1 of (_, m2) \<Rightarrow> (Some port, D1\<lparr>mach := m2\<rparr>)))"

text \<open>The inner loop of a read: poll the line status until a byte is there.\<close>

partial_function (option) dos_poll :: "'s dosirq \<Rightarrow> 16 word \<Rightarrow> 's \<Rightarrow> 's option" where
  "dos_poll I port m =
     (case s_int14 I 0x0300 port m of (ax, m1) \<Rightarrow>
        if ax AND 0x0100 \<noteq> 0 then Some m1 else dos_poll I port (s_idle I m1))"

text \<open>The outer loop, \<open>n\<close> bytes before the end of the buffer.\<close>

fun dos_ser_read :: "'s dosirq \<Rightarrow> 16 word \<Rightarrow> nat \<Rightarrow> 's \<Rightarrow> (char list \<times> 's) option" where
  "dos_ser_read I port 0 m = Some ([], m)"
| "dos_ser_read I port (Suc n) m =
     (case dos_poll I port m of
        None \<Rightarrow> None
      | Some m1 \<Rightarrow>
          (case s_int14 I 0x0200 port m1 of (ax, m2) \<Rightarrow>
             let b = char_of (unat (ax AND 0xFF)) in
             if n = 0 then Some ([b], m2)
             else (case s_int14 I 0x0300 port m2 of (ax2, m3) \<Rightarrow>
               if ax2 AND 0x0100 = 0 then Some ([b], m3)
               else map_option (apfst ((#) b)) (dos_ser_read I port n m3))))"

definition dos_ser_write :: "'s dosirq \<Rightarrow> 16 word \<Rightarrow> char list \<Rightarrow> 's \<Rightarrow> int \<times> 's" where
  "dos_ser_write I port buf m =
     (int (length buf), fold (\<lambda>c m. snd (s_int14 I (0x0100 OR of_nat (of_char c)) port m)) buf m)"

definition dos_ser_close :: "'s dosirq \<Rightarrow> 16 word \<Rightarrow> 's dosser \<Rightarrow> 's dosser" where
  "dos_ser_close I f D =
     (if g_fossil D then D\<lparr>mach := snd (s_int14 I 0x0500 f (mach D)), g_fossil := False\<rparr> else D)"

section \<open>What the source relies on\<close>

text \<open>The port seen from outside: \<open>u_in\<close> is all the line will still deliver, \<open>u_out\<close> what was sent,
  \<open>u_rdy\<close> whether a byte is waiting, and \<open>u_lag\<close> bounds the idle interrupts until the next byte arrives.\<close>

record 's uart =
  u_in :: "'s \<Rightarrow> char list"
  u_out :: "'s \<Rightarrow> char list"
  u_rdy :: "'s \<Rightarrow> bool"
  u_lag :: "'s \<Rightarrow> nat"

definition uart_ok :: "'s dosirq \<Rightarrow> 16 word \<Rightarrow> 's uart \<Rightarrow> bool" where
  "uart_ok I port U \<longleftrightarrow>
     (\<forall>m ax m'. int14 I 0x0300 port m = (ax, m') \<longrightarrow> u_in U m' = u_in U m \<and> u_out U m' = u_out U m
        \<and> (ax AND 0x0100 \<noteq> 0 \<longleftrightarrow> u_rdy U m') \<and> u_lag U m' \<le> u_lag U m)
   \<and> (\<forall>m ax m'. u_rdy U m \<and> int14 I 0x0200 port m = (ax, m') \<longrightarrow>
        u_in U m = char_of (unat (ax AND 0xFF)) # u_in U m' \<and> u_out U m' = u_out U m)
   \<and> (\<forall>m c ax m'. int14 I (0x0100 OR of_nat (of_char c)) port m = (ax, m') \<longrightarrow>
        u_out U m' = u_out U m @ [c] \<and> u_in U m' = u_in U m)
   \<and> (\<forall>m. u_in U (int28 I m) = u_in U m \<and> u_out U (int28 I m) = u_out U m
        \<and> (\<not> u_rdy U m \<and> u_in U m \<noteq> [] \<longrightarrow> u_lag U (int28 I m) < u_lag U m))"

lemma uart_status:
  assumes "uart_ok I port U" and "s_int14 I 0x0300 port m = (ax, m')"
  shows "u_in U m' = u_in U m" "u_out U m' = u_out U m" "ax AND 0x0100 \<noteq> 0 \<longleftrightarrow> u_rdy U m'" "u_lag U m' \<le> u_lag U m"
  using assms unfolding uart_ok_def s_int14_def by blast+

lemma uart_rx:
  assumes "uart_ok I port U" and "s_int14 I 0x0200 port m = (ax, m')" and "u_rdy U m"
  shows "u_in U m = char_of (unat (ax AND 0xFF)) # u_in U m'" "u_out U m' = u_out U m"
  using assms unfolding uart_ok_def s_int14_def by blast+

lemma uart_tx:
  assumes "uart_ok I port U" and "s_int14 I (0x0100 OR of_nat (of_char c)) port m = (ax, m')"
  shows "u_out U m' = u_out U m @ [c]" "u_in U m' = u_in U m"
  using assms unfolding uart_ok_def s_int14_def by blast+

lemma uart_idle:
  assumes "uart_ok I port U"
  shows "u_in U (s_idle I m) = u_in U m" "u_out U (s_idle I m) = u_out U m"
    "\<not> u_rdy U m \<Longrightarrow> u_in U m \<noteq> [] \<Longrightarrow> u_lag U (s_idle I m) < u_lag U m"
  using assms unfolding uart_ok_def s_idle_def by blast+

section \<open>Reads and writes\<close>

text \<open>Polling ends as soon as anything is still to come.\<close>

lemma dos_poll_ends:
  assumes "uart_ok I port U" and "u_in U m \<noteq> []"
  shows "\<exists>m'. dos_poll I port m = Some m' \<and> u_rdy U m' \<and> u_in U m' = u_in U m \<and> u_out U m' = u_out U m"
  using assms(2)
proof (induction "u_lag U m" arbitrary: m rule: less_induct)
  case less
  obtain ax m1 where s: "s_int14 I 0x0300 port m = (ax, m1)" by (metis surj_pair)
  note st = uart_status [OF assms(1) s]
  show ?case
  proof (cases "ax AND 0x0100 \<noteq> 0")
    case True
    then show ?thesis using st by (subst dos_poll.simps) (simp add: s)
  next
    case False
    then have "\<not> u_rdy U m1" "u_in U m1 \<noteq> []" using st less.prems by simp_all
    then have "u_lag U (s_idle I m1) < u_lag U m" using uart_idle(3) [OF assms(1)] st(4) by (meson less_le_trans)
    moreover have "u_in U (s_idle I m1) = u_in U m" "u_out U (s_idle I m1) = u_out U m"
      using uart_idle(1,2) [OF assms(1)] st(1,2) by simp_all
    moreover have "dos_poll I port m = dos_poll I port (s_idle I m1)" using False by (subst dos_poll.simps) (simp add: s)
    ultimately show ?thesis using less.hyps [of "s_idle I m1"] less.prems by simp
  qed
qed

text \<open>\<open>n\<close> is the size of the buffer: a read returns as soon as one byte came, with what was waiting.\<close>

lemma dos_ser_read_part:
  assumes "uart_ok I port U"
  shows "n = 0 \<or> u_in U m \<noteq> [] \<Longrightarrow> \<exists>bs m'. dos_ser_read I port n m = Some (bs, m') \<and> length bs \<le> n
    \<and> (bs = [] \<longleftrightarrow> n = 0) \<and> u_in U m = bs @ u_in U m' \<and> u_out U m' = u_out U m"
proof (induction n arbitrary: m)
  case (Suc n)
  then obtain m1 where p: "dos_poll I port m = Some m1" "u_rdy U m1" "u_in U m1 = u_in U m" "u_out U m1 = u_out U m"
    using dos_poll_ends [OF assms, of m] by auto
  obtain ax m2 where r: "s_int14 I 0x0200 port m1 = (ax, m2)" by (metis surj_pair)
  obtain ax2 m3 where s: "s_int14 I 0x0300 port m2 = (ax2, m3)" by (metis surj_pair)
  note rx = uart_rx [OF assms r p(2)] and st = uart_status [OF assms s]
  show ?case
  proof (cases "n = 0 \<or> ax2 AND 0x0100 = 0")
    case True
    then show ?thesis using p rx r s st
      by (intro exI [of _ "[char_of (unat (ax AND 0xFF))]"] exI [of _ "if n = 0 then m2 else m3"]) auto
  next
    case False
    have "u_in U m3 \<noteq> []"
    proof -
      from False have "u_rdy U m3" using st(3) by simp
      obtain ax3 m4 where "s_int14 I 0x0200 port m3 = (ax3, m4)" by (metis surj_pair)
      from uart_rx(1) [OF assms this \<open>u_rdy U m3\<close>] show ?thesis by simp
    qed
    from Suc.IH [of m3] this obtain bs m' where "dos_ser_read I port n m3 = Some (bs, m')" "length bs \<le> n"
      "u_in U m3 = bs @ u_in U m'" "u_out U m' = u_out U m3" by blast
    then show ?thesis using False p rx r s st
      by (intro exI [of _ "char_of (unat (ax AND 0xFF)) # bs"] exI [of _ m']) (auto simp: Let_def)
  qed
qed simp

lemma dos_ser_write_all:
  assumes "uart_ok I port U"
  shows "\<exists>m'. dos_ser_write I port bs m = (int (length bs), m') \<and> u_out U m' = u_out U m @ bs \<and> u_in U m' = u_in U m"
proof -
  let ?f = "\<lambda>c m. snd (s_int14 I (0x0100 OR of_nat (of_char c)) port m)"
  have "u_out U (fold ?f bs m) = u_out U m @ bs \<and> u_in U (fold ?f bs m) = u_in U m"
  proof (induction bs arbitrary: m)
    case (Cons c bs)
    then show ?case using uart_tx [OF assms surjective_pairing, of c m] by simp
  qed simp
  then show ?thesis by (simp add: dos_ser_write_def)
qed

section \<open>The port as a device\<close>

text \<open>A sequence of calls on the port, on the one hand by this file and on the other by the device.\<close>

datatype ser_call = Ser_read nat | Ser_write "char list"

datatype ser_ret = Ser_got "char list" | Ser_put int

fun dos_calls :: "'s dosirq \<Rightarrow> 16 word \<Rightarrow> ser_call list \<Rightarrow> 's \<Rightarrow> (ser_ret list \<times> 's) option" where
  "dos_calls I port [] m = Some ([], m)"
| "dos_calls I port (Ser_read n # cs) m =
     (case dos_ser_read I port n m of
        None \<Rightarrow> None
      | Some (bs, m1) \<Rightarrow> map_option (apfst ((#) (Ser_got bs))) (dos_calls I port cs m1))"
| "dos_calls I port (Ser_write bs # cs) m =
     (case dos_ser_write I port bs m of (r, m1) \<Rightarrow> map_option (apfst ((#) (Ser_put r))) (dos_calls I port cs m1))"

fun dev_calls :: "ser_call list \<Rightarrow> dev \<Rightarrow> ser_ret list \<times> dev" where
  "dev_calls [] d = ([], d)"
| "dev_calls (Ser_read n # cs) d = (case dev_recv d n of (bs, d1) \<Rightarrow> apfst ((#) (Ser_got bs)) (dev_calls cs d1))"
| "dev_calls (Ser_write bs # cs) d = (case dev_send d bs of (r, d1) \<Rightarrow> apfst ((#) (Ser_put r)) (dev_calls cs d1))"

text \<open>The bytes the reads of a sequence ask for.\<close>

fun asked :: "ser_call list \<Rightarrow> nat" where
  "asked [] = 0"
| "asked (Ser_read n # cs) = n + asked cs"
| "asked (Ser_write bs # cs) = asked cs"

section \<open>Opening and closing\<close>

lemma dos_ser_open_accepts:
  assumes "NUL \<notin> set dev"
  shows "fst (dos_ser_open I dev baud D) = Some port \<longleftrightarrow> baud = 9600 \<and>
    (\<exists>c o' m d. dev = [c, o', m, d] \<and> c \<in> {CHR ''C'', CHR ''c''} \<and> o' \<in> {CHR ''O'', CHR ''o''} \<and> m \<in> {CHR ''M'', CHR ''m''}
      \<and> of_char d \<in> {49 .. (52 :: nat)} \<and> port = of_nat (of_char d - 49))"
proof -
  have n: "char_at dev i = NUL \<longleftrightarrow> length dev \<le> i" for i
    using assms by (auto simp: char_at_def in_set_conv_nth)
  have "com_port dev = Some port \<longleftrightarrow>
    (\<exists>c o' m d. dev = [c, o', m, d] \<and> c \<in> {CHR ''C'', CHR ''c''} \<and> o' \<in> {CHR ''O'', CHR ''o''} \<and> m \<in> {CHR ''M'', CHR ''m''}
      \<and> of_char d \<in> {49 .. (52 :: nat)} \<and> port = of_nat (of_char d - 49))" (is "?l \<longleftrightarrow> ?r")
  proof
    assume l: ?l
    then have "char_at dev 3 \<noteq> NUL" "char_at dev 4 = NUL" by (auto simp: com_port_def split: if_splits)
    then have "length dev = 4" unfolding n by simp
    then obtain c o' m d where "dev = [c, o', m, d]" by (auto simp: numeral_eq_Suc length_Suc_conv)
    with l show ?r by (auto simp: com_port_def char_at_def split: if_splits)
  next
    assume ?r
    then show ?l by (auto simp: com_port_def char_at_def)
  qed
  then show ?thesis by (auto simp: dos_ser_open_def split: option.splits prod.splits)
qed

text \<open>A driver the program initialised is released when the port is closed, and only then.\<close>

lemma dos_fossil_released:
  assumes "dos_ser_open I dev baud D = (Some port, D1)" and "\<not> g_fossil D"
  shows "g_fossil D1 \<longleftrightarrow> fst (int14 I 0x0400 port (mach D)) = FOSSIL_SIG"
    and "dos_ser_close I port D1 = (if fst (int14 I 0x0400 port (mach D)) = FOSSIL_SIG
      then D1\<lparr>mach := snd (int14 I 0x0500 port (mach D1)), g_fossil := False\<rparr> else D1)"
  using assms by (auto simp: dos_ser_open_def dos_ser_close_def s_int14_def Let_def split: option.splits if_splits prod.splits)

section \<open>The port as a device, stated\<close>

text \<open>
  C26. The MS-DOS serial port is a device of the channel layer.  When the line still delivers at least the
  bytes a sequence of calls asks for, every call returns, although a read polls without a limit; the port
  then behaves as the device of the channel layer does for one schedule of deliveries: each call returns
  the same, what the reads returned is, in order and without a gap, what the line delivered, and what the
  writes sent is on the line.
\<close>

theorem dos_serial_is_device:
  assumes "uart_ok I port U" and "asked cs \<le> length (u_in U m)"
  shows "\<exists>rs m' segs. dos_calls I port cs m = Some (rs, m') \<and> u_in U m = concat segs @ u_in U m'
    \<and> dev_calls cs \<lparr>rx = segs, tx = u_out U m, wlim = []\<rparr> = (rs, \<lparr>rx = [], tx = u_out U m', wlim = []\<rparr>)
    \<and> (\<forall>seg \<in> set segs. seg \<noteq> [])"
  using assms(2)
proof (induction cs arbitrary: m)
  case Nil
  then show ?case by (intro exI [of _ "[]"] exI [of _ m]) simp
next
  case (Cons x cs)
  show ?case
  proof (cases x)
    case (Ser_read n)
    with Cons.prems have "n = 0 \<or> u_in U m \<noteq> []" by auto
    from dos_ser_read_part [OF assms(1) this] obtain bs m1 where r: "dos_ser_read I port n m = Some (bs, m1)"
      "length bs \<le> n" "bs = [] \<longleftrightarrow> n = 0" "u_in U m = bs @ u_in U m1" "u_out U m1 = u_out U m" by blast
    have "asked cs \<le> length (u_in U m1)" using Cons.prems r(2,4) Ser_read by simp
    from Cons.IH [OF this] obtain rs m' segs where i: "dos_calls I port cs m1 = Some (rs, m')" "u_in U m1 = concat segs @ u_in U m'"
      "dev_calls cs \<lparr>rx = segs, tx = u_out U m1, wlim = []\<rparr> = (rs, \<lparr>rx = [], tx = u_out U m', wlim = []\<rparr>)"
      "\<forall>seg \<in> set segs. seg \<noteq> []" by blast
    let ?segs = "if bs = [] then segs else bs # segs"
    have "dev_recv \<lparr>rx = ?segs, tx = u_out U m, wlim = []\<rparr> n = (bs, \<lparr>rx = segs, tx = u_out U m, wlim = []\<rparr>)"
      using r(2,3) i(4) by (auto simp: dev_recv_def split: list.splits)
    with r i Ser_read show ?thesis by (intro exI [of _ "Ser_got bs # rs"] exI [of _ m'] exI [of _ ?segs]) auto
  next
    case (Ser_write bs)
    from dos_ser_write_all [OF assms(1)] obtain m1 where w: "dos_ser_write I port bs m = (int (length bs), m1)"
      "u_out U m1 = u_out U m @ bs" "u_in U m1 = u_in U m" by blast
    have "asked cs \<le> length (u_in U m1)" using Cons.prems w(3) Ser_write by simp
    from Cons.IH [OF this] obtain rs m' segs where i: "dos_calls I port cs m1 = Some (rs, m')" "u_in U m1 = concat segs @ u_in U m'"
      "dev_calls cs \<lparr>rx = segs, tx = u_out U m1, wlim = []\<rparr> = (rs, \<lparr>rx = [], tx = u_out U m', wlim = []\<rparr>)"
      "\<forall>seg \<in> set segs. seg \<noteq> []" by blast
    with w Ser_write show ?thesis
      by (intro exI [of _ "Ser_put (int (length bs)) # rs"] exI [of _ m'] exI [of _ segs]) (auto simp: dev_send_def)
  qed
qed

text \<open>A machine with a driver that buffers: the bytes waiting, the later arrivals, one per idle interrupt, and
  what was sent.\<close>

definition demo_irq :: "(char list \<times> char list list \<times> char list) dosirq" where
  "demo_irq = \<lparr>
     int14 = (\<lambda>ax port (q, ar, out).
       if drop_bit 8 ax = 1 then (0, q, ar, out @ [char_of (unat (ax AND 0xFF))])
       else if drop_bit 8 ax = 2 then (of_nat (of_char (case q of [] \<Rightarrow> NUL | c # _ \<Rightarrow> c)), tl q, ar, out)
       else if drop_bit 8 ax = 3 then (if q \<noteq> [] then 0x0100 else 0, q, ar, out)
       else (0x1954, q, ar, out)),
     int28 = (\<lambda>(q, ar, out). case ar of [] \<Rightarrow> (q, ar, out) | a # ar' \<Rightarrow> (q @ a, ar', out))\<rparr>"

definition demo_uart :: "(char list \<times> char list list \<times> char list) uart" where
  "demo_uart = \<lparr>u_in = (\<lambda>(q, ar, out). q @ concat ar), u_out = (\<lambda>(q, ar, out). out),
     u_rdy = (\<lambda>(q, ar, out). q \<noteq> []), u_lag = (\<lambda>(q, ar, out). length ar)\<rparr>"

lemma demo_byte:
  fixes c :: char
  defines "w \<equiv> of_nat (of_char c) :: 16 word"
  shows "char_of (unat (w AND 0xFF)) = c" "drop_bit 8 w = 0" "char_of (unat ((0x0100 OR w) AND 0xFF)) = c"
proof -
  have n: "of_char c < (256 :: nat)" by simp
  then have "of_char c mod 2 ^ 16 = (of_char c :: nat)" by (intro mod_less) (rule less_trans, assumption, simp)
  then have u: "unat w = of_char c" unfolding w_def unat_of_nat by simp
  have t: "take_bit 8 w = w" unfolding w_def using n by (simp add: take_bit_nat_eq_self flip: of_nat_take_bit)
  have m: "x AND 0xFF = take_bit 8 x" for x :: "16 word" by (simp add: take_bit_eq_mask mask_eq_exp_minus_1)
  show "drop_bit 8 w = 0" using t by (metis drop_bit_take_bit take_bit_0 diff_self_eq_0)
  show "char_of (unat (w AND 0xFF)) = c" "char_of (unat ((0x0100 OR w) AND 0xFF)) = c"
    unfolding m by (simp_all add: t u)
qed

lemma demo_uart_ok: "uart_ok demo_irq 0 demo_uart"
  by (auto simp: uart_ok_def demo_irq_def demo_uart_def demo_byte split: if_splits list.splits)

theorem dos_serial_is_device_witness:
  "\<exists>rs m' segs. dos_calls demo_irq 0 [Ser_read 4, Ser_write ''OK'', Ser_read 2] ([], [''GC'', ''DS'', ''xyz''], []) = Some (rs, m')
    \<and> dev_calls [Ser_read 4, Ser_write ''OK'', Ser_read 2] \<lparr>rx = segs, tx = [], wlim = []\<rparr>
      = (rs, \<lparr>rx = [], tx = u_out demo_uart m', wlim = []\<rparr>)"
  using dos_serial_is_device [OF demo_uart_ok, of "[Ser_read 4, Ser_write ''OK'', Ser_read 2]" "([], [''GC'', ''DS'', ''xyz''], [])"]
  by (auto simp: demo_uart_def)

end
