(* ===== verification/Serial.thy ===== *)
theory Serial
  imports Termios Gcdsp
begin

text \<open>
  The serial backends of \<^verbatim>\<open>common/ser.h\<close> that open a port of the system: \<^verbatim>\<open>ser_psx.c\<close> on termios, \<^verbatim>\<open>ser_next.c\<close> on the
  sgtty interface of 4.3BSD, \<^verbatim>\<open>ser_w32.c\<close> on the communication API of Win32, and the stub \<^verbatim>\<open>ser_null.c\<close>; the
  backend of MS-DOS is \<open>Serdos\<close>.

  Opening a path gives the port of the system or fails; \<open>None\<close> is \<^verbatim>\<open>GCDS_BADSER\<close>.  The protocol needs an 8-bit
  line without translation (\<^verbatim>\<open>PLAN_01\<close> 1.1): the locale \<open>serial_backend\<close> states it, with the settings a backend
  leaves as it found them as its condition \<open>fit\<close>, and derives what a channel on the port transfers.
\<close>

section \<open>The interface\<close>

locale serial_backend =
  fixes sopen :: "(string \<Rightarrow> 'p option) \<Rightarrow> string \<Rightarrow> int \<Rightarrow> 'p option"
    and din :: "'p \<Rightarrow> char \<Rightarrow> char list"
    and dout :: "'p \<Rightarrow> char \<Rightarrow> char list"
    and line :: "'p \<Rightarrow> dev"
    and fit :: "'p \<Rightarrow> bool"
  assumes sopen_raw: "sopen opn path baud = Some q \<Longrightarrow>
    \<exists>p path'. opn path' = Some p \<and> line q = line p \<and> (fit p \<longrightarrow> (\<forall>c. din q c = [c] \<and> dout q c = [c]))"
begin

text \<open>A channel on the port receives what arrives on the line and sends what is written to it.\<close>

lemma channel_transparent:
  assumes "sopen opn path baud = Some q" and "\<And>path' p. opn path' = Some p \<Longrightarrow> fit p"
  shows "chan_in (chan_ser (line_dev (din q) (line q))) = dev_in (line q)
    \<and> chan_ok (chan_ser (line_dev (din q) (line q))) = dev_ok (line q) \<and> line_tx (dout q) bs = bs"
  using sopen_raw [OF assms(1)] assms(2)
  by (auto simp: chan_in_def chan_ok_def chan_dev_def chan_ser_def line_dev_in line_tx_def concat_map_self)

end

section \<open>POSIX\<close>

definition psx_baud_const :: "int \<Rightarrow> speed option" where
  "psx_baud_const baud =
     (if baud = 1200 then Some B1200 else if baud = 2400 then Some B2400 else if baud = 4800 then Some B4800
      else if baud = 9600 then Some B9600 else if baud = 19200 then Some B19200 else if baud = 38400 then Some B38400
      else None)"

definition psx_settings :: "speed \<Rightarrow> termios \<Rightarrow> termios" where
  "psx_settings bc t = t\<lparr>
     c_iflag := (c_iflag t - {IXON, IXOFF, IXANY, ICRNL, INLCR, ISTRIP}) \<union> {IGNBRK},
     c_oflag := c_oflag t - {OPOST},
     c_lflag := c_lflag t - {ICANON, ECHO, ECHOE, ISIG},
     c_cflag := (c_cflag t - {PARENB, CSTOPB}) \<union> {CLOCAL, CREAD},
     c_size := CS8, c_vmin := 1, c_vtime := 0, c_ispeed := bc, c_ospeed := bc\<rparr>"

definition psx_ser_open :: "(string \<Rightarrow> tty option) \<Rightarrow> string \<Rightarrow> int \<Rightarrow> tty option" where
  "psx_ser_open opn dev baud =
     (case psx_baud_const baud of
        None \<Rightarrow> None
      | Some bc \<Rightarrow>
          (case opn dev of
             None \<Rightarrow> None
           | Some p \<Rightarrow>
               if t_noget p then None
               else let tio = psx_settings bc (t_tio p) in
                 if t_noset p then None else Some (p\<lparr>t_tio := tio\<rparr>)))"

lemma psx_ser_openE:
  assumes "psx_ser_open opn dev baud = Some q"
  obtains p bc where "opn dev = Some p" "psx_baud_const baud = Some bc" "q = p\<lparr>t_tio := psx_settings bc (t_tio p)\<rparr>"
  using assms by (auto simp: psx_ser_open_def Let_def split: option.splits if_splits)

interpretation psx_ser: serial_backend psx_ser_open "\<lambda>p. tty_in (t_tio p)" "\<lambda>p. tty_out (t_tio p)" t_line
  "\<lambda>p. c_iflag (t_tio p) \<inter> {IGNCR, PARMRK} = {}"
proof unfold_locales
  fix opn path baud q
  assume "psx_ser_open opn path baud = Some q"
  then obtain p bc where p: "opn path = Some p" "q = p\<lparr>t_tio := psx_settings bc (t_tio p)\<rparr>" by (rule psx_ser_openE)
  have "tty_out (t_tio q) c = [c]" for c by (rule tty_out_raw) (simp_all add: p(2) psx_settings_def)
  moreover have "tty_in (t_tio q) c = [c]" if "c_iflag (t_tio p) \<inter> {IGNCR, PARMRK} = {}" for c
    using that by (intro tty_in_raw) (auto simp: p(2) psx_settings_def)
  ultimately show "\<exists>p path'. opn path' = Some p \<and> t_line q = t_line p \<and> (c_iflag (t_tio p) \<inter> {IGNCR, PARMRK} = {} \<longrightarrow>
      (\<forall>c. tty_in (t_tio q) c = [c] \<and> tty_out (t_tio q) c = [c]))"
    using p by auto
qed

section \<open>NeXTSTEP\<close>

text \<open>The flags of \<^verbatim>\<open>struct sgttyb\<close>.  In RAW mode the driver passes eight bits; otherwise it strips the parity
  bit, acts on the special characters \<open>sg_special\<close>, and maps CR and LF under CRMOD.\<close>

datatype sgflag = TANDEM | CBREAK | LCASE | SG_ECHO | CRMOD | RAW | ODDP | EVENP

record sgttyb =
  sg_ispeed :: int
  sg_ospeed :: int
  sg_flags :: "sgflag set"
  sg_special :: "char list"

record sgport =
  g_sg :: sgttyb
  g_line :: dev
  g_noget :: bool
  g_noset :: bool

definition sg_in :: "sgttyb \<Rightarrow> char \<Rightarrow> char list" where
  "sg_in s c =
     (if RAW \<in> sg_flags s then [c]
      else if low_bits 7 c \<in> set (sg_special s) then []
      else if low_bits 7 c = CR \<and> CRMOD \<in> sg_flags s then [LF]
      else [low_bits 7 c])"

definition sg_out :: "sgttyb \<Rightarrow> char \<Rightarrow> char list" where
  "sg_out s c =
     (if RAW \<in> sg_flags s then [c]
      else if c = LF \<and> CRMOD \<in> sg_flags s then [CR, LF]
      else [low_bits 7 c])"

definition next_baud_const :: "int \<Rightarrow> int" where
  "next_baud_const baud =
     (if baud = 1200 then 9 else if baud = 2400 then 11 else if baud = 4800 then 12 else if baud = 9600 then 13
      else if baud = 19200 then 14 else if baud = 38400 then 15 else -1)"

definition next_ser_open :: "(string \<Rightarrow> sgport option) \<Rightarrow> string \<Rightarrow> int \<Rightarrow> sgport option" where
  "next_ser_open opn dev baud =
     (let bc = next_baud_const baud in
      if bc < 0 then None
      else (case opn dev of
          None \<Rightarrow> None
        | Some p \<Rightarrow>
            if g_noget p then None
            else let sg = (g_sg p)\<lparr>sg_ispeed := bc, sg_ospeed := bc, sg_flags := {RAW}\<rparr> in
              if g_noset p then None else Some (p\<lparr>g_sg := sg\<rparr>)))"

interpretation next_ser: serial_backend next_ser_open "\<lambda>p. sg_in (g_sg p)" "\<lambda>p. sg_out (g_sg p)" g_line "\<lambda>p. True"
  by unfold_locales (auto simp: next_ser_open_def sg_in_def sg_out_def Let_def split: option.splits if_splits)

section \<open>Win32\<close>

text \<open>The members of \<^verbatim>\<open>DCB\<close> that change what the line transfers.  The driver drops a NUL under \<^verbatim>\<open>fNull\<close> and the two flow
  characters under \<^verbatim>\<open>fOutX\<close>, and ignores the line while DSR is low under \<^verbatim>\<open>fDsrSensitivity\<close>; it does not send while
  CTS or DSR is low under the two output flow controls.\<close>

datatype dcb_parity = NOPARITY | ODDPARITY | EVENPARITY
datatype dcb_stop = ONESTOPBIT | TWOSTOPBITS
datatype dcb_ctl = CONTROL_DISABLE | CONTROL_ENABLE | CONTROL_HANDSHAKE

record dcb =
  BaudRate :: "32 word"
  ByteSize :: nat
  Parity :: dcb_parity
  StopBits :: dcb_stop
  fBinary :: bool
  fParity :: bool
  fOutX :: bool
  fInX :: bool
  fNull :: bool
  fOutxCtsFlow :: bool
  fOutxDsrFlow :: bool
  fDsrSensitivity :: bool
  fRtsControl :: dcb_ctl
  fDtrControl :: dcb_ctl
  flowChars :: "char list"

record comport =
  p_dcb :: dcb
  p_line :: dev
  p_cts :: bool
  p_dsr :: bool
  p_timeouts :: "nat list"
  p_noget :: bool
  p_noset :: bool

definition com_in :: "comport \<Rightarrow> char \<Rightarrow> char list" where
  "com_in p c =
     (let d = p_dcb p; c1 = low_bits (ByteSize d) c in
      if fDsrSensitivity d \<and> \<not> p_dsr p \<or> fNull d \<and> c1 = NUL \<or> fOutX d \<and> c1 \<in> set (flowChars d) then [] else [c1])"

definition com_out :: "comport \<Rightarrow> char \<Rightarrow> char list" where
  "com_out p c =
     (let d = p_dcb p in
      if fOutxCtsFlow d \<and> \<not> p_cts p \<or> fOutxDsrFlow d \<and> \<not> p_dsr p then [] else [low_bits (ByteSize d) c])"

definition w32_path :: "string \<Rightarrow> string" where
  "w32_path dev =
     (if char_at dev 0 \<noteq> CHR 0x5C
      then strlcat (strlcat [] [CHR 0x5C, CHR 0x5C, CHR ''.'', CHR 0x5C] 80) dev 80
      else strlcpy dev 80)"

definition w32_dcb :: "int \<Rightarrow> dcb \<Rightarrow> dcb" where
  "w32_dcb baud d = d\<lparr>BaudRate := word_of_int baud, ByteSize := 8, Parity := NOPARITY, StopBits := ONESTOPBIT,
     fBinary := True, fParity := False, fOutX := False, fInX := False, fNull := False, fOutxCtsFlow := False,
     fRtsControl := CONTROL_ENABLE, fDtrControl := CONTROL_ENABLE\<rparr>"

definition w32_ser_open :: "(string \<Rightarrow> comport option) \<Rightarrow> string \<Rightarrow> int \<Rightarrow> comport option" where
  "w32_ser_open opn dev baud =
     (case opn (w32_path dev) of
        None \<Rightarrow> None
      | Some h \<Rightarrow>
          if p_noget h then None
          else let d = w32_dcb baud (p_dcb h) in
            if p_noset h then None else Some (h\<lparr>p_dcb := d, p_timeouts := [0, 0, 0, 0, 0]\<rparr>))"

interpretation w32_ser: serial_backend w32_ser_open com_in com_out p_line
  "\<lambda>p. p_dsr p \<or> \<not> fDsrSensitivity (p_dcb p) \<and> \<not> fOutxDsrFlow (p_dcb p)"
  by unfold_locales (auto simp: w32_ser_open_def w32_dcb_def com_in_def com_out_def Let_def split: option.splits if_splits)

text \<open>A transfer on the handle: \<open>ReadFile\<close> and \<open>WriteFile\<close> fail, or return what was transferred.\<close>

definition w32_ser_read :: "('h \<Rightarrow> nat \<Rightarrow> char list option \<times> 'h) \<Rightarrow> 'h \<Rightarrow> nat \<Rightarrow> int \<times> char list \<times> 'h" where
  "w32_ser_read ReadFile f n =
     (case ReadFile f n of
        (None, f') \<Rightarrow> (-1, [], f')
      | (Some buf, f') \<Rightarrow> if buf = [] then (-1, [], f') else (int (length buf), buf, f'))"

definition w32_ser_write :: "('h \<Rightarrow> char list \<Rightarrow> nat option \<times> 'h) \<Rightarrow> 'h \<Rightarrow> char list \<Rightarrow> int \<times> 'h" where
  "w32_ser_write WriteFile f buf =
     (case WriteFile f buf of (None, f') \<Rightarrow> (-1, f') | (Some put, f') \<Rightarrow> (int put, f'))"

text \<open>A path longer than the buffer is cut; a shorter one is completed.\<close>

lemma w32_path_com:
  assumes "dev \<noteq> []" and "hd dev \<noteq> CHR 0x5C" and "length dev < 76"
  shows "w32_path dev = [CHR 0x5C, CHR 0x5C, CHR ''.'', CHR 0x5C] @ dev"
proof -
  have "char_at dev 0 \<noteq> CHR 0x5C" using assms(1,2) by (cases dev) (simp_all add: char_at_def)
  then show ?thesis using assms(3) by (simp add: w32_path_def gcds_strlcat_def Let_def)
qed

section \<open>The stub\<close>

definition null_ser_open :: "(string \<Rightarrow> 'p option) \<Rightarrow> string \<Rightarrow> int \<Rightarrow> 'p option" where
  "null_ser_open opn dev baud = None"

definition null_ser_read :: "nat \<Rightarrow> int" where
  "null_ser_read n = -1"

definition null_ser_write :: "char list \<Rightarrow> int" where
  "null_ser_write bs = -1"

text \<open>What a channel transfers on the ports the three backends open.\<close>

lemmas serial_transparent = psx_ser.channel_transparent next_ser.channel_transparent w32_ser.channel_transparent

text \<open>One transfer call of \<^verbatim>\<open>ser_next.c\<close>; that of \<^verbatim>\<open>ser_psx.c\<close> is \<open>ser_read\<close> and \<open>ser_write\<close> of \<open>Chan\<close>.  Closing a port hands
  its line back to the system.\<close>

definition next_ser_read :: "dev option \<Rightarrow> nat \<Rightarrow> char list \<times> dev option" where
  "next_ser_read f n = (case f of None \<Rightarrow> ([], None) | Some d \<Rightarrow> (case dev_recv d n of (bs, d') \<Rightarrow> (bs, Some d')))"

definition next_ser_write :: "dev option \<Rightarrow> char list \<Rightarrow> int \<times> dev option" where
  "next_ser_write f bs = (case f of None \<Rightarrow> (-1, None) | Some d \<Rightarrow> (case dev_send d bs of (r, d') \<Rightarrow> (r, Some d')))"

definition psx_ser_close :: "tty \<Rightarrow> dev" where
  "psx_ser_close p = t_line p"

definition next_ser_close :: "sgport \<Rightarrow> dev" where
  "next_ser_close p = g_line p"

definition w32_ser_close :: "comport \<Rightarrow> dev" where
  "w32_ser_close p = p_line p"

lemma next_ser_same: "next_ser_read = ser_read" "next_ser_write = ser_write"
  by (intro ext; simp add: next_ser_read_def ser_read_def next_ser_write_def ser_write_def apsnd_def map_prod_def
      split: option.splits prod.splits)+

section \<open>What a line of a POSIX system transfers\<close>

lemma psx_settings_in:
  "tty_in (psx_settings bc t) =
     (\<lambda>c. if c = CR \<and> IGNCR \<in> c_iflag t then [] else if c = CHR 0xFF \<and> PARMRK \<in> c_iflag t then [c, c] else [c])"
  by (rule ext) (auto simp: tty_in_def psx_settings_def data_bits_def)

lemma psx_settings_8n1:
  "c_ispeed (psx_settings bc t) = bc" "c_ospeed (psx_settings bc t) = bc" "c_size (psx_settings bc t) = CS8"
  "c_cflag (psx_settings bc t) \<inter> {PARENB, CSTOPB} = {}" "c_vmin (psx_settings bc t) = 1" "c_vtime (psx_settings bc t) = 0"
  "tty_echo (psx_settings bc t) c = []" "line_tx (tty_out (psx_settings bc t)) bs = bs"
proof -
  show "line_tx (tty_out (psx_settings bc t)) bs = bs"
    unfolding line_tx_def by (intro concat_map_self allI tty_out_raw) (simp_all add: psx_settings_def)
qed (auto simp: psx_settings_def tty_echo_def)


definition demo_tty :: tty where
  "demo_tty = \<lparr>t_tio = \<lparr>c_iflag = {IXON, ICRNL, IGNCR}, c_oflag = {OPOST, ONLCR}, c_lflag = {ECHO, ICANON, ISIG}, c_cflag = {CREAD, PARENB},
     c_size = CS7, c_ispeed = B38400, c_ospeed = B38400, c_vmin = 0, c_vtime = 5, c_sig = [CHR 0x03], c_flow = [CHR 0x11, CHR 0x13]\<rparr>,
     t_line = \<lparr>rx = [[CHR 0x03, CR], [CHR 0x13, LF]], tx = [], wlim = []\<rparr>, t_noget = False, t_noset = False\<rparr>"


end
