(* ===== verification/Xdr.thy ===== *)
theory Xdr
  imports Prelude "HOL-Library.Word"
begin

text \<open>
  \<^verbatim>\<open>nfsd/xdr.c\<close>: the XDR cursor over a fixed buffer.  Bytes are characters, a \<^verbatim>\<open>uint32_t\<close> is a 32-bit
  word, a \<^verbatim>\<open>size_t\<close> a natural number (the buffers have 64 KiB, so that no sum below reaches its range).
  An operation returns its result (\<open>None\<close> or \<open>False\<close> for -1) and the cursor; where C returns a pointer
  into the buffer with a length, the result is that part of the buffer.
\<close>

unbundle bit_operations_syntax

type_synonym u32 = "32 word"

record xdr =
  x_buf :: "char list"
  x_cap :: nat
  x_pos :: nat
  x_err :: bool

section \<open>Operations\<close>

definition xdr_init :: "char list \<Rightarrow> nat \<Rightarrow> xdr" where
  "xdr_init b n = \<lparr>x_buf = b, x_cap = n, x_pos = 0, x_err = False\<rparr>"

definition xdr_reset :: "xdr \<Rightarrow> nat \<Rightarrow> xdr" where
  "xdr_reset x p = x\<lparr>x_pos := p, x_err := False\<rparr>"

definition xdr_len :: "xdr \<Rightarrow> nat" where
  "xdr_len x = x_pos x"

definition xdr_need :: "xdr \<Rightarrow> nat \<Rightarrow> bool \<times> xdr" where
  "xdr_need x n = (if x_err x \<or> x_pos x + n > x_cap x then (False, x\<lparr>x_err := True\<rparr>) else (True, x))"

text \<open>The four bytes at an index, and the bytes of a word, most significant first.\<close>

definition be32 :: "char list \<Rightarrow> nat \<Rightarrow> u32" where
  "be32 b i = push_bit 24 (of_char (b ! i)) OR push_bit 16 (of_char (b ! (i + 1)))
     OR push_bit 8 (of_char (b ! (i + 2))) OR of_char (b ! (i + 3))"

definition bytes32 :: "u32 \<Rightarrow> char list" where
  "bytes32 v = [char_of (unat (drop_bit 24 v)), char_of (unat (drop_bit 16 v)),
     char_of (unat (drop_bit 8 v)), char_of (unat v)]"

text \<open>\<open>poke b i s\<close> is \<^verbatim>\<open>memcpy(b + i, s, length of s)\<close>.\<close>

definition poke :: "char list \<Rightarrow> nat \<Rightarrow> char list \<Rightarrow> char list" where
  "poke b i s = take i b @ s @ drop (i + length s) b"

definition xdr_pad :: "u32 \<Rightarrow> u32" where
  "xdr_pad n = (4 - (n AND 3)) AND 3"

definition xdr_get_u32 :: "xdr \<Rightarrow> u32 option \<times> xdr" where
  "xdr_get_u32 x =
     (case xdr_need x 4 of (ok, x1) \<Rightarrow>
        if \<not> ok then (None, x1)
        else (Some (be32 (x_buf x1) (x_pos x1)), x1\<lparr>x_pos := x_pos x1 + 4\<rparr>))"

definition xdr_get_i32 :: "xdr \<Rightarrow> int option \<times> xdr" where
  "xdr_get_i32 x = (case xdr_get_u32 x of (None, x1) \<Rightarrow> (None, x1) | (Some u, x1) \<Rightarrow> (Some (sint u), x1))"

definition xdr_get_bytes :: "xdr \<Rightarrow> char list option \<times> xdr" where
  "xdr_get_bytes x =
     (case xdr_get_u32 x of
        (None, x1) \<Rightarrow> (None, x1)
      | (Some n, x1) \<Rightarrow>
          (case xdr_need x1 (unat n) of (ok, x2) \<Rightarrow>
             if \<not> ok then (None, x2)
             else let p = take (unat n) (drop (x_pos x2) (x_buf x2)) in
               (case xdr_need x2 (unat n + unat (xdr_pad n)) of (ok2, x3) \<Rightarrow>
                  if \<not> ok2 then (None, x3)
                  else (Some p, x3\<lparr>x_pos := x_pos x3 + unat (n + xdr_pad n)\<rparr>))))"

definition xdr_get_fixed :: "xdr \<Rightarrow> u32 \<Rightarrow> char list option \<times> xdr" where
  "xdr_get_fixed x len =
     (case xdr_need x (unat len + unat (xdr_pad len)) of (ok, x1) \<Rightarrow>
        if \<not> ok then (None, x1)
        else (Some (take (unat len) (drop (x_pos x1) (x_buf x1))), x1\<lparr>x_pos := x_pos x1 + unat (len + xdr_pad len)\<rparr>))"

text \<open>The buffer \<^verbatim>\<open>out\<close> is given a terminator; a caller sees the C string it holds.\<close>

definition xdr_get_string :: "xdr \<Rightarrow> nat \<Rightarrow> string option \<times> xdr" where
  "xdr_get_string x mx =
     (case xdr_get_bytes x of
        (None, x1) \<Rightarrow> (None, x1)
      | (Some p, x1) \<Rightarrow> if length p \<ge> mx then (None, x1\<lparr>x_err := True\<rparr>) else (Some (cstr p), x1))"

definition xdr_put_u32 :: "xdr \<Rightarrow> u32 \<Rightarrow> bool \<times> xdr" where
  "xdr_put_u32 x v =
     (case xdr_need x 4 of (ok, x1) \<Rightarrow>
        if \<not> ok then (False, x1)
        else (True, x1\<lparr>x_buf := poke (x_buf x1) (x_pos x1) (bytes32 v), x_pos := x_pos x1 + 4\<rparr>))"

definition xdr_put_i32 :: "xdr \<Rightarrow> int \<Rightarrow> bool \<times> xdr" where
  "xdr_put_i32 x v = xdr_put_u32 x (word_of_int v)"

definition xdr_put_fixed :: "xdr \<Rightarrow> char list \<Rightarrow> u32 \<Rightarrow> bool \<times> xdr" where
  "xdr_put_fixed x p len =
     (case xdr_need x (unat len + unat (xdr_pad len)) of (ok, x1) \<Rightarrow>
        if \<not> ok then (False, x1)
        else (True, x1\<lparr>x_buf := poke (poke (x_buf x1) (x_pos x1) (take (unat len) p))
                        (x_pos x1 + unat len) (replicate (unat (xdr_pad len)) NUL),
                      x_pos := x_pos x1 + unat (len + xdr_pad len)\<rparr>))"

definition xdr_put_bytes :: "xdr \<Rightarrow> char list \<Rightarrow> u32 \<Rightarrow> bool \<times> xdr" where
  "xdr_put_bytes x p len =
     (case xdr_put_u32 x len of (ok, x1) \<Rightarrow> if \<not> ok then (False, x1) else xdr_put_fixed x1 p len)"

text \<open>The shape \<^verbatim>\<open>if (get(..) < 0) return ..;\<close> of the callers: what to do on failure, and the rest of the
  code with the value and the cursor.\<close>

definition on_ok :: "'a option \<times> xdr \<Rightarrow> (xdr \<Rightarrow> 'b) \<Rightarrow> ('a \<Rightarrow> xdr \<Rightarrow> 'b) \<Rightarrow> 'b" where
  "on_ok r fail k = (case r of (None, x) \<Rightarrow> fail x | (Some v, x) \<Rightarrow> k v x)"

lemma on_ok_simps [simp]: "on_ok (None, x) fail k = fail x" "on_ok (Some v, x) fail k = k v x"
  by (simp_all add: on_ok_def)

section \<open>Words and bytes\<close>

lemma of_nat_of_char: "(of_nat (of_char c) :: 'a :: comm_semiring_1) = of_char c"
  by (cases c) (simp add: of_char_def horner_sum_simps)

lemma of_char_char_of_word: "(of_char (char_of (unat w)) :: u32) = take_bit 8 w"
  for w :: u32
proof -
  have "(of_char (char_of (unat w)) :: u32) = of_nat (of_char (char_of (unat w)))"
    by (simp only: of_nat_of_char)
  also have "\<dots> = of_nat (take_bit 8 (unat w))"
    by (simp only: of_char_of take_bit_eq_mod) simp
  also have "\<dots> = take_bit 8 w"
    by (simp flip: unsigned_take_bit_eq)
  finally show ?thesis .
qed

lemma length_bytes32 [simp]: "length (bytes32 v) = 4"
  by (simp add: bytes32_def)

lemma be32_bytes32 [simp]: "be32 (a @ bytes32 v @ r) (length a) = v"
proof -
  have 1: "(a @ bytes32 v @ r) ! (length a + k) = bytes32 v ! k" if "k < 4" for k
    using that by (simp add: nth_append)
  from 1 [of 0] 1 [of 1] 1 [of 2] 1 [of 3] have "be32 (a @ bytes32 v @ r) (length a) =
    push_bit 24 (take_bit 8 (drop_bit 24 v)) OR push_bit 16 (take_bit 8 (drop_bit 16 v))
     OR push_bit 8 (take_bit 8 (drop_bit 8 v)) OR take_bit 8 v"
    by (simp add: be32_def bytes32_def of_char_char_of_word)
  also have "\<dots> = v"
  proof (rule bit_word_eqI)
    fix n assume "n < LENGTH(32)"
    then consider "n < 8" | "8 \<le> n" "n < 16" | "16 \<le> n" "n < 24" | "24 \<le> n" "n < 32" by force
    then show "bit (push_bit 24 (take_bit 8 (drop_bit 24 v)) OR push_bit 16 (take_bit 8 (drop_bit 16 v))
        OR push_bit 8 (take_bit 8 (drop_bit 8 v)) OR take_bit 8 v) n = bit v n"
      by cases (auto simp: bit_simps)
  qed
  finally show ?thesis .
qed

lemma unat_and3: "unat (n AND 3) = unat n mod 4" for n :: u32
proof -
  have "n AND 3 = take_bit 2 n" by (simp add: take_bit_eq_mask mask_eq_exp_minus_1)
  then have "unat (n AND 3) = take_bit 2 (unat n)" by (simp add: unsigned_take_bit_eq)
  then show ?thesis by (simp add: take_bit_eq_mod)
qed

lemma unat_pad: "unat (xdr_pad n) = (4 - unat n mod 4) mod 4"
proof -
  have "unat (4 - (n AND 3)) = 4 - unat n mod 4"
    by (subst unat_sub) (simp_all add: word_le_nat_alt unat_and3)
  then show ?thesis by (simp add: xdr_pad_def unat_and3)
qed

section \<open>Views of the cursor\<close>

text \<open>The well-formedness of a cursor, what it wrote and what it has left to read; \<open>xdr_ext\<close> relates two
  cursors on one buffer when the second wrote only from the position of the first and within the
  capacity.\<close>

definition xdr_ok :: "xdr \<Rightarrow> bool" where
  "xdr_ok x \<longleftrightarrow> x_pos x \<le> x_cap x \<and> x_cap x \<le> length (x_buf x) \<and> x_cap x \<le> 65536"

definition written :: "xdr \<Rightarrow> char list" where
  "written x = take (x_pos x) (x_buf x)"

definition unread :: "xdr \<Rightarrow> char list" where
  "unread x = drop (x_pos x) (take (x_cap x) (x_buf x))"

definition xdr_ext :: "xdr \<Rightarrow> xdr \<Rightarrow> bool" where
  "xdr_ext x y \<longleftrightarrow> x_cap y = x_cap x \<and> x_pos x \<le> x_pos y \<and> length (x_buf y) = length (x_buf x)
     \<and> take (x_pos x) (x_buf y) = take (x_pos x) (x_buf x) \<and> drop (x_cap x) (x_buf y) = drop (x_cap x) (x_buf x)
     \<and> (x_err x \<longrightarrow> x_err y)"

definition app :: "xdr \<Rightarrow> char list \<Rightarrow> xdr" where
  "app x s = x\<lparr>x_buf := poke (x_buf x) (x_pos x) s, x_pos := x_pos x + length s\<rparr>"

definition adv :: "xdr \<Rightarrow> nat \<Rightarrow> xdr" where
  "adv x n = x\<lparr>x_pos := x_pos x + n\<rparr>"

lemma xdr_ok_init [simp]: "n \<le> length b \<Longrightarrow> n \<le> 65536 \<Longrightarrow> xdr_ok (xdr_init b n)"
  by (simp add: xdr_ok_def xdr_init_def)

lemma xdr_init_sel [simp]: "x_err (xdr_init b n) = False" "x_pos (xdr_init b n) = 0" "x_cap (xdr_init b n) = n"
    "x_buf (xdr_init b n) = b"
  by (simp_all add: xdr_init_def)

lemma unread_init [simp]: "unread (xdr_init b n) = take n b"
  by (simp add: unread_def)

lemma written_init [simp]: "written (xdr_init b n) = []"
  by (simp add: written_def)

lemma length_written: "xdr_ok x \<Longrightarrow> length (written x) = x_pos x"
  by (simp add: xdr_ok_def written_def)

lemma length_unread: "xdr_ok x \<Longrightarrow> length (unread x) = x_cap x - x_pos x"
  by (simp add: xdr_ok_def unread_def)

lemma xdr_ext_refl [simp]: "xdr_ext x x"
  by (simp add: xdr_ext_def)

lemma xdr_ext_trans:
  assumes "xdr_ext x y" and "xdr_ext y z"
  shows "xdr_ext x z"
proof -
  have m: "take (x_pos x) b = take (x_pos x) (take (x_pos y) b)" for b :: "char list"
    using assms(1) by (simp add: xdr_ext_def min_def)
  have "take (x_pos x) (x_buf z) = take (x_pos x) (x_buf x)"
    using assms m [of "x_buf z"] m [of "x_buf y"] by (simp only: xdr_ext_def)
  then show ?thesis using assms by (auto simp: xdr_ext_def)
qed

lemma xdr_ext_err [simp]: "xdr_ext x (x\<lparr>x_err := True\<rparr>)"
  by (simp add: xdr_ext_def)

lemma poke_len: "i + length s \<le> length b \<Longrightarrow> length (poke b i s) = length b"
  by (simp add: poke_def)

lemma poke_poke: "i + length s \<le> length b \<Longrightarrow> poke (poke b i s) (i + length s) t = poke b i (s @ t)"
  by (simp add: poke_def ac_simps)

lemma app_ext: "xdr_ok x \<Longrightarrow> x_pos x + length s \<le> x_cap x \<Longrightarrow> xdr_ext x (app x s) \<and> xdr_ok (app x s)"
  by (auto simp: xdr_ext_def xdr_ok_def app_def poke_def)

lemma adv_ext: "xdr_ok x \<Longrightarrow> x_pos x + n \<le> x_cap x \<Longrightarrow> xdr_ext x (adv x n) \<and> xdr_ok (adv x n)"
  by (auto simp: xdr_ext_def xdr_ok_def adv_def)

lemma app_app [simp]: "xdr_ok x \<Longrightarrow> x_pos x + length s \<le> x_cap x \<Longrightarrow> app (app x s) t = app x (s @ t)"
  by (simp add: app_def poke_poke xdr_ok_def)

lemma app_sel [simp]: "x_pos (app x s) = x_pos x + length s" "x_err (app x s) = x_err x" "x_cap (app x s) = x_cap x"
  by (simp_all add: app_def)

lemma adv_sel [simp]: "x_pos (adv x n) = x_pos x + n" "x_err (adv x n) = x_err x" "x_cap (adv x n) = x_cap x"
    "x_buf (adv x n) = x_buf x"
  by (simp_all add: adv_def)

lemma adv_adv [simp]: "adv (adv x m) n = adv x (m + n)"
  by (simp add: adv_def)

lemma written_app: "xdr_ok x \<Longrightarrow> x_pos x + length s \<le> x_cap x \<Longrightarrow> written (app x s) = written x @ s"
  by (simp add: written_def app_def poke_def xdr_ok_def)

lemma unread_adv: "unread (adv x n) = drop n (unread x)"
  by (simp add: unread_def add.commute)

lemma unread_fits: "xdr_ok x \<Longrightarrow> unread x = s @ r \<Longrightarrow> x_pos x + length s \<le> x_cap x"
  using length_unread [of x] by (simp add: xdr_ok_def le_diff_conv2 [symmetric] flip: add.commute)

text \<open>What is left to read is what stands in the buffer.\<close>

lemma unread_buf:
  assumes "xdr_ok x" and "unread x = s @ r"
  obtains a b where "x_buf x = a @ s @ b" "length a = x_pos x"
proof
  have "take (x_cap x) (x_buf x) = take (x_pos x) (take (x_cap x) (x_buf x)) @ unread x"
    unfolding unread_def by (rule append_take_drop_id [symmetric])
  then have "take (x_cap x) (x_buf x) = take (x_pos x) (x_buf x) @ s @ r"
    using assms by (simp add: xdr_ok_def min_def)
  then have "x_buf x = (take (x_pos x) (x_buf x) @ s @ r) @ drop (x_cap x) (x_buf x)"
    by (metis append_take_drop_id)
  then show "x_buf x = take (x_pos x) (x_buf x) @ s @ (r @ drop (x_cap x) (x_buf x))"
    by (simp only: append.assoc)
  show "length (take (x_pos x) (x_buf x)) = x_pos x" using assms(1) by (simp add: xdr_ok_def)
qed

section \<open>The operations on the views\<close>

definition npad :: "nat \<Rightarrow> nat" where
  "npad n = (4 - n mod 4) mod 4"

definition padded :: "char list \<Rightarrow> char list" where
  "padded s = s @ replicate (npad (length s)) NUL"

definition enc_bytes :: "char list \<Rightarrow> char list" where
  "enc_bytes s = bytes32 (of_nat (length s)) @ padded s"

lemma length_padded: "length (padded s) = length s + npad (length s)"
  by (simp add: padded_def)

lemma length_enc_bytes: "length (enc_bytes s) = 4 + length s + npad (length s)"
  by (simp add: enc_bytes_def length_padded)

lemma unat_pad_npad [simp]: "unat (xdr_pad n) = npad (unat n)"
  by (simp add: unat_pad npad_def)

lemma unat_add_pad: "unat n + npad (unat n) \<le> 65536 \<Longrightarrow> unat (n + xdr_pad n) = unat n + npad (unat n)"
  by (subst unat_add_lem [THEN iffD1]) simp_all

lemma xdr_put_u32_eq: "xdr_put_u32 x v =
    (if x_err x \<or> x_pos x + 4 > x_cap x then (False, x\<lparr>x_err := True\<rparr>) else (True, app x (bytes32 v)))"
  by (simp add: xdr_put_u32_def xdr_need_def app_def)

lemma xdr_put_fixed_eq:
  assumes "xdr_ok x" and "unat len = length p"
  shows "xdr_put_fixed x p len =
    (if x_err x \<or> x_pos x + length (padded p) > x_cap x then (False, x\<lparr>x_err := True\<rparr>) else (True, app x (padded p)))"
proof (cases "x_err x \<or> x_pos x + length (padded p) > x_cap x")
  case True
  then show ?thesis using assms(2) by (auto simp: xdr_put_fixed_def xdr_need_def length_padded)
next
  case False
  then have le: "x_pos x + (length p + npad (length p)) \<le> x_cap x" by (simp add: length_padded)
  then have "unat (len + xdr_pad len) = length p + npad (length p)"
    using assms by (simp add: unat_add_pad xdr_ok_def)
  moreover have "poke (poke (x_buf x) (x_pos x) p) (x_pos x + length p) (replicate (npad (length p)) NUL)
      = poke (x_buf x) (x_pos x) (padded p)"
    using le assms(1) by (simp add: poke_poke padded_def xdr_ok_def)
  ultimately show ?thesis
    using False le assms(2) by (simp add: xdr_put_fixed_def xdr_need_def app_def length_padded)
qed

lemma xdr_get_u32_eq: "xdr_get_u32 x =
    (if x_err x \<or> x_pos x + 4 > x_cap x then (None, x\<lparr>x_err := True\<rparr>)
     else (Some (be32 (x_buf x) (x_pos x)), adv x 4))"
  by (simp add: xdr_get_u32_def xdr_need_def adv_def)

lemma xdr_get_fixed_eq:
  assumes "xdr_ok x"
  shows "xdr_get_fixed x len =
    (if x_err x \<or> x_pos x + (unat len + npad (unat len)) > x_cap x then (None, x\<lparr>x_err := True\<rparr>)
     else (Some (take (unat len) (drop (x_pos x) (x_buf x))), adv x (unat len + npad (unat len))))"
  using assms by (auto simp: xdr_get_fixed_def xdr_need_def adv_def unat_add_pad xdr_ok_def)

lemma xdr_get_bytes_eq:
  assumes "xdr_ok x"
  shows "xdr_get_bytes x =
    (case xdr_get_u32 x of (None, x1) \<Rightarrow> (None, x1) | (Some n, x1) \<Rightarrow> xdr_get_fixed x1 n)"
proof -
  have "xdr_ok x1" if "xdr_get_u32 x = (Some n, x1)" for n x1
    using that assms by (auto simp: xdr_get_u32_eq adv_ext split: if_splits)
  then show ?thesis
    by (auto simp: xdr_get_bytes_def xdr_get_fixed_def xdr_need_def Let_def split: option.split prod.split)
qed

text \<open>No operation leaves the buffer: the cursor stays within the capacity, nothing before the position
  and nothing beyond the capacity is changed, and an error is never cleared.\<close>

definition safe_step :: "xdr \<Rightarrow> xdr \<Rightarrow> bool" where
  "safe_step x y \<longleftrightarrow> (xdr_ok x \<longrightarrow> xdr_ok y \<and> xdr_ext x y)"

lemma safe_stepI: "(xdr_ok x \<Longrightarrow> xdr_ok y \<and> xdr_ext x y) \<Longrightarrow> safe_step x y"
  by (simp add: safe_step_def)

lemma safe_step_trans: "safe_step x y \<Longrightarrow> safe_step y z \<Longrightarrow> safe_step x z"
  using xdr_ext_trans by (auto simp: safe_step_def)

lemma safe_step_err [simp]: "safe_step x x" "safe_step x (x\<lparr>x_err := True\<rparr>)"
  by (simp_all add: safe_step_def) (simp add: xdr_ok_def)

lemma safe_get_u32: "xdr_get_u32 x = (r, y) \<Longrightarrow> safe_step x y"
  using adv_ext [of x 4] safe_step_err(2) [of x] by (auto simp: xdr_get_u32_eq safe_step_def split: if_splits)

lemma safe_get_fixed: "xdr_get_fixed x n = (r, y) \<Longrightarrow> safe_step x y"
proof (rule safe_stepI)
  assume h: "xdr_get_fixed x n = (r, y)" and ok: "xdr_ok x"
  show "xdr_ok y \<and> xdr_ext x y"
    using h adv_ext [OF ok] safe_step_err(2) [of x] ok
    unfolding xdr_get_fixed_eq [OF ok] by (auto simp: safe_step_def split: if_splits)
qed

lemma safe_get_bytes: "xdr_get_bytes x = (r, y) \<Longrightarrow> safe_step x y"
proof (cases "xdr_ok x")
  case True
  assume "xdr_get_bytes x = (r, y)"
  then show ?thesis
    using safe_get_u32 safe_get_fixed
    by (fastforce simp: xdr_get_bytes_eq [OF True] intro: safe_step_trans split: prod.splits option.splits)
qed (simp add: safe_step_def)

lemma safe_get_string: "xdr_get_string x n = (r, y) \<Longrightarrow> safe_step x y"
  by (auto simp: xdr_get_string_def split: prod.splits option.splits if_splits
      dest: safe_get_bytes intro: safe_step_trans [OF _ safe_step_err(2)])

lemma safe_put_u32: "xdr_put_u32 x v = (r, y) \<Longrightarrow> safe_step x y"
  using app_ext [of x "bytes32 v"] safe_step_err(2) [of x]
  by (auto simp: xdr_put_u32_eq safe_step_def split: if_splits)

lemma safe_put_fixed: "length p = unat n \<Longrightarrow> xdr_put_fixed x p n = (r, y) \<Longrightarrow> safe_step x y"
proof (rule safe_stepI)
  assume n: "length p = unat n" and h: "xdr_put_fixed x p n = (r, y)" and ok: "xdr_ok x"
  show "xdr_ok y \<and> xdr_ext x y"
    using h app_ext [OF ok, of "padded p"] safe_step_err(2) [of x] ok
    unfolding xdr_put_fixed_eq [OF ok n [symmetric]] by (auto simp: safe_step_def split: if_splits)
qed

lemma safe_put_bytes: "length p = unat n \<Longrightarrow> xdr_put_bytes x p n = (r, y) \<Longrightarrow> safe_step x y"
  by (auto simp: xdr_put_bytes_def split: prod.splits if_splits
      dest: safe_put_u32 safe_put_fixed intro: safe_step_trans)

lemmas safe_ops = safe_get_u32 safe_get_fixed safe_get_bytes safe_get_string
  safe_put_u32 safe_put_fixed safe_put_bytes

section \<open>Codecs\<close>

text \<open>Runs of calls: \<open>put_all\<close> is a sequence of puts whose results are ignored, \<open>get_all\<close> a chain
  \<^verbatim>\<open>get(..) < 0 || get(..) < 0 || ...\<close>, each get for the next of the given shapes.\<close>

fun put_all :: "(xdr \<Rightarrow> 'a \<Rightarrow> bool \<times> xdr) \<Rightarrow> xdr \<Rightarrow> 'a list \<Rightarrow> xdr" where
  "put_all put x [] = x"
| "put_all put x (a # as) = put_all put (snd (put x a)) as"

fun get_all :: "('s \<Rightarrow> xdr \<Rightarrow> 'a option \<times> xdr) \<Rightarrow> 's list \<Rightarrow> xdr \<Rightarrow> 'a list option \<times> xdr" where
  "get_all get [] x = (Some [], x)"
| "get_all get (s # ss) x =
     (case get s x of
        (None, x1) \<Rightarrow> (None, x1)
      | (Some a, x1) \<Rightarrow> (case get_all get ss x1 of (r, x2) \<Rightarrow> (map_option (Cons a) r, x2)))"

text \<open>The contract of an encoding: a put appends the encoding or, when there is no room or an error before,
  sets the error; a get of the same shape reads the value back and moves to what follows.\<close>

locale xdr_codec =
  fixes fits :: "'a \<Rightarrow> bool" and enc :: "'a \<Rightarrow> char list" and put :: "xdr \<Rightarrow> 'a \<Rightarrow> bool \<times> xdr"
    and get :: "'s \<Rightarrow> xdr \<Rightarrow> 'a option \<times> xdr" and shape :: "'a \<Rightarrow> 's"
  assumes put_room: "xdr_ok x \<Longrightarrow> fits a \<Longrightarrow> \<not> x_err x \<Longrightarrow> x_pos x + length (enc a) \<le> x_cap x
      \<Longrightarrow> put x a = (True, app x (enc a))"
    and put_full: "xdr_ok x \<Longrightarrow> fits a \<Longrightarrow> x_err x \<or> x_pos x + length (enc a) > x_cap x
      \<Longrightarrow> xdr_ok (snd (put x a)) \<and> x_err (snd (put x a))"
    and get_enc: "xdr_ok x \<Longrightarrow> fits a \<Longrightarrow> \<not> x_err x \<Longrightarrow> unread x = enc a @ r
      \<Longrightarrow> get (shape a) x = (Some a, adv x (length (enc a)))"
begin

lemma put_all_err: "xdr_ok x \<Longrightarrow> \<forall>a \<in> set as. fits a \<Longrightarrow> x_err x \<Longrightarrow> x_err (put_all put x as)"
  by (induction as arbitrary: x) (auto simp: put_full)

lemma put_all_room:
  "xdr_ok x \<Longrightarrow> \<forall>a \<in> set as. fits a \<Longrightarrow> \<not> x_err x \<Longrightarrow> x_pos x + length (concat (map enc as)) \<le> x_cap x
    \<Longrightarrow> put_all put x as = app x (concat (map enc as))"
proof (induction as arbitrary: x)
  case Nil
  then show ?case by (simp add: app_def poke_def)
next
  case (Cons a as)
  then have room: "x_pos x + length (enc a) \<le> x_cap x" by simp
  with Cons.prems have "put x a = (True, app x (enc a))" by (simp add: put_room)
  moreover have "put_all put (app x (enc a)) as = app (app x (enc a)) (concat (map enc as))"
    using Cons.prems app_ext [OF Cons.prems(1) room] by (intro Cons.IH) auto
  ultimately show ?case using Cons.prems(1) room by simp
qed

lemma put_all_full:
  "xdr_ok x \<Longrightarrow> \<forall>a \<in> set as. fits a \<Longrightarrow> x_pos x + length (concat (map enc as)) > x_cap x
    \<Longrightarrow> x_err (put_all put x as)"
proof (induction as arbitrary: x)
  case (Cons a as)
  show ?case
  proof (cases "x_err x \<or> x_pos x + length (enc a) > x_cap x")
    case True
    then show ?thesis using Cons.prems put_full [of x a] by (simp add: put_all_err)
  next
    case False
    then show ?thesis
      using Cons.prems app_ext [of x "enc a"] by (simp add: put_room Cons.IH)
  qed
qed (simp add: xdr_ok_def)

lemma get_all_enc:
  "xdr_ok x \<Longrightarrow> \<forall>a \<in> set as. fits a \<Longrightarrow> \<not> x_err x \<Longrightarrow> unread x = concat (map enc as) @ r
    \<Longrightarrow> get_all get (map shape as) x = (Some as, adv x (length (concat (map enc as))))"
proof (induction as arbitrary: x)
  case (Cons a as)
  then have u: "unread x = enc a @ (concat (map enc as) @ r)" by simp
  with Cons.prems have g: "get (shape a) x = (Some a, adv x (length (enc a)))" by (simp add: get_enc)
  have "xdr_ok (adv x (length (enc a)))"
    using adv_ext [OF Cons.prems(1)] unread_fits [OF Cons.prems(1) u] by simp
  then have "get_all get (map shape as) (adv x (length (enc a)))
      = (Some as, adv (adv x (length (enc a))) (length (concat (map enc as))))"
    using Cons.prems u by (intro Cons.IH) (auto simp: unread_adv)
  with g show ?case by simp
qed (simp add: adv_def)

text \<open>A message is written without an error exactly when it fits, and then read back.\<close>

lemma message_round_trip:
  assumes "n \<le> length b" and "n \<le> 65536" and "\<forall>a \<in> set as. fits a"
  shows "x_err (put_all put (xdr_init b n) as) \<longleftrightarrow> n < length (concat (map enc as))"
    and "\<not> x_err (put_all put (xdr_init b n) as) \<Longrightarrow> written (put_all put (xdr_init b n) as) = concat (map enc as)"
    and "\<not> x_err (put_all put (xdr_init b n) as) \<Longrightarrow>
      get_all get (map shape as) (xdr_init (written (put_all put (xdr_init b n) as)) (xdr_len (put_all put (xdr_init b n) as)))
        = (Some as, xdr_init (written (put_all put (xdr_init b n) as)) (xdr_len (put_all put (xdr_init b n) as))
            \<lparr>x_pos := xdr_len (put_all put (xdr_init b n) as)\<rparr>)"
proof -
  let ?y = "put_all put (xdr_init b n) as" and ?e = "concat (map enc as)"
  have ok: "xdr_ok (xdr_init b n)" using assms by simp
  have room: "?y = app (xdr_init b n) ?e" if "\<not> n < length ?e"
    using that assms ok by (intro put_all_room) auto
  then show iff: "x_err ?y \<longleftrightarrow> n < length ?e"
    using put_all_full [OF ok assms(3)] by fastforce
  assume "\<not> x_err ?y"
  then have le: "length ?e \<le> n" and y: "?y = app (xdr_init b n) ?e" using iff room by auto
  show w: "written ?y = ?e"
    unfolding y using ok le by (simp add: written_app)
  have l: "xdr_len ?y = length ?e"
    unfolding y by (simp add: xdr_len_def)
  show "get_all get (map shape as) (xdr_init (written ?y) (xdr_len ?y)) = (Some as, xdr_init (written ?y) (xdr_len ?y)
            \<lparr>x_pos := xdr_len ?y\<rparr>)"
    unfolding w l using get_all_enc [of "xdr_init ?e (length ?e)" as "[]"] assms(2,3) le by (simp add: adv_def)
qed

end

lemma get_u32_enc:
  assumes "xdr_ok x" and "\<not> x_err x" and "unread x = bytes32 v @ r"
  shows "xdr_get_u32 x = (Some v, adv x 4)"
proof -
  from unread_buf [OF assms(1,3)] obtain a b where "x_buf x = a @ bytes32 v @ b" "length a = x_pos x" .
  then have "be32 (x_buf x) (x_pos x) = v" by (metis be32_bytes32)
  then show ?thesis using assms(2) unread_fits [OF assms(1,3)] by (simp add: xdr_get_u32_eq)
qed

lemma get_fixed_enc:
  assumes "xdr_ok x" and "\<not> x_err x" and "unread x = padded p @ r" and "unat n = length p"
  shows "xdr_get_fixed x n = (Some p, adv x (length (padded p)))"
proof -
  from unread_buf [OF assms(1,3)] obtain a b where "x_buf x = a @ padded p @ b" "length a = x_pos x" .
  then have "take (length p) (drop (x_pos x) (x_buf x)) = p"
    by (simp add: padded_def)
  then show ?thesis using assms(2,4) unread_fits [OF assms(1,3)]
    by (simp add: xdr_get_fixed_eq [OF assms(1)] length_padded)
qed

lemma get_bytes_enc:
  assumes "xdr_ok x" and "\<not> x_err x" and "unread x = enc_bytes p @ r" and "length p < 2 ^ 32"
  shows "xdr_get_bytes x = (Some p, adv x (length (enc_bytes p)))"
proof -
  have u: "unread x = bytes32 (of_nat (length p)) @ (padded p @ r)" using assms(3) by (simp add: enc_bytes_def)
  have ok: "xdr_ok (adv x 4)" using adv_ext [OF assms(1)] unread_fits [OF assms(1) u] by simp
  have "xdr_get_fixed (adv x 4) (of_nat (length p)) = (Some p, adv (adv x 4) (length (padded p)))"
    using ok assms(2,4) u by (intro get_fixed_enc) (simp_all add: unread_adv unat_of_nat)
  then show ?thesis
    using get_u32_enc [OF assms(1,2) u] by (simp add: xdr_get_bytes_eq [OF assms(1)] enc_bytes_def)
qed

lemma get_string_enc:
  assumes "xdr_ok x" and "\<not> x_err x" and "unread x = enc_bytes p @ r" and "length p < m" and "m \<le> 2 ^ 32"
  shows "xdr_get_string x m = (Some (cstr p), adv x (length (enc_bytes p)))"
  using assms get_bytes_enc [OF assms(1-3)] by (simp add: xdr_get_string_def)

lemma xdr_put_bytes_eq:
  assumes "xdr_ok x" and "unat n = length p"
  shows "xdr_put_bytes x p n =
    (if \<not> x_err x \<and> x_pos x + length (enc_bytes p) \<le> x_cap x then (True, app x (enc_bytes p))
     else if \<not> x_err x \<and> x_pos x + 4 \<le> x_cap x then (False, (app x (bytes32 n))\<lparr>x_err := True\<rparr>)
     else (False, x\<lparr>x_err := True\<rparr>))"
proof (cases "x_err x \<or> x_pos x + 4 > x_cap x")
  case True
  then show ?thesis by (auto simp: xdr_put_bytes_def xdr_put_u32_eq length_enc_bytes)
next
  case False
  then have r: "x_pos x + length (bytes32 n) \<le> x_cap x" by simp
  have n: "n = of_nat (length p)" using assms(2) by (simp flip: assms(2))
  have e: "enc_bytes p = bytes32 n @ padded p" by (simp add: enc_bytes_def n)
  show ?thesis
    using False xdr_put_fixed_eq [OF conjunct2 [OF app_ext [OF assms(1) r]] assms(2)] app_app [OF assms(1) r]
    by (simp add: xdr_put_bytes_def xdr_put_u32_eq e)
qed

text \<open>Typed XDR values, each put and got with the operation of its type.\<close>

datatype xval = U32 u32 | I32 int | Opaque "char list" | Fixed "char list"

datatype xtype = TU32 | TI32 | TOpaque | TFixed nat

fun xtype_of :: "xval \<Rightarrow> xtype" where
  "xtype_of (U32 _) = TU32"
| "xtype_of (I32 _) = TI32"
| "xtype_of (Opaque _) = TOpaque"
| "xtype_of (Fixed p) = TFixed (length p)"

fun xfits :: "xval \<Rightarrow> bool" where
  "xfits (U32 _) = True"
| "xfits (I32 i) = (- (2 ^ 31) \<le> i \<and> i < 2 ^ 31)"
| "xfits (Opaque p) = (length p < 2 ^ 32)"
| "xfits (Fixed p) = (length p < 2 ^ 32)"

fun xenc :: "xval \<Rightarrow> char list" where
  "xenc (U32 v) = bytes32 v"
| "xenc (I32 i) = bytes32 (word_of_int i)"
| "xenc (Opaque p) = enc_bytes p"
| "xenc (Fixed p) = padded p"

fun put_val :: "xdr \<Rightarrow> xval \<Rightarrow> bool \<times> xdr" where
  "put_val x (U32 v) = xdr_put_u32 x v"
| "put_val x (I32 i) = xdr_put_i32 x i"
| "put_val x (Opaque p) = xdr_put_bytes x p (of_nat (length p))"
| "put_val x (Fixed p) = xdr_put_fixed x p (of_nat (length p))"

fun get_val :: "xtype \<Rightarrow> xdr \<Rightarrow> xval option \<times> xdr" where
  "get_val TU32 x = apfst (map_option U32) (xdr_get_u32 x)"
| "get_val TI32 x = apfst (map_option I32) (xdr_get_i32 x)"
| "get_val TOpaque x = apfst (map_option Opaque) (xdr_get_bytes x)"
| "get_val (TFixed n) x = apfst (map_option Fixed) (xdr_get_fixed x (of_nat n))"

lemma sint_word_of_int32: "- (2 ^ 31) \<le> i \<Longrightarrow> i < 2 ^ 31 \<Longrightarrow> sint (word_of_int i :: u32) = i"
  by (simp add: signed_of_int signed_take_bit_int_eq_self)

interpretation val: xdr_codec xfits xenc put_val get_val xtype_of
proof
  fix x a r
  assume ok: "xdr_ok x" and f: "xfits a"
  show "put_val x a = (True, app x (xenc a))" if "\<not> x_err x" "x_pos x + length (xenc a) \<le> x_cap x"
    using that ok f
    by (cases a) (simp_all add: xdr_put_u32_eq xdr_put_i32_def xdr_put_bytes_eq xdr_put_fixed_eq unat_of_nat)
  show "xdr_ok (snd (put_val x a)) \<and> x_err (snd (put_val x a))" if "x_err x \<or> x_pos x + length (xenc a) > x_cap x"
    using that ok f
    by (cases a) (auto simp: xdr_put_u32_eq xdr_put_i32_def xdr_put_bytes_eq xdr_put_fixed_eq unat_of_nat xdr_ok_def
      app_def poke_def)
  show "get_val (xtype_of a) x = (Some a, adv x (length (xenc a)))" if "\<not> x_err x" "unread x = xenc a @ r"
    using that ok f
    by (cases a) (auto simp: get_u32_enc get_bytes_enc get_fixed_enc xdr_get_i32_def sint_word_of_int32 unat_of_nat)
qed

interpretation u32: xdr_codec "\<lambda>_. True" bytes32 xdr_put_u32 "\<lambda>_ :: unit. xdr_get_u32" "\<lambda>_. ()"
  by unfold_locales (auto simp: xdr_put_u32_eq get_u32_enc xdr_ok_def)

lemma safe_put_val: "xfits a \<Longrightarrow> safe_step x (snd (put_val x a))"
proof -
  assume f: "xfits a"
  obtain r y where h: "put_val x a = (r, y)" by fastforce
  have u: "length p = unat (of_nat (length p) :: u32)" if "length p < 2 ^ 32" for p :: "char list"
    using that by (simp add: unat_of_nat)
  have "safe_step x y"
  proof (cases a)
    case (Opaque p)
    then show ?thesis using f h safe_put_bytes [OF u] by simp
  next
    case (Fixed p)
    then show ?thesis using f h safe_put_fixed [OF u] by simp
  qed (use h in \<open>auto simp: xdr_put_i32_def intro: safe_put_u32\<close>)
  with h show ?thesis by simp
qed

lemma safe_get_val: "safe_step x (snd (get_val t x))"
  by (cases t) (auto simp: xdr_get_i32_def apfst_def map_prod_def split: prod.splits option.splits dest: safe_ops(1-3))

lemma safe_put_all: "\<forall>a \<in> set vs. xfits a \<Longrightarrow> safe_step x (put_all put_val x vs)"
  by (induction vs arbitrary: x) (auto intro: safe_step_trans safe_put_val)

lemma safe_get_all: "safe_step x (snd (get_all get_val ts x))"
proof (induction ts arbitrary: x)
  case (Cons t ts)
  obtain r y where g: "get_val t x = (r, y)" by fastforce
  with safe_get_val [of x t] have "safe_step x y" by simp
  moreover obtain r' z where "get_all get_val ts y = (r', z)" by fastforce
  moreover with Cons.IH [of y] have "safe_step y z" by simp
  ultimately show ?case using g by (auto split: option.splits intro: safe_step_trans)
qed simp

section \<open>Reading and writing messages\<close>

text \<open>\<open>reads x r\<close>: the cursor has no error and \<open>r\<close> left; \<open>wrote x w\<close>: a reply cursor of 64 KiB without an
  error that wrote \<open>w\<close>.\<close>

definition reads :: "xdr \<Rightarrow> char list \<Rightarrow> bool" where
  "reads x r \<longleftrightarrow> xdr_ok x \<and> \<not> x_err x \<and> unread x = r"

definition wrote :: "xdr \<Rightarrow> char list \<Rightarrow> bool" where
  "wrote x w \<longleftrightarrow> xdr_ok x \<and> \<not> x_err x \<and> x_cap x = 65536 \<and> written x = w"

lemma reads_init: "length m \<le> 65536 \<Longrightarrow> reads (xdr_init m (length m)) m"
  by (simp add: reads_def)

lemma reads_adv: "reads x (s @ r) \<Longrightarrow> reads (adv x (length s)) r"
  using adv_ext [of x "length s"] unread_fits [of x s r] by (simp add: reads_def unread_adv)

lemma reads_u32:
  assumes "reads x (bytes32 v @ r)"
  obtains y where "xdr_get_u32 x = (Some v, y)" "reads y r"
  using that [of "adv x 4"] reads_adv [OF assms] get_u32_enc [of x v r] assms by (simp add: reads_def)

lemma reads_bytes:
  assumes "reads x (enc_bytes p @ r)"
  obtains y where "xdr_get_bytes x = (Some p, y)" "reads y r"
proof -
  have "length p < 2 ^ 32" using assms unread_fits [of x "enc_bytes p" r] by (simp add: reads_def xdr_ok_def length_enc_bytes)
  then show thesis
    using that [of "adv x (length (enc_bytes p))"] reads_adv [OF assms] get_bytes_enc [of x p r] assms by (simp add: reads_def)
qed

lemma reads_string:
  assumes "reads x (enc_bytes p @ r)" and "is_cstr p" and "length p < m"
  obtains y where "xdr_get_string x m = (Some p, y)" "reads y r"
proof -
  from reads_bytes [OF assms(1)] obtain y where "xdr_get_bytes x = (Some p, y)" "reads y r" .
  then show thesis using assms(2,3) by (intro that [of y]) (simp_all add: xdr_get_string_def)
qed

lemma reads_fixed:
  assumes "reads x (p @ r)" and "length p = 32"
  obtains y where "xdr_get_fixed x 32 = (Some p, y)" "reads y r"
proof -
  have "padded p = p" using assms(2) by (simp add: padded_def npad_def)
  then show thesis
    using that [of "adv x 32"] reads_adv [OF assms(1)] get_fixed_enc [of x p r 32] assms by (simp add: reads_def)
qed

lemma wrote_init: "length b = 65536 \<Longrightarrow> wrote (xdr_init b 65536) []"
  by (simp add: wrote_def)

lemma wrote_app: "wrote x w \<Longrightarrow> length w + length s \<le> 65536 \<Longrightarrow> wrote (app x s) (w @ s)"
  using app_ext [of x s] written_app [of x s] length_written [of x] by (auto simp: wrote_def)

lemma wrote_u32: "wrote x w \<Longrightarrow> length w + 4 \<le> 65536 \<Longrightarrow>
    xdr_put_u32 x v = (True, app x (bytes32 v)) \<and> wrote (app x (bytes32 v)) (w @ bytes32 v)"
  using wrote_app [of x w "bytes32 v"] length_written [of x] by (auto simp: wrote_def xdr_put_u32_eq)

lemma wrote_fixed: "wrote x w \<Longrightarrow> length p = 32 \<Longrightarrow> length w + 32 \<le> 65536 \<Longrightarrow>
    xdr_put_fixed x p 32 = (True, app x p) \<and> wrote (app x p) (w @ p)"
  using wrote_app [of x w p] length_written [of x]
  by (auto simp: wrote_def xdr_put_fixed_eq padded_def npad_def)

lemma wrote_bytes: "wrote x w \<Longrightarrow> unat n = length p \<Longrightarrow> length w + length (enc_bytes p) \<le> 65536 \<Longrightarrow>
    xdr_put_bytes x p n = (True, app x (enc_bytes p)) \<and> wrote (app x (enc_bytes p)) (w @ enc_bytes p)"
  using wrote_app [of x w "enc_bytes p"] length_written [of x] by (auto simp: wrote_def xdr_put_bytes_eq)

section \<open>Properties\<close>

text \<open>
  C22. XDR messages round-trip.  Any sequence of unsigned, signed, variable and fixed opaque values is
  written without an error exactly when its encoding fits the buffer; what was written is the
  concatenation of the big-endian, zero-padded encodings; and reading it back with the same types
  returns the values and consumes the whole message.
\<close>

theorem xdr_round_trip:
  assumes "n \<le> length b" and "n \<le> 65536" and "\<forall>a \<in> set vs. xfits a"
    and "y = put_all put_val (xdr_init b n) vs"
  shows "(x_err y \<longleftrightarrow> n < length (concat (map xenc vs)))
    \<and> (\<not> x_err y \<longrightarrow> written y = concat (map xenc vs)
      \<and> get_all get_val (map xtype_of vs) (xdr_init (written y) (xdr_len y))
          = (Some vs, xdr_init (written y) (xdr_len y)\<lparr>x_pos := xdr_len y\<rparr>))"
  unfolding assms(4) using val.message_round_trip [OF assms(1-3)] by blast

text \<open>
  C23. Decoding any bytes and encoding any values stays within the buffer: whatever a datagram contains,
  a sequence of gets of any types, and a sequence of puts, leaves the position within the capacity and
  changes no byte before the starting position and none beyond the capacity; an error is never cleared.
\<close>

theorem xdr_stays_in_buffer:
  assumes "xdr_ok x" and "\<forall>a \<in> set vs. xfits a" and "y \<in> {snd (get_all get_val ts x), put_all put_val x vs}"
  shows "x_pos y \<le> x_cap y \<and> x_cap y = x_cap x \<and> length (x_buf y) = length (x_buf x)
    \<and> take (x_pos x) (x_buf y) = take (x_pos x) (x_buf x) \<and> drop (x_cap x) (x_buf y) = drop (x_cap x) (x_buf x)
    \<and> (x_err x \<longrightarrow> x_err y)"
proof -
  have "safe_step x y" using assms(2,3) safe_get_all safe_put_all by blast
  then show ?thesis using assms(1) by (simp add: safe_step_def xdr_ok_def xdr_ext_def)
qed

theorem xdr_round_trip_witness:
  "\<exists>y. y = put_all put_val (xdr_init (replicate 16 NUL) 16) [U32 7, Opaque ''abcde'']
    \<and> \<not> x_err y \<and> fst (get_all get_val [TU32, TOpaque] (xdr_init (written y) (xdr_len y))) = Some [U32 7, Opaque ''abcde'']"
proof (intro exI conjI, rule refl)
  let ?vs = "[U32 7, Opaque ''abcde'']" and ?y = "put_all put_val (xdr_init (replicate 16 NUL) 16) [U32 7, Opaque ''abcde'']"
  have l: "\<not> 16 < length (concat (map xenc ?vs))" by (simp add: length_enc_bytes npad_def)
  have h: "(x_err ?y \<longleftrightarrow> 16 < length (concat (map xenc ?vs)))
    \<and> (\<not> x_err ?y \<longrightarrow> written ?y = concat (map xenc ?vs)
      \<and> get_all get_val (map xtype_of ?vs) (xdr_init (written ?y) (xdr_len ?y))
          = (Some ?vs, xdr_init (written ?y) (xdr_len ?y)\<lparr>x_pos := xdr_len ?y\<rparr>))"
    by (rule xdr_round_trip [OF _ _ _ refl]) simp_all
  from h l show e: "\<not> x_err ?y" by blast
  from h e have "get_all get_val (map xtype_of ?vs) (xdr_init (written ?y) (xdr_len ?y))
      = (Some ?vs, xdr_init (written ?y) (xdr_len ?y)\<lparr>x_pos := xdr_len ?y\<rparr>)" by blast
  then show "fst (get_all get_val [TU32, TOpaque] (xdr_init (written ?y) (xdr_len ?y))) = Some ?vs"
    by (simp only: list.map xtype_of.simps fst_conv)
qed

theorem xdr_stays_in_buffer_witness:
  "x_pos (snd (get_all get_val [TU32, TOpaque] (xdr_init (replicate 8 (CHR ''x'')) 8))) \<le> 8"
proof -
  have "xdr_ok (xdr_init (replicate 8 (CHR ''x'')) 8)" by simp
  from xdr_stays_in_buffer [OF this, of "[]" "snd (get_all get_val [TU32, TOpaque] (xdr_init (replicate 8 (CHR ''x'')) 8))"
      "[TU32, TOpaque]"] show ?thesis by simp
qed

end
