(* ===== verification/Fsys.thy ===== *)
theory Fsys
  imports Xdr
begin

text \<open>
  What the NFS server sees of the file system: the system calls of \<^verbatim>\<open>nfsd/nfs.c\<close> and \<^verbatim>\<open>nfsd/handle.c\<close>
  as a record of functions on a state of any type, so that a statement for every record is one for every
  file system.  A call returns \<open>Inl\<close> of its \<^verbatim>\<open>errno\<close> or \<open>Inr\<close> of its result; one that can change the
  file system also returns the new state.  \<^verbatim>\<open>open\<close>, \<^verbatim>\<open>pread\<close> or \<^verbatim>\<open>pwrite\<close>, \<^verbatim>\<open>fstat\<close> and \<^verbatim>\<open>close\<close> on
  one descriptor are the single calls \<open>fs_pread\<close> and \<open>fs_pwrite\<close>; \<^verbatim>\<open>opendir\<close> with the
  \<^verbatim>\<open>readdir\<close> calls on it is \<open>fs_readdir\<close>, the names delivered and the \<^verbatim>\<open>errno\<close> of the call that
  returned no entry (0 at the end of the directory).
\<close>

type_synonym errno = nat

record stat =
  st_mode :: u32
  st_nlink :: nat
  st_uid :: nat
  st_gid :: nat
  st_size :: int
  st_blksize :: int
  st_rdev :: nat
  st_blocks :: int
  st_dev :: nat
  st_ino :: nat
  st_atime :: int
  st_atime_nsec :: nat
  st_mtime :: int
  st_mtime_nsec :: nat
  st_ctime :: int
  st_ctime_nsec :: nat

record statvfs =
  f_bsize :: nat
  f_blocks :: nat
  f_bfree :: nat
  f_bavail :: nat

record 'f fsops =
  fs_lstat :: "string \<Rightarrow> 'f \<Rightarrow> errno + stat"
  fs_stat :: "string \<Rightarrow> 'f \<Rightarrow> errno + stat"
  fs_readdir :: "string \<Rightarrow> 'f \<Rightarrow> errno + (string list \<times> errno)"
  fs_readlink :: "string \<Rightarrow> nat \<Rightarrow> 'f \<Rightarrow> errno + string"
  fs_statvfs :: "string \<Rightarrow> 'f \<Rightarrow> errno + statvfs"
  fs_pread :: "string \<Rightarrow> nat \<Rightarrow> nat \<Rightarrow> 'f \<Rightarrow> errno + (char list \<times> stat)"
  fs_pwrite :: "string \<Rightarrow> char list \<Rightarrow> nat \<Rightarrow> 'f \<Rightarrow> (errno + stat) \<times> 'f"
  fs_chmod :: "string \<Rightarrow> u32 \<Rightarrow> 'f \<Rightarrow> (errno + unit) \<times> 'f"
  fs_truncate :: "string \<Rightarrow> nat \<Rightarrow> 'f \<Rightarrow> (errno + unit) \<times> 'f"
  fs_mkdir :: "string \<Rightarrow> u32 \<Rightarrow> 'f \<Rightarrow> (errno + unit) \<times> 'f"
  fs_creat :: "string \<Rightarrow> u32 \<Rightarrow> 'f \<Rightarrow> (errno + unit) \<times> 'f"
  fs_unlink :: "string \<Rightarrow> 'f \<Rightarrow> (errno + unit) \<times> 'f"
  fs_rmdir :: "string \<Rightarrow> 'f \<Rightarrow> (errno + unit) \<times> 'f"
  fs_rename :: "string \<Rightarrow> string \<Rightarrow> 'f \<Rightarrow> (errno + unit) \<times> 'f"
  fs_link :: "string \<Rightarrow> string \<Rightarrow> 'f \<Rightarrow> (errno + unit) \<times> 'f"
  fs_symlink :: "string \<Rightarrow> string \<Rightarrow> 'f \<Rightarrow> (errno + unit) \<times> 'f"

section \<open>File types\<close>

definition s_ifmt :: "u32 \<Rightarrow> u32" where
  "s_ifmt m = m AND 0xF000"

abbreviation S_ISREG :: "u32 \<Rightarrow> bool" where "S_ISREG m \<equiv> s_ifmt m = 0x8000"
abbreviation S_ISDIR :: "u32 \<Rightarrow> bool" where "S_ISDIR m \<equiv> s_ifmt m = 0x4000"
abbreviation S_ISBLK :: "u32 \<Rightarrow> bool" where "S_ISBLK m \<equiv> s_ifmt m = 0x6000"
abbreviation S_ISCHR :: "u32 \<Rightarrow> bool" where "S_ISCHR m \<equiv> s_ifmt m = 0x2000"
abbreviation S_ISLNK :: "u32 \<Rightarrow> bool" where "S_ISLNK m \<equiv> s_ifmt m = 0xA000"

section \<open>Paths of the export\<close>

text \<open>A component of a path, and the path of components below a directory.\<close>

definition comp_ok :: "string \<Rightarrow> bool" where
  "comp_ok c \<longleftrightarrow> c \<noteq> [] \<and> CHR ''/'' \<notin> set c \<and> c \<noteq> ''.'' \<and> c \<noteq> ''..''"

fun slashed :: "string list \<Rightarrow> string" where
  "slashed [] = []"
| "slashed (c # cs) = CHR ''/'' # c @ slashed cs"

text \<open>An export root: absolute, not \<^verbatim>\<open>/\<close> itself, without a trailing slash.\<close>

definition root_ok :: "string \<Rightarrow> bool" where
  "root_ok R \<longleftrightarrow> R \<noteq> [] \<and> hd R = CHR ''/'' \<and> last R \<noteq> CHR ''/'' \<and> length R < 1024 \<and> is_cstr R"

definition confined :: "string \<Rightarrow> string \<Rightarrow> bool" where
  "confined R p \<longleftrightarrow> (\<exists>cs. p = R @ slashed cs \<and> (\<forall>c \<in> set cs. comp_ok c))"

text \<open>POSIX: the name in a directory entry is a non-empty component.\<close>

definition names_ok :: "'f fsops \<Rightarrow> bool" where
  "names_ok F \<longleftrightarrow> (\<forall>p f ns e. fs_readdir F p f = Inr (ns, e) \<longrightarrow> (\<forall>n \<in> set ns. n \<noteq> [] \<and> CHR ''/'' \<notin> set n))"

lemma slashed_append: "slashed (cs @ ds) = slashed cs @ slashed ds"
  by (induction cs) simp_all

lemma confined_root [simp, intro]: "confined R R"
  unfolding confined_def by (rule exI [of _ "[]"]) simp

lemma confined_child [intro]: "confined R p \<Longrightarrow> comp_ok c \<Longrightarrow> confined R (p @ CHR ''/'' # c)"
  unfolding confined_def
proof (elim exE conjE)
  fix cs assume "p = R @ slashed cs" "\<forall>c \<in> set cs. comp_ok c" "comp_ok c"
  then show "\<exists>ds. p @ CHR ''/'' # c = R @ slashed ds \<and> (\<forall>c \<in> set ds. comp_ok c)"
    by (intro exI [of _ "cs @ [c]"]) (auto simp: slashed_append)
qed

text \<open>A confined path below the root is a confined path with one more component.\<close>

lemma confined_parent:
  assumes "confined R p" and "p \<noteq> R"
  obtains d c where "p = d @ CHR ''/'' # c" "confined R d" "comp_ok c"
proof -
  from assms(1) obtain cs where p: "p = R @ slashed cs" and ok: "\<forall>c \<in> set cs. comp_ok c"
    by (auto simp: confined_def)
  with assms(2) have "cs \<noteq> []" by auto
  then have cs: "cs = butlast cs @ [last cs]" by simp
  then have "p = (R @ slashed (butlast cs)) @ CHR ''/'' # last cs"
    unfolding p by (metis append.assoc append.right_neutral slashed.simps slashed_append)
  moreover have "confined R (R @ slashed (butlast cs))"
    using ok by (auto simp: confined_def dest: in_set_butlastD)
  moreover have "comp_ok (last cs)" using ok \<open>cs \<noteq> []\<close> by simp
  ultimately show thesis by (rule that)
qed

lemma confined_last: "root_ok R \<Longrightarrow> confined R p \<Longrightarrow> p \<noteq> [] \<and> last p \<noteq> CHR ''/''"
proof (cases "p = R")
  case False
  assume "root_ok R" "confined R p"
  from confined_parent [OF this(2) False] obtain d c where "p = d @ CHR ''/'' # c" "comp_ok c" by blast
  then show ?thesis by (cases c rule: rev_cases) (auto simp: comp_ok_def)
qed (simp add: root_ok_def)

end
