(* ===== verification/Handle.thy ===== *)
theory Handle
  imports Fsys
begin

text \<open>
  \<^verbatim>\<open>nfsd/handle.c\<close>: the table of interned paths behind the file handles.  The parallel arrays
  \<^verbatim>\<open>g_paths\<close>, \<^verbatim>\<open>g_hi\<close> and \<^verbatim>\<open>g_lo\<close> are one list of triples.  \<^verbatim>\<open>unsigned long\<close> is a 64-bit word, as on the
  Linux hosts the server is for.  \<open>h_mem\<close> is what the coming calls of \<^verbatim>\<open>malloc\<close> and \<^verbatim>\<open>realloc\<close> return:
  \<open>False\<close> for NULL, success after the end of the list.
\<close>

type_synonym ulong = "64 word"

record htab =
  h_paths :: "(string \<times> ulong \<times> ulong) list"
  h_cap :: nat
  h_root :: string
  h_rebuilt :: bool
  h_mem :: "bool list"

definition h_empty :: "bool list \<Rightarrow> htab" where
  "h_empty m = \<lparr>h_paths = [], h_cap = 0, h_root = [], h_rebuilt = False, h_mem = m\<rparr>"

abbreviation FH_MAGIC :: ulong where "FH_MAGIC \<equiv> 0x47465348"
abbreviation (input) NFS_FHSIZE :: nat where "NFS_FHSIZE \<equiv> 32"

section \<open>Root and hashes\<close>

text \<open>\<^verbatim>\<open>while (n > 1 && g_root[n - 1] == '/') g_root[--n] = 0\<close>, on the reversed string.\<close>

fun drop_slashes :: "string \<Rightarrow> string" where
  "drop_slashes (a # b # s) = (if a = CHR ''/'' then drop_slashes (b # s) else a # b # s)"
| "drop_slashes s = s"

definition strip_slashes :: "string \<Rightarrow> string" where
  "strip_slashes s = rev (drop_slashes (rev s))"

definition fh_set_root :: "string \<Rightarrow> htab \<Rightarrow> htab" where
  "fh_set_root root h = h\<lparr>h_root := strip_slashes (take 1023 root)\<rparr>"

definition relpath :: "htab \<Rightarrow> string \<Rightarrow> string" where
  "relpath h path =
     (if h_root h \<noteq> [] \<and> take (length (h_root h)) path = h_root h
      then dropWhile (\<lambda>c. c = CHR ''/'') (drop (length (h_root h)) path) else path)"

fun hash64_loop :: "ulong \<Rightarrow> ulong \<Rightarrow> string \<Rightarrow> ulong \<times> ulong" where
  "hash64_loop h1 h2 [] = (h1 AND 0xFFFFFFFF, h2 AND 0xFFFFFFFF)"
| "hash64_loop h1 h2 (c # s) =
     (let h1' = ((h1 XOR of_char c) * 16777619) AND 0xFFFFFFFF;
          h2' = ((h2 + of_char c) * 2246822519) AND 0xFFFFFFFF
      in hash64_loop h1' (h2' XOR drop_bit 13 h1') s)"

definition hash64 :: "string \<Rightarrow> ulong \<times> ulong" where
  "hash64 s = hash64_loop 0x811C9DC5 0x01000193 s"

fun hash_loop :: "ulong \<Rightarrow> string \<Rightarrow> ulong" where
  "hash_loop h [] = h"
| "hash_loop h (c # s) = hash_loop ((push_bit 5 h + h) XOR of_char c) s"

definition hash_str :: "string \<Rightarrow> ulong" where
  "hash_str s = hash_loop 5381 s"

definition put_be32 :: "char list \<Rightarrow> nat \<Rightarrow> ulong \<Rightarrow> char list" where
  "put_be32 p i v = poke p i (bytes32 (ucast v))"

definition get_be32 :: "char list \<Rightarrow> nat \<Rightarrow> ulong" where
  "get_be32 p i = push_bit 24 (of_char (p ! i)) OR push_bit 16 (of_char (p ! (i + 1)))
     OR push_bit 8 (of_char (p ! (i + 2))) OR of_char (p ! (i + 3))"

section \<open>The table\<close>

definition h_alloc :: "htab \<Rightarrow> bool \<times> htab" where
  "h_alloc h = (case h_mem h of [] \<Rightarrow> (True, h) | b # bs \<Rightarrow> (b, h\<lparr>h_mem := bs\<rparr>))"

text \<open>The linear search of \<^verbatim>\<open>intern\<close>, from an index.\<close>

fun path_index :: "nat \<Rightarrow> string \<Rightarrow> (string \<times> ulong \<times> ulong) list \<Rightarrow> nat option" where
  "path_index i path [] = None"
| "path_index i path (e # es) = (if fst e = path then Some i else path_index (Suc i) path es)"

text \<open>The growth of the three arrays: \<open>False\<close> when one of the calls failed.\<close>

definition h_grow :: "htab \<Rightarrow> bool \<times> htab" where
  "h_grow h =
     (case h_alloc h of (ok1, h1) \<Rightarrow> if \<not> ok1 then (False, h1) else
      case h_alloc h1 of (ok2, h2) \<Rightarrow> if \<not> ok2 then (False, h2) else
      case h_alloc h2 of (ok3, h3) \<Rightarrow> if \<not> ok3 then (False, h3) else
      (True, h3\<lparr>h_cap := if h_cap h = 0 then 64 else h_cap h * 2\<rparr>))"

definition intern :: "string \<Rightarrow> htab \<Rightarrow> nat option \<times> htab" where
  "intern path h =
     (case path_index 0 path (h_paths h) of
        Some i \<Rightarrow> (Some i, h)
      | None \<Rightarrow>
          (case (if length (h_paths h) \<ge> h_cap h then h_grow h else (True, h)) of (ok, h1) \<Rightarrow>
             if \<not> ok then (None, h1)
             else (case h_alloc h1 of (ok2, h2) \<Rightarrow>
               if \<not> ok2 then (None, h2)
               else (Some (length (h_paths h2)), h2\<lparr>h_paths := h_paths h2 @ [(path, hash64 (relpath h2 path))]\<rparr>))))"

definition fh_from_path :: "string \<Rightarrow> htab \<Rightarrow> char list option \<times> htab" where
  "fh_from_path path h =
     (case intern path h of
        (None, h1) \<Rightarrow> (None, h1)
      | (Some i, h1) \<Rightarrow>
          let fh0 = replicate NFS_FHSIZE NUL;
              fh1 = put_be32 fh0 0 (of_nat i);
              fh2 = put_be32 fh1 4 FH_MAGIC;
              fh3 = put_be32 fh2 8 (hash_str path);
              fh4 = put_be32 fh3 12 (fst (snd (h_paths h1 ! i)));
              fh5 = put_be32 fh4 16 (snd (snd (h_paths h1 ! i)))
          in (Some fh5, h1))"

section \<open>The walk of the export\<close>

definition walk_child :: "string \<Rightarrow> string \<Rightarrow> string" where
  "walk_child dir name = (if last dir \<noteq> CHR ''/'' then dir @ ''/'' else dir) @ name"

text \<open>The entries of a directory; \<open>sub\<close> is the recursive call on a subdirectory.\<close>

fun rebuild_loop :: "'f fsops \<Rightarrow> 'f \<Rightarrow> (string \<Rightarrow> htab \<Rightarrow> htab) \<Rightarrow> string \<Rightarrow> string list \<Rightarrow> htab \<Rightarrow> htab" where
  "rebuild_loop F f sub dir [] h = h"
| "rebuild_loop F f sub dir (name # names) h =
     (if name = ''.'' \<or> name = ''..'' \<or> length dir + length name + 2 > 1024 then rebuild_loop F f sub dir names h
      else let child = walk_child dir name in
        case intern child h of
          (None, h1) \<Rightarrow> h1
        | (Some _, h1) \<Rightarrow>
            rebuild_loop F f sub dir names
              (case fs_lstat F child f of Inl _ \<Rightarrow> h1 | Inr st \<Rightarrow> if S_ISDIR (st_mode st) then sub child h1 else h1))"

text \<open>The first argument counts the levels below the depth guard: \<^verbatim>\<open>depth > 32\<close> is level 0.\<close>

fun rebuild_dir :: "nat \<Rightarrow> 'f fsops \<Rightarrow> 'f \<Rightarrow> string \<Rightarrow> htab \<Rightarrow> htab" where
  "rebuild_dir 0 F f dir h = h"
| "rebuild_dir (Suc lv) F f dir h =
     (case fs_readdir F dir f of
        Inl _ \<Rightarrow> h
      | Inr (names, _) \<Rightarrow> rebuild_loop F f (rebuild_dir lv F f) dir names h)"

definition rebuild :: "'f fsops \<Rightarrow> 'f \<Rightarrow> htab \<Rightarrow> htab" where
  "rebuild F f h =
     (if h_rebuilt h \<or> h_root h = [] then h
      else let h1 = h\<lparr>h_rebuilt := True\<rparr> in rebuild_dir 33 F f (h_root h1) (snd (intern (h_root h1) h1)))"

section \<open>Resolving a handle\<close>

fun hash_find :: "ulong \<Rightarrow> ulong \<Rightarrow> (string \<times> ulong \<times> ulong) list \<Rightarrow> string option" where
  "hash_find hi lo [] = None"
| "hash_find hi lo (e # es) = (if snd e = (hi, lo) then Some (fst e) else hash_find hi lo es)"

text \<open>The loop \<^verbatim>\<open>for (;;)\<close>: \<open>None\<close> when it never ends.\<close>

partial_function (option) fh_search :: "'f fsops \<Rightarrow> 'f \<Rightarrow> ulong \<Rightarrow> ulong \<Rightarrow> htab \<Rightarrow> (string option \<times> htab) option" where
  "fh_search F f hi lo h =
     (case hash_find hi lo (h_paths h) of
        Some p \<Rightarrow> Some (Some p, h)
      | None \<Rightarrow> if h_rebuilt h then Some (None, h) else fh_search F f hi lo (rebuild F f h))"

definition fh_to_path :: "'f fsops \<Rightarrow> 'f \<Rightarrow> char list \<Rightarrow> htab \<Rightarrow> (string option \<times> htab) option" where
  "fh_to_path F f fh h =
     (if get_be32 fh 4 \<noteq> FH_MAGIC then Some (None, h)
      else let idx = unat (get_be32 fh 0) in
        if idx < length (h_paths h) \<and> get_be32 fh 8 = hash_str (fst (h_paths h ! idx)) AND 0xFFFFFFFF
        then Some (Some (fst (h_paths h ! idx)), h)
        else let hi = get_be32 fh 12; lo = get_be32 fh 16 in
          if hi = 0 \<and> lo = 0 then Some (None, h) else fh_search F f hi lo h)"

section \<open>Interning\<close>

text \<open>A table grows: the entries stay at their places.\<close>

definition h_ext :: "htab \<Rightarrow> htab \<Rightarrow> bool" where
  "h_ext h h' \<longleftrightarrow> h_root h' = h_root h \<and> (\<exists>es. h_paths h' = h_paths h @ es)"

lemma h_ext_refl [simp]: "h_ext h h"
  by (simp add: h_ext_def)

lemma h_ext_trans: "h_ext a b \<Longrightarrow> h_ext b c \<Longrightarrow> h_ext a c"
  by (auto simp: h_ext_def)

text \<open>Every entry carries the hash of its path and no path occurs twice.\<close>

definition h_wf :: "htab \<Rightarrow> bool" where
  "h_wf h \<longleftrightarrow> distinct (map fst (h_paths h)) \<and> (\<forall>e \<in> set (h_paths h). snd e = hash64 (relpath h (fst e)))"

lemma relpath_cong: "h_root h' = h_root h \<Longrightarrow> relpath h' = relpath h"
  by (rule ext) (simp add: relpath_def)

text \<open>Two tables that differ at most in their memory.\<close>

definition h_same :: "htab \<Rightarrow> htab \<Rightarrow> bool" where
  "h_same h h' \<longleftrightarrow> h_paths h' = h_paths h \<and> h_root h' = h_root h \<and> h_rebuilt h' = h_rebuilt h"

lemma h_same_trans: "h_same a b \<Longrightarrow> h_same b c \<Longrightarrow> h_same a c"
  by (simp add: h_same_def)

lemma h_same_simps [simp]: "h_same h h" "h_same a (b\<lparr>h_cap := n\<rparr>) = h_same a b" "h_same a (b\<lparr>h_mem := m\<rparr>) = h_same a b"
  by (simp_all add: h_same_def)

lemma h_alloc_same: "h_alloc h = (b, h') \<Longrightarrow> h_same h h'"
  by (auto simp: h_alloc_def split: list.splits)

lemma h_grow_same: "h_grow h = (b, h') \<Longrightarrow> h_same h h'"
  by (auto simp: h_grow_def split: prod.splits if_splits dest!: h_alloc_same intro: h_same_trans)

lemma path_index_Some: "path_index i path es = Some j \<Longrightarrow> i \<le> j \<and> j < i + length es \<and> fst (es ! (j - i)) = path"
proof (induction es arbitrary: i)
  case (Cons e es)
  show ?case
  proof (cases "fst e = path")
    case False
    with Cons.prems have "path_index (Suc i) path es = Some j" by simp
    from Cons.IH [OF this] show ?thesis by (auto simp: nth_Cons' Suc_diff_le)
  qed (use Cons.prems in auto)
qed simp

lemma path_index_None: "path_index i path es = None \<longleftrightarrow> path \<notin> fst ` set es"
  by (induction es arbitrary: i) auto

text \<open>Interning finds the path or appends it; without memory it changes nothing that is visible.\<close>

lemma intern_cases:
  assumes "intern path h = (r, h')"
  obtains (found) i where "r = Some i" "h' = h" "i < length (h_paths h)" "fst (h_paths h ! i) = path"
  | (nomem) "r = None" "h_same h h'" "path \<notin> fst ` set (h_paths h)"
  | (fresh) "r = Some (length (h_paths h))" "h_paths h' = h_paths h @ [(path, hash64 (relpath h path))]"
      "h_root h' = h_root h" "h_rebuilt h' = h_rebuilt h" "path \<notin> fst ` set (h_paths h)"
proof (cases "path_index 0 path (h_paths h)")
  case (Some i)
  then have "r = Some i" "h' = h" using assms by (simp_all add: intern_def)
  moreover have "i < length (h_paths h)" "fst (h_paths h ! i) = path" using path_index_Some [OF Some] by simp_all
  ultimately show thesis by (rule found)
next
  case None
  then have new: "path \<notin> fst ` set (h_paths h)" by (simp add: path_index_None)
  obtain ok h1 where g: "(if length (h_paths h) \<ge> h_cap h then h_grow h else (True, h)) = (ok, h1)" by fastforce
  then have s1: "h_same h h1" by (auto dest: h_grow_same split: if_splits)
  show thesis
  proof (cases ok)
    case False
    then show thesis using assms None g nomem s1 new by (simp add: intern_def)
  next
    case True
    obtain ok2 h2 where a: "h_alloc h1 = (ok2, h2)" by fastforce
    have s2: "h_same h h2" using h_alloc_same [OF a] s1 by (rule h_same_trans [rotated])
    then have "relpath h2 path = relpath h path" by (simp add: relpath_def h_same_def)
    then have i: "intern path h = (if \<not> ok2 then (None, h2) else (Some (length (h_paths h2)),
        h2\<lparr>h_paths := h_paths h2 @ [(path, hash64 (relpath h path))]\<rparr>))"
      using None g a True by (simp add: intern_def)
    show thesis
    proof (cases ok2)
      case True
      with i assms s2 have "r = Some (length (h_paths h))"
        "h' = h2\<lparr>h_paths := h_paths h @ [(path, hash64 (relpath h path))]\<rparr>" by (simp_all add: h_same_def)
      then show thesis using s2 new by (intro fresh) (simp_all add: h_same_def)
    next
      case False
      with i assms s2 new show thesis by (intro nomem) simp_all
    qed
  qed
qed

lemma intern_ext: "intern path h = (r, h') \<Longrightarrow> h_ext h h' \<and> h_rebuilt h' = h_rebuilt h"
  by (erule intern_cases) (simp_all add: h_ext_def h_same_def)

lemma intern_index: "intern path h = (Some i, h') \<Longrightarrow> i < length (h_paths h') \<and> fst (h_paths h' ! i) = path"
  by (erule intern_cases) (simp_all add: nth_append)

lemma intern_paths: "intern path h = (r, h') \<Longrightarrow> fst ` set (h_paths h') \<subseteq> insert path (fst ` set (h_paths h))"
  by (erule intern_cases) (auto simp: h_same_def)

lemma intern_wf:
  assumes "intern path h = (r, h')" and "h_wf h"
  shows "h_wf h'"
proof -
  have "relpath h' = relpath h" 
    using intern_ext [OF assms(1)] by (intro relpath_cong) (simp add: h_ext_def)
  then have rel: "h_wf h' \<longleftrightarrow> distinct (map fst (h_paths h')) \<and> (\<forall>e \<in> set (h_paths h'). snd e = hash64 (relpath h (fst e)))"
    by (simp add: h_wf_def)
  from assms(1) show ?thesis
  proof (cases rule: intern_cases)
    case fresh
    then show ?thesis unfolding rel using assms(2) by (simp add: h_wf_def)
  qed (use assms(2) rel in \<open>simp_all add: h_wf_def h_same_def\<close>)
qed

lemma intern_mem: "h_mem h = [] \<Longrightarrow> \<exists>i h'. intern path h = (Some i, h') \<and> h_mem h' = []"
  by (auto simp: intern_def h_grow_def h_alloc_def split: option.split)

section \<open>The bytes of a handle\<close>

lemma of_char_char_of_word64: "(of_char (char_of (unat w)) :: ulong) = take_bit 8 (ucast w)"
  for w :: u32
proof -
  have "(of_char (char_of (unat w)) :: ulong) = of_nat (of_char (char_of (unat w)))"
    by (simp only: of_nat_of_char)
  also have "\<dots> = of_nat (take_bit 8 (unat w))"
    by (simp only: of_char_of take_bit_eq_mod) simp
  also have "\<dots> = ucast (take_bit 8 w)"
    by (simp flip: unsigned_take_bit_eq)
  finally show ?thesis by (simp add: unsigned_take_bit_eq)
qed

lemma get_be32_bytes32 [simp]: "get_be32 (a @ bytes32 v @ r) (length a) = ucast v"
proof -
  have 1: "(a @ bytes32 v @ r) ! (length a + k) = bytes32 v ! k" if "k < 4" for k
    using that by (simp add: nth_append)
  from 1 [of 0] 1 [of 1] 1 [of 2] 1 [of 3] have "get_be32 (a @ bytes32 v @ r) (length a) =
    push_bit 24 (take_bit 8 (ucast (drop_bit 24 v))) OR push_bit 16 (take_bit 8 (ucast (drop_bit 16 v)))
     OR push_bit 8 (take_bit 8 (ucast (drop_bit 8 v))) OR take_bit 8 (ucast v)"
    by (simp add: get_be32_def bytes32_def of_char_char_of_word64)
  also have "\<dots> = ucast v"
  proof (rule bit_word_eqI)
    fix n assume "n < LENGTH(64)"
    then consider "n < 8" | "8 \<le> n" "n < 16" | "16 \<le> n" "n < 24" | "24 \<le> n" "n < 32" | "32 \<le> n" by force
    then show "bit (push_bit 24 (take_bit 8 (ucast (drop_bit 24 v))) OR push_bit 16 (take_bit 8 (ucast (drop_bit 16 v)))
        OR push_bit 8 (take_bit 8 (ucast (drop_bit 8 v))) OR take_bit 8 (ucast v) :: ulong) n = bit (ucast v :: ulong) n"
      by cases (auto simp: bit_simps dest: bit_imp_le_length)
  qed
  finally show ?thesis .
qed

lemma and_low32: "x AND 0xFFFFFFFF = take_bit 32 x" for x :: ulong
  by (simp add: take_bit_eq_mask mask_eq_exp_minus_1)

lemma ucast_ucast_low32: "ucast (ucast x :: u32) = take_bit 32 x" for x :: ulong
  by (rule bit_word_eqI) (auto simp: bit_simps)

definition fh_bytes :: "nat \<Rightarrow> string \<Rightarrow> ulong \<times> ulong \<Rightarrow> char list" where
  "fh_bytes i p hs = bytes32 (of_nat i) @ bytes32 (ucast FH_MAGIC) @ bytes32 (ucast (hash_str p))
     @ bytes32 (ucast (fst hs)) @ bytes32 (ucast (snd hs)) @ replicate 12 NUL"

lemma poke_append: "length a = i \<Longrightarrow> poke (a @ b) i s = a @ s @ drop (length s) b"
  by (simp add: poke_def)

lemma fh_from_path_eq: "fh_from_path path h =
    (case intern path h of (None, h1) \<Rightarrow> (None, h1) | (Some i, h1) \<Rightarrow> (Some (fh_bytes i path (snd (h_paths h1 ! i))), h1))"
proof -
  have u: "ucast (of_nat i :: ulong) = (of_nat i :: u32)" for i
    by (rule bit_word_eqI) (auto simp: bit_simps)
  have "put_be32 (put_be32 (put_be32 (put_be32 (put_be32 (replicate 32 NUL) 0 v0) 4 v1) 8 v2) 12 v3) 16 v4
     = bytes32 (ucast v0) @ bytes32 (ucast v1) @ bytes32 (ucast v2) @ bytes32 (ucast v3) @ bytes32 (ucast v4) @ replicate 12 NUL"
    for v0 v1 v2 v3 v4
  proof -
    have "put_be32 (replicate 32 NUL) 0 v0 = bytes32 (ucast v0) @ replicate 28 NUL"
      by (simp add: put_be32_def poke_def)
    then show ?thesis
      by (simp add: put_be32_def poke_append [where a = "bytes32 _"]
        poke_append [where a = "bytes32 _ @ bytes32 _", simplified]
        poke_append [where a = "bytes32 _ @ bytes32 _ @ bytes32 _", simplified]
        poke_append [where a = "bytes32 _ @ bytes32 _ @ bytes32 _ @ bytes32 _", simplified])
  qed
  then show ?thesis
    by (simp add: fh_from_path_def fh_bytes_def u split: option.split prod.split)
qed

lemma fh_bytes_get [simp]:
  "get_be32 (fh_bytes i p hs) 0 = ucast (of_nat i :: u32)" "get_be32 (fh_bytes i p hs) 4 = FH_MAGIC"
  "get_be32 (fh_bytes i p hs) 8 = hash_str p AND 0xFFFFFFFF"
  "get_be32 (fh_bytes i p hs) 12 = take_bit 32 (fst hs)" "get_be32 (fh_bytes i p hs) 16 = take_bit 32 (snd hs)"
  using get_be32_bytes32 [of "[]"] get_be32_bytes32 [of "bytes32 _"]
    get_be32_bytes32 [of "bytes32 _ @ bytes32 _"] get_be32_bytes32 [of "bytes32 _ @ bytes32 _ @ bytes32 _"]
    get_be32_bytes32 [of "bytes32 _ @ bytes32 _ @ bytes32 _ @ bytes32 _"]
  by (simp_all add: fh_bytes_def ucast_ucast_low32 and_low32)

lemma length_fh_bytes [simp]: "length (fh_bytes i p hs) = 32"
  by (simp add: fh_bytes_def)

lemma hash64_low32: "hash64 s = (hi, lo) \<Longrightarrow> take_bit 32 hi = hi \<and> take_bit 32 lo = lo"
proof -
  have "take_bit 32 (fst (hash64_loop a b s)) = fst (hash64_loop a b s)
      \<and> take_bit 32 (snd (hash64_loop a b s)) = snd (hash64_loop a b s)" for a b
    by (induction s arbitrary: a b) (simp_all add: and_low32 Let_def)
  moreover assume "hash64 s = (hi, lo)"
  ultimately show ?thesis unfolding hash64_def by (metis fst_conv snd_conv)
qed

section \<open>What the walk does\<close>

text \<open>What interning keeps, the walk keeps.\<close>

lemma rebuild_loop_keeps:
  assumes "\<And>path h r h'. Q path \<Longrightarrow> P h \<Longrightarrow> intern path h = (r, h') \<Longrightarrow> P h'"
    and "\<And>n. n \<in> set ns \<Longrightarrow> n \<noteq> ''.'' \<Longrightarrow> n \<noteq> ''..'' \<Longrightarrow> Q (walk_child dir n)"
    and "\<And>d h. Q d \<Longrightarrow> P h \<Longrightarrow> P (sub d h)" and "P h"
  shows "P (rebuild_loop F f sub dir ns h)"
  using assms(2,4)
proof (induction ns arbitrary: h)
  case (Cons n ns)
  show ?case
  proof (cases "n = ''.'' \<or> n = ''..'' \<or> length dir + length n + 2 > 1024")
    case False
    obtain r h1 where i: "intern (walk_child dir n) h = (r, h1)" by fastforce
    from False have q: "Q (walk_child dir n)" using Cons.prems(1) by simp
    with i Cons.prems(2) have "P h1" using assms(1) by blast
    with q assms(3) have "P (case fs_lstat F (walk_child dir n) f of Inl _ \<Rightarrow> h1
        | Inr st \<Rightarrow> if S_ISDIR (st_mode st) then sub (walk_child dir n) h1 else h1)"
      by (simp split: sum.split)
    with False i \<open>P h1\<close> show ?thesis using Cons.IH Cons.prems(1) by (cases r) (simp_all add: Let_def)
  qed (use Cons in simp)
qed simp

lemma rebuild_dir_keeps:
  assumes "\<And>path h r h'. Q path \<Longrightarrow> P h \<Longrightarrow> intern path h = (r, h') \<Longrightarrow> P h'"
    and "\<And>d n ns e. Q d \<Longrightarrow> fs_readdir F d f = Inr (ns, e) \<Longrightarrow> n \<in> set ns \<Longrightarrow> n \<noteq> ''.'' \<Longrightarrow> n \<noteq> ''..'' \<Longrightarrow> Q (walk_child d n)"
    and "Q dir" and "P h"
  shows "P (rebuild_dir lv F f dir h)"
  using assms(3,4)
proof (induction lv arbitrary: dir h)
  case (Suc lv)
  show ?case
  proof (cases "fs_readdir F dir f")
    case (Inr r)
    then obtain ns e where r: "fs_readdir F dir f = Inr (ns, e)" by (cases r) auto
    have "P (rebuild_loop F f (rebuild_dir lv F f) dir ns h)"
      using assms(1) assms(2) [OF Suc.prems(1) r] Suc.IH Suc.prems(2) by (rule rebuild_loop_keeps)
    with r show ?thesis by simp
  qed (use Suc in simp)
qed simp

lemma rebuild_dir_ext: "h_ext h (rebuild_dir lv F f dir h) \<and> h_rebuilt (rebuild_dir lv F f dir h) = h_rebuilt h"
  by (rule rebuild_dir_keeps [where Q = "\<lambda>_. True" and P = "\<lambda>h'. h_ext h h' \<and> h_rebuilt h' = h_rebuilt h"])
    (auto dest: intern_ext intro: h_ext_trans)

lemma rebuild_dir_wf: "h_wf h \<Longrightarrow> h_wf (rebuild_dir lv F f dir h)"
  by (rule rebuild_dir_keeps [where Q = "\<lambda>_. True"]) (auto intro: intern_wf)

lemma rebuild_ext: "h_ext h (rebuild F f h)"
proof -
  let ?h = "h\<lparr>h_rebuilt := True\<rparr>"
  have "h_ext ?h (snd (intern (h_root h) ?h))" using intern_ext [of "h_root h" ?h] by (metis prod.collapse)
  then have "h_ext h (snd (intern (h_root h) ?h))" by (simp add: h_ext_def)
  then show ?thesis by (auto simp: rebuild_def Let_def rebuild_dir_ext intro: h_ext_trans)
qed

lemma rebuild_rebuilt: "h_root h \<noteq> [] \<Longrightarrow> h_rebuilt (rebuild F f h)"
  using intern_ext [of "h_root h" "h\<lparr>h_rebuilt := True\<rparr>"]
  by (cases "intern (h_root h) (h\<lparr>h_rebuilt := True\<rparr>)") (simp add: rebuild_def Let_def rebuild_dir_ext)

lemma rebuild_wf: "h_wf h \<Longrightarrow> h_wf (rebuild F f h)"
proof -
  assume w: "h_wf h"
  have "h_wf (h\<lparr>h_rebuilt := True\<rparr>)" using w by (simp add: h_wf_def relpath_def)
  then have "h_wf (snd (intern (h_root h) (h\<lparr>h_rebuilt := True\<rparr>)))"
    using intern_wf by (metis prod.collapse)
  then show ?thesis using w by (simp add: rebuild_def Let_def rebuild_dir_wf)
qed

lemma walk_child_confined: "root_ok R \<Longrightarrow> confined R d \<Longrightarrow> walk_child d n = d @ CHR ''/'' # n"
  using confined_last [of R d] by (simp add: walk_child_def)

text \<open>The walk interns paths of the export only.\<close>

lemma rebuild_confined:
  assumes "root_ok R" and "names_ok F" and "h_root h = R" and "\<forall>p \<in> fst ` set (h_paths h). confined R p"
  shows "\<forall>p \<in> fst ` set (h_paths (rebuild F f h)). confined R p"
proof (cases "h_rebuilt h")
  case True
  then show ?thesis using assms(4) by (simp add: rebuild_def)
next
  case False
  let ?P = "\<lambda>h. \<forall>p \<in> fst ` set (h_paths h). confined R p" and ?h = "h\<lparr>h_rebuilt := True\<rparr>"
  have keep: "?P h'" if "confined R path" "?P h" "intern path h = (r, h')" for path h r h'
    using intern_paths [OF that(3)] that(1,2) by blast
  obtain r h1 where i: "intern R ?h = (r, h1)" by fastforce
  have "?P h1" by (rule keep [OF _ _ i]) (use assms(4) in auto)
  have child: "confined R (walk_child d n)"
    if "confined R d" "fs_readdir F d f = Inr (ns, e)" "n \<in> set ns" "n \<noteq> ''.''" "n \<noteq> ''..''" for d n ns e
  proof -
    have "n \<noteq> [] \<and> CHR ''/'' \<notin> set n" using assms(2) that(2,3) unfolding names_ok_def by blast
    then have "comp_ok n" using that(4,5) by (simp add: comp_ok_def)
    then show ?thesis using that(1) assms(1) by (simp add: walk_child_confined confined_child)
  qed
  have "?P (rebuild_dir 33 F f R h1)"
    using keep child confined_root \<open>?P h1\<close> by (rule rebuild_dir_keeps)
  then show ?thesis using False i assms(1,3) by (simp add: rebuild_def root_ok_def)
qed

text \<open>With a root, the search loop ends: it walks the export at most once.\<close>

lemma fh_search_eq:
  assumes "h_root h \<noteq> []"
  shows "fh_search F f hi lo h = Some
    (if hash_find hi lo (h_paths h) = None \<and> \<not> h_rebuilt h
     then (hash_find hi lo (h_paths (rebuild F f h)), rebuild F f h) else (hash_find hi lo (h_paths h), h))"
  using rebuild_rebuilt [OF assms, of F f]
  by (simp add: fh_search.simps [of F f hi lo h] fh_search.simps [of F f hi lo "rebuild F f h"] split: option.split)

lemma hash_find_Some: "hash_find hi lo es = Some p \<Longrightarrow> (p, hi, lo) \<in> set es"
  by (induction es) (auto split: if_splits)

lemma hash_find_None: "hash_find hi lo es = None \<longleftrightarrow> (hi, lo) \<notin> snd ` set es"
  by (induction es) auto

lemma fh_to_path_total:
  assumes "h_root h \<noteq> []"
  obtains r h' where "fh_to_path F f fh h = Some (r, h')" "h' = h \<or> h' = rebuild F f h"
    "\<forall>p. r = Some p \<longrightarrow> p \<in> fst ` set (h_paths h')"
proof -
  have "\<exists>r h'. fh_to_path F f fh h = Some (r, h') \<and> (h' = h \<or> h' = rebuild F f h)
      \<and> (\<forall>p. r = Some p \<longrightarrow> p \<in> fst ` set (h_paths h'))"
    by (auto simp: fh_to_path_def Let_def fh_search_eq [OF assms] in_set_conv_nth image_iff
        intro!: nth_mem dest: hash_find_Some) (force dest: hash_find_Some)+
  then show thesis using that by blast
qed

section \<open>The interface to the server\<close>

text \<open>What the server does to the handle layer: it asks for the handle of a path, or resolves a handle,
  each time with the file system as it then is.\<close>

datatype 'f hreq = Issue string | Resolve 'f "char list"

fun hrun :: "(string \<Rightarrow> 'h \<Rightarrow> char list option \<times> 'h) \<Rightarrow> ('f \<Rightarrow> char list \<Rightarrow> 'h \<Rightarrow> (string option \<times> 'h) option)
    \<Rightarrow> 'f hreq list \<Rightarrow> 'h \<Rightarrow> 'h option" where
  "hrun issue resolve [] h = Some h"
| "hrun issue resolve (Issue p # rs) h = hrun issue resolve rs (snd (issue p h))"
| "hrun issue resolve (Resolve f fh # rs) h =
     (case resolve f fh h of None \<Rightarrow> None | Some (r, h') \<Rightarrow> hrun issue resolve rs h')"

locale handle_layer =
  fixes wf :: "'h \<Rightarrow> bool" and grows :: "'h \<Rightarrow> 'h \<Rightarrow> bool" and room :: "'h \<Rightarrow> bool" and known :: "'h \<Rightarrow> string set"
    and issue :: "string \<Rightarrow> 'h \<Rightarrow> char list option \<times> 'h"
    and resolve :: "'f \<Rightarrow> char list \<Rightarrow> 'h \<Rightarrow> (string option \<times> 'h) option"
  assumes grows_refl: "grows h h" and grows_trans: "grows a b \<Longrightarrow> grows b c \<Longrightarrow> grows a c"
    and issue_keeps: "wf h \<Longrightarrow> issue p h = (r, h') \<Longrightarrow> wf h' \<and> grows h h' \<and> known h' \<subseteq> insert p (known h)"
    and resolve_keeps: "wf h \<Longrightarrow> \<exists>r h'. resolve f fh h = Some (r, h') \<and> wf h' \<and> grows h h' \<and> (\<forall>p. r = Some p \<longrightarrow> p \<in> known h')"
    and resolve_issued: "wf h \<Longrightarrow> issue p h = (Some fh, h1) \<Longrightarrow> wf h2 \<Longrightarrow> grows h1 h2 \<Longrightarrow> room h2
      \<Longrightarrow> resolve f fh h2 = Some (Some p, h2)"
begin

lemma hrun_keeps: "wf h \<Longrightarrow> \<exists>h'. hrun issue resolve rs h = Some h' \<and> wf h' \<and> grows h h'"
proof (induction rs arbitrary: h)
  case (Cons q rs)
  have "\<exists>h1. hrun issue resolve (q # rs) h = hrun issue resolve rs h1 \<and> wf h1 \<and> grows h h1"
  proof (cases q)
    case (Issue p)
    obtain r h1 where i: "issue p h = (r, h1)" by fastforce
    with Issue issue_keeps [OF Cons.prems i] show ?thesis by auto
  next
    case (Resolve f fh)
    then show ?thesis using resolve_keeps [OF Cons.prems, of f fh] by auto
  qed
  then show ?case using Cons.IH grows_trans by metis
qed (simp add: grows_refl)

text \<open>A handle once issued resolves to its path through any further requests.\<close>

lemma stable:
  assumes "wf h" and "issue p h = (Some fh, h1)"
  shows "\<exists>h2. hrun issue resolve rs h1 = Some h2 \<and> (room h2 \<longrightarrow> resolve f fh h2 = Some (Some p, h2))"
proof -
  have "wf h1" using issue_keeps [OF assms] by blast
  from hrun_keeps [OF this] obtain h2 where "hrun issue resolve rs h1 = Some h2" "wf h2" "grows h1 h2" by blast
  with resolve_issued [OF assms] show ?thesis by blast
qed

end

lemma fh_to_path_issued:
  assumes "fh_from_path p h = (Some fh, h1)" and "h_ext h1 h2" and "length (h_paths h2) \<le> 2 ^ 32"
  shows "fh_to_path F f fh h2 = Some (Some p, h2)"
proof -
  from assms(1) obtain i where i: "intern p h = (Some i, h1)" and fh: "fh = fh_bytes i p (snd (h_paths h1 ! i))"
    by (auto simp: fh_from_path_eq split: option.splits prod.splits)
  from intern_index [OF i] have le: "i < length (h_paths h1)" and p: "fst (h_paths h1 ! i) = p" by blast+
  from assms(2) obtain es where es: "h_paths h2 = h_paths h1 @ es" by (auto simp: h_ext_def)
  with le p have p2: "i < length (h_paths h2)" "fst (h_paths h2 ! i) = p" by (simp_all add: nth_append)
  with assms(3) have "i < 2 ^ 32" by simp
  then have u: "unat (ucast (of_nat i :: u32) :: ulong) = i"
    by (simp add: unsigned_ucast_eq unat_of_nat take_bit_nat_eq_self)
  show ?thesis using p2 u by (simp add: fh fh_to_path_def)
qed

abbreviation h_live :: "htab \<Rightarrow> bool" where
  "h_live h \<equiv> h_wf h \<and> h_root h \<noteq> []"

interpretation fh: handle_layer h_live h_ext "\<lambda>h. length (h_paths h) \<le> 2 ^ 32" "\<lambda>h. fst ` set (h_paths h)"
  fh_from_path "fh_to_path F" for F :: "'f fsops"
proof
  show "h_ext h h" for h by simp
  show "h_ext a c" if "h_ext a b" "h_ext b c" for a b c using that by (rule h_ext_trans)
  show "h_live h' \<and> h_ext h h' \<and> fst ` set (h_paths h') \<subseteq> insert p (fst ` set (h_paths h))"
    if l: "h_live h" and r: "fh_from_path p h = (r, h')" for h p r h'
  proof -
    obtain i where "intern p h = (i, h')"
      using r by (auto simp: fh_from_path_eq split: option.splits prod.splits)
    from intern_wf [OF this] intern_ext [OF this] intern_paths [OF this] show ?thesis
      using l by (simp add: h_ext_def)
  qed
  show "\<exists>r h'. fh_to_path F f fh h = Some (r, h') \<and> h_live h' \<and> h_ext h h' \<and> (\<forall>p. r = Some p \<longrightarrow> p \<in> fst ` set (h_paths h'))"
    if l: "h_live h" for h f fh
  proof -
    obtain r h' where t: "fh_to_path F f fh h = Some (r, h')" "h' = h \<or> h' = rebuild F f h"
      "\<forall>p. r = Some p \<longrightarrow> p \<in> fst ` set (h_paths h')" using fh_to_path_total [of h F f fh] l by blast
    have "h_ext h h'" using t(2) rebuild_ext by auto
    moreover from this have "h_live h'" using t(2) l rebuild_wf by (auto simp: h_ext_def)
    ultimately show ?thesis using t by blast
  qed
  show "fh_to_path F f fh h2 = Some (Some p, h2)"
    if "fh_from_path p h = (Some fh, h1)" "h_ext h1 h2" "length (h_paths h2) \<le> 2 ^ 32" for h p fh h1 h2 f
    using that by (rule fh_to_path_issued)
qed

end
