(* ===== verification/Rpc.thy ===== *)
theory Rpc
  imports Xdr
begin

text \<open>
  \<^verbatim>\<open>nfsd/rpc.c\<close>: parsing of ONC RPC calls, the reply headers, the duplicate request cache and the
  dispatcher.  The handlers and the state they work on are parameters: a handler gets the parsed call,
  the argument cursor, the reply cursor and the state; it returns \<open>True\<close> for 0 and \<open>False\<close> for -1 with
  the reply cursor and the new state, or \<open>None\<close> if it never returns.
\<close>

type_synonym u16 = "16 word"

record rpc_call =
  c_xid :: u32
  c_prog :: u32
  c_vers :: u32
  c_proc :: u32
  c_uid :: u32
  c_gid :: u32

type_synonym 's rpc_handler = "rpc_call \<Rightarrow> xdr \<Rightarrow> xdr \<Rightarrow> 's \<Rightarrow> (bool \<times> xdr \<times> 's) option"

record 's rpc_route =
  r_prog :: u32
  r_vers :: u32
  r_proc :: u32
  r_fn :: "'s rpc_handler"
  r_cache :: bool

section \<open>Calls and replies\<close>

text \<open>The credentials of flavour \<^verbatim>\<open>AUTH_UNIX\<close>: user and group, each \<open>-1\<close> until it was read.\<close>

definition parse_cred :: "char list \<Rightarrow> rpc_call \<Rightarrow> rpc_call" where
  "parse_cred p c =
     on_ok (xdr_get_u32 (xdr_init p (length p))) (\<lambda>_. c) (\<lambda>stamp x1.
     on_ok (xdr_get_bytes x1) (\<lambda>_. c) (\<lambda>name x2.
     on_ok (xdr_get_u32 x2) (\<lambda>_. c) (\<lambda>u x3.
     on_ok (xdr_get_u32 x3) (\<lambda>_. c\<lparr>c_uid := u\<rparr>) (\<lambda>g x4. c\<lparr>c_uid := u, c_gid := g\<rparr>))))"

definition rpc_parse_call :: "xdr \<Rightarrow> (rpc_call \<times> xdr) option" where
  "rpc_parse_call x =
     on_ok (xdr_get_u32 x) (\<lambda>_. None) (\<lambda>xid x1.
     on_ok (xdr_get_u32 x1) (\<lambda>_. None) (\<lambda>mtype x2. if mtype \<noteq> 0 then None else
     on_ok (xdr_get_u32 x2) (\<lambda>_. None) (\<lambda>rpcvers x3. if rpcvers \<noteq> 2 then None else
     on_ok (xdr_get_u32 x3) (\<lambda>_. None) (\<lambda>prog x4.
     on_ok (xdr_get_u32 x4) (\<lambda>_. None) (\<lambda>vers x5.
     on_ok (xdr_get_u32 x5) (\<lambda>_. None) (\<lambda>proc x6.
     on_ok (xdr_get_u32 x6) (\<lambda>_. None) (\<lambda>cred_flavor x7.
     on_ok (xdr_get_bytes x7) (\<lambda>_. None) (\<lambda>cred x8.
       let c0 = \<lparr>c_xid = xid, c_prog = prog, c_vers = vers, c_proc = proc, c_uid = - 1, c_gid = - 1\<rparr>;
           c = (if cred_flavor = 1 \<and> length cred \<ge> 12 then parse_cred cred c0 else c0) in
       on_ok (xdr_get_u32 x8) (\<lambda>_. None) (\<lambda>verf_flavor x9.
       on_ok (xdr_get_bytes x9) (\<lambda>_. None) (\<lambda>verf x10. Some (c, x10)))))))))))"

text \<open>A chain of puts that stops at the first failure.\<close>

fun put_chain :: "xdr \<Rightarrow> u32 list \<Rightarrow> bool \<times> xdr" where
  "put_chain x [] = (True, x)"
| "put_chain x (v # vs) = (case xdr_put_u32 x v of (ok, x1) \<Rightarrow> if \<not> ok then (False, x1) else put_chain x1 vs)"

definition reply_head :: "xdr \<Rightarrow> u32 \<Rightarrow> u32 \<Rightarrow> u32 \<Rightarrow> bool \<times> xdr" where
  "reply_head x xid reply_stat accept_stat = put_chain x [xid, 1, reply_stat, 0, 0, accept_stat]"

definition rpc_reply_success :: "xdr \<Rightarrow> u32 \<Rightarrow> bool \<times> xdr" where
  "rpc_reply_success x xid = reply_head x xid 0 0"

definition rpc_reply_accept_err :: "xdr \<Rightarrow> u32 \<Rightarrow> u32 \<Rightarrow> bool \<times> xdr" where
  "rpc_reply_accept_err x xid stat = reply_head x xid 0 stat"

definition rpc_reply_prog_mismatch :: "xdr \<Rightarrow> u32 \<Rightarrow> u32 \<Rightarrow> u32 \<Rightarrow> bool \<times> xdr" where
  "rpc_reply_prog_mismatch x xid lo hi =
     (case reply_head x xid 0 2 of (ok, x1) \<Rightarrow> if \<not> ok then (False, x1) else put_chain x1 [lo, hi])"

section \<open>The duplicate request cache\<close>

abbreviation DRC_SLOTS :: nat where "DRC_SLOTS \<equiv> 256"
abbreviation DRC_REPLYMAX :: nat where "DRC_REPLYMAX \<equiv> 512"
abbreviation DRC_TTL :: int where "DRC_TTL \<equiv> 30"

text \<open>The peer of a request: its address and port.\<close>

type_synonym peer = "u32 \<times> u16"

record drc_ent =
  d_valid :: bool
  d_peer :: peer
  d_xid :: u32
  d_when :: int
  d_reply :: "char list"

record drc =
  g_drc :: "drc_ent list"
  g_drc_next :: nat

definition drc_match :: "peer \<Rightarrow> u32 \<Rightarrow> int \<Rightarrow> drc_ent \<Rightarrow> bool" where
  "drc_match p xid now e \<longleftrightarrow> d_valid e \<and> d_xid e = xid \<and> d_peer e = p \<and> now - d_when e \<le> DRC_TTL"

fun drc_find :: "peer \<Rightarrow> u32 \<Rightarrow> int \<Rightarrow> drc_ent list \<Rightarrow> drc_ent option" where
  "drc_find p xid now [] = None"
| "drc_find p xid now (e # es) = (if drc_match p xid now e then Some e else drc_find p xid now es)"

definition drc_lookup :: "peer \<Rightarrow> u32 \<Rightarrow> int \<Rightarrow> drc \<Rightarrow> drc_ent option" where
  "drc_lookup p xid now D = drc_find p xid now (g_drc D)"

definition drc_store :: "peer \<Rightarrow> u32 \<Rightarrow> char list \<Rightarrow> int \<Rightarrow> drc \<Rightarrow> drc" where
  "drc_store p xid reply now D =
     (if length reply > DRC_REPLYMAX then D
      else \<lparr>g_drc = (g_drc D)[g_drc_next D := \<lparr>d_valid = True, d_peer = p, d_xid = xid, d_when = now, d_reply = reply\<rparr>],
            g_drc_next = (g_drc_next D + 1) mod DRC_SLOTS\<rparr>)"

section \<open>The dispatcher\<close>

abbreviation RPC_BUFSZ :: nat where "RPC_BUFSZ \<equiv> 65536"

text \<open>The static cache and output buffer, and the state of the services.\<close>

record 's server =
  sv_drc :: drc
  sv_out :: "char list"
  sv_st :: 's

text \<open>The search of the routes: the route found, whether the program is known, its lowest and highest
  version.\<close>

fun route_scan :: "rpc_call \<Rightarrow> 's rpc_route list \<Rightarrow> 's rpc_route option \<times> bool \<times> int \<times> int
    \<Rightarrow> 's rpc_route option \<times> bool \<times> int \<times> int" where
  "route_scan c [] a = a"
| "route_scan c (r # rs) (m, prog_ok, lo, hi) =
     route_scan c rs
       (if r_prog r = c_prog c then
          (if r_vers r = c_vers c \<and> r_proc r = c_proc c then Some r else m, True,
           if sint (r_vers r) < lo then sint (r_vers r) else lo, if sint (r_vers r) > hi then sint (r_vers r) else hi)
        else (m, prog_ok, lo, hi))"

text \<open>The end of \<^verbatim>\<open>handle_one\<close>: the reply is remembered for a route with \<^verbatim>\<open>cache\<close> and sent.\<close>

definition finish :: "peer \<Rightarrow> rpc_call \<Rightarrow> bool \<Rightarrow> int \<Rightarrow> xdr \<Rightarrow> 's server \<Rightarrow> 's server \<times> char list option" where
  "finish p c cached now out sv =
     (if x_err out then (sv\<lparr>sv_out := x_buf out\<rparr>, None)
      else let reply = take (xdr_len out) (x_buf out) in
        (sv\<lparr>sv_out := x_buf out,
            sv_drc := (if cached then drc_store p (c_xid c) reply now (sv_drc sv) else sv_drc sv)\<rparr>, Some reply))"

definition handle_one :: "'s rpc_route list \<Rightarrow> peer \<Rightarrow> char list \<Rightarrow> int \<Rightarrow> int \<Rightarrow> 's server
    \<Rightarrow> ('s server \<times> char list option) option" where
  "handle_one routes p inbuf t1 t2 sv =
     (let out = xdr_init (sv_out sv) RPC_BUFSZ in
      case rpc_parse_call (xdr_init inbuf (length inbuf)) of
        None \<Rightarrow> Some (sv, None)
      | Some (c, inx) \<Rightarrow>
          (case route_scan c routes (None, False, 0x7fffffff, 0) of
             (Some r, _, _, _) \<Rightarrow>
               (case (if r_cache r then drc_lookup p (c_xid c) t1 (sv_drc sv) else None) of
                  Some hit \<Rightarrow> Some (sv, Some (d_reply hit))
                | None \<Rightarrow>
                    (case rpc_reply_success out (c_xid c) of (ok, out1) \<Rightarrow>
                       if \<not> ok then Some (sv\<lparr>sv_out := x_buf out1\<rparr>, None)
                       else (case r_fn r c inx out1 (sv_st sv) of
                           None \<Rightarrow> None
                         | Some (ok2, out2, st) \<Rightarrow>
                             if \<not> ok2 then Some (sv\<lparr>sv_out := x_buf out2, sv_st := st\<rparr>, None)
                             else Some (finish p c (r_cache r) t2 out2 (sv\<lparr>sv_st := st\<rparr>)))))
           | (None, prog_ok, lo, hi) \<Rightarrow>
               Some (finish p c False t2
                 (if \<not> prog_ok then snd (rpc_reply_accept_err out (c_xid c) 1)
                  else if \<not> (\<exists>r \<in> set routes. r_prog r = c_prog c \<and> r_vers r = c_vers c)
                  then snd (rpc_reply_prog_mismatch out (c_xid c) (word_of_int lo) (word_of_int hi))
                  else snd (rpc_reply_accept_err out (c_xid c) 3)) sv)))"

text \<open>A datagram as \<^verbatim>\<open>recvfrom\<close> delivers it, with the times \<^verbatim>\<open>time(NULL)\<close> reports while it is handled.\<close>

record dgram =
  g_peer :: peer
  g_data :: "char list"
  g_t1 :: int
  g_t2 :: int

text \<open>The server loop over the datagrams its sockets deliver, \<open>None\<close> for a failed \<^verbatim>\<open>recvfrom\<close>; the
  answers sent, in order.\<close>

fun rpc_serve :: "'s rpc_route list \<Rightarrow> dgram option list \<Rightarrow> 's server \<Rightarrow> ('s server \<times> char list option list) option" where
  "rpc_serve routes [] sv = Some (sv, [])"
| "rpc_serve routes (None # ds) sv =
     (case rpc_serve routes ds sv of None \<Rightarrow> None | Some (sv', as) \<Rightarrow> Some (sv', None # as))"
| "rpc_serve routes (Some g # ds) sv =
     (case handle_one routes (g_peer g) (take RPC_BUFSZ (g_data g)) (g_t1 g) (g_t2 g) sv of
        None \<Rightarrow> None
      | Some (sv1, a) \<Rightarrow> (case rpc_serve routes ds sv1 of None \<Rightarrow> None | Some (sv2, as) \<Rightarrow> Some (sv2, a # as)))"

end
