(* ===== verification/Nfs.thy ===== *)
theory Nfs
  imports Handle Rpc
begin

text \<open>
  \<^verbatim>\<open>nfsd/nfs.c\<close>: the portmapper, MOUNT and NFS v2 procedures, over the file system calls of \<open>Fsys\<close> and
  the handle table of \<open>Handle\<close>.  A procedure has the type of a handler of \<open>Rpc\<close>; the argument cursor
  is not returned, since the dispatcher does not look at it again.
\<close>

record 'f nst =
  n_root :: string
  n_port :: int
  n_h :: htab
  n_fs :: 'f

type_synonym 'f nfs_result = "(bool \<times> xdr \<times> 'f nst) option"

section \<open>Constants and helpers\<close>

abbreviation (input) NFS_OK :: u32 where "NFS_OK \<equiv> 0"
abbreviation (input) NFSERR_PERM :: u32 where "NFSERR_PERM \<equiv> 1"
abbreviation (input) NFSERR_NOENT :: u32 where "NFSERR_NOENT \<equiv> 2"
abbreviation (input) NFSERR_IO :: u32 where "NFSERR_IO \<equiv> 5"
abbreviation (input) NFSERR_ACCES :: u32 where "NFSERR_ACCES \<equiv> 13"
abbreviation (input) NFSERR_EXIST :: u32 where "NFSERR_EXIST \<equiv> 17"
abbreviation (input) NFSERR_NOTDIR :: u32 where "NFSERR_NOTDIR \<equiv> 20"
abbreviation (input) NFSERR_ISDIR :: u32 where "NFSERR_ISDIR \<equiv> 21"
abbreviation (input) NFSERR_NOSPC :: u32 where "NFSERR_NOSPC \<equiv> 28"
abbreviation (input) NFSERR_NAMETOOLONG :: u32 where "NFSERR_NAMETOOLONG \<equiv> 63"
abbreviation (input) NFSERR_NOTEMPTY :: u32 where "NFSERR_NOTEMPTY \<equiv> 66"
abbreviation (input) NFSERR_STALE :: u32 where "NFSERR_STALE \<equiv> 70"

abbreviation (input) NAMESZ :: nat where "NAMESZ \<equiv> 256"
abbreviation (input) PATHSZ :: nat where "PATHSZ \<equiv> 1024"

definition svc_config :: "string \<Rightarrow> int \<Rightarrow> 'f nst \<Rightarrow> 'f nst" where
  "svc_config export_root nfs_port st = st\<lparr>n_root := strip_slashes (take 1023 export_root), n_port := nfs_port\<rparr>"

text \<open>The \<^verbatim>\<open>errno\<close> values are those of Linux.\<close>

definition errno_to_nfs :: "errno \<Rightarrow> u32" where
  "errno_to_nfs e =
     (if e = 0 then NFS_OK else if e = 1 then NFSERR_PERM else if e = 2 then NFSERR_NOENT
      else if e = 13 then NFSERR_ACCES else if e = 17 then NFSERR_EXIST else if e = 20 then NFSERR_NOTDIR
      else if e = 21 then NFSERR_ISDIR else if e = 28 then NFSERR_NOSPC else if e = 36 then NFSERR_NAMETOOLONG
      else if e = 39 then NFSERR_NOTEMPTY else NFSERR_IO)"

definition join_child :: "string \<Rightarrow> string \<Rightarrow> string \<Rightarrow> nat \<Rightarrow> string option" where
  "join_child R dir name mx =
     (if name = [] \<or> CHR ''/'' \<in> set name then None
      else if name = ''.'' then (if length dir \<ge> mx then None else Some dir)
      else if name = ''..'' then
        (if dir = R then Some dir
         else if length dir \<ge> mx then None
         else (case rcut (CHR ''/'') dir of
             None \<Rightarrow> Some dir
           | Some (a, b) \<Rightarrow> if a \<noteq> [] then Some a else Some dir))
      else if length dir + 1 + length name \<ge> mx then None
      else Some (dir @ CHR ''/'' # name))"

definition ftype_of :: "u32 \<Rightarrow> u32" where
  "ftype_of m = (if S_ISREG m then 1 else if S_ISDIR m then 2 else if S_ISBLK m then 3
     else if S_ISCHR m then 4 else if S_ISLNK m then 5 else 0)"

definition fattr_words :: "stat \<Rightarrow> u32 list" where
  "fattr_words st =
     [ftype_of (st_mode st), st_mode st, of_nat (st_nlink st), of_nat (st_uid st), of_nat (st_gid st),
      word_of_int (st_size st), word_of_int (if st_blksize st \<noteq> 0 then st_blksize st else 4096),
      of_nat (st_rdev st), word_of_int (st_blocks st), of_nat (st_dev st), of_nat (st_ino st),
      word_of_int (st_atime st), of_nat (st_atime_nsec st div 1000),
      word_of_int (st_mtime st), of_nat (st_mtime_nsec st div 1000),
      word_of_int (st_ctime st), of_nat (st_ctime_nsec st div 1000)]"

definition put_fattr :: "xdr \<Rightarrow> stat \<Rightarrow> bool \<times> xdr" where
  "put_fattr x st = (let y = put_all xdr_put_u32 x (fattr_words st) in (\<not> x_err y, y))"

text \<open>A put whose result is ignored, and \<open>n\<close> words read in a chain.\<close>

definition put1 :: "xdr \<Rightarrow> u32 \<Rightarrow> xdr" where
  "put1 x v = snd (xdr_put_u32 x v)"

definition get_u32s :: "nat \<Rightarrow> xdr \<Rightarrow> u32 list option \<times> xdr" where
  "get_u32s n x = get_all (\<lambda>_ :: unit. xdr_get_u32) (replicate n ()) x"

definition arg_fh :: "'f fsops \<Rightarrow> xdr \<Rightarrow> xdr \<Rightarrow> 'f nst \<Rightarrow> (string option \<times> xdr \<times> xdr \<times> 'f nst) option" where
  "arg_fh F inx out st =
     on_ok (xdr_get_fixed inx 32) (\<lambda>inx1. Some (None, inx1, put1 out NFSERR_STALE, st)) (\<lambda>fh inx1.
       (case fh_to_path F (n_fs st) fh (n_h st) of
          None \<Rightarrow> None
        | Some (None, h) \<Rightarrow> Some (None, inx1, put1 out NFSERR_STALE, st\<lparr>n_h := h\<rparr>)
        | Some (Some p, h) \<Rightarrow> Some (Some p, inx1, out, st\<lparr>n_h := h\<rparr>)))"

text \<open>\<^verbatim>\<open>if (arg_fh(in, out, &path) < 0) return 0;\<close> and the rest of the procedure.\<close>

definition with_fh :: "'f fsops \<Rightarrow> xdr \<Rightarrow> xdr \<Rightarrow> 'f nst \<Rightarrow> (string \<Rightarrow> xdr \<Rightarrow> 'f nst \<Rightarrow> 'f nfs_result) \<Rightarrow> 'f nfs_result" where
  "with_fh F inx out st k =
     (case arg_fh F inx out st of
        None \<Rightarrow> None
      | Some (None, _, out1, st1) \<Rightarrow> Some (True, out1, st1)
      | Some (Some p, inx1, _, st1) \<Rightarrow> k p inx1 st1)"

definition reply_stat_fattr :: "'f fsops \<Rightarrow> xdr \<Rightarrow> string \<Rightarrow> 'f nst \<Rightarrow> 'f nfs_result" where
  "reply_stat_fattr F out path st =
     (case fs_lstat F path (n_fs st) of
        Inl e \<Rightarrow> Some (True, put1 out (errno_to_nfs e), st)
      | Inr s \<Rightarrow> (case put_fattr (put1 out NFS_OK) s of (ok, out1) \<Rightarrow> Some (ok, out1, st)))"

text \<open>The end of the procedures that answer with a status only.\<close>

definition reply_status :: "xdr \<Rightarrow> (errno + unit) \<times> 'f \<Rightarrow> 'f nst \<Rightarrow> 'f nfs_result" where
  "reply_status out r st =
     Some (True, put1 out (case fst r of Inl e \<Rightarrow> errno_to_nfs e | Inr _ \<Rightarrow> NFS_OK), st\<lparr>n_fs := snd r\<rparr>)"

text \<open>The end of LOOKUP, CREATE and MKDIR: the handle and the attributes of the child.\<close>

definition reply_child :: "xdr \<Rightarrow> string \<Rightarrow> stat \<Rightarrow> 'f nst \<Rightarrow> 'f nfs_result" where
  "reply_child out child s st =
     (case fh_from_path child (n_h st) of
        (None, h) \<Rightarrow> Some (True, put1 out NFSERR_IO, st\<lparr>n_h := h\<rparr>)
      | (Some fh, h) \<Rightarrow>
          (case put_fattr (snd (xdr_put_fixed (put1 out NFS_OK) fh 32)) s of (ok, out1) \<Rightarrow> Some (ok, out1, st\<lparr>n_h := h\<rparr>)))"

section \<open>Portmap and MOUNT\<close>

definition proc_null :: "rpc_call \<Rightarrow> xdr \<Rightarrow> xdr \<Rightarrow> 'f nst \<Rightarrow> 'f nfs_result" where
  "proc_null c inx out st = Some (True, out, st)"

definition pmap_getport :: "rpc_call \<Rightarrow> xdr \<Rightarrow> xdr \<Rightarrow> 'f nst \<Rightarrow> 'f nfs_result" where
  "pmap_getport c inx out st =
     on_ok (get_u32s 4 inx) (\<lambda>_. Some (False, out, st)) (\<lambda>vs _.
       Some (True, put1 out (if vs ! 0 = 100005 \<or> vs ! 0 = 100003 then word_of_int (n_port st) else 0), st))"

definition mnt_mnt :: "'f fsops \<Rightarrow> rpc_call \<Rightarrow> xdr \<Rightarrow> xdr \<Rightarrow> 'f nst \<Rightarrow> 'f nfs_result" where
  "mnt_mnt F c inx out st =
     on_ok (xdr_get_string inx 1024) (\<lambda>_. Some (False, out, st)) (\<lambda>dir _.
       if dir \<noteq> n_root st then Some (True, put1 out NFSERR_ACCES, st)
       else if (case fs_stat F (n_root st) (n_fs st) of Inl _ \<Rightarrow> True | Inr s \<Rightarrow> \<not> S_ISDIR (st_mode s))
       then Some (True, put1 out NFSERR_NOTDIR, st)
       else (case fh_from_path (n_root st) (n_h st) of
           (None, h) \<Rightarrow> Some (True, put1 out NFSERR_IO, st\<lparr>n_h := h\<rparr>)
         | (Some fh, h) \<Rightarrow> Some (True, snd (xdr_put_fixed (put1 out 0) fh 32), st\<lparr>n_h := h\<rparr>)))"

definition mnt_umnt :: "rpc_call \<Rightarrow> xdr \<Rightarrow> xdr \<Rightarrow> 'f nst \<Rightarrow> 'f nfs_result" where
  "mnt_umnt c inx out st = Some (True, out, st)"

definition mnt_export :: "rpc_call \<Rightarrow> xdr \<Rightarrow> xdr \<Rightarrow> 'f nst \<Rightarrow> 'f nfs_result" where
  "mnt_export c inx out st =
     Some (True, put1 (put1 (snd (xdr_put_bytes (put1 out 1) (n_root st) (of_nat (length (n_root st))))) 0) 0, st)"

section \<open>NFS v2\<close>

definition nfs_getattr :: "'f fsops \<Rightarrow> rpc_call \<Rightarrow> xdr \<Rightarrow> xdr \<Rightarrow> 'f nst \<Rightarrow> 'f nfs_result" where
  "nfs_getattr F c inx out st = with_fh F inx out st (\<lambda>path _ st1. reply_stat_fattr F out path st1)"

definition nfs_setattr :: "'f fsops \<Rightarrow> rpc_call \<Rightarrow> xdr \<Rightarrow> xdr \<Rightarrow> 'f nst \<Rightarrow> 'f nfs_result" where
  "nfs_setattr F c inx out st =
     with_fh F inx out st (\<lambda>path inx1 st1.
     on_ok (get_u32s 8 inx1) (\<lambda>_. Some (False, out, st1)) (\<lambda>vs _.
       let mode = vs ! 0; sz = vs ! 3;
           f1 = (if mode \<noteq> 0xffffffff then snd (fs_chmod F path (mode AND 0xFFF) (n_fs st1)) else n_fs st1);
           f2 = (if sz \<noteq> 0xffffffff then snd (fs_truncate F path (unat sz) f1) else f1)
       in reply_stat_fattr F out path (st1\<lparr>n_fs := f2\<rparr>)))"

definition nfs_lookup :: "'f fsops \<Rightarrow> rpc_call \<Rightarrow> xdr \<Rightarrow> xdr \<Rightarrow> 'f nst \<Rightarrow> 'f nfs_result" where
  "nfs_lookup F c inx out st =
     with_fh F inx out st (\<lambda>dir inx1 st1.
     on_ok (xdr_get_string inx1 NAMESZ) (\<lambda>_. Some (False, out, st1)) (\<lambda>name _.
       case join_child (n_root st1) dir name PATHSZ of
         None \<Rightarrow> Some (True, put1 out NFSERR_NOENT, st1)
       | Some child \<Rightarrow>
           (case fs_lstat F child (n_fs st1) of
              Inl e \<Rightarrow> Some (True, put1 out (errno_to_nfs e), st1)
            | Inr s \<Rightarrow> reply_child out child s st1)))"

definition nfs_read :: "'f fsops \<Rightarrow> rpc_call \<Rightarrow> xdr \<Rightarrow> xdr \<Rightarrow> 'f nst \<Rightarrow> 'f nfs_result" where
  "nfs_read F c inx out st =
     with_fh F inx out st (\<lambda>path inx1 st1.
     on_ok (get_u32s 3 inx1) (\<lambda>_. Some (False, out, st1)) (\<lambda>vs _.
       let offset = vs ! 0; count = (if vs ! 1 > 8192 then 8192 else vs ! 1) in
       case fs_pread F path (unat count) (unat offset) (n_fs st1) of
         Inl e \<Rightarrow> Some (True, put1 out (errno_to_nfs e), st1)
       | Inr (data, s) \<Rightarrow>
           Some (True, snd (xdr_put_bytes (snd (put_fattr (put1 out NFS_OK) s)) data (of_nat (length data))), st1)))"

definition nfs_write :: "'f fsops \<Rightarrow> rpc_call \<Rightarrow> xdr \<Rightarrow> xdr \<Rightarrow> 'f nst \<Rightarrow> 'f nfs_result" where
  "nfs_write F c inx out st =
     with_fh F inx out st (\<lambda>path inx1 st1.
     on_ok (get_u32s 3 inx1) (\<lambda>_. Some (False, out, st1)) (\<lambda>vs inx2.
     on_ok (xdr_get_bytes inx2) (\<lambda>_. Some (False, out, st1)) (\<lambda>data _.
       case fs_pwrite F path data (unat (vs ! 1)) (n_fs st1) of
         (Inl e, f) \<Rightarrow> Some (True, put1 out (errno_to_nfs e), st1\<lparr>n_fs := f\<rparr>)
       | (Inr s, f) \<Rightarrow>
           (case put_fattr (put1 out NFS_OK) s of (ok, out1) \<Rightarrow> Some (ok, out1, st1\<lparr>n_fs := f\<rparr>)))))"

definition create_common :: "'f fsops \<Rightarrow> bool \<Rightarrow> xdr \<Rightarrow> xdr \<Rightarrow> 'f nst \<Rightarrow> 'f nfs_result" where
  "create_common F dir_mode inx out st =
     with_fh F inx out st (\<lambda>dir inx1 st1.
     on_ok (xdr_get_string inx1 NAMESZ) (\<lambda>_. Some (False, out, st1)) (\<lambda>name inx2.
     on_ok (get_u32s 8 inx2) (\<lambda>_. Some (False, out, st1)) (\<lambda>vs _.
       case join_child (n_root st1) dir name PATHSZ of
         None \<Rightarrow> Some (True, put1 out NFSERR_ACCES, st1)
       | Some child \<Rightarrow>
           let mode = (if vs ! 0 = 0xffffffff then if dir_mode then 0x1ED else 0x1A4 else vs ! 0) in
           (case (if dir_mode then fs_mkdir F child (mode AND 0xFFF) (n_fs st1)
                  else fs_creat F child (mode AND 0xFFF) (n_fs st1)) of
              (Inl e, f) \<Rightarrow> Some (True, put1 out (errno_to_nfs e), st1\<lparr>n_fs := f\<rparr>)
            | (Inr _, f) \<Rightarrow>
                (case fs_lstat F child f of
                   Inl _ \<Rightarrow> Some (True, put1 out NFSERR_IO, st1\<lparr>n_fs := f\<rparr>)
                 | Inr s \<Rightarrow> reply_child out child s (st1\<lparr>n_fs := f\<rparr>))))))"

definition nfs_create :: "'f fsops \<Rightarrow> rpc_call \<Rightarrow> xdr \<Rightarrow> xdr \<Rightarrow> 'f nst \<Rightarrow> 'f nfs_result" where
  "nfs_create F c inx out st = create_common F False inx out st"

definition nfs_mkdir :: "'f fsops \<Rightarrow> rpc_call \<Rightarrow> xdr \<Rightarrow> xdr \<Rightarrow> 'f nst \<Rightarrow> 'f nfs_result" where
  "nfs_mkdir F c inx out st = create_common F True inx out st"

definition remove_common :: "'f fsops \<Rightarrow> bool \<Rightarrow> xdr \<Rightarrow> xdr \<Rightarrow> 'f nst \<Rightarrow> 'f nfs_result" where
  "remove_common F is_dir inx out st =
     with_fh F inx out st (\<lambda>dir inx1 st1.
     on_ok (xdr_get_string inx1 NAMESZ) (\<lambda>_. Some (False, out, st1)) (\<lambda>name _.
       case join_child (n_root st1) dir name PATHSZ of
         None \<Rightarrow> Some (True, put1 out NFSERR_ACCES, st1)
       | Some child \<Rightarrow>
           reply_status out (if is_dir then fs_rmdir F child (n_fs st1) else fs_unlink F child (n_fs st1)) st1))"

definition nfs_remove :: "'f fsops \<Rightarrow> rpc_call \<Rightarrow> xdr \<Rightarrow> xdr \<Rightarrow> 'f nst \<Rightarrow> 'f nfs_result" where
  "nfs_remove F c inx out st = remove_common F False inx out st"

definition nfs_rmdir :: "'f fsops \<Rightarrow> rpc_call \<Rightarrow> xdr \<Rightarrow> xdr \<Rightarrow> 'f nst \<Rightarrow> 'f nfs_result" where
  "nfs_rmdir F c inx out st = remove_common F True inx out st"

text \<open>The second handle of RENAME and LINK: a missing one drops the request.\<close>

definition with_fh2 :: "'f fsops \<Rightarrow> xdr \<Rightarrow> xdr \<Rightarrow> 'f nst \<Rightarrow> (string \<Rightarrow> xdr \<Rightarrow> 'f nst \<Rightarrow> 'f nfs_result) \<Rightarrow> 'f nfs_result" where
  "with_fh2 F inx out st k =
     on_ok (xdr_get_fixed inx 32) (\<lambda>_. Some (False, out, st)) (\<lambda>fh inx1.
       (case fh_to_path F (n_fs st) fh (n_h st) of
          None \<Rightarrow> None
        | Some (None, h) \<Rightarrow> Some (True, put1 out NFSERR_STALE, st\<lparr>n_h := h\<rparr>)
        | Some (Some p, h) \<Rightarrow> k p inx1 (st\<lparr>n_h := h\<rparr>)))"

definition nfs_rename :: "'f fsops \<Rightarrow> rpc_call \<Rightarrow> xdr \<Rightarrow> xdr \<Rightarrow> 'f nst \<Rightarrow> 'f nfs_result" where
  "nfs_rename F c inx out st =
     with_fh F inx out st (\<lambda>fromdir inx1 st1.
     on_ok (xdr_get_string inx1 NAMESZ) (\<lambda>_. Some (False, out, st1)) (\<lambda>fname inx2.
     with_fh2 F inx2 out st1 (\<lambda>todir inx3 st2.
     on_ok (xdr_get_string inx3 NAMESZ) (\<lambda>_. Some (False, out, st2)) (\<lambda>tname _.
       case join_child (n_root st2) fromdir fname PATHSZ of
         None \<Rightarrow> Some (True, put1 out NFSERR_ACCES, st2)
       | Some fpath \<Rightarrow>
           (case join_child (n_root st2) todir tname PATHSZ of
              None \<Rightarrow> Some (True, put1 out NFSERR_ACCES, st2)
            | Some tpath \<Rightarrow> reply_status out (fs_rename F fpath tpath (n_fs st2)) st2)))))"

definition nfs_link :: "'f fsops \<Rightarrow> rpc_call \<Rightarrow> xdr \<Rightarrow> xdr \<Rightarrow> 'f nst \<Rightarrow> 'f nfs_result" where
  "nfs_link F c inx out st =
     with_fh F inx out st (\<lambda>from inx1 st1.
     with_fh2 F inx1 out st1 (\<lambda>todir inx2 st2.
     on_ok (xdr_get_string inx2 NAMESZ) (\<lambda>_. Some (False, out, st2)) (\<lambda>tname _.
       case join_child (n_root st2) todir tname PATHSZ of
         None \<Rightarrow> Some (True, put1 out NFSERR_ACCES, st2)
       | Some tpath \<Rightarrow> reply_status out (fs_link F from tpath (n_fs st2)) st2)))"

definition nfs_readlink :: "'f fsops \<Rightarrow> rpc_call \<Rightarrow> xdr \<Rightarrow> xdr \<Rightarrow> 'f nst \<Rightarrow> 'f nfs_result" where
  "nfs_readlink F c inx out st =
     with_fh F inx out st (\<lambda>path _ st1.
       case fs_readlink F path 1023 (n_fs st1) of
         Inl e \<Rightarrow> Some (True, put1 out (errno_to_nfs e), st1)
       | Inr t \<Rightarrow> Some (True, snd (xdr_put_bytes (put1 out NFS_OK) t (of_nat (length t))), st1))"

definition nfs_symlink :: "'f fsops \<Rightarrow> rpc_call \<Rightarrow> xdr \<Rightarrow> xdr \<Rightarrow> 'f nst \<Rightarrow> 'f nfs_result" where
  "nfs_symlink F c inx out st =
     with_fh F inx out st (\<lambda>dir inx1 st1.
     on_ok (xdr_get_string inx1 NAMESZ) (\<lambda>_. Some (False, out, st1)) (\<lambda>name inx2.
     on_ok (xdr_get_string inx2 PATHSZ) (\<lambda>_. Some (False, out, st1)) (\<lambda>target inx3.
     on_ok (get_u32s 8 inx3) (\<lambda>_. Some (False, out, st1)) (\<lambda>_ _.
       case join_child (n_root st1) dir name PATHSZ of
         None \<Rightarrow> Some (True, put1 out NFSERR_ACCES, st1)
       | Some child \<Rightarrow> reply_status out (fs_symlink F target child (n_fs st1)) st1))))"

section \<open>READDIR and STATFS\<close>

abbreviation RD_MAXDATA :: nat where "RD_MAXDATA \<equiv> 4096"

definition need_bytes :: "string \<Rightarrow> nat" where
  "need_bytes name = 4 + 4 + (4 + (length name + 3) div 4 * 4) + 4"

definition put_entry :: "xdr \<Rightarrow> stat \<Rightarrow> string \<Rightarrow> nat \<Rightarrow> xdr" where
  "put_entry out s name idx =
     put1 (snd (xdr_put_bytes (put1 (put1 out 1) (of_nat (st_ino s))) name (of_nat (length name)))) (of_nat idx)"

text \<open>The loop over the entries \<^verbatim>\<open>readdir\<close> delivers: the reply and whether the end was reached.\<close>

fun readdir_loop :: "'f fsops \<Rightarrow> 'f \<Rightarrow> string \<Rightarrow> string \<Rightarrow> u32 \<Rightarrow> nat \<Rightarrow> string list \<Rightarrow> errno \<Rightarrow> nat \<Rightarrow> nat \<Rightarrow> xdr \<Rightarrow> xdr \<times> bool" where
  "readdir_loop F f R path cookie cap [] e idx dirbytes out = (out, e = 0)"
| "readdir_loop F f R path cookie cap (name # names) e idx dirbytes out =
     (let i = idx + 1 in
      if (of_nat i :: u32) \<le> cookie then readdir_loop F f R path cookie cap names e i dirbytes out
      else if dirbytes > 0 \<and> dirbytes + need_bytes name > cap then (out, False)
      else (case join_child R path name PATHSZ of
          None \<Rightarrow> readdir_loop F f R path cookie cap names e i dirbytes out
        | Some child \<Rightarrow>
            (case fs_lstat F child f of
               Inl _ \<Rightarrow> readdir_loop F f R path cookie cap names e i dirbytes out
             | Inr s \<Rightarrow> readdir_loop F f R path cookie cap names e i (dirbytes + need_bytes name) (put_entry out s name i))))"

definition nfs_readdir :: "'f fsops \<Rightarrow> rpc_call \<Rightarrow> xdr \<Rightarrow> xdr \<Rightarrow> 'f nst \<Rightarrow> 'f nfs_result" where
  "nfs_readdir F c inx out st =
     with_fh F inx out st (\<lambda>path inx1 st1.
     on_ok (get_u32s 2 inx1) (\<lambda>_. Some (False, out, st1)) (\<lambda>vs _.
       case fs_readdir F path (n_fs st1) of
         Inl e \<Rightarrow> Some (True, put1 out (errno_to_nfs e), st1)
       | Inr (names, e) \<Rightarrow>
           let cap = (if unat (vs ! 1) > RD_MAXDATA then RD_MAXDATA else unat (vs ! 1)) in
           (case readdir_loop F (n_fs st1) (n_root st1) path (vs ! 0) cap names e 0 0 (put1 out NFS_OK) of
              (out1, eof) \<Rightarrow> Some (True, put1 (put1 out1 0) (if eof then 1 else 0), st1))))"

definition nfs_statfs :: "'f fsops \<Rightarrow> rpc_call \<Rightarrow> xdr \<Rightarrow> xdr \<Rightarrow> 'f nst \<Rightarrow> 'f nfs_result" where
  "nfs_statfs F c inx out st =
     with_fh F inx out st (\<lambda>path _ st1.
       case fs_statvfs F path (n_fs st1) of
         Inl e \<Rightarrow> Some (True, put1 out (errno_to_nfs e), st1)
       | Inr vf \<Rightarrow>
           Some (True, put_all xdr_put_u32 (put1 out NFS_OK)
             [8192, of_nat (f_bsize vf), of_nat (f_blocks vf), of_nat (f_bfree vf), of_nat (f_bavail vf)], st1))"

section \<open>Routes\<close>

definition route :: "u32 \<Rightarrow> u32 \<Rightarrow> u32 \<Rightarrow> 's rpc_handler \<Rightarrow> bool \<Rightarrow> 's rpc_route" where
  "route p v n h b = \<lparr>r_prog = p, r_vers = v, r_proc = n, r_fn = h, r_cache = b\<rparr>"

definition GN_ROUTES :: "'f fsops \<Rightarrow> 'f nst rpc_route list" where
  "GN_ROUTES F =
     [route 100000 2 0 proc_null False, route 100000 2 3 pmap_getport False,
      route 100005 1 0 proc_null False, route 100005 1 1 (mnt_mnt F) False,
      route 100005 1 3 mnt_umnt False, route 100005 1 5 mnt_export False,
      route 100003 2 0 proc_null False, route 100003 2 1 (nfs_getattr F) False,
      route 100003 2 2 (nfs_setattr F) True, route 100003 2 4 (nfs_lookup F) False,
      route 100003 2 5 (nfs_readlink F) False, route 100003 2 6 (nfs_read F) False,
      route 100003 2 8 (nfs_write F) True, route 100003 2 9 (nfs_create F) True,
      route 100003 2 10 (nfs_remove F) True, route 100003 2 11 (nfs_rename F) True,
      route 100003 2 12 (nfs_link F) True, route 100003 2 13 (nfs_symlink F) True,
      route 100003 2 14 (nfs_mkdir F) True, route 100003 2 15 (nfs_rmdir F) True,
      route 100003 2 16 (nfs_readdir F) False, route 100003 2 17 (nfs_statfs F) False]"

end
