(* ===== verification/Toyfs.thy ===== *)
theory Toyfs
  imports Fsys
begin

text \<open>
  A small executable file system, an association list of full paths to nodes, on which the statements
  about the NFS server are evaluated.
\<close>

datatype fnode = Fdir | Ffile "char list" | Flink string

type_synonym toyfs = "(string \<times> fnode) list"

definition toy_stat :: "fnode \<Rightarrow> stat" where
  "toy_stat n = \<lparr>st_mode = (case n of Fdir \<Rightarrow> 0x41ED | Ffile _ \<Rightarrow> 0x81A4 | Flink _ \<Rightarrow> 0xA1FF), st_nlink = 1,
     st_uid = 0, st_gid = 0, st_size = (case n of Ffile d \<Rightarrow> int (length d) | _ \<Rightarrow> 0), st_blksize = 4096,
     st_rdev = 0, st_blocks = 1, st_dev = 1, st_ino = 7, st_atime = 0, st_atime_nsec = 0, st_mtime = 0,
     st_mtime_nsec = 0, st_ctime = 0, st_ctime_nsec = 0\<rparr>"

definition toy_lstat :: "string \<Rightarrow> toyfs \<Rightarrow> errno + stat" where
  "toy_lstat p f = (case map_of f p of None \<Rightarrow> Inl 2 | Some n \<Rightarrow> Inr (toy_stat n))"

definition toy_names :: "string \<Rightarrow> toyfs \<Rightarrow> string list" where
  "toy_names d f = map (drop (Suc (length d)))
     (filter (\<lambda>p. take (Suc (length d)) p = d @ ''/'' \<and> Suc (length d) < length p
        \<and> CHR ''/'' \<notin> set (drop (Suc (length d)) p)) (map fst f))"

definition toy_put :: "string \<Rightarrow> fnode \<Rightarrow> toyfs \<Rightarrow> toyfs" where
  "toy_put p n f = filter (\<lambda>e. fst e \<noteq> p) f @ [(p, n)]"

definition toy_drop :: "string \<Rightarrow> toyfs \<Rightarrow> (errno + unit) \<times> toyfs" where
  "toy_drop p f = (case map_of f p of None \<Rightarrow> (Inl 2, f) | Some _ \<Rightarrow> (Inr (), filter (\<lambda>e. fst e \<noteq> p) f))"

definition toy_create :: "string \<Rightarrow> fnode \<Rightarrow> toyfs \<Rightarrow> (errno + unit) \<times> toyfs" where
  "toy_create p n f = (case map_of f p of None \<Rightarrow> (Inr (), toy_put p n f) | Some _ \<Rightarrow> (Inl 17, f))"

definition toy :: "toyfs fsops" where
  "toy = \<lparr>fs_lstat = toy_lstat, fs_stat = toy_lstat,
     fs_readdir = (\<lambda>p f. if map_of f p = Some Fdir then Inr (''.'' # ''..'' # toy_names p f, 0) else Inl 20),
     fs_readlink = (\<lambda>p m f. case map_of f p of Some (Flink t) \<Rightarrow> Inr (take m t) | _ \<Rightarrow> Inl 22),
     fs_statvfs = (\<lambda>p f. Inr \<lparr>f_bsize = 4096, f_blocks = 100, f_bfree = 50, f_bavail = 50\<rparr>),
     fs_pread = (\<lambda>p n off f. case map_of f p of Some (Ffile d) \<Rightarrow> Inr (take n (drop off d), toy_stat (Ffile d)) | _ \<Rightarrow> Inl 2),
     fs_pwrite = (\<lambda>p s off f. case map_of f p of
        Some (Ffile d) \<Rightarrow> let d' = poke (d @ replicate (off + length s - length d) NUL) off s in
          (Inr (toy_stat (Ffile d')), toy_put p (Ffile d') f)
      | _ \<Rightarrow> (Inl 2, f)),
     fs_chmod = (\<lambda>p m f. (Inr (), f)),
     fs_truncate = (\<lambda>p n f. case map_of f p of Some (Ffile d) \<Rightarrow> (Inr (), toy_put p (Ffile (take n d)) f) | _ \<Rightarrow> (Inl 2, f)),
     fs_mkdir = (\<lambda>p m. toy_create p Fdir),
     fs_creat = (\<lambda>p m f. if map_of f p = Some Fdir then (Inl 21, f) else (Inr (), toy_put p (Ffile []) f)),
     fs_unlink = toy_drop, fs_rmdir = toy_drop,
     fs_rename = (\<lambda>p q f. case map_of f p of None \<Rightarrow> (Inl 2, f) | Some n \<Rightarrow> (Inr (), toy_put q n (snd (toy_drop p f)))),
     fs_link = (\<lambda>p q f. case map_of f p of None \<Rightarrow> (Inl 2, f) | Some n \<Rightarrow> toy_create q n f),
     fs_symlink = (\<lambda>t p. toy_create p (Flink t))\<rparr>"

lemma toy_names_ok: "names_ok toy"
  by (auto simp: names_ok_def toy_def toy_names_def split: if_splits)

end
