(* ===== verification/Drc.thy ===== *)
theory Drc
  imports Rpc
begin

text \<open>
  The duplicate request cache of \<^verbatim>\<open>nfsd/rpc.c\<close> behind an interface: what a store promises to later
  lookups, and that the ring of the code keeps the promise.
\<close>

section \<open>The interface\<close>

text \<open>What a request does to the cache: a lookup at \<open>t1\<close>; on a miss, where the request has a reply to
  remember, a store at \<open>t2\<close>.\<close>

fun cache_run :: "('k \<Rightarrow> int \<Rightarrow> 'c \<Rightarrow> 'r option) \<Rightarrow> ('k \<Rightarrow> 'r \<Rightarrow> int \<Rightarrow> 'c \<Rightarrow> 'c) \<Rightarrow> ('k \<times> int \<times> int \<times> 'r option) list \<Rightarrow> 'c \<Rightarrow> 'c" where
  "cache_run look put [] c = c"
| "cache_run look put ((k, t1, t2, r) # qs) c =
     cache_run look put qs (case r of None \<Rightarrow> c | Some r' \<Rightarrow> if look k t1 c = None then put k r' t2 c else c)"

text \<open>\<open>keeps n k r t c\<close>: the reply \<open>r\<close> to request \<open>k\<close>, stored at time \<open>t\<close>, outlives \<open>n\<close> further stores.\<close>

locale reply_cache =
  fixes ok :: "'c \<Rightarrow> bool" and look :: "'k \<Rightarrow> int \<Rightarrow> 'c \<Rightarrow> 'r option" and put :: "'k \<Rightarrow> 'r \<Rightarrow> int \<Rightarrow> 'c \<Rightarrow> 'c"
    and small :: "'r \<Rightarrow> bool" and slots :: nat and ttl :: int
    and keeps :: "nat \<Rightarrow> 'k \<Rightarrow> 'r \<Rightarrow> int \<Rightarrow> 'c \<Rightarrow> bool"
  assumes put_ok: "ok c \<Longrightarrow> ok (put k r t c)"
    and put_keeps: "ok c \<Longrightarrow> look k t1 c = None \<Longrightarrow> t1 \<le> t2 \<Longrightarrow> small r \<Longrightarrow> n < slots \<Longrightarrow> keeps n k r t2 (put k r t2 c)"
    and other_keeps: "ok c \<Longrightarrow> keeps (Suc n) k r t c \<Longrightarrow> k' \<noteq> k \<Longrightarrow> keeps n k r t (put k' r' t' c)"
    and less_keeps: "keeps (Suc n) k r t c \<Longrightarrow> keeps n k r t c"
    and look_keeps: "ok c \<Longrightarrow> keeps n k r t c \<Longrightarrow> t \<le> now \<Longrightarrow> now \<le> t + ttl \<Longrightarrow> look k now c = Some r"
begin

lemma run_keeps:
  assumes "ok c" and "keeps (length qs) k r t c" and "\<forall>(k', t1, t2, r') \<in> set qs. t \<le> t1 \<and> t1 \<le> t + ttl"
  shows "ok (cache_run look put qs c) \<and> keeps 0 k r t (cache_run look put qs c)"
  using assms
proof (induction qs arbitrary: c)
  case (Cons q qs)
  obtain k' t1 t2 r' where q: "q = (k', t1, t2, r')" by (cases q)
  let ?c = "case r' of None \<Rightarrow> c | Some r' \<Rightarrow> if look k' t1 c = None then put k' r' t2 c else c"
  have "keeps (length qs) k r t ?c"
  proof (cases "k' = k")
    case True
    then have "look k' t1 c = Some r" using Cons.prems q by (intro look_keeps) auto
    then have "?c = c" by (simp split: option.split)
    with less_keeps [of "length qs" k r t c] Cons.prems(2) show ?thesis by simp
  next
    case False
    with other_keeps [OF Cons.prems(1), of "length qs" k r t k'] less_keeps [of "length qs" k r t c] Cons.prems(2)
    show ?thesis by (auto split: option.split)
  qed
  moreover have "ok ?c" using Cons.prems(1) put_ok by (simp split: option.split)
  ultimately show ?case using Cons.IH [of ?c] Cons.prems(3) by (simp add: q)
qed simp

text \<open>The cache answers a repeated request within the time limit, when at most \<open>slots - 1\<close> requests came
  between.\<close>

lemma replay:
  assumes "ok c" and "look k t1 c = None" and "t1 \<le> t2" and "small r" and "length qs < slots"
    and "\<forall>(k', t1, _, _) \<in> set qs. t2 \<le> t1 \<and> t1 \<le> t2 + ttl" and "t2 \<le> now" and "now \<le> t2 + ttl"
  shows "look k now (cache_run look put qs (put k r t2 c)) = Some r"
proof -
  have "keeps (length qs) k r t2 (put k r t2 c)" using assms by (intro put_keeps)
  from run_keeps [OF put_ok [OF assms(1)] this] assms(6) look_keeps assms(7,8) show ?thesis by blast
qed

end

section \<open>The ring\<close>

definition drc_ok :: "drc \<Rightarrow> bool" where
  "drc_ok D \<longleftrightarrow> length (g_drc D) = DRC_SLOTS \<and> g_drc_next D < DRC_SLOTS"

definition drc_look :: "peer \<times> u32 \<Rightarrow> int \<Rightarrow> drc \<Rightarrow> char list option" where
  "drc_look k now D = map_option d_reply (drc_lookup (fst k) (snd k) now D)"

definition drc_put :: "peer \<times> u32 \<Rightarrow> char list \<Rightarrow> int \<Rightarrow> drc \<Rightarrow> drc" where
  "drc_put k r t D = drc_store (fst k) (snd k) r t D"

text \<open>The entry stands in some slot that \<open>n\<close> stores do not reach, and no other slot answers the request.\<close>

definition drc_keeps :: "nat \<Rightarrow> peer \<times> u32 \<Rightarrow> char list \<Rightarrow> int \<Rightarrow> drc \<Rightarrow> bool" where
  "drc_keeps n k r t D \<longleftrightarrow> (\<exists>i < DRC_SLOTS.
     g_drc D ! i = \<lparr>d_valid = True, d_peer = fst k, d_xid = snd k, d_when = t, d_reply = r\<rparr>
     \<and> n \<le> (i + DRC_SLOTS - g_drc_next D) mod DRC_SLOTS
     \<and> (\<forall>j < DRC_SLOTS. j \<noteq> i \<longrightarrow> \<not> drc_match (fst k) (snd k) t (g_drc D ! j)))"

lemma drc_find_None: "drc_find p x now es = None \<longleftrightarrow> (\<forall>e \<in> set es. \<not> drc_match p x now e)"
  by (induction es) auto

lemma drc_find_unique:
  assumes "i < length es" and "drc_match p x now (es ! i)" and "\<forall>j < length es. j \<noteq> i \<longrightarrow> \<not> drc_match p x now (es ! j)"
  shows "drc_find p x now es = Some (es ! i)"
  using assms
proof (induction es arbitrary: i)
  case (Cons e es)
  show ?case
  proof (cases i)
    case (Suc m)
    have "\<not> drc_match p x now e" using Cons.prems(3) Suc by (metis length_Cons nat.distinct(1) nth_Cons_0 zero_less_Suc)
    moreover have "drc_find p x now es = Some (es ! m)"
      using Cons.prems Suc by (intro Cons.IH) (auto simp: All_less_Suc2)
    ultimately show ?thesis using Suc by simp
  qed (use Cons.prems in simp)
qed simp

lemma drc_match_later: "t \<le> now \<Longrightarrow> drc_match p x now e \<Longrightarrow> drc_match p x t e"
  by (auto simp: drc_match_def)

lemma ring_next: "i < 256 \<Longrightarrow> m < 256 \<Longrightarrow> Suc n \<le> (i + 256 - m) mod 256 \<Longrightarrow>
    m \<noteq> i \<and> n \<le> (i + 256 - (m + 1) mod 256) mod 256" for i m n :: nat
  by (cases "m < i"; cases "m = i"; cases "m = 255") (auto simp: le_mod_geq mod_if split: if_splits)

interpretation ring: reply_cache drc_ok drc_look drc_put "\<lambda>r. length r \<le> DRC_REPLYMAX" DRC_SLOTS DRC_TTL drc_keeps
proof
  show put: "drc_ok (drc_put k r t D)" if "drc_ok D" for k r t D
    using that by (simp add: drc_ok_def drc_put_def drc_store_def)
  show "drc_keeps n k r t2 (drc_put k r t2 D)"
    if ok: "drc_ok D" and miss: "drc_look k t1 D = None" and t: "t1 \<le> t2" and r: "length r \<le> DRC_REPLYMAX" and n: "n < DRC_SLOTS"
    for k r t1 t2 n D
  proof -
    have "\<forall>e \<in> set (g_drc D). \<not> drc_match (fst k) (snd k) t1 e"
      using miss by (simp add: drc_look_def drc_lookup_def drc_find_None)
    then have "\<forall>j < DRC_SLOTS. \<not> drc_match (fst k) (snd k) t2 (g_drc D ! j)"
      using ok drc_match_later [OF t] by (metis drc_ok_def nth_mem)
    moreover have "n \<le> (g_drc_next D + 256 - (g_drc_next D + 1) mod 256) mod 256"
      using ok n by (cases "g_drc_next D = 255") (auto simp: drc_ok_def)
    ultimately show ?thesis
      using ok r by (auto simp: drc_keeps_def drc_put_def drc_store_def drc_ok_def intro!: exI [of _ "g_drc_next D"])
  qed
  show less: "drc_keeps n k r t D" if "drc_keeps (Suc n) k r t D" for n k r t D
    using that unfolding drc_keeps_def by (meson Suc_leD)
  show "drc_keeps n k r t (drc_put k' r' t' D)"
    if ok: "drc_ok D" and k: "drc_keeps (Suc n) k r t D" and ne: "k' \<noteq> k" for n k r t k' r' t' D
  proof (cases "length r' > DRC_REPLYMAX")
    case True
    then show ?thesis using less [OF k] by (simp add: drc_put_def drc_store_def)
  next
    case False
    from k obtain i where i: "i < 256" "g_drc D ! i = \<lparr>d_valid = True, d_peer = fst k, d_xid = snd k, d_when = t, d_reply = r\<rparr>"
      "Suc n \<le> (i + 256 - g_drc_next D) mod 256" "\<forall>j < 256. j \<noteq> i \<longrightarrow> \<not> drc_match (fst k) (snd k) t (g_drc D ! j)"
      by (auto simp: drc_keeps_def)
    from ok have m: "g_drc_next D < 256" "length (g_drc D) = 256" by (simp_all add: drc_ok_def)
    have "\<not> drc_match (fst k) (snd k) t \<lparr>d_valid = True, d_peer = fst k', d_xid = snd k', d_when = t', d_reply = r'\<rparr>"
      using ne by (auto simp: drc_match_def prod_eq_iff)
    with i m ring_next [OF i(1) m(1) i(3)] False show ?thesis
      unfolding drc_keeps_def drc_put_def drc_store_def
      by (intro exI [of _ i]) (simp add: nth_list_update)
  qed
  show "drc_look k now D = Some r" if ok: "drc_ok D" and k: "drc_keeps n k r t D" and now: "t \<le> now" "now \<le> t + DRC_TTL" for n k r t now D
  proof -
    from k obtain i where i: "i < 256" "g_drc D ! i = \<lparr>d_valid = True, d_peer = fst k, d_xid = snd k, d_when = t, d_reply = r\<rparr>"
      "\<forall>j < 256. j \<noteq> i \<longrightarrow> \<not> drc_match (fst k) (snd k) t (g_drc D ! j)" by (auto simp: drc_keeps_def)
    have "drc_find (fst k) (snd k) now (g_drc D) = Some (g_drc D ! i)"
      using i ok now drc_match_later [OF now(1)] by (intro drc_find_unique) (auto simp: drc_ok_def drc_match_def)
    with i(2) show ?thesis by (simp add: drc_look_def drc_lookup_def)
  qed
qed

end
