(* ===== verification/Rpcprops.thy ===== *)
theory Rpcprops
  imports Drc
begin

text \<open>
  Properties of the RPC dispatcher: calls are parsed as they were encoded, calls that no route serves are
  refused with the reason, and a repeated request with a cached route is not executed again.
\<close>

section \<open>The dispatcher and the cache\<close>

definition routed :: "'s rpc_route list \<Rightarrow> rpc_call \<Rightarrow> 's rpc_route option" where
  "routed routes c = fst (route_scan c routes (None, False, 0x7fffffff, 0))"

lemma handle_one_routed:
  assumes "rpc_parse_call (xdr_init m (length m)) = Some (c, x)" and "routed routes c = Some r"
  shows "handle_one routes p m t1 t2 sv =
    (case (if r_cache r then drc_lookup p (c_xid c) t1 (sv_drc sv) else None) of
       Some hit \<Rightarrow> Some (sv, Some (d_reply hit))
     | None \<Rightarrow>
         (case rpc_reply_success (xdr_init (sv_out sv) RPC_BUFSZ) (c_xid c) of (ok, out1) \<Rightarrow>
            if \<not> ok then Some (sv\<lparr>sv_out := x_buf out1\<rparr>, None)
            else (case r_fn r c x out1 (sv_st sv) of
                None \<Rightarrow> None
              | Some (ok2, out2, st) \<Rightarrow>
                  if \<not> ok2 then Some (sv\<lparr>sv_out := x_buf out2, sv_st := st\<rparr>, None)
                  else Some (finish p c (r_cache r) t2 out2 (sv\<lparr>sv_st := st\<rparr>)))))"
proof -
  obtain po lo hi where "route_scan c routes (None, False, 0x7fffffff, 0) = (Some r, po, lo, hi)"
    using assms(2) by (cases "route_scan c routes (None, False, 0x7fffffff, 0)") (auto simp: routed_def)
  with assms(1) show ?thesis by (simp add: handle_one_def)
qed

lemma handle_one_unrouted:
  assumes "rpc_parse_call (xdr_init m (length m)) = Some (c, x)"
    and "route_scan c routes (None, False, 0x7fffffff, 0) = (None, prog_ok, lo, hi)"
  shows "handle_one routes p m t1 t2 sv = Some (finish p c False t2
      (if \<not> prog_ok then snd (rpc_reply_accept_err (xdr_init (sv_out sv) RPC_BUFSZ) (c_xid c) 1)
       else if \<not> (\<exists>r \<in> set routes. r_prog r = c_prog c \<and> r_vers r = c_vers c)
       then snd (rpc_reply_prog_mismatch (xdr_init (sv_out sv) RPC_BUFSZ) (c_xid c) (word_of_int lo) (word_of_int hi))
       else snd (rpc_reply_accept_err (xdr_init (sv_out sv) RPC_BUFSZ) (c_xid c) 3)) sv)"
  using assms by (simp add: handle_one_def Let_def)

lemma finish_drc: "finish p c b t out sv = (sv', a) \<Longrightarrow>
    sv_drc sv' = (if b \<and> a \<noteq> None then drc_put (p, c_xid c) (the a) t (sv_drc sv) else sv_drc sv)"
  by (auto simp: finish_def Let_def drc_put_def split: if_splits)

text \<open>What a datagram does to the cache is one request of \<open>cache_run\<close>.\<close>

lemma handle_one_cache:
  assumes "handle_one routes p m t1 t2 sv = Some (sv', a)"
  obtains k ro where "sv_drc sv' = cache_run drc_look drc_put [(k, t1, t2, ro)] (sv_drc sv)"
proof (cases "rpc_parse_call (xdr_init m (length m))")
  case None
  with assms that [of _ None] show thesis by (simp add: handle_one_def)
next
  case (Some cx)
  then obtain c x where c: "rpc_parse_call (xdr_init m (length m)) = Some (c, x)" by (cases cx) auto
  show thesis
  proof (cases "routed routes c")
    case None
    then obtain po lo hi where u: "route_scan c routes (None, False, 0x7fffffff, 0) = (None, po, lo, hi)"
      by (cases "route_scan c routes (None, False, 0x7fffffff, 0)") (auto simp: routed_def)
    from assms have "finish p c False t2 out sv = (sv', a) \<Longrightarrow> sv_drc sv' = sv_drc sv" for out
      by (auto dest: finish_drc)
    with assms have "sv_drc sv' = sv_drc sv" unfolding handle_one_unrouted [OF c u] by blast
    then show thesis using that [of _ None] by simp
  next
    case (Some r)
    note h = handle_one_routed [OF c Some, of p t1 t2 sv]
    consider (hit) "sv' = sv" | (other) "sv_drc sv' = sv_drc sv"
      | (fin) out st where "(if r_cache r then drc_lookup p (c_xid c) t1 (sv_drc sv) else None) = None"
        "finish p c (r_cache r) t2 out (sv\<lparr>sv_st := st\<rparr>) = (sv', a)"
      using assms unfolding h by (auto split: option.splits prod.splits if_splits)
    then show thesis
    proof cases
      case fin
      from finish_drc [OF fin(2)] have
        e: "sv_drc sv' = (if r_cache r \<and> a \<noteq> None then drc_put (p, c_xid c) (the a) t2 (sv_drc sv) else sv_drc sv)"
        by (auto split: if_splits)
      show thesis
      proof (cases "r_cache r \<and> a \<noteq> None")
        case True
        with fin(1) have "drc_look (p, c_xid c) t1 (sv_drc sv) = None" by (simp add: drc_look_def)
        with True e show thesis using that [of "(p, c_xid c)" a] by auto
      next
        case False
        with e show thesis using that [of _ None] by auto
      qed
    qed (use that [of _ None] in simp_all)
  qed
qed

lemma rpc_serve_cache:
  assumes "rpc_serve routes ds sv = Some (sv', as)"
    and "\<forall>g. Some g \<in> set ds \<longrightarrow> t \<le> g_t1 g \<and> g_t1 g \<le> t + DRC_TTL"
  obtains qs where "sv_drc sv' = cache_run drc_look drc_put qs (sv_drc sv)" "length qs \<le> length ds"
    "\<forall>(k, t1, t2, r) \<in> set qs. t \<le> t1 \<and> t1 \<le> t + DRC_TTL"
proof -
  have "\<exists>qs. sv_drc sv' = cache_run drc_look drc_put qs (sv_drc sv) \<and> length qs \<le> length ds
    \<and> (\<forall>(k, t1, t2, r) \<in> set qs. t \<le> t1 \<and> t1 \<le> t + DRC_TTL)"
    using assms
  proof (induction ds arbitrary: sv as)
    case Nil
    then show ?case by (intro exI [of _ "[]"]) simp
  next
    case (Cons d ds)
    show ?case
    proof (cases d)
      case None
      with Cons.prems obtain as' where "rpc_serve routes ds sv = Some (sv', as')" by (auto split: option.splits)
      from Cons.IH [OF this] Cons.prems(2) show ?thesis by (auto intro: le_SucI)
    next
      case (Some g)
      with Cons.prems(1) obtain sv1 a as' where
        h: "handle_one routes (g_peer g) (take RPC_BUFSZ (g_data g)) (g_t1 g) (g_t2 g) sv = Some (sv1, a)"
        and r: "rpc_serve routes ds sv1 = Some (sv', as')" by (auto split: option.splits)
      from handle_one_cache [OF h] obtain k ro where
        q: "sv_drc sv1 = cache_run drc_look drc_put [(k, g_t1 g, g_t2 g, ro)] (sv_drc sv)" .
      from Cons.IH [OF r] Cons.prems(2) obtain qs where qs: "sv_drc sv' = cache_run drc_look drc_put qs (sv_drc sv1)"
        "length qs \<le> length ds" "\<forall>(k, t1, t2, r) \<in> set qs. t \<le> t1 \<and> t1 \<le> t + DRC_TTL" by auto
      then show ?thesis using q Some Cons.prems(2)
        by (intro exI [of _ "(k, g_t1 g, g_t2 g, ro) # qs"]) simp
    qed
  qed
  then show thesis using that by blast
qed

text \<open>
  C4. Requests with a cached route are executed at most once.  After a first execution that sent a reply of
  at most \<^verbatim>\<open>DRC_REPLYMAX\<close> bytes, and any at most 255 further datagrams of any peers handled within
  \<^verbatim>\<open>DRC_TTL\<close> seconds, a retransmission of the request within that time is answered with the very
  same bytes, and nothing of the server is changed.
\<close>

theorem rpc_at_most_once:
  assumes "drc_ok (sv_drc sv)"
    and "rpc_parse_call (xdr_init m (length m)) = Some (c, x)" and "routed routes c = Some r" and "r_cache r"
    and "drc_lookup p (c_xid c) t1 (sv_drc sv) = None" and "t1 \<le> t2"
    and "handle_one routes p m t1 t2 sv = Some (sv1, Some reply)" and "length reply \<le> DRC_REPLYMAX"
    and "rpc_serve routes ds sv1 = Some (sv2, as)" and "length ds < DRC_SLOTS"
    and "\<forall>g. Some g \<in> set ds \<longrightarrow> t2 \<le> g_t1 g \<and> g_t1 g \<le> t2 + DRC_TTL"
    and "t2 \<le> now" and "now \<le> t2 + DRC_TTL"
  shows "handle_one routes p m now now' sv2 = Some (sv2, Some reply)"
proof -
  from assms(5,7) obtain out st where fin: "finish p c True t2 out (sv\<lparr>sv_st := st\<rparr>) = (sv1, Some reply)"
    unfolding handle_one_routed [OF assms(2,3)] using assms(4) by (auto split: option.splits prod.splits if_splits)
  then have d1: "sv_drc sv1 = drc_put (p, c_xid c) reply t2 (sv_drc sv)"
    by (auto simp: finish_def Let_def drc_put_def split: if_splits)
  from rpc_serve_cache [OF assms(9,11)] obtain qs where
    qs: "sv_drc sv2 = cache_run drc_look drc_put qs (sv_drc sv1)" "length qs \<le> length ds"
      "\<forall>(k, t1, t2', r) \<in> set qs. t2 \<le> t1 \<and> t1 \<le> t2 + DRC_TTL" .
  have "drc_look (p, c_xid c) now (sv_drc sv2) = Some reply"
    unfolding qs(1) d1 using assms(1,5,6,8,10,12,13) qs(2,3)
    by (intro ring.replay [of "sv_drc sv" _ t1]) (auto simp: drc_look_def)
  then obtain hit where "drc_lookup p (c_xid c) now (sv_drc sv2) = Some hit" "d_reply hit = reply"
    by (auto simp: drc_look_def)
  then show ?thesis using assms(4) by (simp add: handle_one_routed [OF assms(2,3)])
qed

section \<open>Calls\<close>

text \<open>A call message as a client builds it.\<close>

definition call_msg :: "u32 \<Rightarrow> u32 \<Rightarrow> u32 \<Rightarrow> u32 \<Rightarrow> u32 \<Rightarrow> char list \<Rightarrow> u32 \<Rightarrow> char list \<Rightarrow> char list \<Rightarrow> char list" where
  "call_msg xid prog vers proc cf cred vf verf args =
     bytes32 xid @ bytes32 0 @ bytes32 2 @ bytes32 prog @ bytes32 vers @ bytes32 proc
     @ bytes32 cf @ enc_bytes cred @ bytes32 vf @ enc_bytes verf @ args"

lemma parse_call_msg:
  assumes "length (call_msg xid prog vers proc cf cred vf verf args) \<le> 65536"
  obtains u g x where "rpc_parse_call (xdr_init (call_msg xid prog vers proc cf cred vf verf args)
      (length (call_msg xid prog vers proc cf cred vf verf args)))
    = Some (\<lparr>c_xid = xid, c_prog = prog, c_vers = vers, c_proc = proc, c_uid = u, c_gid = g\<rparr>, x)" "reads x args"
proof -
  let ?m = "call_msg xid prog vers proc cf cred vf verf args"
  have "reads (xdr_init ?m (length ?m)) ?m" using assms by (rule reads_init)
  then have "reads (xdr_init ?m (length ?m)) (bytes32 xid @ bytes32 0 @ bytes32 2 @ bytes32 prog @ bytes32 vers
      @ bytes32 proc @ bytes32 cf @ enc_bytes cred @ bytes32 vf @ enc_bytes verf @ args)"
    by (simp only: call_msg_def)
  from reads_u32 [OF this] obtain x1 where 1: "xdr_get_u32 (xdr_init ?m (length ?m)) = (Some xid, x1)" and
    "reads x1 (bytes32 0 @ bytes32 2 @ bytes32 prog @ bytes32 vers @ bytes32 proc @ bytes32 cf @ enc_bytes cred
      @ bytes32 vf @ enc_bytes verf @ args)" .
  from reads_u32 [OF this(2)] obtain x2 where 2: "xdr_get_u32 x1 = (Some 0, x2)" and
    "reads x2 (bytes32 2 @ bytes32 prog @ bytes32 vers @ bytes32 proc @ bytes32 cf @ enc_bytes cred
      @ bytes32 vf @ enc_bytes verf @ args)" .
  from reads_u32 [OF this(2)] obtain x3 where 3: "xdr_get_u32 x2 = (Some 2, x3)" and
    "reads x3 (bytes32 prog @ bytes32 vers @ bytes32 proc @ bytes32 cf @ enc_bytes cred @ bytes32 vf @ enc_bytes verf @ args)" .
  from reads_u32 [OF this(2)] obtain x4 where 4: "xdr_get_u32 x3 = (Some prog, x4)" and
    "reads x4 (bytes32 vers @ bytes32 proc @ bytes32 cf @ enc_bytes cred @ bytes32 vf @ enc_bytes verf @ args)" .
  from reads_u32 [OF this(2)] obtain x5 where 5: "xdr_get_u32 x4 = (Some vers, x5)" and
    "reads x5 (bytes32 proc @ bytes32 cf @ enc_bytes cred @ bytes32 vf @ enc_bytes verf @ args)" .
  from reads_u32 [OF this(2)] obtain x6 where 6: "xdr_get_u32 x5 = (Some proc, x6)" and
    "reads x6 (bytes32 cf @ enc_bytes cred @ bytes32 vf @ enc_bytes verf @ args)" .
  from reads_u32 [OF this(2)] obtain x7 where 7: "xdr_get_u32 x6 = (Some cf, x7)" and
    "reads x7 (enc_bytes cred @ bytes32 vf @ enc_bytes verf @ args)" .
  from reads_bytes [OF this(2)] obtain x8 where 8: "xdr_get_bytes x7 = (Some cred, x8)" and
    "reads x8 (bytes32 vf @ enc_bytes verf @ args)" .
  from reads_u32 [OF this(2)] obtain x9 where 9: "xdr_get_u32 x8 = (Some vf, x9)" and "reads x9 (enc_bytes verf @ args)" .
  from reads_bytes [OF this(2)] obtain x10 where 10: "xdr_get_bytes x9 = (Some verf, x10)" and r: "reads x10 args" .
  let ?c0 = "\<lparr>c_xid = xid, c_prog = prog, c_vers = vers, c_proc = proc, c_uid = - 1, c_gid = - 1\<rparr>"
  define c where "c = (if cf = 1 \<and> length cred \<ge> 12 then parse_cred cred ?c0 else ?c0)"
  have "rpc_parse_call (xdr_init ?m (length ?m)) = Some (c, x10)"
    by (simp add: rpc_parse_call_def 1 2 3 4 5 6 7 8 9 10 c_def Let_def)
  moreover have "c = ?c0\<lparr>c_uid := c_uid c, c_gid := c_gid c\<rparr>"
    by (auto simp: c_def parse_cred_def on_ok_def split: prod.split option.split)
  ultimately show thesis using that [of "c_uid c" "c_gid c" x10] r by simp
qed

section \<open>Calls no route serves\<close>

definition prog_routes :: "'s rpc_route list \<Rightarrow> u32 \<Rightarrow> 's rpc_route list" where
  "prog_routes routes p = filter (\<lambda>r. r_prog r = p) routes"

lemma route_scan_eq:
  "route_scan c routes (m, po, lo, hi) =
    (case rev (filter (\<lambda>r. r_vers r = c_vers c \<and> r_proc r = c_proc c) (prog_routes routes (c_prog c))) of [] \<Rightarrow> m | r # _ \<Rightarrow> Some r,
     po \<or> prog_routes routes (c_prog c) \<noteq> [],
     fold min (map (\<lambda>r. sint (r_vers r)) (prog_routes routes (c_prog c))) lo,
     fold max (map (\<lambda>r. sint (r_vers r)) (prog_routes routes (c_prog c))) hi)"
proof (induction routes arbitrary: m po lo hi)
  case (Cons r rs)
  have "(if sint (r_vers r) < lo then sint (r_vers r) else lo) = min (sint (r_vers r)) lo"
    "(if sint (r_vers r) > hi then sint (r_vers r) else hi) = max (sint (r_vers r)) hi" by (simp_all add: min_def max_def)
  then show ?case using Cons.IH
    by (auto simp: prog_routes_def split: list.split)
qed (simp add: prog_routes_def)

lemma put_chain_wrote: "wrote x w \<Longrightarrow> length w + 4 * length vs \<le> 65536 \<Longrightarrow>
    fst (put_chain x vs) \<and> wrote (snd (put_chain x vs)) (w @ concat (map bytes32 vs))"
proof (induction vs arbitrary: x w)
  case (Cons v vs)
  then have "xdr_put_u32 x v = (True, app x (bytes32 v))" "wrote (app x (bytes32 v)) (w @ bytes32 v)"
    using wrote_u32 [of x w v] by simp_all
  with Cons.IH [OF this(2)] Cons.prems(2) show ?case by simp
qed simp

lemma reply_wrote:
  assumes "length b = 65536"
  shows "wrote (snd (rpc_reply_accept_err (xdr_init b 65536) xid s)) (concat (map bytes32 [xid, 1, 0, 0, 0, s]))"
    and "fst (rpc_reply_success (xdr_init b 65536) xid)
      \<and> wrote (snd (rpc_reply_success (xdr_init b 65536) xid)) (concat (map bytes32 [xid, 1, 0, 0, 0, 0]))"
    and "wrote (snd (rpc_reply_prog_mismatch (xdr_init b 65536) xid lo hi)) (concat (map bytes32 [xid, 1, 0, 0, 0, 2, lo, hi]))"
proof -
  note i = wrote_init [OF assms]
  have h: "fst (reply_head (xdr_init b 65536) xid 0 s) \<and>
      wrote (snd (reply_head (xdr_init b 65536) xid 0 s)) (concat (map bytes32 [xid, 1, 0, 0, 0, s]))" for s
    using put_chain_wrote [OF i, of "[xid, 1, 0, 0, 0, s]"] by (simp only: reply_head_def) simp
  show "wrote (snd (rpc_reply_accept_err (xdr_init b 65536) xid s)) (concat (map bytes32 [xid, 1, 0, 0, 0, s]))"
    using h by (simp only: rpc_reply_accept_err_def)
  show "fst (rpc_reply_success (xdr_init b 65536) xid)
      \<and> wrote (snd (rpc_reply_success (xdr_init b 65536) xid)) (concat (map bytes32 [xid, 1, 0, 0, 0, 0]))"
    using h by (simp only: rpc_reply_success_def)
  obtain x where x: "reply_head (xdr_init b 65536) xid 0 2 = (True, x)" "wrote x (concat (map bytes32 [xid, 1, 0, 0, 0, 2]))"
    using h [of 2] by (cases "reply_head (xdr_init b 65536) xid 0 2") auto
  have "wrote (snd (put_chain x [lo, hi])) (concat (map bytes32 [xid, 1, 0, 0, 0, 2]) @ concat (map bytes32 [lo, hi]))"
    using put_chain_wrote [OF x(2), of "[lo, hi]"] by simp
  with x(1) show "wrote (snd (rpc_reply_prog_mismatch (xdr_init b 65536) xid lo hi)) (concat (map bytes32 [xid, 1, 0, 0, 0, 2, lo, hi]))"
    by (simp add: rpc_reply_prog_mismatch_def)
qed

lemma finish_wrote: "wrote out w \<Longrightarrow> finish p c False t out sv = (sv\<lparr>sv_out := x_buf out\<rparr>, Some w)"
  by (simp add: finish_def wrote_def written_def xdr_len_def)

text \<open>
  C24. A call that no route serves is refused with the reason and has no effect.  The reply to a
  well-formed call carries its transaction id and the accept status \<^verbatim>\<open>PROG_UNAVAIL\<close> when no route has the
  program, \<^verbatim>\<open>PROG_MISMATCH\<close> with the lowest and highest version of the program when none has its
  version, and \<^verbatim>\<open>PROC_UNAVAIL\<close> when none of that version has the procedure.
\<close>

theorem rpc_refuses:
  assumes "length (sv_out sv) = RPC_BUFSZ" and "m = call_msg xid prog vers proc cf cred vf verf args" and "length m \<le> RPC_BUFSZ"
    and "\<forall>r \<in> set routes. r_prog r = prog \<and> r_vers r = vers \<longrightarrow> r_proc r \<noteq> proc"
    and "vs = map (\<lambda>r. sint (r_vers r)) (prog_routes routes prog)"
  shows "\<exists>b. handle_one routes p m t1 t2 sv = Some (sv\<lparr>sv_out := b\<rparr>, Some (concat (map bytes32 (
      if prog_routes routes prog = [] then [xid, 1, 0, 0, 0, 1]
      else if \<exists>r \<in> set routes. r_prog r = prog \<and> r_vers r = vers then [xid, 1, 0, 0, 0, 3]
      else [xid, 1, 0, 0, 0, 2, word_of_int (fold min vs 0x7fffffff), word_of_int (fold max vs 0)]))))"
proof -
  from parse_call_msg [OF assms(3) [unfolded assms(2)]] obtain u g x where
    c: "rpc_parse_call (xdr_init m (length m))
      = Some (\<lparr>c_xid = xid, c_prog = prog, c_vers = vers, c_proc = proc, c_uid = u, c_gid = g\<rparr>, x)" unfolding assms(2) .
  let ?c = "\<lparr>c_xid = xid, c_prog = prog, c_vers = vers, c_proc = proc, c_uid = u, c_gid = g\<rparr>"
  have "filter (\<lambda>r. r_vers r = vers \<and> r_proc r = proc) (prog_routes routes prog) = []"
    using assms(4) by (auto simp: prog_routes_def filter_empty_conv)
  then have scan: "route_scan ?c routes (None, False, 0x7fffffff, 0)
      = (None, prog_routes routes prog \<noteq> [], fold min vs 0x7fffffff, fold max vs 0)"
    by (simp add: route_scan_eq assms(5))
  note h = handle_one_unrouted [OF c scan, of p t1 t2 sv]
  note w = reply_wrote [OF assms(1), of xid, unfolded assms(1)]
  have v: "(\<exists>r \<in> set routes. r_prog r = prog \<and> r_vers r = vers) \<Longrightarrow> prog_routes routes prog \<noteq> []"
    by (auto simp: prog_routes_def filter_empty_conv)
  have fin: "wrote out w \<Longrightarrow> \<exists>b. Some (finish p ?c False t2 out sv) = Some (sv\<lparr>sv_out := b\<rparr>, Some w)" for out w
    by (auto simp: finish_wrote)
  consider "prog_routes routes prog = []" | "\<exists>r \<in> set routes. r_prog r = prog \<and> r_vers r = vers"
    | "prog_routes routes prog \<noteq> []" "\<not> (\<exists>r \<in> set routes. r_prog r = prog \<and> r_vers r = vers)" by blast
  then show ?thesis
  proof cases
    case 1
    then show ?thesis unfolding h using fin [OF w(1)] by simp
  next
    case 2
    with v have "prog_routes routes prog \<noteq> []" by blast
    with 2 show ?thesis unfolding h using fin [OF w(1)] by simp
  next
    case 3
    then have "prog_routes routes prog = [] \<longleftrightarrow> False" "(\<exists>r \<in> set routes. r_prog r = prog \<and> r_vers r = vers) \<longleftrightarrow> False" by auto
    then show ?thesis unfolding h using fin [OF w(3)] by (simp del: bex_simps)
  qed
qed

section \<open>Examples\<close>

text \<open>A service that counts its executions.\<close>

definition demo_route :: "nat rpc_route" where
  "demo_route = \<lparr>r_prog = 1, r_vers = 1, r_proc = 1, r_fn = (\<lambda>c x out n. Some (True, snd (xdr_put_u32 out 7), n + 1)), r_cache = True\<rparr>"

definition demo_server :: "nat server" where
  "demo_server = \<lparr>sv_drc = \<lparr>g_drc = replicate DRC_SLOTS \<lparr>d_valid = False, d_peer = (0, 0), d_xid = 0, d_when = 0, d_reply = []\<rparr>,
     g_drc_next = 0\<rparr>, sv_out = replicate RPC_BUFSZ NUL, sv_st = 0\<rparr>"

abbreviation demo_call :: "u32 \<Rightarrow> u32 \<Rightarrow> u32 \<Rightarrow> char list" where
  "demo_call prog vers proc \<equiv> call_msg 5 prog vers proc 0 [] 0 [] []"

lemma demo_call_length: "length (demo_call prog vers proc) = 40"
  by (simp add: call_msg_def length_enc_bytes npad_def)

theorem rpc_refuses_witness:
  "\<exists>b. handle_one [demo_route] (1, 2) (demo_call 1 3 1) 0 0 demo_server
    = Some (demo_server\<lparr>sv_out := b\<rparr>, Some (concat (map bytes32 [5, 1, 0, 0, 0, 2, 1, 1])))"
  using rpc_refuses [OF _ refl _ _ refl, of demo_server 5 1 3 1 0 "[]" 0 "[]" "[]" "[demo_route]" "(1, 2)" 0 0]
  by (simp add: demo_call_length prog_routes_def demo_route_def) (simp add: demo_server_def)

theorem rpc_at_most_once_witness:
  "\<exists>sv1 reply. handle_one [demo_route] (1, 2) (demo_call 1 1 1) 0 0 demo_server = Some (sv1, Some reply) \<and> sv_st sv1 = 1
    \<and> handle_one [demo_route] (1, 2) (demo_call 1 1 1) 10 10 sv1 = Some (sv1, Some reply)"
proof -
  let ?m = "demo_call 1 1 1"
  have "length ?m \<le> 65536" by (simp add: demo_call_length)
  from parse_call_msg [OF this] obtain u g x where
    c: "rpc_parse_call (xdr_init ?m (length ?m))
      = Some (\<lparr>c_xid = 5, c_prog = 1, c_vers = 1, c_proc = 1, c_uid = u, c_gid = g\<rparr>, x)" .
  let ?c = "\<lparr>c_xid = 5, c_prog = 1, c_vers = 1, c_proc = 1, c_uid = u, c_gid = g\<rparr>"
  have r: "routed [demo_route] ?c = Some demo_route" by (simp add: routed_def demo_route_def)
  have miss: "drc_lookup (1, 2) (c_xid ?c) 0 (sv_drc demo_server) = None"
    by (simp add: drc_lookup_def drc_find_None demo_server_def drc_match_def)
  obtain out where out: "rpc_reply_success (xdr_init (sv_out demo_server) RPC_BUFSZ) 5 = (True, out)"
      "wrote out (concat (map bytes32 [5, 1, 0, 0, 0, 0]))"
    using reply_wrote(2) [of "sv_out demo_server" 5]
    by (cases "rpc_reply_success (xdr_init (sv_out demo_server) RPC_BUFSZ) 5") (auto simp: demo_server_def)
  from wrote_u32 [OF out(2), of 7] have w: "wrote (snd (xdr_put_u32 out 7)) (concat (map bytes32 [5, 1, 0, 0, 0, 0, 7]))" by simp
  then have l: "x_err (snd (xdr_put_u32 out 7)) = False"
    "take (xdr_len (snd (xdr_put_u32 out 7))) (x_buf (snd (xdr_put_u32 out 7))) = concat (map bytes32 [5, 1, 0, 0, 0, 0, 7])"
    by (simp_all only: wrote_def written_def xdr_len_def)
  have h: "handle_one [demo_route] (1, 2) ?m 0 0 demo_server
      = Some (finish (1, 2) ?c True 0 (snd (xdr_put_u32 out 7)) (demo_server\<lparr>sv_st := 1\<rparr>))"
    using miss out(1) unfolding handle_one_routed [OF c r] by (simp add: demo_route_def) (simp add: demo_server_def)
  then obtain sv1 where sv1: "handle_one [demo_route] (1, 2) ?m 0 0 demo_server
      = Some (sv1, Some (concat (map bytes32 [5, 1, 0, 0, 0, 0, 7])))" "sv_st sv1 = 1"
    using l by (simp add: finish_def Let_def)
  have "handle_one [demo_route] (1, 2) ?m 10 10 sv1 = Some (sv1, Some (concat (map bytes32 [5, 1, 0, 0, 0, 0, 7])))"
    by (rule rpc_at_most_once [OF _ c r _ miss _ sv1(1), of "[]" sv1 "[]"])
      (simp_all add: demo_route_def demo_server_def drc_ok_def)
  with sv1 show ?thesis by blast
qed

end
