(* ===== verification/Nfsprops.thy ===== *)
theory Nfsprops
  imports Nfs Toyfs Rpcprops
begin

text \<open>
  Confinement of the NFS server: whatever datagrams arrive, every file system call is made with a path of
  the export, every datagram is handled to its end, and the state stays well-formed.  That no other path
  is used is stated as independence: two file systems that answer alike for the paths of the export
  cannot be told apart by the server.
\<close>

section \<open>Paths\<close>

text \<open>Joining a name to a path of the export gives a path of the export.\<close>

lemma join_child_confined:
  assumes "root_ok R" and "confined R dir" and "join_child R dir name mx = Some child"
  shows "confined R child"
proof (cases "name = ''..''")
  case True
  show ?thesis
  proof (cases "dir = R")
    case False
    from confined_parent [OF assms(2) this] obtain d c where d: "dir = d @ CHR ''/'' # c" "confined R d" "comp_ok c" .
    then have "rcut (CHR ''/'') dir = Some (d, c)" by (simp add: rcut_Some_iff comp_ok_def)
    moreover have "d \<noteq> []" using confined_last [OF assms(1) d(2)] by simp
    ultimately show ?thesis using assms(3) True False d(2) by (simp add: join_child_def split: if_splits)
  qed (use assms True in \<open>auto simp: join_child_def split: if_splits\<close>)
next
  case False
  show ?thesis
  proof (cases "name = ''.''")
    case False
    with \<open>name \<noteq> ''..''\<close> assms(3) have "comp_ok name" "child = dir @ CHR ''/'' # name"
      by (auto simp: join_child_def comp_ok_def split: if_splits)
    then show ?thesis using assms(2) confined_child by blast
  qed (use assms in \<open>auto simp: join_child_def split: if_splits\<close>)
qed

section \<open>Independence of other paths\<close>

definition agree :: "string \<Rightarrow> 'f fsops \<Rightarrow> 'f fsops \<Rightarrow> bool" where
  "agree R F G \<longleftrightarrow> (\<forall>p. confined R p \<longrightarrow>
     fs_lstat F p = fs_lstat G p \<and> fs_stat F p = fs_stat G p \<and> fs_readdir F p = fs_readdir G p
     \<and> fs_readlink F p = fs_readlink G p \<and> fs_statvfs F p = fs_statvfs G p \<and> fs_pread F p = fs_pread G p
     \<and> fs_pwrite F p = fs_pwrite G p \<and> fs_chmod F p = fs_chmod G p \<and> fs_truncate F p = fs_truncate G p
     \<and> fs_mkdir F p = fs_mkdir G p \<and> fs_creat F p = fs_creat G p \<and> fs_unlink F p = fs_unlink G p
     \<and> fs_rmdir F p = fs_rmdir G p
     \<and> (\<forall>q. confined R q \<longrightarrow> fs_rename F p q = fs_rename G p q \<and> fs_link F p q = fs_link G p q)
     \<and> (\<forall>t. fs_symlink F t p = fs_symlink G t p))"

lemma agreeD:
  assumes "agree R F G" and "confined R p"
  shows "fs_lstat F p = fs_lstat G p" "fs_stat F p = fs_stat G p" "fs_readdir F p = fs_readdir G p"
    "fs_readlink F p = fs_readlink G p" "fs_statvfs F p = fs_statvfs G p" "fs_pread F p = fs_pread G p"
    "fs_pwrite F p = fs_pwrite G p" "fs_chmod F p = fs_chmod G p" "fs_truncate F p = fs_truncate G p"
    "fs_mkdir F p = fs_mkdir G p" "fs_creat F p = fs_creat G p" "fs_unlink F p = fs_unlink G p"
    "fs_rmdir F p = fs_rmdir G p" "fs_symlink F t p = fs_symlink G t p"
    "confined R q \<Longrightarrow> fs_rename F p q = fs_rename G p q" "confined R q \<Longrightarrow> fs_link F p q = fs_link G p q"
  using assms by (simp_all add: agree_def)

lemma rebuild_loop_agree:
  assumes "root_ok R" and "agree R F G" and "confined R dir" and "\<forall>n \<in> set ns. n \<noteq> [] \<and> CHR ''/'' \<notin> set n"
    and "\<And>d h. confined R d \<Longrightarrow> sub d h = sub' d h"
  shows "rebuild_loop F f sub dir ns h = rebuild_loop G f sub' dir ns h"
  using assms(4)
proof (induction ns arbitrary: h)
  case (Cons n ns)
  show ?case
  proof (cases "n = ''.'' \<or> n = ''..'' \<or> length dir + length n + 2 > 1024")
    case False
    then have "comp_ok n" using Cons.prems by (simp add: comp_ok_def)
    then have c: "confined R (walk_child dir n)" using assms(1,3) by (simp add: walk_child_confined confined_child)
    show ?thesis using False Cons assms(5) [OF c] agreeD(1) [OF assms(2) c]
      by (auto simp: Let_def split: prod.split option.split sum.split)
  qed (use Cons in simp)
qed simp

lemma rebuild_dir_agree:
  assumes "root_ok R" and "names_ok F" and "agree R F G" and "confined R dir"
  shows "rebuild_dir lv F f dir h = rebuild_dir lv G f dir h"
  using assms(4)
proof (induction lv arbitrary: dir h)
  case (Suc lv)
  have e: "fs_readdir F dir = fs_readdir G dir" using agreeD(3) [OF assms(3) Suc.prems] .
  show ?case
  proof (cases "fs_readdir F dir f")
    case (Inr r)
    then obtain ns e where r: "fs_readdir F dir f = Inr (ns, e)" by (cases r) auto
    with assms(2) have "\<forall>n \<in> set ns. n \<noteq> [] \<and> CHR ''/'' \<notin> set n" unfolding names_ok_def by blast
    then have "rebuild_loop F f (rebuild_dir lv F f) dir ns h = rebuild_loop G f (rebuild_dir lv G f) dir ns h"
      using assms(1,3) Suc by (intro rebuild_loop_agree) auto
    then show ?thesis using r e by simp
  qed (use e in simp)
qed simp

lemma fh_to_path_agree:
  assumes "root_ok R" and "names_ok F" and "agree R F G" and "h_root h = R"
  shows "fh_to_path F f fh h = fh_to_path G f fh h"
proof -
  have "rebuild F f h = rebuild G f h"
    using rebuild_dir_agree [OF assms(1-3) confined_root] assms(4) by (simp add: rebuild_def Let_def)
  moreover have "h_root h \<noteq> []" using assms(1,4) by (auto simp: root_ok_def)
  ultimately show ?thesis by (simp add: fh_to_path_def fh_search_eq Let_def)
qed

section \<open>The state of the server\<close>

definition nfs_inv :: "string \<Rightarrow> 'f nst \<Rightarrow> bool" where
  "nfs_inv R st \<longleftrightarrow> root_ok R \<and> n_root st = R \<and> h_root (n_h st) = R \<and> h_wf (n_h st)
     \<and> (\<forall>p \<in> fst ` set (h_paths (n_h st)). confined R p)"

lemma nfs_inv_fs [simp]: "nfs_inv R (st\<lparr>n_fs := f\<rparr>) = nfs_inv R st"
  by (simp add: nfs_inv_def)

lemma inv_to_path:
  assumes "nfs_inv R st" and "names_ok F"
  obtains r h where "fh_to_path F f fh (n_h st) = Some (r, h)" "nfs_inv R (st\<lparr>n_h := h\<rparr>)" "\<forall>p. r = Some p \<longrightarrow> confined R p"
proof -
  have root: "root_ok R" "h_root (n_h st) = R" "h_root (n_h st) \<noteq> []" "h_wf (n_h st)"
    "\<forall>p \<in> fst ` set (h_paths (n_h st)). confined R p"
    using assms(1) by (auto simp: nfs_inv_def root_ok_def)
  from fh_to_path_total [OF root(3), of F f fh] obtain r h where t: "fh_to_path F f fh (n_h st) = Some (r, h)"
    "h = n_h st \<or> h = rebuild F f (n_h st)" "\<forall>p. r = Some p \<longrightarrow> p \<in> fst ` set (h_paths h)" .
  have c: "\<forall>p \<in> fst ` set (h_paths h). confined R p"
    using t(2) root(5) rebuild_confined [OF root(1) assms(2) root(2,5), of f] by metis
  moreover have "h_root h = R" "h_wf h"
    using t(2) root(2,4) rebuild_ext [of "n_h st" F f] rebuild_wf by (auto simp: h_ext_def)
  ultimately have "nfs_inv R (st\<lparr>n_h := h\<rparr>)" using assms(1) by (simp add: nfs_inv_def)
  with t(1) show thesis using that t(3) c by blast
qed

lemma inv_from_path:
  assumes "nfs_inv R st" and "confined R p" and "fh_from_path p (n_h st) = (r, h)"
  shows "nfs_inv R (st\<lparr>n_h := h\<rparr>)"
proof -
  have "h_live (n_h st)" using assms(1) by (auto simp: nfs_inv_def root_ok_def)
  from fh.issue_keeps [OF this assms(3)] show ?thesis 
    using assms(1,2) unfolding nfs_inv_def h_ext_def by (simp, blast)
qed

section \<open>Procedures\<close>

text \<open>The two runs of a procedure agree, end, and keep the invariant.\<close>

definition good :: "string \<Rightarrow> 'f nfs_result \<Rightarrow> 'f nfs_result \<Rightarrow> bool" where
  "good R r r' \<longleftrightarrow> r = r' \<and> (\<exists>b out st. r = Some (b, out, st) \<and> nfs_inv R st)"

named_theorems good_intros \<open>composition of good procedures\<close>

lemma good_Some [good_intros]: "nfs_inv R st \<Longrightarrow> good R (Some (b, out, st)) (Some (b, out, st))"
  by (simp add: good_def)

lemma good_on_ok [good_intros]:
  "(\<And>x. good R (k0 x) (k0' x)) \<Longrightarrow> (\<And>v x. good R (k v x) (k' v x)) \<Longrightarrow> good R (on_ok r k0 k) (on_ok r k0' k')"
  by (cases r) (auto simp: on_ok_def split: option.split)

lemma good_join [good_intros]:
  assumes "nfs_inv R st" and "confined R dir" and "good R r r'" and "\<And>c. confined R c \<Longrightarrow> good R (k c) (k' c)"
  shows "good R (case join_child (n_root st) dir name mx of None \<Rightarrow> r | Some c \<Rightarrow> k c)
    (case join_child (n_root st) dir name mx of None \<Rightarrow> r' | Some c \<Rightarrow> k' c)"
proof (cases "join_child (n_root st) dir name mx")
  case (Some c)
  then have "confined R c" using assms(1,2) join_child_confined [of R dir name mx c] by (simp add: nfs_inv_def)
  with Some assms(4) show ?thesis by simp
qed (use assms(3) in simp)

lemma good_sum [good_intros]:
  "r = r' \<Longrightarrow> (\<And>e. good R (k0 e) (k0' e)) \<Longrightarrow> (\<And>v. good R (k v) (k' v)) \<Longrightarrow>
    good R (case r of Inl e \<Rightarrow> k0 e | Inr v \<Rightarrow> k v) (case r' of Inl e \<Rightarrow> k0' e | Inr v \<Rightarrow> k' v)"
  by (cases r) auto

lemma good_pair [good_intros]:
  "r = r' \<Longrightarrow> (\<And>a b. good R (k a b) (k' a b)) \<Longrightarrow> good R (case r of (a, b) \<Rightarrow> k a b) (case r' of (a, b) \<Rightarrow> k' a b)"
  by (cases r) auto

lemma good_if [good_intros]:
  "b = b' \<Longrightarrow> (b \<Longrightarrow> good R x x') \<Longrightarrow> (\<not> b \<Longrightarrow> good R y y') \<Longrightarrow> good R (if b then x else y) (if b' then x' else y')"
  by simp

lemma good_reply_status [good_intros]: "nfs_inv R st \<Longrightarrow> r = r' \<Longrightarrow> good R (reply_status out r st) (reply_status out r' st)"
  by (auto simp: reply_status_def good_def)

lemma good_issue [good_intros]:
  assumes "nfs_inv R st" and "confined R p"
    and "\<And>h. nfs_inv R (st\<lparr>n_h := h\<rparr>) \<Longrightarrow> good R (k0 h) (k0' h)" and "\<And>fh h. nfs_inv R (st\<lparr>n_h := h\<rparr>) \<Longrightarrow> good R (k fh h) (k' fh h)"
  shows "good R (case fh_from_path p (n_h st) of (None, h) \<Rightarrow> k0 h | (Some fh, h) \<Rightarrow> k fh h)
    (case fh_from_path p (n_h st) of (None, h) \<Rightarrow> k0' h | (Some fh, h) \<Rightarrow> k' fh h)"
proof -
  obtain r h where r: "fh_from_path p (n_h st) = (r, h)" by fastforce
  from inv_from_path [OF assms(1,2) r] assms(3,4) r show ?thesis by (simp split: option.split)
qed

lemma good_reply_child [good_intros]:
  "nfs_inv R st \<Longrightarrow> confined R child \<Longrightarrow> good R (reply_child out child s st) (reply_child out child s st)"
  unfolding reply_child_def
  by (rule good_issue, assumption, assumption) (auto simp: good_Some split: prod.split)

lemma good_with_fh [good_intros]:
  assumes names: "names_ok F" and ag: "agree R F G" and "nfs_inv R st" and "\<And>p x st'. confined R p \<Longrightarrow> nfs_inv R st' \<Longrightarrow> good R (k p x st') (k' p x st')"
  shows "good R (with_fh F inx out st k) (with_fh G inx out st k')"
proof (cases "xdr_get_fixed inx 32")
  case (Pair a x)
  from inv_to_path [OF assms(3) names, of "n_fs st" "the a"] obtain r h where t: "fh_to_path F (n_fs st) (the a) (n_h st) = Some (r, h)"
    "nfs_inv R (st\<lparr>n_h := h\<rparr>)" "\<forall>p. r = Some p \<longrightarrow> confined R p" .
  have "fh_to_path G (n_fs st) (the a) (n_h st) = Some (r, h)"
    using t(1) fh_to_path_agree [OF _ names ag, of "n_h st"] assms(3) by (simp add: nfs_inv_def)
  with t Pair assms(3,4) show ?thesis
    by (cases a; cases r) (simp_all add: with_fh_def arg_fh_def good_Some)
qed

lemma good_with_fh2 [good_intros]:
  assumes names: "names_ok F" and ag: "agree R F G" and "nfs_inv R st" and "\<And>p x st'. confined R p \<Longrightarrow> nfs_inv R st' \<Longrightarrow> good R (k p x st') (k' p x st')"
  shows "good R (with_fh2 F inx out st k) (with_fh2 G inx out st k')"
proof (cases "xdr_get_fixed inx 32")
  case (Pair a x)
  from inv_to_path [OF assms(3) names, of "n_fs st" "the a"] obtain r h where t: "fh_to_path F (n_fs st) (the a) (n_h st) = Some (r, h)"
    "nfs_inv R (st\<lparr>n_h := h\<rparr>)" "\<forall>p. r = Some p \<longrightarrow> confined R p" .
  have "fh_to_path G (n_fs st) (the a) (n_h st) = Some (r, h)"
    using t(1) fh_to_path_agree [OF _ names ag, of "n_h st"] assms(3) by (simp add: nfs_inv_def)
  with t Pair assms(3,4) show ?thesis
    by (cases a; cases r) (simp_all add: with_fh2_def good_Some)
qed

lemma good_stat_fattr [good_intros]:
  "agree R F G \<Longrightarrow> nfs_inv R st \<Longrightarrow> confined R p \<Longrightarrow> st = st' \<Longrightarrow> good R (reply_stat_fattr F out p st) (reply_stat_fattr G out p st')"
  unfolding reply_stat_fattr_def by (intro good_intros) (simp_all add: agreeD(1) [of R F G] good_Some)

lemma readdir_loop_agree:
  assumes "root_ok R" and "agree R F G" and "confined R path"
  shows "readdir_loop F f R path cookie cap ns e idx db out = readdir_loop G f R path cookie cap ns e idx db out"
proof (induction ns arbitrary: idx db out)
  case (Cons n ns)
  have "fs_lstat F c = fs_lstat G c" if "join_child R path n PATHSZ = Some c" for c
    using agreeD(1) [OF assms(2)] join_child_confined [OF assms(1,3) that] .
  then show ?case using Cons.IH by (simp add: Let_def split: option.split sum.split)
qed simp

definition good_proc :: "string \<Rightarrow> 'f nst rpc_handler \<Rightarrow> 'f nst rpc_handler \<Rightarrow> bool" where
  "good_proc R h h' \<longleftrightarrow> (\<forall>c inx out st. nfs_inv R st \<longrightarrow> good R (h c inx out st) (h' c inx out st))"

lemma good_mnt: "agree R F G \<Longrightarrow> good_proc R (mnt_mnt F) (mnt_mnt G)"
proof -
  assume a: "agree R F G"
  have "good R (mnt_mnt F c inx out st) (mnt_mnt G c inx out st)" if i: "nfs_inv R st" for c inx out st
  proof -
    have "n_root st = R" "confined R (n_root st)" using i by (auto simp: nfs_inv_def)
    then show ?thesis
      unfolding mnt_mnt_def using i agreeD(2) [OF a, of R] by (intro good_on_ok good_if good_issue good_Some) auto
  qed
  then show ?thesis by (simp add: good_proc_def)
qed

lemma good_getattr: "names_ok F \<Longrightarrow> agree R F G \<Longrightarrow> good_proc R (nfs_getattr F) (nfs_getattr G)"
  unfolding good_proc_def nfs_getattr_def by (intro allI impI good_intros) simp_all

lemma good_setattr: "names_ok F \<Longrightarrow> agree R F G \<Longrightarrow> good_proc R (nfs_setattr F) (nfs_setattr G)"
  unfolding good_proc_def nfs_setattr_def Let_def
  by (intro allI impI good_intros) (simp_all add: agreeD(8,9) [of R F G])

lemma good_lookup: "names_ok F \<Longrightarrow> agree R F G \<Longrightarrow> good_proc R (nfs_lookup F) (nfs_lookup G)"
  unfolding good_proc_def nfs_lookup_def by (intro allI impI good_intros) (simp_all add: agreeD(1) [of R F G])

lemma good_read: "names_ok F \<Longrightarrow> agree R F G \<Longrightarrow> good_proc R (nfs_read F) (nfs_read G)"
  unfolding good_proc_def nfs_read_def Let_def by (intro allI impI good_intros) (simp_all add: agreeD(6) [of R F G])

lemma good_write: "names_ok F \<Longrightarrow> agree R F G \<Longrightarrow> good_proc R (nfs_write F) (nfs_write G)"
  unfolding good_proc_def nfs_write_def by (intro allI impI good_intros) (simp_all add: agreeD(7) [of R F G])

lemma good_create: "names_ok F \<Longrightarrow> agree R F G \<Longrightarrow> nfs_inv R st \<Longrightarrow> good R (create_common F b inx out st) (create_common G b inx out st)"
  unfolding create_common_def Let_def by (intro good_intros) (simp_all add: agreeD(1,10,11) [of R F G])

lemma good_remove: "names_ok F \<Longrightarrow> agree R F G \<Longrightarrow> nfs_inv R st \<Longrightarrow> good R (remove_common F b inx out st) (remove_common G b inx out st)"
  unfolding remove_common_def by (intro good_intros) (simp_all add: agreeD(12,13) [of R F G])

lemma good_rename: "names_ok F \<Longrightarrow> agree R F G \<Longrightarrow> good_proc R (nfs_rename F) (nfs_rename G)"
  unfolding good_proc_def nfs_rename_def by (intro allI impI good_intros) (simp_all add: agreeD(15) [of R F G])

lemma good_link: "names_ok F \<Longrightarrow> agree R F G \<Longrightarrow> good_proc R (nfs_link F) (nfs_link G)"
  unfolding good_proc_def nfs_link_def by (intro allI impI good_intros) (simp_all add: agreeD(16) [of R F G])

lemma good_readlink: "names_ok F \<Longrightarrow> agree R F G \<Longrightarrow> good_proc R (nfs_readlink F) (nfs_readlink G)"
  unfolding good_proc_def nfs_readlink_def by (intro allI impI good_intros) (simp_all add: agreeD(4) [of R F G])

lemma good_symlink: "names_ok F \<Longrightarrow> agree R F G \<Longrightarrow> good_proc R (nfs_symlink F) (nfs_symlink G)"
  unfolding good_proc_def nfs_symlink_def by (intro allI impI good_intros) (simp_all add: agreeD(14) [of R F G])

lemma good_readdir: "names_ok F \<Longrightarrow> agree R F G \<Longrightarrow> good_proc R (nfs_readdir F) (nfs_readdir G)"
  unfolding good_proc_def nfs_readdir_def Let_def
  by (intro allI impI good_intros) (simp_all add: agreeD(3) [of R F G] nfs_inv_def readdir_loop_agree [of R F G])

lemma good_statfs: "names_ok F \<Longrightarrow> agree R F G \<Longrightarrow> good_proc R (nfs_statfs F) (nfs_statfs G)"
  unfolding good_proc_def nfs_statfs_def by (intro allI impI good_intros) (simp_all add: agreeD(5) [of R F G])

lemma good_simple: "good_proc R proc_null proc_null" "good_proc R pmap_getport pmap_getport"
    "good_proc R mnt_umnt mnt_umnt" "good_proc R mnt_export mnt_export"
  by (simp_all add: good_proc_def proc_null_def mnt_umnt_def mnt_export_def good_Some)
    (auto simp: pmap_getport_def intro!: good_intros)

lemma good_routes:
  assumes "names_ok F" and "agree R F G"
  shows "list_all2 (\<lambda>r r'. r_prog r = r_prog r' \<and> r_vers r = r_vers r' \<and> r_proc r = r_proc r' \<and> r_cache r = r_cache r'
    \<and> good_proc R (r_fn r) (r_fn r')) (GN_ROUTES F) (GN_ROUTES G)"
  using assms good_create [OF assms] good_remove [OF assms]
  by (simp add: GN_ROUTES_def route_def good_simple good_mnt good_getattr good_setattr good_lookup good_read good_write
      good_rename good_link good_readlink good_symlink good_readdir good_statfs)
    (simp add: good_proc_def nfs_create_def nfs_mkdir_def nfs_remove_def nfs_rmdir_def)

section \<open>The server\<close>

definition route_rel :: "string \<Rightarrow> 'f nst rpc_route \<Rightarrow> 'f nst rpc_route \<Rightarrow> bool" where
  "route_rel R r r' \<longleftrightarrow> r_prog r = r_prog r' \<and> r_vers r = r_vers r' \<and> r_proc r = r_proc r' \<and> r_cache r = r_cache r'
     \<and> good_proc R (r_fn r) (r_fn r')"

lemma route_scan_rel:
  assumes "list_all2 (route_rel R) rs rs'" and "rel_option (route_rel R) m m'"
  shows "rel_option (route_rel R) (fst (route_scan c rs (m, a))) (fst (route_scan c rs' (m', a)))
    \<and> snd (route_scan c rs (m, a)) = snd (route_scan c rs' (m', a))"
  using assms
proof (induction arbitrary: m m' a rule: list_all2_induct)
  case (Cons r rs r' rs')
  obtain po lo hi where a: "a = (po, lo, hi)" by (cases a)
  define m1 where "m1 = (if r_prog r = c_prog c \<and> r_vers r = c_vers c \<and> r_proc r = c_proc c then Some r else m)"
  define m1' where "m1' = (if r_prog r = c_prog c \<and> r_vers r = c_vers c \<and> r_proc r = c_proc c then Some r' else m')"
  define a1 where "a1 = (if r_prog r = c_prog c then (True, if sint (r_vers r) < lo then sint (r_vers r) else lo,
      if sint (r_vers r) > hi then sint (r_vers r) else hi) else (po, lo, hi))"
  have e: "r_prog r' = r_prog r" "r_vers r' = r_vers r" "r_proc r' = r_proc r"
    using Cons.hyps(1) by (simp_all add: route_rel_def)
  have "route_scan c (r # rs) (m, a) = route_scan c rs (m1, a1)" "route_scan c (r' # rs') (m', a) = route_scan c rs' (m1', a1)"
    by (simp_all add: a m1_def m1'_def a1_def e)
  moreover have "rel_option (route_rel R) m1 m1'"
    using Cons.hyps(1) Cons.prems by (simp add: m1_def m1'_def)
  ultimately show ?case using Cons.IH by simp
qed simp

lemma routes_any: "list_all2 (route_rel R) rs rs' \<Longrightarrow>
    (\<exists>r \<in> set rs. r_prog r = p \<and> r_vers r = v) = (\<exists>r \<in> set rs'. r_prog r = p \<and> r_vers r = v)"
  by (induction rule: list_all2_induct) (auto simp: route_rel_def)

lemma finish_st [simp]: "sv_st (fst (finish p c b t out sv)) = sv_st sv"
  by (simp add: finish_def Let_def)

lemma handle_one_rel:
  assumes "list_all2 (route_rel R) rs rs'" and "nfs_inv R (sv_st sv)"
  shows "\<exists>sv' a. handle_one rs p m t1 t2 sv = Some (sv', a) \<and> handle_one rs' p m t1 t2 sv = Some (sv', a) \<and> nfs_inv R (sv_st sv')"
proof (cases "rpc_parse_call (xdr_init m (length m))")
  case None
  with assms(2) show ?thesis by (simp add: handle_one_def)
next
  case (Some cx)
  then obtain c x where c: "rpc_parse_call (xdr_init m (length m)) = Some (c, x)" by (cases cx) auto
  obtain q po lo hi where s: "route_scan c rs (None, False, 0x7fffffff, 0) = (q, po, lo, hi)" by (rule prod_cases4)
  obtain q' where s': "route_scan c rs' (None, False, 0x7fffffff, 0) = (q', po, lo, hi)" and q: "rel_option (route_rel R) q q'"
    using route_scan_rel [OF assms(1), of None None c "(False, 0x7fffffff, 0)"] s
    by (cases "route_scan c rs' (None, False, 0x7fffffff, 0)") auto
  show ?thesis
  proof (cases q)
    case None
    then have "q' = None" using q by simp
    have st: "\<exists>sv' a. Some (finish p c b t out sv) = Some (sv', a) \<and> nfs_inv R (sv_st sv')" for b t out
      using finish_st [of p c b t out sv] assms(2) by (cases "finish p c b t out sv") auto
    note u = handle_one_unrouted [OF c s [unfolded None], of p t1 t2 sv]
      handle_one_unrouted [OF c s' [unfolded \<open>q' = None\<close>], of p t1 t2 sv]
    have "handle_one rs p m t1 t2 sv = handle_one rs' p m t1 t2 sv"
      unfolding u routes_any [OF assms(1)] by (rule refl)
    moreover have "\<exists>sv' a. handle_one rs p m t1 t2 sv = Some (sv', a) \<and> nfs_inv R (sv_st sv')"
      unfolding u by (rule st)
    ultimately show ?thesis by auto
  next
    case (Some r)
    then obtain r' where r': "q' = Some r'" "route_rel R r r'" using q by (cases q') auto
    have e: "r_cache r' = r_cache r" using r'(2) by (simp add: route_rel_def)
    have rt: "routed rs c = Some r" "routed rs' c = Some r'" using s s' Some r' by (simp_all add: routed_def)
    have g: "good R (r_fn r c x o1 (sv_st sv)) (r_fn r' c x o1 (sv_st sv))" for o1
      using r'(2) assms(2) by (simp add: route_rel_def good_proc_def)
    obtain ok o1 where h: "rpc_reply_success (xdr_init (sv_out sv) RPC_BUFSZ) (c_xid c) = (ok, o1)" by fastforce
    from g [of o1] obtain b o2 st where p: "r_fn r c x o1 (sv_st sv) = Some (b, o2, st)"
      "r_fn r' c x o1 (sv_st sv) = Some (b, o2, st)" "nfs_inv R st" unfolding good_def by metis
    have st: "nfs_inv R (sv_st (fst (finish p c (r_cache r) t2 o2 (sv\<lparr>sv_st := st\<rparr>))))" using p(3) by simp
    show ?thesis
      unfolding handle_one_routed [OF c rt(1)] handle_one_routed [OF c rt(2)] e using h p st assms(2)
      by (cases "finish p c (r_cache r) t2 o2 (sv\<lparr>sv_st := st\<rparr>)") (auto split: option.split)
  qed
qed

lemma rpc_serve_rel:
  assumes "list_all2 (route_rel R) rs rs'" and "nfs_inv R (sv_st sv)"
  shows "\<exists>sv' as. rpc_serve rs ds sv = Some (sv', as) \<and> rpc_serve rs' ds sv = Some (sv', as) \<and> nfs_inv R (sv_st sv')"
  using assms(2)
proof (induction ds arbitrary: sv)
  case (Cons d ds)
  show ?case
  proof (cases d)
    case None
    with Cons.IH [OF Cons.prems] show ?thesis by auto
  next
    case (Some g)
    from handle_one_rel [OF assms(1) Cons.prems] obtain sv1 a where
      h: "handle_one rs (g_peer g) (take RPC_BUFSZ (g_data g)) (g_t1 g) (g_t2 g) sv = Some (sv1, a)"
         "handle_one rs' (g_peer g) (take RPC_BUFSZ (g_data g)) (g_t1 g) (g_t2 g) sv = Some (sv1, a)"
         "nfs_inv R (sv_st sv1)" by blast
    from Cons.IH [OF h(3)] h Some show ?thesis by auto
  qed
qed simp

lemma routes_rel: "names_ok F \<Longrightarrow> agree R F G \<Longrightarrow> list_all2 (route_rel R) (GN_ROUTES F) (GN_ROUTES G)"
  using good_routes [of F R G] by (simp add: route_rel_def [abs_def])

end
