(* ===== verification/Gnfsd.thy ===== *)
theory Gnfsd
  imports Nfsprops
begin

text \<open>
  \<^verbatim>\<open>nfsd/main.c\<close>: the start of the NFS server: options, export directory, user, sockets, the drop of
  privileges, and the state it serves from.  The user database, \<^verbatim>\<open>realpath\<close>, \<^verbatim>\<open>bind\<close> and the
  credential calls of the kernel are the fields of a record; \<open>'p\<close> is the state of the process's
  credentials.
\<close>

record 'p genv =
  e_realpath :: "string \<Rightarrow> string option"
  e_owner :: "string \<Rightarrow> (u32 \<times> u32) option"
  e_getpwnam :: "string \<Rightarrow> (u32 \<times> u32) option"
  e_getpwuid :: "u32 \<Rightarrow> u32 option"
  e_bind :: "u16 \<Rightarrow> bool"
  e_euid :: "'p \<Rightarrow> u32"
  e_setgroups :: "'p \<Rightarrow> bool \<times> 'p"
  e_setgid :: "u32 \<Rightarrow> 'p \<Rightarrow> bool \<times> 'p"
  e_setuid :: "u32 \<Rightarrow> 'p \<Rightarrow> bool \<times> 'p"

section \<open>The user\<close>

text \<open>\<^verbatim>\<open>strtol(s, &end, 10)\<close>: the number and the rest of the string from \<^verbatim>\<open>end\<close>, which is the whole string
  when there are no digits.\<close>

definition strtol :: "string \<Rightarrow> int \<times> string" where
  "strtol s =
     (let t = dropWhile is_space s;
          u = (case t of c # cs \<Rightarrow> if c = CHR ''-'' \<or> c = CHR ''+'' then cs else t | [] \<Rightarrow> [])
      in if u \<noteq> [] \<and> is_digit (hd u) then (atol s, dropWhile is_digit u) else (0, s))"

definition resolve_user :: "'p genv \<Rightarrow> string \<Rightarrow> (u32 \<times> u32) option" where
  "resolve_user E spec =
     (case e_getpwnam E spec of
        Some ug \<Rightarrow> Some ug
      | None \<Rightarrow>
          (case strtol spec of (n, rest) \<Rightarrow>
             if rest = [] \<and> n \<ge> 0 then
               let uid = word_of_int n in
               Some (uid, case e_getpwuid E uid of Some g \<Rightarrow> g | None \<Rightarrow> word_of_int n)
             else None))"

definition drop_to :: "'p genv \<Rightarrow> u32 \<Rightarrow> u32 \<Rightarrow> 'p \<Rightarrow> bool \<times> 'p" where
  "drop_to E uid gid s =
     (case e_setgroups E s of (ok1, s1) \<Rightarrow> if \<not> ok1 then (False, s1) else
      case e_setgid E gid s1 of (ok2, s2) \<Rightarrow> if \<not> ok2 then (False, s2) else
      case e_setuid E uid s2 of (ok3, s3) \<Rightarrow> if \<not> ok3 then (False, s3) else
      case e_setuid E 0 s3 of (ok4, s4) \<Rightarrow> if ok4 then (False, s4) else (True, s4))"

section \<open>The options\<close>

definition atoi :: "string \<Rightarrow> int" where
  "atoi s = sint (word_of_int (atol s) :: u32)"

record gopts =
  o_pmap_port :: int
  o_nfs_port :: int
  o_verbose :: bool
  o_dir :: "string option"
  o_userspec :: "string option"

text \<open>The loop over the arguments: \<open>None\<close> prints the usage.\<close>

function gnfsd_args :: "gopts \<Rightarrow> string list \<Rightarrow> gopts option" where
  "gnfsd_args o1 [] = Some o1"
| "gnfsd_args o1 (a # as) =
     (if a = ''-p'' \<and> as \<noteq> [] then gnfsd_args (o1\<lparr>o_pmap_port := atoi (hd as)\<rparr>) (tl as)
      else if a = ''-n'' \<and> as \<noteq> [] then gnfsd_args (o1\<lparr>o_nfs_port := atoi (hd as)\<rparr>) (tl as)
      else if a = ''-u'' \<and> as \<noteq> [] then gnfsd_args (o1\<lparr>o_userspec := Some (hd as)\<rparr>) (tl as)
      else if a = ''-v'' then gnfsd_args (o1\<lparr>o_verbose := True\<rparr>) as
      else if char_at a 0 \<noteq> CHR ''-'' then gnfsd_args (o1\<lparr>o_dir := Some a\<rparr>) as
      else None)"
  by pat_completeness auto
termination
  by (relation "measure (\<lambda>(_, as). length as)") auto

definition gopts0 :: gopts where
  "gopts0 = \<lparr>o_pmap_port = 111, o_nfs_port = 2049, o_verbose = False, o_dir = None, o_userspec = None\<rparr>"

section \<open>Start\<close>

text \<open>The end of \<^verbatim>\<open>main\<close>: an exit status, or the ports and the state to serve from with the credentials of
  the process.\<close>

datatype ('f, 'p) gstart = GExit int | GServe "u16 list" "'f nst server" 'p

definition drc0 :: drc where
  "drc0 = \<lparr>g_drc = replicate DRC_SLOTS \<lparr>d_valid = False, d_peer = (0, 0), d_xid = 0, d_when = 0, d_reply = []\<rparr>, g_drc_next = 0\<rparr>"

definition serve_state :: "string \<Rightarrow> int \<Rightarrow> bool list \<Rightarrow> 'f \<Rightarrow> 'f nst server" where
  "serve_state apath port mem f =
     \<lparr>sv_drc = drc0, sv_out = replicate RPC_BUFSZ NUL,
      sv_st = svc_config apath port \<lparr>n_root = [], n_port = 0, n_h = fh_set_root apath (h_empty mem), n_fs = f\<rparr>\<rparr>"

text \<open>From the sockets on.\<close>

definition gnfsd_run :: "'p genv \<Rightarrow> gopts \<Rightarrow> string \<Rightarrow> u32 \<Rightarrow> u32 \<Rightarrow> bool list \<Rightarrow> 'f \<Rightarrow> 'p \<Rightarrow> ('f, 'p) gstart" where
  "gnfsd_run E op apath run_uid run_gid mem f s =
     (let np = word_of_int (o_nfs_port op); pp = word_of_int (o_pmap_port op) in
      if \<not> e_bind E np then GExit 1
      else if o_pmap_port op \<noteq> o_nfs_port op \<and> \<not> e_bind E pp then GExit 1
      else
        let ports = (if o_pmap_port op \<noteq> o_nfs_port op then [np, pp] else [np]);
            sv = serve_state apath (o_nfs_port op) mem f in
        if e_euid E s = 0 \<and> run_uid \<noteq> 0 then
          (case drop_to E run_uid run_gid s of (ok, s1) \<Rightarrow> if ok then GServe ports sv s1 else GExit 1)
        else GServe ports sv s)"

definition gnfsd_main :: "'p genv \<Rightarrow> string list \<Rightarrow> bool list \<Rightarrow> 'f \<Rightarrow> 'p \<Rightarrow> ('f, 'p) gstart" where
  "gnfsd_main E args mem f s =
     (case gnfsd_args gopts0 args of
        None \<Rightarrow> GExit 2
      | Some op \<Rightarrow>
          (case o_dir op of
             None \<Rightarrow> GExit 2
           | Some dir \<Rightarrow>
               (case e_realpath E dir of
                  None \<Rightarrow> GExit 2
                | Some apath \<Rightarrow>
                    (case e_owner E apath of
                       None \<Rightarrow> GExit 2
                     | Some owner \<Rightarrow>
                         (case (case o_userspec op of Some spec \<Rightarrow> resolve_user E spec | None \<Rightarrow> Some owner) of
                            None \<Rightarrow> GExit 2
                          | Some (run_uid, run_gid) \<Rightarrow> gnfsd_run E op apath run_uid run_gid mem f s)))))"

section \<open>Properties\<close>

lemma strip_slashes_root: "root_ok R \<Longrightarrow> strip_slashes (take 1023 R) = R"
  by (cases R rule: rev_cases) (auto simp: root_ok_def strip_slashes_def neq_Nil_conv split: if_splits,
    metis drop_slashes.simps(1,3) list.exhaust rev_rev_ident rev.simps(2))

lemma serve_state_inv:
  assumes "root_ok apath"
  shows "nfs_inv apath (sv_st (serve_state apath port mem f))"
  using assms strip_slashes_root [OF assms]
  by (simp add: serve_state_def svc_config_def nfs_inv_def fh_set_root_def h_empty_def h_wf_def)

text \<open>The credentials after a successful drop: a process that set its groups, its group and its user and
  then failed to become root again.\<close>

definition dropped :: "'p genv \<Rightarrow> u32 \<Rightarrow> u32 \<Rightarrow> 'p \<Rightarrow> 'p \<Rightarrow> bool" where
  "dropped E uid gid s s' \<longleftrightarrow> (\<exists>s1 s2 s3. e_setgroups E s = (True, s1) \<and> e_setgid E gid s1 = (True, s2)
     \<and> e_setuid E uid s2 = (True, s3) \<and> e_setuid E 0 s3 = (False, s'))"

lemma drop_to_dropped: "drop_to E uid gid s = (True, s') \<Longrightarrow> dropped E uid gid s s'"
  by (auto simp: drop_to_def dropped_def split: prod.splits if_splits)

lemma gnfsd_run_serves:
  assumes "gnfsd_run E op apath u g mem f s = GServe ports sv s'"
  shows "sv = serve_state apath (o_nfs_port op) mem f" "\<forall>p \<in> set ports. e_bind E p"
    "if e_euid E s = 0 \<and> u \<noteq> 0 then dropped E u g s s' else s' = s"
  using assms drop_to_dropped [of E u g s s'] by (auto simp: gnfsd_run_def Let_def split: prod.splits if_splits)

lemma gnfsd_main_serves:
  assumes "gnfsd_main E args mem f s = GServe ports sv s'"
  obtains op dir apath owner u g where "gnfsd_args gopts0 args = Some op" "o_dir op = Some dir" "e_realpath E dir = Some apath"
    "e_owner E apath = Some owner" "(case o_userspec op of Some spec \<Rightarrow> resolve_user E spec | None \<Rightarrow> Some owner) = Some (u, g)"
    "gnfsd_run E op apath u g mem f s = GServe ports sv s'"
proof -
  from assms obtain op dir apath owner u g where "gnfsd_args gopts0 args = Some op" "o_dir op = Some dir"
    "e_realpath E dir = Some apath" "e_owner E apath = Some owner"
    and ug: "(case o_userspec op of Some spec \<Rightarrow> resolve_user E spec | None \<Rightarrow> Some owner) = Some (u, g)"
    and "gnfsd_run E op apath u g mem f s = GServe ports sv s'"
    unfolding gnfsd_main_def by (fastforce split: option.split_asm prod.split_asm)
  then show thesis by (rule that)
qed

text \<open>
  C36. How the server starts to serve.  When \<^verbatim>\<open>main\<close> gets as far as serving, both ports are bound; the
  state it serves from is the well-formed one of the real path of the export directory given last; and a
  process that was root has, unless the chosen user is root, given up its groups, its group and its user
  for those of the \<^verbatim>\<open>-u\<close> user or of the owner of the export, and failed to become root again.
\<close>

theorem gnfsd_serves_dropped:
  assumes "gnfsd_main E args mem f s = GServe ports sv s'" and "\<forall>d p. e_realpath E d = Some p \<longrightarrow> root_ok p"
  shows "(\<forall>p \<in> set ports. e_bind E p) \<and> (\<exists>op dir apath owner u g. gnfsd_args gopts0 args = Some op \<and> o_dir op = Some dir
    \<and> e_realpath E dir = Some apath \<and> e_owner E apath = Some owner \<and> nfs_inv apath (sv_st sv)
    \<and> (case o_userspec op of Some spec \<Rightarrow> resolve_user E spec | None \<Rightarrow> Some owner) = Some (u, g)
    \<and> (e_euid E s = 0 \<and> u \<noteq> 0 \<longrightarrow> dropped E u g s s'))"
proof -
  from gnfsd_main_serves [OF assms(1)] obtain op dir apath owner u g where
    o: "gnfsd_args gopts0 args = Some op" "o_dir op = Some dir" "e_realpath E dir = Some apath"
    "e_owner E apath = Some owner" "(case o_userspec op of Some spec \<Rightarrow> resolve_user E spec | None \<Rightarrow> Some owner) = Some (u, g)"
    and r: "gnfsd_run E op apath u g mem f s = GServe ports sv s'" .
  have "root_ok apath" using assms(2) o(3) by blast
  then have "nfs_inv apath (sv_st sv)" unfolding gnfsd_run_serves(1) [OF r] by (rule serve_state_inv)
  with o gnfsd_run_serves(2,3) [OF r] show ?thesis by (metis (no_types, lifting))
qed

text \<open>
  C2. The server is confined to its export.  From the start of serving on, whatever datagrams arrive in
  whatever order, every one is handled to its end; the handle table keeps only paths made of proper
  components below the export directory; and the file system is called with such paths only: on any other
  file system that answers alike for them, the server goes through the same states and sends the same
  replies.
\<close>

theorem gnfsd_confined:
  assumes "gnfsd_main E args mem f s = GServe ports sv s'" and "\<forall>d p. e_realpath E d = Some p \<longrightarrow> root_ok p"
    and "names_ok F" and "agree (n_root (sv_st sv)) F G"
  shows "\<exists>sv' as. rpc_serve (GN_ROUTES F) ds sv = Some (sv', as) \<and> rpc_serve (GN_ROUTES G) ds sv = Some (sv', as)
    \<and> n_root (sv_st sv') = n_root (sv_st sv) \<and> (\<forall>p \<in> fst ` set (h_paths (n_h (sv_st sv'))). confined (n_root (sv_st sv)) p)"
proof -
  from gnfsd_main_serves [OF assms(1)] obtain op dir apath owner u g where "e_realpath E dir = Some apath"
    and r: "gnfsd_run E op apath u g mem f s = GServe ports sv s'" .
  then have "root_ok apath" using assms(2) by blast
  then have i: "nfs_inv apath (sv_st sv)" unfolding gnfsd_run_serves(1) [OF r] by (rule serve_state_inv)
  then have root: "n_root (sv_st sv) = apath" by (simp add: nfs_inv_def)
  with assms(4) have "agree apath F G" by simp
  from rpc_serve_rel [OF routes_rel [OF assms(3) this] i] obtain sv' as where
    "rpc_serve (GN_ROUTES F) ds sv = Some (sv', as)" "rpc_serve (GN_ROUTES G) ds sv = Some (sv', as)" "nfs_inv apath (sv_st sv')"
    by blast
  then show ?thesis unfolding root by (intro exI [of _ sv'] exI [of _ as]) (simp add: nfs_inv_def)
qed

section \<open>Examples\<close>

text \<open>A kernel with one credential, the user id, which only root may change.\<close>

definition demo_env :: "u32 genv" where
  "demo_env = \<lparr>e_realpath = (\<lambda>d. if d = ''s'' then Some ''/s'' else None), e_owner = (\<lambda>_. Some (1000, 100)),
     e_getpwnam = (\<lambda>_. None), e_getpwuid = (\<lambda>_. None), e_bind = (\<lambda>_. True), e_euid = id,
     e_setgroups = (\<lambda>u. (u = 0, u)), e_setgid = (\<lambda>g u. (u = 0, u)),
     e_setuid = (\<lambda>v u. if u = 0 \<or> u = v then (True, v) else (False, u))\<rparr>"

definition demo_tree :: toyfs where
  "demo_tree = [(''/s'', Fdir), (''/s/a'', Ffile ''x''), (''/s/b'', Ffile ''yz'')]"

lemma demo_root: "\<forall>d p. e_realpath demo_env d = Some p \<longrightarrow> root_ok p"
  by (simp add: demo_env_def root_ok_def)

lemma demo_main: "gnfsd_main demo_env [''-v'', ''s''] [] demo_tree 0
    = GServe [2049, 111] (serve_state ''/s'' 2049 [] demo_tree) 1000"
  by (simp add: gnfsd_main_def gnfsd_run_def gopts0_def demo_env_def char_at_def drop_to_def)

theorem gnfsd_serves_dropped_witness:
  "gnfsd_main demo_env [''-v'', ''s''] [] demo_tree 0 = GServe [2049, 111] (serve_state ''/s'' 2049 [] demo_tree) 1000
    \<and> dropped demo_env 1000 100 0 1000"
  using gnfsd_serves_dropped [OF demo_main demo_root] demo_main
  by (auto simp: gopts0_def demo_env_def char_at_def)

text \<open>A file system that differs outside the export.\<close>

definition demo_other :: "toyfs fsops" where
  "demo_other = toy\<lparr>fs_unlink := (\<lambda>p f. if p = ''/x'' then (Inr (), []) else fs_unlink toy p f)\<rparr>"

lemma demo_agree: "agree ''/s'' toy demo_other"
proof -
  have "p \<noteq> ''/x''" if "confined ''/s'' p" for p
    using that by (auto simp: confined_def)
  then show ?thesis by (simp add: agree_def demo_other_def fun_eq_iff)
qed

theorem gnfsd_confined_witness:
  "\<exists>sv' as. rpc_serve (GN_ROUTES toy) [Some \<lparr>g_peer = (1, 2), g_data = demo_call 100003 2 1, g_t1 = 0, g_t2 = 0\<rparr>]
      (serve_state ''/s'' 2049 [] demo_tree) = Some (sv', as)
    \<and> rpc_serve (GN_ROUTES demo_other) [Some \<lparr>g_peer = (1, 2), g_data = demo_call 100003 2 1, g_t1 = 0, g_t2 = 0\<rparr>]
      (serve_state ''/s'' 2049 [] demo_tree) = Some (sv', as)"
proof -
  have "n_root (sv_st (serve_state ''/s'' 2049 [] demo_tree)) = ''/s''"
    by (simp add: serve_state_def svc_config_def strip_slashes_def)
  then show ?thesis
    using gnfsd_confined [OF demo_main demo_root toy_names_ok] demo_agree by fastforce
qed

end
