(* ===== verification/Readdir.thy ===== *)
theory Readdir
  imports Gnfsd
begin

text \<open>
  READDIR of \<^verbatim>\<open>nfsd/nfs.c\<close>: the size of a reply, and that a client that asks again with the last
  cookie of each reply sees every entry of the directory exactly once.
\<close>

section \<open>Entries and pages\<close>

text \<open>The attributes of an entry, where the server can name and find it.\<close>

definition rd_ok :: "'f fsops \<Rightarrow> 'f \<Rightarrow> string \<Rightarrow> string \<Rightarrow> string \<Rightarrow> stat option" where
  "rd_ok F f R path name =
     (case join_child R path name PATHSZ of
        None \<Rightarrow> None
      | Some child \<Rightarrow> (case fs_lstat F child f of Inl _ \<Rightarrow> None | Inr s \<Rightarrow> Some s))"

type_synonym rd_entry = "nat \<times> string \<times> stat"

text \<open>The entries of a directory with their positions, and the page of a reply: the entries and whether the
  end of the directory was reached.\<close>

fun rd_entries :: "(string \<Rightarrow> stat option) \<Rightarrow> nat \<Rightarrow> string list \<Rightarrow> rd_entry list" where
  "rd_entries ok idx [] = []"
| "rd_entries ok idx (n # ns) = (case ok n of None \<Rightarrow> [] | Some s \<Rightarrow> [(idx + 1, n, s)]) @ rd_entries ok (idx + 1) ns"

fun rd_page :: "(string \<Rightarrow> stat option) \<Rightarrow> nat \<Rightarrow> nat \<Rightarrow> nat \<Rightarrow> nat \<Rightarrow> string list \<Rightarrow> rd_entry list \<times> bool" where
  "rd_page ok cookie cap idx db [] = ([], True)"
| "rd_page ok cookie cap idx db (n # ns) =
     (if idx + 1 \<le> cookie then rd_page ok cookie cap (idx + 1) db ns
      else if db > 0 \<and> db + need_bytes n > cap then ([], False)
      else (case ok n of
          None \<Rightarrow> rd_page ok cookie cap (idx + 1) db ns
        | Some s \<Rightarrow> apfst (Cons (idx + 1, n, s)) (rd_page ok cookie cap (idx + 1) (db + need_bytes n) ns)))"

definition rd_size :: "rd_entry list \<Rightarrow> nat" where
  "rd_size es = sum_list (map (\<lambda>(i, n, s). need_bytes n) es)"

definition enc_entry :: "rd_entry \<Rightarrow> char list" where
  "enc_entry e = (case e of (i, n, s) \<Rightarrow> bytes32 1 @ bytes32 (of_nat (st_ino s)) @ enc_bytes n @ bytes32 (of_nat i))"

text \<open>The body of a reply: status, entries, end of the list, end of the directory.\<close>

definition rd_reply :: "rd_entry list \<Rightarrow> bool \<Rightarrow> char list" where
  "rd_reply es eof = bytes32 0 @ concat (map enc_entry es) @ bytes32 0 @ bytes32 (if eof then 1 else 0)"

lemma need_bytes_eq: "need_bytes n = 16 + length n + npad (length n)"
proof -
  have "length n = length n div 4 * 4 + length n mod 4" "length n mod 4 < 4" by simp_all
  then obtain q r where l: "length n = q * 4 + r" "r < 4" by blast
  then have p: "npad (length n) = (4 - r) mod 4" by (simp add: npad_def)
  from l consider "r = 0" | "r = 1" | "r = 2" | "r = 3" by force
  then have "(length n + 3) div 4 * 4 = length n + npad (length n)"
    unfolding p by cases (simp_all add: l)
  then show ?thesis by (simp add: need_bytes_def)
qed

lemma length_enc_entry: "length (enc_entry (i, n, s)) = need_bytes n"
  by (simp add: enc_entry_def length_enc_bytes need_bytes_eq)

lemma length_entries: "length (concat (map enc_entry es)) = rd_size es"
  by (induction es) (auto simp: rd_size_def length_enc_entry)

lemma rd_size_Cons [simp]: "rd_size ((i, n, s) # es) = need_bytes n + rd_size es" "rd_size [] = 0"
  by (simp_all add: rd_size_def)

lemma rd_ok_need: "rd_ok F f R path n = Some s \<Longrightarrow> need_bytes n \<le> 1043"
proof -
  assume "rd_ok F f R path n = Some s"
  then obtain c where "join_child R path n PATHSZ = Some c" by (auto simp: rd_ok_def split: option.splits)
  then have "length n < 1024" by (auto simp: join_child_def split: if_splits)
  moreover have "npad (length n) < 4" by (simp add: npad_def)
  ultimately show ?thesis by (simp add: need_bytes_eq)
qed

text \<open>A page keeps to the cap, or has a single entry.\<close>

lemma rd_page_size:
  "rd_page ok cookie cap idx db ns = (es, fin) \<Longrightarrow> es = [] \<or> db + rd_size es \<le> cap \<or> db = 0 \<and> length es = 1"
proof (induction ok cookie cap idx db ns arbitrary: es fin rule: rd_page.induct)
  case (2 ok cookie cap idx db n ns)
  consider (skip) "idx + 1 \<le> cookie" | (full) "\<not> idx + 1 \<le> cookie" "db > 0 \<and> db + need_bytes n > cap"
    | (bad) "\<not> idx + 1 \<le> cookie" "\<not> (db > 0 \<and> db + need_bytes n > cap)" "ok n = None"
    | (good) s where "\<not> idx + 1 \<le> cookie" "\<not> (db > 0 \<and> db + need_bytes n > cap)" "ok n = Some s" by fastforce
  then show ?case
  proof cases
    case good
    obtain es' where r: "rd_page ok cookie cap (idx + 1) (db + need_bytes n) ns = (es', fin)" "es = (idx + 1, n, s) # es'"
      using "2.prems" good by (cases "rd_page ok cookie cap (idx + 1) (db + need_bytes n) ns") auto
    have "need_bytes n > 0" by (simp add: need_bytes_def)
    with "2.IH"(3) [OF good r(1)] r(2) good(2) show ?thesis by auto
  qed (use 2 in auto)
qed simp

lemma rd_page_ok: "rd_page ok cookie cap idx db ns = (es, fin) \<Longrightarrow> (i, n, s) \<in> set es \<Longrightarrow> ok n = Some s"
proof (induction ok cookie cap idx db ns arbitrary: es fin rule: rd_page.induct)
  case (2 ok cookie cap idx db m ns)
  then show ?case
    by (cases "rd_page ok cookie cap (idx + 1) (db + need_bytes m) ns") (auto split: if_splits option.splits)
qed simp

text \<open>The loop of the server writes a page.\<close>

lemma put_entry_wrote:
  assumes "wrote out w" and "length w + need_bytes n \<le> 65536"
  shows "wrote (put_entry out s n i) (w @ enc_entry (i, n, s))"
proof -
  have b: "length n < 2 ^ 32" "length w + 16 + length n + npad (length n) \<le> 65536"
    using assms(2) by (simp_all add: need_bytes_eq)
  have 1: "wrote (put1 out 1) (w @ bytes32 1)"
    using wrote_u32 [OF assms(1), of 1] b by (simp add: put1_def)
  have 2: "wrote (put1 (put1 out 1) (of_nat (st_ino s))) (w @ bytes32 1 @ bytes32 (of_nat (st_ino s)))"
    using wrote_u32 [OF 1, of "of_nat (st_ino s)"] b by (simp add: put1_def)
  have 3: "wrote (snd (xdr_put_bytes (put1 (put1 out 1) (of_nat (st_ino s))) n (of_nat (length n))))
      (w @ bytes32 1 @ bytes32 (of_nat (st_ino s)) @ enc_bytes n)"
    using wrote_bytes [OF 2, of "of_nat (length n)" n] b by (simp add: length_enc_bytes unat_of_nat)
  show ?thesis
    using wrote_u32 [OF 3, of "of_nat i"] b by (simp add: put_entry_def put1_def enc_entry_def length_enc_bytes)
qed

lemma readdir_loop_page:
  assumes "rd_page (rd_ok F f R path) (unat cookie) cap idx db ns = (es, fin)" and "idx + length ns < 2 ^ 32"
    and "wrote out w" and "length w + rd_size es \<le> 65536"
  shows "\<exists>out'. readdir_loop F f R path cookie cap ns e idx db out = (out', fin \<and> e = 0)
    \<and> wrote out' (w @ concat (map enc_entry es))"
  using assms
proof (induction ns arbitrary: idx db es out w)
  case (Cons n ns)
  have u: "(of_nat (idx + 1) :: u32) \<le> cookie \<longleftrightarrow> idx + 1 \<le> unat cookie"
    using Cons.prems(2) by (simp add: word_le_nat_alt unat_of_nat del: of_nat_Suc of_nat_add)
  consider (skip) "idx + 1 \<le> unat cookie" | (full) "\<not> idx + 1 \<le> unat cookie" "db > 0 \<and> db + need_bytes n > cap"
    | (bad) "\<not> idx + 1 \<le> unat cookie" "\<not> (db > 0 \<and> db + need_bytes n > cap)" "rd_ok F f R path n = None"
    | (good) s where "\<not> idx + 1 \<le> unat cookie" "\<not> (db > 0 \<and> db + need_bytes n > cap)" "rd_ok F f R path n = Some s" by fastforce
  then show ?case
  proof cases
    case skip
    then show ?thesis using Cons.IH [of "idx + 1" db es out w] Cons.prems u by (simp add: Let_def)
  next
    case full
    then show ?thesis using Cons.prems u by (auto simp: Let_def)
  next
    case bad
    then have "readdir_loop F f R path cookie cap (n # ns) e idx db out = readdir_loop F f R path cookie cap ns e (idx + 1) db out"
      using u by (auto simp: Let_def rd_ok_def split: option.splits sum.splits)
    then show ?thesis using Cons.IH [of "idx + 1" db es out w] Cons.prems bad by simp
  next
    case (good s)
    then have step: "readdir_loop F f R path cookie cap (n # ns) e idx db out
        = readdir_loop F f R path cookie cap ns e (idx + 1) (db + need_bytes n) (put_entry out s n (idx + 1))"
      using u by (auto simp: Let_def rd_ok_def split: option.splits sum.splits)
    obtain es' where r: "rd_page (rd_ok F f R path) (unat cookie) cap (idx + 1) (db + need_bytes n) ns = (es', fin)"
        "es = (idx + 1, n, s) # es'"
      using Cons.prems(1) good by (cases "rd_page (rd_ok F f R path) (unat cookie) cap (idx + 1) (db + need_bytes n) ns") auto
    have w: "wrote (put_entry out s n (idx + 1)) (w @ enc_entry (idx + 1, n, s))"
      using Cons.prems(3,4) r(2) by (intro put_entry_wrote) auto
    from Cons.IH [OF r(1) _ w] Cons.prems(2,4) r(2) show ?thesis
      unfolding step by (simp add: length_enc_entry)
  qed
qed simp

section \<open>Pages cover the directory\<close>

abbreviation after :: "nat \<Rightarrow> rd_entry list \<Rightarrow> rd_entry list" where
  "after k es \<equiv> filter (\<lambda>e. k < fst e) es"

lemma rd_entries_bounds: "e \<in> set (rd_entries ok idx ns) \<Longrightarrow> idx < fst e \<and> fst e \<le> idx + length ns"
  by (induction ok idx ns rule: rd_entries.induct) (fastforce split: option.splits)+

lemma rd_entries_sorted: "sorted_wrt (<) (map fst (rd_entries ok idx ns))"
  by (induction ok idx ns rule: rd_entries.induct)
    (auto split: option.splits dest: rd_entries_bounds)

text \<open>A page is a part of what follows the cookie, from its start; it has an entry unless nothing is left.\<close>

lemma rd_page_prefix:
  "rd_page ok cookie cap idx db ns = (es, fin) \<Longrightarrow>
    \<exists>rest. after cookie (rd_entries ok idx ns) = es @ rest \<and> (fin \<longrightarrow> rest = []) \<and> (es = [] \<and> db = 0 \<longrightarrow> fin)"
proof (induction ok cookie cap idx db ns arbitrary: es fin rule: rd_page.induct)
  case (2 ok cookie cap idx db n ns)
  consider (skip) "idx + 1 \<le> cookie" | (full) "\<not> idx + 1 \<le> cookie" "db > 0 \<and> db + need_bytes n > cap"
    | (bad) "\<not> idx + 1 \<le> cookie" "\<not> (db > 0 \<and> db + need_bytes n > cap)" "ok n = None"
    | (good) s where "\<not> idx + 1 \<le> cookie" "\<not> (db > 0 \<and> db + need_bytes n > cap)" "ok n = Some s" by fastforce
  then show ?case
  proof cases
    case skip
    with "2.prems" have "rd_page ok cookie cap (idx + 1) db ns = (es, fin)" by simp
    from "2.IH"(1) [OF skip this] skip show ?thesis by (simp split: option.split)
  next
    case full
    with "2.prems" show ?thesis by simp
  next
    case bad
    with "2.prems" have "rd_page ok cookie cap (idx + 1) db ns = (es, fin)" by auto
    from "2.IH"(2) [OF bad this] bad show ?thesis by simp
  next
    case (good s)
    obtain es' where r: "rd_page ok cookie cap (idx + 1) (db + need_bytes n) ns = (es', fin)" "es = (idx + 1, n, s) # es'"
      using "2.prems" good by (cases "rd_page ok cookie cap (idx + 1) (db + need_bytes n) ns") auto
    from "2.IH"(3) [OF good r(1)] good r(2) show ?thesis by auto
  qed
qed simp

lemma after_last:
  assumes "sorted_wrt (<) (map fst xs)" and "after k xs = es @ rest" and "es \<noteq> []"
  shows "after (fst (last es)) xs = rest"
proof -
  obtain es' l where es: "es = es' @ [l]" using assms(3) by (cases es rule: rev_cases) auto
  have "l \<in> set (after k xs)" unfolding assms(2) es by simp
  then have k: "k < fst l" by simp
  have "sorted_wrt (<) (map fst (after k xs))"
    using assms(1) by (simp add: sorted_wrt_map sorted_wrt_filter)
  then have s: "\<forall>e \<in> set es'. fst e < fst l" "\<forall>e \<in> set rest. fst l < fst e"
    unfolding assms(2) es by (auto simp: sorted_wrt_append)
  have "after (fst l) xs = after (fst l) (after k xs)"
    using k by (auto intro: filter_cong)
  also have "\<dots> = rest" unfolding assms(2) es using s by (auto simp: filter_empty_conv dest: less_imp_not_less)
  finally show ?thesis by (simp add: es)
qed

section \<open>The procedure\<close>

lemma reads_u32s:
  assumes "reads x (concat (map bytes32 vs) @ r)"
  obtains y where "get_u32s (length vs) x = (Some vs, y)" "reads y r"
proof
  show "get_u32s (length vs) x = (Some vs, adv x (length (concat (map bytes32 vs))))"
    using u32.get_all_enc [of x vs r] assms by (simp add: reads_def get_u32s_def map_replicate_const)
  show "reads (adv x (length (concat (map bytes32 vs)))) r" using assms by (rule reads_adv)
qed

abbreviation rd_cap :: "u32 \<Rightarrow> nat" where
  "rd_cap count \<equiv> if unat count > RD_MAXDATA then RD_MAXDATA else unat count"

lemma nfs_readdir_page:
  assumes "n_root st = R" and "length fh = 32" and "fh_to_path F (n_fs st) fh (n_h st) = Some (Some path, n_h st)"
    and "fs_readdir F path (n_fs st) = Inr (ns, e)" and "length ns < 2 ^ 32"
    and "reads inx (fh @ bytes32 cookie @ bytes32 count @ r)" and "wrote out w" and "length w \<le> 1024"
    and "rd_page (rd_ok F (n_fs st) R path) (unat cookie) (rd_cap count) 0 0 ns = (es, fin)"
  shows "\<exists>out'. nfs_readdir F c inx out st = Some (True, out', st) \<and> wrote out' (w @ rd_reply es (fin \<and> e = 0))"
    and "rd_size es \<le> rd_cap count \<or> length es = 1" and "rd_size es \<le> 4096"
proof -
  show b: "rd_size es \<le> rd_cap count \<or> length es = 1" using rd_page_size [OF assms(9)] by auto
  show b2: "rd_size es \<le> 4096"
  proof (cases "length es = 1")
    case True
    then obtain i n s where es: "es = [(i, n, s)]" by (cases es) auto
    from rd_page_ok [OF assms(9), of i n s] es have "rd_ok F (n_fs st) R path n = Some s" by simp
    from rd_ok_need [OF this] es show ?thesis by simp
  qed (use b in \<open>auto split: if_splits\<close>)
  from reads_fixed [OF assms(6,2)] obtain x1 where x1: "xdr_get_fixed inx 32 = (Some fh, x1)"
    "reads x1 (bytes32 cookie @ bytes32 count @ r)" .
  then have "reads x1 (concat (map bytes32 [cookie, count]) @ r)" by simp
  from reads_u32s [OF this] obtain x2 where "get_u32s (length [cookie, count]) x1 = (Some [cookie, count], x2)" .
  then have x2: "get_u32s 2 x1 = (Some [cookie, count], x2)" by (simp add: numeral_2_eq_2)
  have w1: "wrote (put1 out 0) (w @ bytes32 0)" using wrote_u32 [OF assms(7), of 0] assms(8) by (simp add: put1_def)
  have "0 + length ns < 2 ^ 32" "length (w @ bytes32 0) + rd_size es \<le> 65536" using assms(5,8) b2 by simp_all
  from readdir_loop_page [OF assms(9) this(1) w1 this(2), of e] obtain o1 where
    o1: "readdir_loop F (n_fs st) R path cookie (rd_cap count) ns e 0 0 (put1 out 0) = (o1, fin \<and> e = 0)"
      "wrote o1 ((w @ bytes32 0) @ concat (map enc_entry es))" by blast
  have "wrote (put1 o1 0) (((w @ bytes32 0) @ concat (map enc_entry es)) @ bytes32 0)"
    using wrote_u32 [OF o1(2), of 0] assms(8) b2 by (simp add: put1_def length_entries)
  from wrote_u32 [OF this, of "if fin \<and> e = 0 then 1 else 0"] assms(8) b2
  have "wrote (put1 (put1 o1 0) (if fin \<and> e = 0 then 1 else 0)) (w @ rd_reply es (fin \<and> e = 0))"
    by (simp add: put1_def length_entries rd_reply_def)
  moreover have "nfs_readdir F c inx out st = Some (True, put1 (put1 o1 0) (if fin \<and> e = 0 then 1 else 0), st)"
    using x1(1) x2 o1(1) assms(1,3,4) by (simp add: nfs_readdir_def with_fh_def arg_fh_def split del: if_split cong: if_cong)
  ultimately show "\<exists>out'. nfs_readdir F c inx out st = Some (True, out', st) \<and> wrote out' (w @ rd_reply es (fin \<and> e = 0))"
    by blast
qed

section \<open>Properties\<close>

text \<open>
  READDIR replies are bounded.  To any request for a directory the server can list, with any cookie and
  any count, it sends entries whose data is within the count and within \<^verbatim>\<open>RD_MAXDATA\<close>, or a single
  entry; together with status and end marks the reply never has more than 4108 bytes after its header.
\<close>

lemma nfs_readdir_bounded:
  assumes "n_root st = R" and "length fh = 32" and "fh_to_path F (n_fs st) fh (n_h st) = Some (Some path, n_h st)"
    and "fs_readdir F path (n_fs st) = Inr (ns, e)" and "length ns < 2 ^ 32"
    and "reads inx (fh @ bytes32 cookie @ bytes32 count @ r)" and "wrote out w" and "length w \<le> 1024"
  shows "\<exists>out' es eof. nfs_readdir F c inx out st = Some (True, out', st) \<and> wrote out' (w @ rd_reply es eof)
    \<and> (rd_size es \<le> min (unat count) RD_MAXDATA \<or> length es = 1) \<and> length (rd_reply es eof) \<le> 4108"
proof -
  obtain es fin where p: "rd_page (rd_ok F (n_fs st) R path) (unat cookie) (rd_cap count) 0 0 ns = (es, fin)" by fastforce
  note r = nfs_readdir_page [OF assms p]
  from r(2) have "rd_size es \<le> min (unat count) RD_MAXDATA \<or> length es = 1" by (auto split: if_splits)
  moreover have "length (rd_reply es (fin \<and> e = 0)) \<le> 4108"
    using r(3) by (simp add: rd_reply_def length_entries)
  ultimately show ?thesis using r(1) by blast
qed

text \<open>\<open>answers\<close>: the reply to a READDIR request at a cookie; \<open>rd_lists\<close>: what a client collects that asks from
  a cookie and then from the last cookie of each reply until the server reports the end.\<close>

definition answers :: "'f fsops \<Rightarrow> 'f nst \<Rightarrow> char list \<Rightarrow> u32 \<Rightarrow> nat \<Rightarrow> rd_entry list \<Rightarrow> bool \<Rightarrow> bool" where
  "answers F st fh count k es eof \<longleftrightarrow> (\<forall>c inx r out w. reads inx (fh @ bytes32 (of_nat k) @ bytes32 count @ r) \<longrightarrow> wrote out w \<longrightarrow>
     length w \<le> 1024 \<longrightarrow> (\<exists>out'. nfs_readdir F c inx out st = Some (True, out', st) \<and> wrote out' (w @ rd_reply es eof)))"

inductive rd_lists :: "'f fsops \<Rightarrow> 'f nst \<Rightarrow> char list \<Rightarrow> u32 \<Rightarrow> nat \<Rightarrow> rd_entry list \<Rightarrow> bool" for F st fh count where
  rd_last: "answers F st fh count k es True \<Longrightarrow> rd_lists F st fh count k es"
| rd_more: "answers F st fh count k es False \<Longrightarrow> es \<noteq> [] \<Longrightarrow> rd_lists F st fh count (fst (last es)) es'
    \<Longrightarrow> rd_lists F st fh count k (es @ es')"

text \<open>
  C21. Listing a directory is complete and ends.  For a directory that does not change, with any count, the
  client that asks from cookie 0 and then from the last cookie of each reply reaches the end after
  finitely many requests and has then received every entry the server can name and find exactly once, in
  the order of the directory.
\<close>

theorem nfs_readdir_enumerates:
  assumes "n_root st = R" and "length fh = 32" and "fh_to_path F (n_fs st) fh (n_h st) = Some (Some path, n_h st)"
    and "fs_readdir F path (n_fs st) = Inr (ns, 0)" and "length ns < 2 ^ 32"
  shows "rd_lists F st fh count 0 (rd_entries (rd_ok F (n_fs st) R path) 0 ns)"
proof -
  let ?all = "rd_entries (rd_ok F (n_fs st) R path) 0 ns"
  have "rd_lists F st fh count k (after k ?all)" if "k < 2 ^ 32" for k
    using that
  proof (induction "length (after k ?all)" arbitrary: k rule: less_induct)
    case less
    have u: "unat (of_nat k :: u32) = k" using less.prems by (simp add: unat_of_nat)
    obtain es fin where p: "rd_page (rd_ok F (n_fs st) R path) (unat (of_nat k :: u32)) (rd_cap count) 0 0 ns = (es, fin)"
      by fastforce
    from rd_page_prefix [OF this] obtain rest where
      rest: "after k ?all = es @ rest" "fin \<longrightarrow> rest = []" "es = [] \<longrightarrow> fin" unfolding u by auto
    have a: "answers F st fh count k es fin"
      unfolding answers_def using nfs_readdir_page(1) [OF assms _ _ _ p] by simp
    show ?case
    proof (cases fin)
      case True
      with a rest show ?thesis by (simp add: rd_last)
    next
      case False
      with rest have ne: "es \<noteq> []" by auto
      then have in_all: "last es \<in> set ?all" using rest(1) by (metis filter_is_subset last_in_set set_append UnI1 subsetD)
      then have "fst (last es) < 2 ^ 32" using rd_entries_bounds [OF in_all] assms(5) by simp
      moreover have l: "after (fst (last es)) ?all = rest" using rd_entries_sorted rest(1) ne by (rule after_last)
      moreover have "length (after (fst (last es)) ?all) < length (after k ?all)" using l rest(1) ne by simp
      ultimately have "rd_lists F st fh count (fst (last es)) rest" using less.hyps [of "fst (last es)"] by simp
      from rd_more [OF _ ne this] a False rest(1) show ?thesis by simp
    qed
  qed
  from this [of 0] have "rd_lists F st fh count 0 (after 0 ?all)" by simp
  moreover have "after 0 ?all = ?all" using rd_entries_bounds by (fastforce intro: filter_True)
  ultimately show ?thesis by simp
qed

section \<open>Examples\<close>

text \<open>A server that issued the handle of its root.\<close>

definition demo_issued :: "char list option \<times> htab" where
  "demo_issued = fh_from_path ''/s'' (fh_set_root ''/s'' (h_empty []))"

definition demo_nst :: "toyfs nst" where
  "demo_nst = \<lparr>n_root = ''/s'', n_port = 2049, n_h = snd demo_issued, n_fs = demo_tree\<rparr>"

lemma demo_handle:
  obtains fh where "length fh = 32" "fh_to_path toy (n_fs demo_nst) fh (n_h demo_nst) = Some (Some ''/s'', n_h demo_nst)"
proof -
  have "\<exists>fh. fst demo_issued = Some fh" "length (h_paths (snd demo_issued)) = 1"
    by (simp_all add: demo_issued_def fh_from_path_eq intern_def fh_set_root_def h_empty_def h_grow_def h_alloc_def)
  then obtain fh where fh: "fh_from_path ''/s'' (fh_set_root ''/s'' (h_empty [])) = (Some fh, n_h demo_nst)"
    "length (h_paths (n_h demo_nst)) = 1"
    by (cases demo_issued) (auto simp: demo_nst_def demo_issued_def)
  from fh(1) have "length fh = 32" by (auto simp: fh_from_path_eq split: option.splits prod.splits)
  moreover have "fh_to_path toy (n_fs demo_nst) fh (n_h demo_nst) = Some (Some ''/s'', n_h demo_nst)"
    by (rule fh_to_path_issued [OF fh(1)]) (simp_all add: fh(2))
  ultimately show thesis by (rule that)
qed

lemma demo_names: "fs_readdir toy ''/s'' (n_fs demo_nst) = Inr ([''.'', ''..'', ''a'', ''b''], 0)"
  by (simp add: toy_def demo_nst_def demo_tree_def toy_names_def)

definition demo_rdcall :: rpc_call where
  "demo_rdcall = \<lparr>c_xid = 5, c_prog = 100003, c_vers = 2, c_proc = 16, c_uid = 0, c_gid = 0\<rparr>"

theorem nfs_readdir_enumerates_witness:
  "\<exists>fh es. rd_lists toy demo_nst fh 40 0 es \<and> map (\<lambda>(i, n, s). n) es = [''.'', ''..'', ''a'', ''b'']"
proof -
  from demo_handle obtain fh where fh: "length fh = 32"
    "fh_to_path toy (n_fs demo_nst) fh (n_h demo_nst) = Some (Some ''/s'', n_h demo_nst)" .
  have "n_root demo_nst = ''/s''" by (simp add: demo_nst_def)
  from nfs_readdir_enumerates [OF this fh demo_names, of 40]
  have "rd_lists toy demo_nst fh 40 0 (rd_entries (rd_ok toy (n_fs demo_nst) ''/s'' ''/s'') 0 [''.'', ''..'', ''a'', ''b''])" by simp
  moreover have "map (\<lambda>(i, n, s). n) (rd_entries (rd_ok toy (n_fs demo_nst) ''/s'' ''/s'') 0 [''.'', ''..'', ''a'', ''b''])
      = [''.'', ''..'', ''a'', ''b'']"
    by (simp add: rd_ok_def join_child_def toy_def toy_lstat_def demo_nst_def demo_tree_def)
  ultimately show ?thesis by (intro exI conjI)
qed

end
