(* ===== verification/Nfsfile.thy ===== *)
theory Nfsfile
  imports Readdir
begin

text \<open>
  A file through the NFS server: what the procedures of \<^verbatim>\<open>nfsd/nfs.c\<close> answer to a client that mounts the
  export, creates a file, writes it, finds it again by its name and reads it.
\<close>

section \<open>Messages\<close>

definition words :: "u32 list \<Rightarrow> char list" where
  "words vs = concat (map bytes32 vs)"

lemma words_simps [simp]: "words [] = []" "words (v # vs) = bytes32 v @ words vs"
  by (simp_all add: words_def)

lemma length_words [simp]: "length (words vs) = 4 * length vs"
  by (induction vs) simp_all

lemmas reads_words = reads_u32s [folded words_def]

lemma wrote_put1: "wrote x w \<Longrightarrow> length w + 4 \<le> 65536 \<Longrightarrow> wrote (put1 x v) (w @ bytes32 v)"
  using wrote_u32 [of x w v] by (simp add: put1_def)

lemma wrote_words:
  "wrote x w \<Longrightarrow> length w + 4 * length vs \<le> 65536 \<Longrightarrow> wrote (put_all xdr_put_u32 x vs) (w @ words vs)"
proof (induction vs arbitrary: x w)
  case (Cons v vs)
  then show ?case using wrote_u32 [of x w v] Cons.IH [of "app x (bytes32 v)" "w @ bytes32 v"] by simp
qed simp

abbreviation fattr :: "stat \<Rightarrow> char list" where
  "fattr s \<equiv> words (fattr_words s)"

lemma length_fattr [simp]: "length (fattr_words s) = 17"
  by (simp add: fattr_words_def)

lemma wrote_fattr:
  assumes "wrote x w" and "length w + 68 \<le> 65536"
  obtains y where "put_fattr x s = (True, y)" "wrote y (w @ fattr s)"
  using that wrote_words [OF assms(1), of "fattr_words s"] assms(2) by (simp add: put_fattr_def Let_def wrote_def)

section \<open>Handles\<close>

text \<open>The handle \<open>fh\<close> was issued for \<open>p\<close> by the table \<open>h\<close> or an earlier one.\<close>

definition issued :: "htab \<Rightarrow> char list \<Rightarrow> string \<Rightarrow> bool" where
  "issued h fh p \<longleftrightarrow> length (h_paths h) \<le> 2 ^ 32 \<and> (\<exists>h0 h1. fh_from_path p h0 = (Some fh, h1) \<and> h_ext h1 h)"

lemma issued_new: "fh_from_path p h0 = (Some fh, h) \<Longrightarrow> length (h_paths h) \<le> 2 ^ 32 \<Longrightarrow> issued h fh p"
  unfolding issued_def using fh.grows_refl by blast

lemma issued_resolves: "issued h fh p \<Longrightarrow> fh_to_path F f fh h = Some (Some p, h)"
  unfolding issued_def by (elim conjE exE) (rule fh_to_path_issued)

lemma fh_length: "fh_from_path p h = (Some fh, h1) \<Longrightarrow> length fh = 32"
  by (auto simp: fh_from_path_eq fh_bytes_def split: option.splits prod.splits)

lemma issued_length: "issued h fh p \<Longrightarrow> length fh = 32"
  unfolding issued_def by (elim conjE exE) (rule fh_length)

lemma issued_grows: "issued h fh p \<Longrightarrow> h_ext h h' \<Longrightarrow> length (h_paths h') \<le> 2 ^ 32 \<Longrightarrow> issued h' fh p"
  unfolding issued_def using h_ext_trans by blast

lemma from_path_ext: "fh_from_path p h = (r, h') \<Longrightarrow> h_ext h h'"
  by (auto simp: fh_from_path_eq split: option.splits prod.splits dest: intern_ext)

text \<open>Asking again gives the same handle and leaves the table.\<close>

lemma path_index_snoc: "path_index k p es = None \<Longrightarrow> path_index k p (es @ [(p, x)]) = Some (k + length es)"
  by (induction es arbitrary: k) (auto split: if_splits)

lemma intern_again:
  assumes "intern p h = (Some i, h1)"
  shows "intern p h1 = (Some i, h1)"
proof (rule intern_cases [OF assms])
  assume "Some i = Some (length (h_paths h))" "h_paths h1 = h_paths h @ [(p, hash64 (relpath h p))]" "p \<notin> fst ` set (h_paths h)"
  moreover from this(3) have "path_index 0 p (h_paths h) = None" by (simp add: path_index_None)
  ultimately show "intern p h1 = (Some i, h1)" by (simp add: intern_def path_index_snoc)
qed (use assms in simp_all)

lemma from_path_again: "fh_from_path p h = (Some fh, h1) \<Longrightarrow> fh_from_path p h1 = (Some fh, h1)"
  by (auto simp: fh_from_path_eq split: option.splits prod.splits dest: intern_again)

lemma with_fh_issued:
  assumes "issued (n_h st) fh p" and "reads inx (fh @ r)"
  obtains inx1 where "reads inx1 r" "\<forall>k. with_fh F inx out st k = k p inx1 st"
proof -
  obtain y where "xdr_get_fixed inx 32 = (Some fh, y)" "reads y r" by (rule reads_fixed [OF assms(2) issued_length [OF assms(1)]])
  with that [of y] issued_resolves [OF assms(1), of F "n_fs st"] show thesis by (simp add: with_fh_def arg_fh_def)
qed

section \<open>What the procedures answer\<close>

text \<open>\<open>replies proc st args reply st'\<close>: to a request with the arguments \<open>args\<close>, whatever follows them and whatever
  header the reply has, the procedure answers \<open>reply\<close> and leaves the state \<open>st'\<close>.\<close>

definition replies :: "(rpc_call \<Rightarrow> xdr \<Rightarrow> xdr \<Rightarrow> 'f nst \<Rightarrow> 'f nfs_result) \<Rightarrow> 'f nst \<Rightarrow> char list \<Rightarrow> char list \<Rightarrow> 'f nst \<Rightarrow> bool" where
  "replies proc st args reply st' \<longleftrightarrow> (\<forall>c inx out r w. reads inx (args @ r) \<and> wrote out w \<and> length w \<le> 1024 \<longrightarrow>
     (\<exists>out'. proc c inx out st = Some (True, out', st') \<and> wrote out' (w @ reply)))"

lemma repliesI:
  assumes "\<And>c inx out r w. reads inx (args @ r) \<Longrightarrow> wrote out w \<Longrightarrow> length w \<le> 1024 \<Longrightarrow>
    \<exists>out'. proc c inx out st = Some (True, out', st') \<and> wrote out' (w @ reply)"
  shows "replies proc st args reply st'"
  using assms unfolding replies_def by blast

lemma mnt_replies:
  assumes "n_root st = R" and "is_cstr R" and "length R < 1024"
    and "fs_stat F R (n_fs st) = Inr s" and "S_ISDIR (st_mode s)" and "fh_from_path R (n_h st) = (Some fh, h1)"
  shows "replies (mnt_mnt F) st (enc_bytes R) (bytes32 0 @ fh) (st\<lparr>n_h := h1\<rparr>)"
proof (rule repliesI)
  fix c inx out r w assume a: "reads inx (enc_bytes R @ r)" "wrote out w" "length w \<le> 1024"
  obtain y where "xdr_get_string inx 1024 = (Some R, y)" by (rule reads_string [OF a(1) assms(2,3)])
  moreover have "wrote (put1 out 0) (w @ bytes32 0)" using wrote_put1 [OF a(2)] a(3) by simp
  from wrote_fixed [OF this fh_length [OF assms(6)]] a(3)
  have "wrote (snd (xdr_put_fixed (put1 out 0) fh 32)) (w @ bytes32 0 @ fh)" by simp
  ultimately show "\<exists>out'. mnt_mnt F c inx out st = Some (True, out', st\<lparr>n_h := h1\<rparr>) \<and> wrote out' (w @ bytes32 0 @ fh)"
    using assms by (simp add: mnt_mnt_def)
qed

text \<open>The common end of LOOKUP and CREATE.\<close>

lemma reply_child_wrote:
  assumes "fh_from_path p (n_h st) = (Some fh, h1)" and "wrote out w" and "length w \<le> 1024"
  shows "\<exists>out'. reply_child out p s st = Some (True, out', st\<lparr>n_h := h1\<rparr>) \<and> wrote out' (w @ bytes32 0 @ fh @ fattr s)"
proof -
  have "wrote (put1 out 0) (w @ bytes32 0)" using wrote_put1 [OF assms(2)] assms(3) by simp
  from wrote_fixed [OF this fh_length [OF assms(1)]] assms(3)
  have 1: "wrote (snd (xdr_put_fixed (put1 out 0) fh 32)) (w @ bytes32 0 @ fh)" by simp
  obtain y where "put_fattr (snd (xdr_put_fixed (put1 out 0) fh 32)) s = (True, y)" "wrote y ((w @ bytes32 0 @ fh) @ fattr s)"
    by (rule wrote_fattr [OF 1]) (use assms(3) fh_length [OF assms(1)] in auto)
  with assms(1) show ?thesis by (simp add: reply_child_def)
qed

lemma create_replies:
  assumes "issued (n_h st) dfh dir" and "join_child (n_root st) dir name 1024 = Some p" and "is_cstr name" and "length name < 256"
    and "length attrs = 8" and "m = (if attrs ! 0 = 0xffffffff then 0x1A4 else attrs ! 0) AND 0xFFF"
    and "fs_creat F p m (n_fs st) = (Inr (), f)" and "fs_lstat F p f = Inr s" and "fh_from_path p (n_h st) = (Some fh, h1)"
  shows "replies (nfs_create F) st (dfh @ enc_bytes name @ words attrs) (bytes32 0 @ fh @ fattr s) (st\<lparr>n_fs := f, n_h := h1\<rparr>)"
proof (rule repliesI)
  fix c inx out r w assume a: "reads inx ((dfh @ enc_bytes name @ words attrs) @ r)" "wrote out w" "length w \<le> 1024"
  have i: "reads inx (dfh @ enc_bytes name @ words attrs @ r)" using a(1) by simp
  obtain x1 where x1: "reads x1 (enc_bytes name @ words attrs @ r)" "\<forall>k. with_fh F inx out st k = k dir x1 st"
    by (rule with_fh_issued [OF assms(1) i, of F out])
  obtain x2 where x2: "xdr_get_string x1 256 = (Some name, x2)" "reads x2 (words attrs @ r)" by (rule reads_string [OF x1(1) assms(3,4)])
  obtain x3 where x3: "get_u32s 8 x2 = (Some attrs, x3)" using reads_words [OF x2(2)] assms(5) by metis
  have "n_h (st\<lparr>n_fs := f\<rparr>) = n_h st" by simp
  from reply_child_wrote [of p "st\<lparr>n_fs := f\<rparr>", unfolded this, OF assms(9) a(2,3), of s]
  show "\<exists>out'. nfs_create F c inx out st = Some (True, out', st\<lparr>n_fs := f, n_h := h1\<rparr>) \<and> wrote out' (w @ bytes32 0 @ fh @ fattr s)"
    using x1(2) x2(1) x3 assms(2,7,8) unfolding assms(6) by (simp add: nfs_create_def create_common_def Let_def cong: if_cong split del: if_split)
qed

lemma lookup_replies:
  assumes "issued (n_h st) dfh dir" and "join_child (n_root st) dir name 1024 = Some p" and "is_cstr name" and "length name < 256"
    and "fs_lstat F p (n_fs st) = Inr s" and "fh_from_path p (n_h st) = (Some fh, h1)"
  shows "replies (nfs_lookup F) st (dfh @ enc_bytes name) (bytes32 0 @ fh @ fattr s) (st\<lparr>n_h := h1\<rparr>)"
proof (rule repliesI)
  fix c inx out r w assume a: "reads inx ((dfh @ enc_bytes name) @ r)" "wrote out w" "length w \<le> 1024"
  have i: "reads inx (dfh @ enc_bytes name @ r)" using a(1) by simp
  obtain x1 where x1: "reads x1 (enc_bytes name @ r)" "\<forall>k. with_fh F inx out st k = k dir x1 st"
    by (rule with_fh_issued [OF assms(1) i, of F out])
  obtain x2 where x2: "xdr_get_string x1 256 = (Some name, x2)" by (rule reads_string [OF x1(1) assms(3,4)])
  from reply_child_wrote [OF assms(6) a(2,3), of s]
  show "\<exists>out'. nfs_lookup F c inx out st = Some (True, out', st\<lparr>n_h := h1\<rparr>) \<and> wrote out' (w @ bytes32 0 @ fh @ fattr s)"
    using x1(2) x2(1) assms(2,5) by (simp add: nfs_lookup_def)
qed

lemma write_replies:
  assumes "issued (n_h st) fh p" and "fs_pwrite F p data (unat off) (n_fs st) = (Inr s, f)"
  shows "replies (nfs_write F) st (fh @ words [b, off, t] @ enc_bytes data) (bytes32 0 @ fattr s) (st\<lparr>n_fs := f\<rparr>)"
proof (rule repliesI)
  fix c inx out r w assume a: "reads inx ((fh @ words [b, off, t] @ enc_bytes data) @ r)" "wrote out w" "length w \<le> 1024"
  have i: "reads inx (fh @ words [b, off, t] @ enc_bytes data @ r)" using a(1) by simp
  obtain x1 where x1: "reads x1 (words [b, off, t] @ enc_bytes data @ r)" "\<forall>k. with_fh F inx out st k = k p x1 st"
    by (rule with_fh_issued [OF assms(1) i, of F out])
  obtain x2 where x2: "get_u32s 3 x1 = (Some [b, off, t], x2)" "reads x2 (enc_bytes data @ r)"
    using reads_words [OF x1(1)] by (metis list.size(3,4) numeral_3_eq_3 One_nat_def add_Suc_right add.right_neutral)
  obtain x3 where x3: "xdr_get_bytes x2 = (Some data, x3)" by (rule reads_bytes [OF x2(2)])
  have "wrote (put1 out 0) (w @ bytes32 0)" using wrote_put1 [OF a(2)] a(3) by simp
  then obtain y where "put_fattr (put1 out 0) s = (True, y)" "wrote y ((w @ bytes32 0) @ fattr s)"
    by (rule wrote_fattr) (use a(3) in auto)
  then show "\<exists>out'. nfs_write F c inx out st = Some (True, out', st\<lparr>n_fs := f\<rparr>) \<and> wrote out' (w @ bytes32 0 @ fattr s)"
    using x1(2) x2(1) x3 assms(2) by (simp add: nfs_write_def)
qed

lemma read_replies:
  assumes "issued (n_h st) fh p" and "count \<le> 8192" and "fs_pread F p (unat count) (unat off) (n_fs st) = Inr (data, s)"
    and "length data \<le> unat count"
  shows "replies (nfs_read F) st (fh @ words [off, count, t]) (bytes32 0 @ fattr s @ enc_bytes data) st"
proof (rule repliesI)
  fix c inx out r w assume a: "reads inx ((fh @ words [off, count, t]) @ r)" "wrote out w" "length w \<le> 1024"
  have i: "reads inx (fh @ words [off, count, t] @ r)" using a(1) by simp
  obtain x1 where x1: "reads x1 (words [off, count, t] @ r)" "\<forall>k. with_fh F inx out st k = k p x1 st"
    by (rule with_fh_issued [OF assms(1) i, of F out])
  obtain x2 where x2: "get_u32s 3 x1 = (Some [off, count, t], x2)"
    using reads_words [OF x1(1)] by (metis list.size(3,4) numeral_3_eq_3 One_nat_def add_Suc_right add.right_neutral)
  have "unat count \<le> 8192" using assms(2) by (simp add: word_le_nat_alt)
  moreover have nb: "\<not> 8192 < count" using assms(2) by simp
  ultimately have d: "length data \<le> 8192" using assms(4) by simp
  have 1: "wrote (put1 out 0) (w @ bytes32 0)" using wrote_put1 [OF a(2)] a(3) by simp
  obtain y where y: "put_fattr (put1 out 0) s = (True, y)" "wrote y ((w @ bytes32 0) @ fattr s)"
    by (rule wrote_fattr [OF 1]) (use a(3) in auto)
  have "unat (of_nat (length data) :: u32) = length data" using d by (simp add: unat_of_nat take_bit_nat_eq_self)
  from wrote_bytes [OF y(2) this] have "wrote (snd (xdr_put_bytes y data (of_nat (length data)))) (w @ bytes32 0 @ fattr s @ enc_bytes data)"
    using d a(3) by (simp add: length_enc_bytes npad_def)
  then show "\<exists>out'. nfs_read F c inx out st = Some (True, out', st) \<and> wrote out' (w @ bytes32 0 @ fattr s @ enc_bytes data)"
    using x1(2) x2(1) y(1) assms(3) nb by (simp add: nfs_read_def)
qed

section \<open>A file shared by two clients\<close>

text \<open>
  C20. What one client writes another reads.  A client mounts the export and creates a file in it; the
  server answers with a handle of the file, and a WRITE with this handle is answered with success.  Another
  client that looks the file up by its name gets the same handle, and a READ of the same place with it returns
  exactly the bytes written, for every length up to the limit of 8192.  The hypotheses on \<open>F\<close> say that the calls
  of the file system succeed and that it returns what it has stored, those on the handle table that memory is
  available and that it has at most \<open>2 ^ 32\<close> entries.
\<close>

theorem nfs_file_shared:
  assumes "n_root st = R" and "is_cstr R" and "length R + 1 + length name < 1024" and "comp_ok name" and "is_cstr name"
    and "length name < 256" and "p = R @ CHR ''/'' # name"
    and "fs_stat F R (n_fs st) = Inr s0" and "S_ISDIR (st_mode s0)"
    and "length attrs = 8" and "m = (if attrs ! 0 = 0xffffffff then 0x1A4 else attrs ! 0) AND 0xFFF"
    and "fs_creat F p m (n_fs st) = (Inr (), f1)" and "fs_lstat F p f1 = Inr s1"
    and "fs_pwrite F p data (unat off) f1 = (Inr s2, f2)" and "fs_lstat F p f2 = Inr s3"
    and "fs_pread F p (length data) (unat off) f2 = Inr (data, s4)" and "length data \<le> 8192"
    and "fh_from_path R (n_h st) = (Some dfh, h1)" and "fh_from_path p h1 = (Some fh, h2)" and "length (h_paths h2) \<le> 2 ^ 32"
  shows "\<exists>st1 st2 st3.
    replies (mnt_mnt F) st (enc_bytes R) (bytes32 0 @ dfh) st1 \<and>
    replies (nfs_create F) st1 (dfh @ enc_bytes name @ words attrs) (bytes32 0 @ fh @ fattr s1) st2 \<and>
    replies (nfs_write F) st2 (fh @ words [b, off, t] @ enc_bytes data) (bytes32 0 @ fattr s2) st3 \<and>
    replies (nfs_lookup F) st3 (dfh @ enc_bytes name) (bytes32 0 @ fh @ fattr s3) st3 \<and>
    replies (nfs_read F) st3 (fh @ words [off, of_nat (length data), t']) (bytes32 0 @ fattr s4 @ enc_bytes data) st3"
proof -
  let ?st1 = "st\<lparr>n_h := h1\<rparr>"
  let ?st2 = "?st1\<lparr>n_fs := f1, n_h := h2\<rparr>"
  let ?st3 = "?st2\<lparr>n_fs := f2\<rparr>"
  have e: "h_ext h1 h2" by (rule from_path_ext [OF assms(19)])
  then have r1: "length (h_paths h1) \<le> 2 ^ 32" using assms(20) by (auto simp: h_ext_def)
  have d1: "issued (n_h ?st1) dfh R" using issued_new [OF assms(18) r1] by simp
  have d3: "issued (n_h ?st3) dfh R" using issued_grows [OF d1 _ assms(20)] e by simp
  have fi: "issued (n_h ?st2) fh p" "issued (n_h ?st3) fh p" using issued_new [OF assms(19,20)] by simp_all
  have j: "join_child R R name 1024 = Some p" using assms(3,4,7) by (auto simp: join_child_def comp_ok_def)
  have c: "unat (of_nat (length data) :: u32) = length data" using assms(17) by (simp add: unat_of_nat take_bit_nat_eq_self)
  then have c8: "(of_nat (length data) :: u32) \<le> 8192" using assms(17) by (simp add: word_le_nat_alt)
  have e3: "?st3\<lparr>n_h := h2\<rparr> = ?st3" by (cases st) simp
  have lk: "replies (nfs_lookup F) ?st3 (dfh @ enc_bytes name) (bytes32 0 @ fh @ fattr s3) (?st3\<lparr>n_h := h2\<rparr>)"
    by (rule lookup_replies [OF d3 _ assms(5,6)]) (use j assms(1,15) from_path_again [OF assms(19)] in simp_all)
  have "replies (mnt_mnt F) st (enc_bytes R) (bytes32 0 @ dfh) ?st1"
    by (rule mnt_replies [OF assms(1,2) _ assms(8,9,18)]) (use assms(3) in simp)
  moreover have "replies (nfs_create F) ?st1 (dfh @ enc_bytes name @ words attrs) (bytes32 0 @ fh @ fattr s1) ?st2"
    by (rule create_replies [OF d1 _ assms(5,6,10,11) _ assms(13)]) (use j assms(1,12,19) in simp_all)
  moreover have "replies (nfs_write F) ?st2 (fh @ words [b, off, t] @ enc_bytes data) (bytes32 0 @ fattr s2) ?st3"
    by (rule write_replies [OF fi(1)]) (use assms(14) in simp)
  moreover have "replies (nfs_lookup F) ?st3 (dfh @ enc_bytes name) (bytes32 0 @ fh @ fattr s3) ?st3"
    using lk by (simp only: e3)
  moreover have "replies (nfs_read F) ?st3 (fh @ words [off, of_nat (length data), t']) (bytes32 0 @ fattr s4 @ enc_bytes data) ?st3"
    by (rule read_replies [OF fi(2) c8]) (use assms(16) c in simp_all)
  ultimately show ?thesis by (intro exI conjI)
qed

section \<open>Example\<close>

definition share_st :: "toyfs nst" where
  "share_st = \<lparr>n_root = ''/s'', n_port = 2049, n_h = fh_set_root ''/s'' (h_empty []), n_fs = [(''/s'', Fdir)]\<rparr>"

theorem nfs_file_shared_witness:
  "\<exists>dfh fh st1 st2 st3. replies (nfs_create toy) st1 (dfh @ enc_bytes ''a'' @ words (replicate 8 0xffffffff))
      (bytes32 0 @ fh @ fattr (toy_stat (Ffile []))) st2 \<and>
    replies (nfs_write toy) st2 (fh @ words [0, 0, 2] @ enc_bytes ''hi'') (bytes32 0 @ fattr (toy_stat (Ffile ''hi''))) st3 \<and>
    replies (nfs_lookup toy) st3 (dfh @ enc_bytes ''a'') (bytes32 0 @ fh @ fattr (toy_stat (Ffile ''hi''))) st3 \<and>
    replies (nfs_read toy) st3 (fh @ words [0, of_nat (length ''hi''), 0]) (bytes32 0 @ fattr (toy_stat (Ffile ''hi'')) @ enc_bytes ''hi'') st3"
proof -
  let ?f1 = "[(''/s'', Fdir), (''/s/a'', Ffile [])]" and ?f2 = "[(''/s'', Fdir), (''/s/a'', Ffile ''hi'')]"
  let ?p = "''/s'' @ CHR ''/'' # ''a''"
  have r: "n_root share_st = ''/s''" "is_cstr ''/s''" "length ''/s'' + 1 + length ''a'' < 1024" "comp_ok ''a''" "is_cstr ''a''"
    "length ''a'' < 256" by (simp_all add: share_st_def is_cstr_def comp_ok_def)
  have d: "fs_stat toy ''/s'' (n_fs share_st) = Inr (toy_stat Fdir)" "S_ISDIR (st_mode (toy_stat Fdir))"
    by (simp add: toy_def toy_lstat_def share_st_def, code_simp)
  have f: "fs_creat toy ?p m (n_fs share_st) = (Inr (), ?f1)" "fs_lstat toy ?p ?f1 = Inr (toy_stat (Ffile []))"
    "fs_pwrite toy ?p ''hi'' (unat (0 :: u32)) ?f1 = (Inr (toy_stat (Ffile ''hi'')), ?f2)"
    "fs_lstat toy ?p ?f2 = Inr (toy_stat (Ffile ''hi''))"
    "fs_pread toy ?p (length ''hi'') (unat (0 :: u32)) ?f2 = Inr (''hi'', toy_stat (Ffile ''hi''))" for m
    by (simp_all add: toy_def toy_lstat_def toy_put_def share_st_def poke_def Let_def)
  have "\<exists>dfh h1 fh h2. fh_from_path ''/s'' (n_h share_st) = (Some dfh, h1) \<and> fh_from_path ?p h1 = (Some fh, h2)
      \<and> length (h_paths h2) \<le> 2 ^ 32"
    by (simp add: share_st_def fh_from_path_eq intern_def fh_set_root_def h_empty_def h_grow_def h_alloc_def)
  then obtain dfh h1 fh h2 where h: "fh_from_path ''/s'' (n_h share_st) = (Some dfh, h1)" "fh_from_path ?p h1 = (Some fh, h2)"
    "length (h_paths h2) \<le> 2 ^ 32" by blast
  have l: "length (replicate 8 (0xffffffff :: u32)) = 8" "length ''hi'' \<le> 8192" by simp_all
  from nfs_file_shared [OF r refl d l(1) refl f l(2) h, of 0 2 0] show ?thesis by blast
qed

end
