(* ===== verification/Restart.thy ===== *)
theory Restart
  imports Handle Toyfs
begin

text \<open>
  The properties of the file handles of \<^verbatim>\<open>nfsd/handle.c\<close>: stability through the life of a server, and
  resolution after a restart by a walk of the export.
\<close>

section \<open>What the walk finds\<close>

text \<open>\<open>reaches F f d k p\<close>: the walk of directory \<open>d\<close> meets the path \<open>p\<close> at the \<open>k\<close>-th level below it.\<close>

definition walkable :: "'f fsops \<Rightarrow> 'f \<Rightarrow> string \<Rightarrow> string \<Rightarrow> bool" where
  "walkable F f d n \<longleftrightarrow> (\<exists>ns e. fs_readdir F d f = Inr (ns, e) \<and> n \<in> set ns) \<and> n \<noteq> ''.'' \<and> n \<noteq> ''..''
     \<and> length d + length n + 2 \<le> 1024"

inductive reaches :: "'f fsops \<Rightarrow> 'f \<Rightarrow> string \<Rightarrow> nat \<Rightarrow> string \<Rightarrow> bool" for F f where
  here: "walkable F f d n \<Longrightarrow> reaches F f d 1 (walk_child d n)"
| down: "walkable F f d n \<Longrightarrow> fs_lstat F (walk_child d n) f = Inr st \<Longrightarrow> S_ISDIR (st_mode st)
    \<Longrightarrow> reaches F f (walk_child d n) k p \<Longrightarrow> reaches F f d (Suc k) p"

lemma intern_mem_Nil: "h_mem h = [] \<Longrightarrow> intern path h = (r, h') \<Longrightarrow> h_mem h' = []"
  using intern_mem [of h path] by auto

lemma rebuild_dir_mem: "h_mem h = [] \<Longrightarrow> h_mem (rebuild_dir lv F f dir h) = []"
  by (rule rebuild_dir_keeps [where Q = "\<lambda>_. True"]) (auto intro: intern_mem_Nil)

text \<open>With enough memory the loop over a directory interns every entry, and walks a subdirectory with a
  table that all later ones extend.\<close>

lemma rebuild_loop_finds:
  assumes "h_mem h = []" and "n \<in> set ns" and "n \<noteq> ''.''" "n \<noteq> ''..''" "length dir + length n + 2 \<le> 1024"
  obtains i h0 h1 where "intern (walk_child dir n) h0 = (Some i, h1)" "h_mem h1 = []"
    "h_ext (case fs_lstat F (walk_child dir n) f of Inl _ \<Rightarrow> h1
      | Inr st \<Rightarrow> if S_ISDIR (st_mode st) then rebuild_dir lv F f (walk_child dir n) h1 else h1)
     (rebuild_loop F f (rebuild_dir lv F f) dir ns h)"
proof -
  let ?sub = "\<lambda>c h1. case fs_lstat F c f of Inl _ \<Rightarrow> h1
      | Inr st \<Rightarrow> if S_ISDIR (st_mode st) then rebuild_dir lv F f c h1 else h1"
  have ext: "h_ext h (rebuild_loop F f (rebuild_dir lv F f) dir ms h)" for h ms
    by (rule rebuild_loop_keeps [where Q = "\<lambda>_. True"])
      (auto dest: intern_ext intro: h_ext_trans rebuild_dir_ext [THEN conjunct1])
  have mem: "h_mem h1 = [] \<Longrightarrow> h_mem (?sub c h1) = []" for c h1
    by (simp add: rebuild_dir_mem split: sum.split)
  have "\<exists>i h0 h1. intern (walk_child dir n) h0 = (Some i, h1) \<and> h_mem h1 = []
      \<and> h_ext (?sub (walk_child dir n) h1) (rebuild_loop F f (rebuild_dir lv F f) dir ns h)"
    using assms(1,2)
  proof (induction ns arbitrary: h)
    case (Cons m ms)
    show ?case
    proof (cases "m = ''.'' \<or> m = ''..'' \<or> length dir + length m + 2 > 1024")
      case True
      then have "n \<in> set ms" using Cons.prems(2) assms(3-5) by auto
      from Cons.IH [OF Cons.prems(1) this] True show ?thesis by simp
    next
      case False
      from intern_mem [OF Cons.prems(1)] obtain i h1 where i: "intern (walk_child dir m) h = (Some i, h1)" "h_mem h1 = []"
        by blast
      then have step: "rebuild_loop F f (rebuild_dir lv F f) dir (m # ms) h
          = rebuild_loop F f (rebuild_dir lv F f) dir ms (?sub (walk_child dir m) h1)"
        using False by (simp add: Let_def)
      show ?thesis
      proof (cases "m = n")
        case True
        show ?thesis unfolding step using i ext [of "?sub (walk_child dir m) h1" ms] True by blast
      next
        case False
        then have "n \<in> set ms" using Cons.prems(2) by simp
        from Cons.IH [OF mem [OF i(2)] this] show ?thesis unfolding step .
      qed
    qed
  qed simp
  then show thesis using that by blast
qed

lemma h_ext_paths: "h_ext a b \<Longrightarrow> fst ` set (h_paths a) \<subseteq> fst ` set (h_paths b)"
  by (auto simp: h_ext_def)

lemma reaches_found:
  assumes "reaches F f d k p" and "k \<le> lv" and "h_mem h = []"
  shows "p \<in> fst ` set (h_paths (rebuild_dir lv F f d h))"
  using assms
proof (induction arbitrary: lv h rule: reaches.induct)
  case (here d n)
  from here.prems obtain lv' where lv: "lv = Suc lv'" by (cases lv) auto
  from here.hyps obtain ns e where w: "fs_readdir F d f = Inr (ns, e)" "n \<in> set ns" "n \<noteq> ''.''" "n \<noteq> ''..''"
    "length d + length n + 2 \<le> 1024" by (auto simp: walkable_def)
  from rebuild_loop_finds [OF here.prems(2) w(2-5)] obtain i h0 h1 where
    i: "intern (walk_child d n) h0 = (Some i, h1)" and
    x: "h_ext (case fs_lstat F (walk_child d n) f of Inl _ \<Rightarrow> h1
      | Inr st \<Rightarrow> if S_ISDIR (st_mode st) then rebuild_dir lv' F f (walk_child d n) h1 else h1)
     (rebuild_loop F f (rebuild_dir lv' F f) d ns h)" .
  have "h_ext h1 (case fs_lstat F (walk_child d n) f of Inl _ \<Rightarrow> h1
      | Inr st \<Rightarrow> if S_ISDIR (st_mode st) then rebuild_dir lv' F f (walk_child d n) h1 else h1)"
    by (simp add: rebuild_dir_ext split: sum.split)
  then have "fst ` set (h_paths h1) \<subseteq> fst ` set (h_paths (rebuild_dir lv F f d h))"
    using h_ext_paths [OF h_ext_trans [OF _ x]] w(1) by (simp add: lv)
  moreover have "walk_child d n \<in> fst ` set (h_paths h1)"
    using intern_index [OF i] nth_mem [of i "h_paths h1"] by (metis image_eqI)
  ultimately show ?case by blast
next
  case (down d n st k p)
  from down.prems obtain lv' where lv: "lv = Suc lv'" "k \<le> lv'" by (cases lv) auto
  from down.hyps(1) obtain ns e where w: "fs_readdir F d f = Inr (ns, e)" "n \<in> set ns" "n \<noteq> ''.''" "n \<noteq> ''..''"
    "length d + length n + 2 \<le> 1024" by (auto simp: walkable_def)
  from rebuild_loop_finds [OF down.prems(2) w(2-5)] obtain i h0 h1 where
    m: "h_mem h1 = []" and
    x: "h_ext (case fs_lstat F (walk_child d n) f of Inl _ \<Rightarrow> h1
      | Inr st \<Rightarrow> if S_ISDIR (st_mode st) then rebuild_dir lv' F f (walk_child d n) h1 else h1)
     (rebuild_loop F f (rebuild_dir lv' F f) d ns h)" .
  from down.IH [OF lv(2) m] h_ext_paths [OF x] show ?case
    using down.hyps(2,3) w(1) by (auto simp: lv(1))
qed

lemma rebuild_finds:
  assumes "h_root h \<noteq> []" and "\<not> h_rebuilt h" and "h_mem h = []" and "reaches F f (h_root h) k p" and "k \<le> 33"
  shows "p \<in> fst ` set (h_paths (rebuild F f h))"
proof -
  from intern_mem [of "h\<lparr>h_rebuilt := True\<rparr>" "h_root h"] assms(3) obtain i h1 where
    "intern (h_root h) (h\<lparr>h_rebuilt := True\<rparr>) = (Some i, h1)" "h_mem h1 = []" by auto
  with reaches_found [OF assms(4,5)] assms(1,2) show ?thesis by (simp add: rebuild_def)
qed

lemma hash_find_unique:
  assumes "(q, hs) \<in> set es" and "\<forall>e \<in> set es. snd e = hs \<longrightarrow> fst e = q"
  shows "hash_find (fst hs) (snd hs) es = Some q"
  using assms by (induction es) auto

lemma relpath_slashed: "h_root h = R \<Longrightarrow> R \<noteq> [] \<Longrightarrow> relpath h (R @ slashed cs) = dropWhile (\<lambda>c. c = CHR ''/'') (slashed cs)"
  by (simp add: relpath_def)

section \<open>Properties\<close>

text \<open>
  C19. File handles are stable: through any further requests for handles and resolutions, each with the
  file system in any state, the handle issued for a path resolves to exactly that path, as long as the
  table has at most \<open>2 ^ 32\<close> entries; and every one of these requests returns.
\<close>

theorem fh_stable:
  assumes "h_wf h" and "h_root h \<noteq> []" and "fh_from_path p h = (Some fh, h1)"
  shows "\<exists>h2. hrun fh_from_path (fh_to_path F) rs h1 = Some h2
    \<and> (length (h_paths h2) \<le> 2 ^ 32 \<longrightarrow> fh_to_path F f fh h2 = Some (Some p, h2))"
  using assms by (intro fh.stable) auto

text \<open>
  C18. File handles survive a restart, and a move of the export.  A handle issued by one run of the server
  for a path below its root is resolved by a new run, with an empty table and possibly another root, to
  the path with the same components below the new root, when the walk of the export meets that path
  within its 33 levels and finds no other path with the same hash.
\<close>

theorem fh_survives_restart:
  assumes "h_wf h" and "h_root h = R1" and "root_ok R1" and "fh_from_path (R1 @ slashed cs) h = (Some fh, h1)"
    and "root_ok R2" and "h' = fh_set_root R2 (h_empty [])"
    and "reaches F f R2 k (R2 @ slashed cs)" and "k \<le> 33"
    and "\<forall>e \<in> set (h_paths (rebuild F f h')). snd e = hash64 (relpath h' (R2 @ slashed cs)) \<longrightarrow> fst e = R2 @ slashed cs"
    and "hash64 (relpath h' (R2 @ slashed cs)) \<noteq> (0, 0)"
  shows "fh_to_path F f fh h' = Some (Some (R2 @ slashed cs), rebuild F f h')"
proof -
  let ?q = "R2 @ slashed cs" and ?p = "R1 @ slashed cs"
  have strip: "strip_slashes (take 1023 R2) = R2"
    using assms(5) by (cases R2 rule: rev_cases) (auto simp: root_ok_def strip_slashes_def neq_Nil_conv split: if_splits,
      metis drop_slashes.simps(1,3) list.exhaust rev_rev_ident rev.simps(2))
  then have root: "h_root h' = R2" and fresh: "\<not> h_rebuilt h'" "h_mem h' = []" "h_paths h' = []" "h_wf h'"
    by (simp_all add: assms(6) fh_set_root_def h_empty_def h_wf_def)
  have ne: "R1 \<noteq> []" "R2 \<noteq> []" using assms(3,5) by (auto simp: root_ok_def)
  have rel: "relpath h ?p = relpath h' ?q"
    using assms(2) root ne by (simp add: relpath_slashed)
  from assms(4) obtain i where i: "intern ?p h = (Some i, h1)" and fh: "fh = fh_bytes i ?p (snd (h_paths h1 ! i))"
    by (auto simp: fh_from_path_eq split: option.splits prod.splits)
  have wf1: "h_wf h1" using intern_wf [OF i assms(1)] .
  have "relpath h1 = relpath h" using intern_ext [OF i] by (intro relpath_cong) (simp add: h_ext_def)
  then have hs: "snd (h_paths h1 ! i) = hash64 (relpath h' ?q)"
    using wf1 intern_index [OF i] rel by (simp add: h_wf_def)
  obtain hi lo where hl: "hash64 (relpath h' ?q) = (hi, lo)" by fastforce
  have w: "h_wf (rebuild F f h')" using rebuild_wf fresh(4) .
  have rel2: "relpath (rebuild F f h') = relpath h'"
    using rebuild_ext [of h' F f] by (intro relpath_cong) (simp add: h_ext_def)
  have "?q \<in> fst ` set (h_paths (rebuild F f h'))"
    using rebuild_finds [of h' F f k ?q] assms(7,8) fresh root ne by simp
  with w have "(?q, hi, lo) \<in> set (h_paths (rebuild F f h'))"
    using hl rel2 by (auto simp: h_wf_def)
  with assms(9) have find: "hash_find hi lo (h_paths (rebuild F f h')) = Some ?q"
    using hash_find_unique [of ?q "(hi, lo)"] hl by simp
  show ?thesis
    using assms(10) hash64_low32 [OF hl] find fresh root ne fh_search_eq [of h' F f hi lo]
    by (simp add: fh hs hl fh_to_path_def)
qed

section \<open>Examples\<close>

definition demo_tab :: htab where
  "demo_tab = fh_set_root ''/e'' (h_empty [])"

definition demo_fs :: toyfs where
  "demo_fs = [(''/s'', Fdir), (''/s/a'', Ffile ''x'')]"

definition demo_new :: htab where
  "demo_new = fh_set_root ''/s'' (h_empty [])"

lemma demo_tab_wf: "h_wf demo_tab" "h_root demo_tab = ''/e''"
  by (simp_all add: demo_tab_def fh_set_root_def h_empty_def h_wf_def strip_slashes_def)

lemma demo_issue: "\<exists>fh h1. fh_from_path ''/e/a'' demo_tab = (Some fh, h1)"
  by (simp add: fh_from_path_eq intern_def demo_tab_def fh_set_root_def h_empty_def h_grow_def h_alloc_def)

theorem fh_stable_witness:
  "\<exists>fh h1 h2. fh_from_path ''/e/a'' demo_tab = (Some fh, h1)
    \<and> hrun fh_from_path (fh_to_path toy) [Issue ''/e/b'', Resolve demo_fs (replicate 32 NUL)] h1 = Some h2
    \<and> fh_to_path toy demo_fs fh h2 = Some (Some ''/e/a'', h2)"
proof -
  have n: "map_option (\<lambda>h. length (h_paths h)) (hrun fh_from_path (fh_to_path toy)
      [Issue ''/e/b'', Resolve demo_fs (replicate 32 NUL)] (snd (fh_from_path ''/e/a'' demo_tab))) = Some 2"
    by (simp add: fh_from_path_eq intern_def demo_tab_def fh_set_root_def h_empty_def h_grow_def h_alloc_def
        fh_to_path_def get_be32_def del: replicate.simps)
  from demo_issue obtain fh h1 where i: "fh_from_path ''/e/a'' demo_tab = (Some fh, h1)" by blast
  from fh_stable [OF demo_tab_wf(1) _ i, of toy "[Issue ''/e/b'', Resolve demo_fs (replicate 32 NUL)]" demo_fs] obtain h2 where
    "hrun fh_from_path (fh_to_path toy) [Issue ''/e/b'', Resolve demo_fs (replicate 32 NUL)] h1 = Some h2"
    "length (h_paths h2) \<le> 2 ^ 32 \<longrightarrow> fh_to_path toy demo_fs fh h2 = Some (Some ''/e/a'', h2)"
    by (auto simp: demo_tab_wf)
  with n i show ?thesis by auto
qed

lemma demo_unique: "list_all (\<lambda>e. snd e = hash64 (relpath demo_new ''/s/a'') \<longrightarrow> fst e = ''/s/a'')
    (h_paths (rebuild toy demo_fs demo_new)) \<and> hash64 (relpath demo_new ''/s/a'') \<noteq> (0, 0)"
  by code_simp

theorem fh_survives_restart_witness:
  "\<exists>fh h1. fh_from_path ''/e/a'' demo_tab = (Some fh, h1)
    \<and> fh_to_path toy demo_fs fh demo_new = Some (Some ''/s/a'', rebuild toy demo_fs demo_new)"
proof -
  from demo_issue obtain fh h1 where i: "fh_from_path ''/e/a'' demo_tab = (Some fh, h1)" by blast
  have "walkable toy demo_fs ''/s'' ''a''"
    by (simp add: walkable_def toy_def demo_fs_def toy_names_def)
  from reaches.here [OF this] have r: "reaches toy demo_fs ''/s'' 1 (''/s'' @ slashed [''a''])"
    by (simp add: walk_child_def)
  have "fh_to_path toy demo_fs fh demo_new = Some (Some (''/s'' @ slashed [''a'']), rebuild toy demo_fs demo_new)"
    by (rule fh_survives_restart [OF demo_tab_wf(1,2) _ _ _ demo_new_def r])
      (use i demo_unique in \<open>auto simp: root_ok_def list_all_iff\<close>)
  with i show ?thesis by auto
qed

end
