(* ===== verification/Spec2Isabelle.thy ===== *)
theory Spec2Isabelle
  imports Clientprops Wiretype Net Gcdslog W32job Serdos Serial Nfsfile Restart
begin

text \<open>
  Verification of GrandCrossDevServer.

  \<^bold>\<open>The program.\<close>  A Linux host commands build machines of many systems.  On each of them runs the daemon
  \<^verbatim>\<open>gcdsd\<close> (\<^verbatim>\<open>daemon/\<close>), which accepts one session at a time over TCP or a serial line, authenticates it by a
  token and executes commands; the client \<^verbatim>\<open>gcds\<close> (\<^verbatim>\<open>client/\<close>) mirrors the remote command's output and exit
  code; both share \<^verbatim>\<open>common/\<close>.  The machines see the sources of the host through the NFSv2 server
  \<^verbatim>\<open>gnfsd\<close> (\<^verbatim>\<open>nfsd/\<close>), and \<^verbatim>\<open>gcdslog\<close> (\<^verbatim>\<open>tools/\<close>) records their serial consoles.

  \<^bold>\<open>Conventions.\<close>  Every operation of a C file is a definition with the name of the function; a loop of a
  function with its own state is a definition of its own.  C strings are lists of characters without NUL,
  a buffer of a given size is the size argument that truncates.  Integers are \<open>int\<close> with the conversions of
  the code written out; the NFS side, the allow list and the network addresses use words of their width.  The build
  (\<open>build\<close>, theory \<open>Gcdsp\<close>) is a record of the preprocessor symbols.  Errors are values: \<open>None\<close>, a status, a return
  code.  What the operating system decides is an argument or a schedule: devices with short reads and
  writes and errors (\<open>dev\<close>), \<open>os\<close> and \<open>world\<close> for files, directories, environment and processes, \<open>tick\<close> for what
  each \<^verbatim>\<open>select\<close> reports, \<open>attempt\<close> and \<open>ixtick\<close> on the client, \<open>fsops\<close> for the exported file system, \<open>sockapi\<close> for
  sockets and the resolver, \<open>dosirq\<close> for the interrupts of MS-DOS, \<open>jobops\<close> for the job objects of Win32, \<open>tty\<close>, \<open>sgport\<close>
  and \<open>comport\<close> for serial ports, \<open>lport\<close> for a console.  A statement for all of them is a statement for every
  behaviour of the system.  Loops that consume input are total functions, with a termination proof on the
  length of the input left; loops that wait for the system run over a list of its answers and return \<open>None\<close>
  at its end, and the theorems that say that they return assume a schedule long enough; the two loops that
  can run forever, the search of a file handle and the polling of a serial port on MS-DOS, are partial functions.

  \<^bold>\<open>Common layer.\<close>
  \<^item> \<open>Prelude\<close>: C strings, decimal numbers, \<^verbatim>\<open>atol\<close>, cutting at a character.
  \<^item> \<open>Gcdsp\<close>: \<^verbatim>\<open>include/gcdsp.h\<close>, \<^verbatim>\<open>common/util.c\<close>; truncation is detected exactly.
  \<^item> \<open>Chan\<close>: \<^verbatim>\<open>common/chan.c\<close>.  The locale \<open>byte_channel\<close> is what the upper layers use: reading \<open>n\<close> bytes gives the
    next \<open>n\<close> whatever the segmentation, writing sends everything or a prefix.
  \<^item> \<open>Lineio\<close>: \<^verbatim>\<open>common/lineio.c\<close>, lines and frames, against the reference \<open>line_ref\<close>.
  \<^item> \<open>Net\<close>: \<^verbatim>\<open>common/net.c\<close>, \<^verbatim>\<open>common/net_null.c\<close>; no descriptor is left open after a failure; host names are not
    resolved where \<^verbatim>\<open>long\<close> has 64 bits.
  \<^item> \<open>Termios\<close>, \<open>Serial\<close>: \<^verbatim>\<open>common/ser_psx.c\<close>, \<^verbatim>\<open>ser_next.c\<close>, \<^verbatim>\<open>ser_w32.c\<close>, \<^verbatim>\<open>ser_null.c\<close>: what the terminal driver makes of each
    byte under the settings of an opened port.  The locale \<open>serial_backend\<close> is the transparent 8-bit line the
    protocol needs; the three backends interpret it.
  \<^item> \<open>Serdos\<close>: \<^verbatim>\<open>common/ser_dos.c\<close>: polling interrupt 14h implements the device of \<open>Chan\<close>.
  \<^item> \<open>Acl\<close>: \<^verbatim>\<open>common/acl.c\<close>, equal to the meaning of CIDR prefixes.
  \<^item> \<open>Conf\<close>: \<^verbatim>\<open>common/conf.c\<close>, a round trip with a printer of configuration files.
  \<^item> \<open>Textcv\<close>, \<open>Textstream\<close>, \<open>Textw32\<close>: \<^verbatim>\<open>common/textcv.c\<close>.  The locale \<open>text_stream\<close> is what streaming needs of a conversion;
    the inactive conversion and the macOS one interpret it, and \<open>Textw32\<close> proves it of the Win32 one for a
    double-byte code page.

  \<^bold>\<open>Daemon.\<close>
  \<^item> \<open>World\<close>: what the daemon sees of its system.
  \<^item> \<open>Exec\<close>: \<^verbatim>\<open>daemon/exec_psx.c\<close>, \<^verbatim>\<open>exec_w32.c\<close>, \<^verbatim>\<open>exec_dos.c\<close>: the shell reads back exactly the variables, the
    command and the redirections.
  \<^item> \<open>Live\<close>, \<open>Liveprops\<close>: \<^verbatim>\<open>daemon/live.c\<close>, the supervisor: what is streamed, that it returns, how it signals.
  \<^item> \<open>W32exec\<close>, \<open>W32live\<close>, \<open>W32job\<close>: \<^verbatim>\<open>daemon/live_w32.c\<close>, reusing the stream lemmas of the locale; killing a command ends
    all its descendants.
  \<^item> \<open>Supervise\<close>, \<open>Supprops\<close>: \<^verbatim>\<open>daemon/live.h\<close>.  The locales \<open>supervisor\<close> and \<open>streaming_supervisor\<close> are what the session relies
    on; both implementations and the one a build links (\<open>sess_exec\<close>) interpret them, so what follows for
    sessions and clients holds on both systems.
  \<^item> \<open>Sesscore\<close>, \<open>Session\<close>, \<open>Envtable\<close>, \<open>Sessprops\<close>: \<^verbatim>\<open>daemon/session.c\<close>: the dispatcher with every command, the
    invariant of its state over the step relation \<open>sess_step\<close>, that nothing happens before authentication, and
    that the variable table implements a finite map.
  \<^item> \<open>Wiretype\<close>: the language a session speaks: every command and both supervisors write only messages of the
    protocol, and the messages are read back uniquely.
  \<^item> \<open>Daemon\<close>, \<open>Jobs\<close>: \<^verbatim>\<open>daemon/main.c\<close>: histories of connections, deferred jobs, serial resynchronisation.

  \<^bold>\<open>Client.\<close>
  \<^item> \<open>Pathmap\<close>, \<open>Remote\<close>, \<open>Xfer\<close>, \<open>Client\<close>: \<^verbatim>\<open>client/pathmap.c\<close>, \<^verbatim>\<open>remote.c\<close>, \<^verbatim>\<open>xfer.c\<close>, and \<^verbatim>\<open>toolias.c\<close>, \<^verbatim>\<open>asyncjob.c\<close>,
    \<^verbatim>\<open>ixmode.c\<close>, \<^verbatim>\<open>main.c\<close>.
  \<^item> \<open>Filexfer\<close>: uploads and downloads between client and session: the data are never converted.
  \<^item> \<open>Clientprops\<close>: the two programs together, for every text conversion of the daemon: \<^verbatim>\<open>gcds host command\<close> prints
    what the command wrote and exits with its code, also when the daemon defers the job and the client collects
    its result on a later connection; what a line feed in the command does.

  \<^bold>\<open>NFS server.\<close>
  \<^item> \<open>Xdr\<close>: \<^verbatim>\<open>nfsd/xdr.c\<close>, a codec (locale \<open>xdr_codec\<close>) that never leaves its buffer.
  \<^item> \<open>Fsys\<close>, \<open>Toyfs\<close>: the file system the procedures call, and an executable one for the examples.
  \<^item> \<open>Handle\<close>, \<open>Restart\<close>: \<^verbatim>\<open>nfsd/handle.c\<close> (locale \<open>handle_layer\<close>): handles are stable and survive a restart.
  \<^item> \<open>Rpc\<close>, \<open>Drc\<close>, \<open>Rpcprops\<close>: \<^verbatim>\<open>nfsd/rpc.c\<close> with its reply cache (locale \<open>reply_cache\<close>): a retransmission is
    answered from the cache and changes nothing.
  \<^item> \<open>Nfs\<close>, \<open>Nfsprops\<close>, \<open>Readdir\<close>, \<open>Nfsfile\<close>: \<^verbatim>\<open>nfsd/nfs.c\<close>: every procedure; listing a directory page by page meets
    every entry once; a file one client creates and writes is found and read by another.
  \<^item> \<open>Gnfsd\<close>: \<^verbatim>\<open>nfsd/main.c\<close>: the start with its change of user, and that no request reaches a path outside the export.

  \<^bold>\<open>Logger.\<close>  \<open>Gcdslog\<close>: \<^verbatim>\<open>tools/gcdslog.c\<close>: nothing of a console is lost, apart from what follows a NUL in a line.

  \<^bold>\<open>Not modelled.\<close>  \<^verbatim>\<open>common/gnext.h\<close> has declarations only.  Diagnostics on standard error, sleeping, signal
  handlers other than the interrupt of the interactive client, parity and framing errors of serial lines,
  and the bookkeeping of the handles of Win32 are left out.
\<close>

end
